(* ===== verification/Prelude.thy ===== *)
theory Prelude
  imports Main "HOL-Library.AList" "HOL-Library.Sublist"
begin

text \<open>
  Shared material of the development: the named collections the component proofs draw on,
  laws of the insertion-ordered containers the TypeScript code uses (a JavaScript
  \<^verbatim>\<open>Map\<close> is an association list updated in place by \<^const>\<open>AList.update\<close>, a
  JavaScript \<^verbatim>\<open>Set\<close> is a duplicate-free list), and the generic stream stage: an RxJS
  operator such as \<^verbatim>\<open>mergeMap\<close> over a closure is a step function on an explicit state,
  and \<open>run_stage\<close> runs it over a list of events, stopping at the first error and keeping
  what was emitted before it.
\<close>

named_theorems js_simps "laws of JavaScript objects, maps and sets"
named_theorems handler_defs "the definitions of event handlers"

subsection \<open>JavaScript sets as duplicate-free lists\<close>

definition set_add :: "'a \<Rightarrow> 'a list \<Rightarrow> 'a list" where
  "set_add x xs = (if x \<in> set xs then xs else xs @ [x])"

definition set_del :: "'a \<Rightarrow> 'a list \<Rightarrow> 'a list" where
  "set_del x xs = filter (\<lambda>y. y \<noteq> x) xs"

subsection \<open>Stream stages\<close>

fun run_stage :: "('s \<Rightarrow> 'e \<Rightarrow> 'err + 's \<times> 'o list) \<Rightarrow> 's \<Rightarrow> 'e list \<Rightarrow> 'o list \<times> ('err + 's)" where
  "run_stage f s [] = ([], Inr s)"
| "run_stage f s (e # es) =
     (case f s e of
        Inl x \<Rightarrow> ([], Inl x)
      | Inr (s', os) \<Rightarrow> (let (os', r) = run_stage f s' es in (os @ os', r)))"

text \<open>The state a stage is in when its run ends: after the last event, or before the one that fails.\<close>

fun reached :: "('s \<Rightarrow> 'e \<Rightarrow> 'err + 's \<times> 'o list) \<Rightarrow> 's \<Rightarrow> 'e list \<Rightarrow> 's" where
  "reached f s [] = s"
| "reached f s (e # es) = (case f s e of Inl x \<Rightarrow> s | Inr (s', os) \<Rightarrow> reached f s' es)"

text \<open>The events a stage accepted: the run ended without an error.\<close>

definition accepts :: "('s \<Rightarrow> 'e \<Rightarrow> 'err + 's \<times> 'o list) \<Rightarrow> 's \<Rightarrow> 'e list \<Rightarrow> bool" where
  "accepts f s es = (case snd (run_stage f s es) of Inl _ \<Rightarrow> False | Inr _ \<Rightarrow> True)"

text \<open>Sequencing of fallible steps, and a fallible function on every element in order.\<close>

definition andThen :: "'e + 'a \<Rightarrow> ('a \<Rightarrow> 'e + 'b) \<Rightarrow> 'e + 'b" where
  "andThen r f = (case r of Inl e \<Rightarrow> Inl e | Inr x \<Rightarrow> f x)"

fun collect :: "('a \<Rightarrow> 'e + 'b) \<Rightarrow> 'a list \<Rightarrow> 'e + 'b list" where
  "collect f [] = Inr []"
| "collect f (x # xs) = andThen (f x) (\<lambda>y. andThen (collect f xs) (\<lambda>ys. Inr (y # ys)))"

text \<open>Checks run one after the other: the first error wins.\<close>

fun first_error :: "'err option list \<Rightarrow> 'err option" where
  "first_error [] = None"
| "first_error (None # cs) = first_error cs"
| "first_error (Some e # cs) = Some e"

subsection \<open>Laws\<close>

lemma set_set_add [simp]: "set (set_add x xs) = insert x (set xs)"
  by (auto simp: set_add_def)

lemma set_set_del [simp]: "set (set_del x xs) = set xs - {x}"
  by (auto simp: set_del_def)

lemma set_del_Nil [simp]: "set_del x [] = []"
  by (simp add: set_del_def)

lemma distinct_set_add [simp]: "distinct xs \<Longrightarrow> distinct (set_add x xs)"
  by (simp add: set_add_def)

lemma distinct_set_del [simp]: "distinct xs \<Longrightarrow> distinct (set_del x xs)"
  by (simp add: set_del_def)

lemma andThen_Inr: "andThen r f = Inr y \<longleftrightarrow> (\<exists>x. r = Inr x \<and> f x = Inr y)"
  by (cases r) (auto simp: andThen_def)

lemma andThen_simps [simp]: "andThen (Inr x) f = f x" "andThen (Inl e) f = Inl e"
  by (simp_all add: andThen_def)

lemma collect_Inr: "collect f xs = Inr ys \<Longrightarrow> x \<in> set xs \<Longrightarrow> \<exists>y \<in> set ys. f x = Inr y"
  by (induction xs arbitrary: ys) (auto simp: andThen_Inr)

lemma collect_list_all2: "collect f xs = Inr ys \<longleftrightarrow> list_all2 (\<lambda>x y. f x = Inr y) xs ys"
  by (induction xs arbitrary: ys) (auto simp: andThen_Inr list_all2_Cons1)

lemma first_error_None: "first_error cs = None \<longleftrightarrow> set cs \<subseteq> {None}"
  by (induction cs rule: first_error.induct) auto

lemma map_of_update [js_simps]:
  "map_of (AList.update k v m) k' = (if k' = k then Some v else map_of m k')"
  by (simp add: update_conv')

lemma map_of_delete [js_simps]:
  "map_of (AList.delete k m) k' = (if k' = k then None else map_of m k')"
  by (simp add: delete_conv')

lemma find_SomeD: "find P xs = Some x \<Longrightarrow> x \<in> set xs \<and> P x"
  by (induction xs) (auto split: if_splits)

lemma reached_Inr: "run_stage f s es = (os, Inr t) \<Longrightarrow> reached f s es = t"
  by (induction es arbitrary: s os) (auto split: sum.splits prod.splits)

lemma run_stage_append:
  "run_stage f s (es @ es') =
     (case run_stage f s es of
        (os, Inl x) \<Rightarrow> (os, Inl x)
      | (os, Inr s') \<Rightarrow> (let (os', r) = run_stage f s' es' in (os @ os', r)))"
  by (induction es arbitrary: s)
    (auto split: sum.splits prod.splits simp: Let_def)

lemma run_stage_Cons_Inr:
  assumes "run_stage f s (e # es) = (os, Inr t)"
  obtains s' os1 os2 where "f s e = Inr (s', os1)" "run_stage f s' es = (os2, Inr t)" "os = os1 @ os2"
  using assms by (auto split: sum.splits prod.splits simp: Let_def)

lemma accepts_append: "accepts f s (es @ es') \<Longrightarrow> accepts f s es"
  by (auto simp: accepts_def run_stage_append split: sum.splits prod.splits)

lemma accepts_iff: "accepts f s es \<longleftrightarrow> (\<exists>os t. run_stage f s es = (os, Inr t))"
  by (auto simp: accepts_def split: sum.splits) (metis prod.collapse)

subsection \<open>What a stage promises\<close>

text \<open>
  The contract every operator of the pipeline is proved against: a step keeps the state
  invariant, and emits only events of the promised form. The run-level facts follow once,
  by induction on the stream.
\<close>

locale stage_contract =
  fixes step :: "'s \<Rightarrow> 'e \<Rightarrow> 'err + 's \<times> 'o list"
    and inv :: "'s \<Rightarrow> bool"
    and good_out :: "'o \<Rightarrow> bool"
  assumes step_inv: "inv s \<Longrightarrow> step s e = Inr (s', os) \<Longrightarrow> inv s'"
    and step_out: "inv s \<Longrightarrow> step s e = Inr (s', os) \<Longrightarrow> list_all good_out os"
begin

lemma run_inv: "inv s \<Longrightarrow> run_stage step s es = (os, Inr t) \<Longrightarrow> inv t"
proof (induction es arbitrary: s os)
  case (Cons e es)
  from Cons.prems(2) obtain s' os1 os2 where
    "step s e = Inr (s', os1)" "run_stage step s' es = (os2, Inr t)"
    by (rule run_stage_Cons_Inr)
  with Cons.IH Cons.prems(1) show ?case by (blast intro: step_inv)
qed simp

lemma run_out: "inv s \<Longrightarrow> list_all good_out (fst (run_stage step s es))"
proof (induction es arbitrary: s)
  case (Cons e es)
  show ?case
  proof (cases "step s e")
    case (Inr r)
    obtain s' os where r: "r = (s', os)" by (cases r)
    with Inr Cons.prems have "inv s'" "list_all good_out os"
      by (auto intro: step_inv dest: step_out)
    with Cons.IH [of s'] Inr r show ?thesis
      by (auto split: prod.splits simp: Let_def)
  qed simp
qed simp

end

end
