(* ===== verification/Bracket.thy ===== *)
theory Bracket
  imports Prelude
begin

text \<open>
  The abstract contract of a streamed entity, independent of any component: seen through one
  identifier, a stream is a word over opening, continuing and closing symbols (and a
  reset, where a new run discards what was open), and the entity is either open or not.
  \<open>bracketed\<close> is the interface a verifying stage offers for one kind of entity; its client
  lemmas relate every accepted stream to the abstract automaton.
\<close>

datatype bracket_sym = BOpen | BPart | BClose | BReset | BOther

fun bracket_step :: "bool \<Rightarrow> bracket_sym \<Rightarrow> bool option" where
  "bracket_step opened BOpen = (if opened then None else Some True)"
| "bracket_step opened BPart = (if opened then Some True else None)"
| "bracket_step opened BClose = (if opened then Some False else None)"
| "bracket_step opened BReset = Some False"
| "bracket_step opened BOther = Some opened"

fun bracket_run :: "bool \<Rightarrow> bracket_sym list \<Rightarrow> bool option" where
  "bracket_run opened [] = Some opened"
| "bracket_run opened (x # xs) =
     (case bracket_step opened x of None \<Rightarrow> None | Some opened' \<Rightarrow> bracket_run opened' xs)"

lemma bracket_run_append:
  "bracket_run b (xs @ ys) =
     (case bracket_run b xs of None \<Rightarrow> None | Some b' \<Rightarrow> bracket_run b' ys)"
  by (induction xs arbitrary: b) (auto split: option.splits)

text \<open>Without a reset, openings and closings balance.\<close>

lemma bracket_run_counts:
  assumes "bracket_run b xs = Some b'" "BReset \<notin> set xs"
  shows "count_list xs BOpen + of_bool b = count_list xs BClose + of_bool b'"
  using assms
proof (induction xs arbitrary: b)
  case (Cons x xs)
  then show ?case by (cases x) (force split: if_splits)+
qed simp

text \<open>A continuation inside an accepted word has an opening before it with no close between.\<close>

lemma bracket_part_has_open:
  assumes "bracket_run False xs = Some True"
  obtains ys zs where "xs = ys @ BOpen # zs" "BClose \<notin> set zs" "BReset \<notin> set zs" "BOpen \<notin> set zs"
  using assms
proof (induction xs arbitrary: thesis rule: rev_induct)
  case (snoc x xs)
  from snoc.prems(2) obtain b where b: "bracket_run False xs = Some b" "bracket_step b x = Some True"
    by (auto simp: bracket_run_append split: option.splits)
  show ?case
  proof (cases "x = BOpen")
    case True
    show ?thesis by (rule snoc.prems(1) [of xs "[]"]) (simp_all add: True)
  next
    case False
    with b(2) have "b = True" "x = BPart \<or> x = BOther" by (cases x; auto split: if_splits)+
    then obtain ys zs where "xs = ys @ BOpen # zs" "BClose \<notin> set zs" "BReset \<notin> set zs" "BOpen \<notin> set zs"
      using snoc.IH b(1) by blast
    then show ?thesis
      using snoc.prems(1) [of ys "zs @ [x]"] \<open>x = BPart \<or> x = BOther\<close> by auto
  qed
qed simp

locale bracketed =
  fixes step :: "'s \<Rightarrow> 'e \<Rightarrow> 'err + 's \<times> 'o list"
    and inv :: "'s \<Rightarrow> bool"
    and opened :: "'s \<Rightarrow> 'id \<Rightarrow> bool"
    and sym :: "'id \<Rightarrow> 'e \<Rightarrow> bracket_sym"
  assumes bracket_inv: "inv s \<Longrightarrow> step s e = Inr (s', os) \<Longrightarrow> inv s'"
    and bracket_law: "inv s \<Longrightarrow> step s e = Inr (s', os) \<Longrightarrow>
          bracket_step (opened s i) (sym i e) = Some (opened s' i)"
begin

lemma accepted_word:
  "inv s \<Longrightarrow> run_stage step s es = (os, Inr t) \<Longrightarrow>
     bracket_run (opened s i) (map (sym i) es) = Some (opened t i)"
proof (induction es arbitrary: s os)
  case (Cons e es)
  from Cons.prems(2) obtain s' os1 os2 where
    step: "step s e = Inr (s', os1)" and rest: "run_stage step s' es = (os2, Inr t)"
    by (rule run_stage_Cons_Inr)
  from Cons.prems(1) step have "inv s'" by (rule bracket_inv)
  with Cons.IH rest have "bracket_run (opened s' i) (map (sym i) es) = Some (opened t i)"
    by blast
  with bracket_law [OF Cons.prems(1) step] show ?case by simp
qed simp

end

end
