(* ===== verification/JsValue.thy ===== *)
theory JsValue
  imports Prelude
begin

text \<open>
  JavaScript values as the client code sees them. An object is the insertion-ordered list of
  its own enumerable properties; a property that is present but holds \<^verbatim>\<open>undefined\<close> is an
  entry with value \<open>JUndef\<close>, distinct from an absent one. Numbers are integers: the modelled
  code stores and compares them but computes no fractions. Inherited properties are not
  modelled; the code reads only field names that \<^verbatim>\<open>Object.prototype\<close> does not have.
  Objects are values, so two references to one object are two equal values.
\<close>

datatype jsval =
    JUndef
  | JNull
  | JBool bool
  | JNum int
  | JStr string
  | JArr "jsval list"
  | JObj "(string \<times> jsval) list"

type_synonym jsobj = "(string \<times> jsval) list"

subsection \<open>Objects\<close>

definition oget :: "jsobj \<Rightarrow> string \<Rightarrow> jsval" where
  "oget m k = (case map_of m k of None \<Rightarrow> JUndef | Some v \<Rightarrow> v)"

definition has_own :: "jsobj \<Rightarrow> string \<Rightarrow> bool" where
  "has_own m k = (map_of m k \<noteq> None)"

definition oset :: "string \<Rightarrow> jsval \<Rightarrow> jsobj \<Rightarrow> jsobj" where
  "oset k v m = AList.update k v m"

definition odel :: "string \<Rightarrow> jsobj \<Rightarrow> jsobj" where
  "odel k m = AList.delete k m"

text \<open>The object literal \<^verbatim>\<open>{ ...a, ...b }\<close>: the properties of \<open>b\<close> are written over those of \<open>a\<close>.\<close>

fun spread :: "jsobj \<Rightarrow> jsobj \<Rightarrow> jsobj" where
  "spread a [] = a"
| "spread a ((k, v) # b) = spread (oset k v a) b"

text \<open>The conditional property \<^verbatim>\<open>...(v !== undefined && { k: v })\<close> of an object literal.\<close>

definition opt_prop :: "string \<Rightarrow> jsval \<Rightarrow> jsobj" where
  "opt_prop k v = (if v = JUndef then [] else [(k, v)])"

subsection \<open>Values\<close>

text \<open>Property access on any value; \<^verbatim>\<open>null\<close> and \<^verbatim>\<open>undefined\<close> read as \<open>JUndef\<close>, as under \<^verbatim>\<open>?.\<close>.\<close>

definition jget :: "jsval \<Rightarrow> string \<Rightarrow> jsval" where
  "jget v k = (case v of JObj m \<Rightarrow> oget m k | _ \<Rightarrow> JUndef)"

definition nullish :: "jsval \<Rightarrow> bool" where
  "nullish v = (v = JUndef \<or> v = JNull)"

text \<open>\<^verbatim>\<open>v ?? undefined\<close>\<close>

definition or_undef :: "jsval \<Rightarrow> jsval" where
  "or_undef v = (if nullish v then JUndef else v)"

fun truthy :: "jsval \<Rightarrow> bool" where
  "truthy JUndef = False"
| "truthy JNull = False"
| "truthy (JBool b) = b"
| "truthy (JNum n) = (n \<noteq> 0)"
| "truthy (JStr s) = (s \<noteq> [])"
| "truthy (JArr _) = True"
| "truthy (JObj _) = True"

fun is_str :: "jsval \<Rightarrow> bool" where
  "is_str (JStr _) = True"
| "is_str _ = False"

fun is_arr :: "jsval \<Rightarrow> bool" where
  "is_arr (JArr _) = True"
| "is_arr _ = False"

text \<open>\<^verbatim>\<open>typeof v === "object" && v !== null\<close>\<close>

fun is_object :: "jsval \<Rightarrow> bool" where
  "is_object (JArr _) = True"
| "is_object (JObj _) = True"
| "is_object _ = False"

fun arr_items :: "jsval \<Rightarrow> jsval list" where
  "arr_items (JArr vs) = vs"
| "arr_items _ = []"

subsection \<open>String conversion\<close>

fun nat_str :: "nat \<Rightarrow> string" where
  "nat_str n = (if n < 10 then [char_of (48 + n)] else nat_str (n div 10) @ [char_of (48 + n mod 10)])"

definition int_str :: "int \<Rightarrow> string" where
  "int_str i = (if i < 0 then ''-'' @ nat_str (nat (- i)) else nat_str (nat i))"

fun join :: "string \<Rightarrow> string list \<Rightarrow> string" where
  "join sep [] = []"
| "join sep [s] = s"
| "join sep (s # t # ss) = s @ sep @ join sep (t # ss)"

text \<open>\<^verbatim>\<open>String(v)\<close>, which template literals apply to the values they embed.\<close>

fun js_string :: "jsval \<Rightarrow> string" where
  "js_string JUndef = ''undefined''"
| "js_string JNull = ''null''"
| "js_string (JBool b) = (if b then ''true'' else ''false'')"
| "js_string (JNum n) = int_str n"
| "js_string (JStr s) = s"
| "js_string (JArr vs) = join '','' (map (\<lambda>v. if nullish v then [] else js_string v) vs)"
| "js_string (JObj _) = ''[object Object]''"

declare nat_str.simps [simp del]

subsection \<open>Laws\<close>

lemma oget_Nil [simp]: "oget [] k = JUndef"
  by (simp add: oget_def)

lemma oget_Cons [simp]: "oget ((k', v) # m) k = (if k = k' then v else oget m k)"
  by (simp add: oget_def)

lemma oget_oset [simp]: "oget (oset k v m) k' = (if k' = k then v else oget m k')"
  by (simp add: oget_def oset_def js_simps)

lemma oget_odel [simp]: "oget (odel k m) k' = (if k' = k then JUndef else oget m k')"
  by (simp add: oget_def odel_def js_simps)

lemma has_own_oset [simp]: "has_own (oset k v m) k' \<longleftrightarrow> k' = k \<or> has_own m k'"
  by (simp add: has_own_def oset_def js_simps)

lemma has_own_odel [simp]: "has_own (odel k m) k' \<longleftrightarrow> k' \<noteq> k \<and> has_own m k'"
  by (simp add: has_own_def odel_def js_simps)

lemma has_own_iff: "has_own m k \<longleftrightarrow> k \<in> fst ` set m"
  by (auto simp: has_own_def map_of_eq_None_iff)

lemma oget_not_own: "\<not> has_own m k \<Longrightarrow> oget m k = JUndef"
  by (simp add: has_own_def oget_def)

lemma map_of_spread: "map_of (spread a b) k = (case map_of (rev b) k of None \<Rightarrow> map_of a k | Some v \<Rightarrow> Some v)"
  by (induction a b rule: spread.induct)
    (auto simp: oset_def js_simps map_add_def split: option.splits)

text \<open>For an object \<open>b\<close> (its keys are distinct) the last write is the only one.\<close>

lemma map_of_rev_distinct: "distinct (map fst b) \<Longrightarrow> map_of (rev b) = map_of b"
  by (intro map_of_inject_set [THEN iffD2]) (auto simp: rev_map [symmetric])

lemma map_of_rev_None: "map_of (rev b) k = None \<longleftrightarrow> \<not> has_own b k"
  by (simp add: has_own_def map_of_eq_None_iff)

lemma oget_spread:
  "oget (spread a b) k = (if has_own b k then oget (rev b) k else oget a k)"
  using map_of_rev_None [of b k] by (cases "map_of (rev b) k") (auto simp: oget_def map_of_spread)

lemma has_own_spread [simp]: "has_own (spread a b) k \<longleftrightarrow> has_own a k \<or> has_own b k"
  using map_of_rev_None [of b k]
  by (cases "map_of (rev b) k") (auto simp: has_own_def [of "spread a b"] has_own_def [of a] map_of_spread)

lemma oget_spread_distinct:
  "distinct (map fst b) \<Longrightarrow> oget (spread a b) k = (if has_own b k then oget b k else oget a k)"
  using oget_spread [of a b k] map_of_rev_distinct [of b] by (simp add: oget_def)

lemma distinct_oset: "distinct (map fst m) \<Longrightarrow> distinct (map fst (oset k v m))"
  by (simp add: oset_def distinct_update)

lemma oget_append [simp]: "oget (a @ b) k = (if has_own a k then oget a k else oget b k)"
  by (auto simp: oget_def has_own_def map_add_def split: option.splits)

lemma has_own_Nil [simp]: "\<not> has_own [] k"
  by (simp add: has_own_def)

lemma has_own_Cons [simp]: "has_own ((k', v) # m) k \<longleftrightarrow> k = k' \<or> has_own m k"
  by (simp add: has_own_def)

lemma has_own_append [simp]: "has_own (a @ b) k \<longleftrightarrow> has_own a k \<or> has_own b k"
  by (auto simp: has_own_iff)

lemma oget_opt_prop [simp]: "oget (opt_prop k v) k' = (if k' = k then v else JUndef)"
  by (simp add: opt_prop_def)

lemma has_own_opt_prop [simp]: "has_own (opt_prop k v) k' \<longleftrightarrow> k' = k \<and> v \<noteq> JUndef"
  by (simp add: opt_prop_def)

lemma rev_opt_prop [simp]: "rev (opt_prop k v) = opt_prop k v"
  by (simp add: opt_prop_def)

lemma oset_oget: "has_own m k \<Longrightarrow> oset k (oget m k) m = m"
  by (induction m) (auto simp: oset_def has_own_def)

lemma jget_JObj [simp]: "jget (JObj m) k = oget m k"
  by (simp add: jget_def)

lemma jget_other [simp]:
  "jget JUndef k = JUndef" "jget JNull k = JUndef" "jget (JBool b) k = JUndef"
  "jget (JNum n) k = JUndef" "jget (JStr s) k = JUndef" "jget (JArr vs) k = JUndef"
  by (simp_all add: jget_def)

lemma or_undef_simps [simp]:
  "or_undef JUndef = JUndef" "or_undef JNull = JUndef" "or_undef (JStr s) = JStr s"
  by (simp_all add: or_undef_def nullish_def)

lemma nullish_simps [simp]:
  "nullish JUndef" "nullish JNull" "\<not> nullish (JStr s)" "\<not> nullish (JObj m)" "\<not> nullish (JArr vs)"
  by (simp_all add: nullish_def)

end
