(* ===== verification/Events.thy ===== *)
theory Events
  imports JsValue
begin

text \<open>
  Events. \<open>event_type\<close> is the generated \<^verbatim>\<open>enum EventType\<close>; \<open>OtherType\<close> stands for a type
  string outside it (a retired \<^verbatim>\<open>THINKING_*\<close> event, a future event). A \<open>BaseEvent\<close> is a loose object:
  its \<^verbatim>\<open>type\<close> member and every other property.
\<close>

datatype event_type =
    TEXT_MESSAGE_START | TEXT_MESSAGE_CONTENT | TEXT_MESSAGE_END | TEXT_MESSAGE_CHUNK
  | TOOL_CALL_START | TOOL_CALL_ARGS | TOOL_CALL_END | TOOL_CALL_CHUNK | TOOL_CALL_RESULT
  | STATE_SNAPSHOT | STATE_DELTA | MESSAGES_SNAPSHOT | ACTIVITY_SNAPSHOT | ACTIVITY_DELTA
  | RAW | CUSTOM | RUN_STARTED | RUN_FINISHED | RUN_ERROR | STEP_STARTED | STEP_FINISHED
  | REASONING_START | REASONING_MESSAGE_START | REASONING_MESSAGE_CONTENT
  | REASONING_MESSAGE_END | REASONING_MESSAGE_CHUNK | REASONING_END
  | REASONING_ENCRYPTED_VALUE | SUBAGENT_STARTED | SUBAGENT_FINISHED | SUBAGENT_ERROR
  | OtherType string

record event =
  ev_type :: event_type
  ev_props :: jsobj

definition field :: "event \<Rightarrow> string \<Rightarrow> jsval" where
  "field ev k = oget (ev_props ev) k"

definition mk_event :: "event_type \<Rightarrow> jsobj \<Rightarrow> event" where
  "mk_event t ps = \<lparr>ev_type = t, ev_props = ps\<rparr>"

abbreviation tag_of :: "event \<Rightarrow> jsval" where
  "tag_of ev \<equiv> field ev ''subagentRunId''"

definition is_chunk_type :: "event_type \<Rightarrow> bool" where
  "is_chunk_type t \<longleftrightarrow> t = TEXT_MESSAGE_CHUNK \<or> t = TOOL_CALL_CHUNK \<or> t = REASONING_MESSAGE_CHUNK"

lemma mk_event_simps [simp]: "ev_type (mk_event t ps) = t" "ev_props (mk_event t ps) = ps"
  by (simp_all add: mk_event_def)

lemma field_mk_event [simp]: "field (mk_event t ps) k = oget ps k"
  by (simp add: field_def)

lemma field_record [simp]: "field \<lparr>ev_type = t, ev_props = ps\<rparr> k = oget ps k"
  by (simp add: field_def)

lemma field_upd_props [simp]: "field (ev\<lparr>ev_props := ps\<rparr>) k = oget ps k"
  by (simp add: field_def)

lemma event_eqI: "ev_type a = ev_type b \<Longrightarrow> ev_props a = ev_props b \<Longrightarrow> a = (b :: event)"
  by (cases a, cases b) simp

end
