(* ===== verification/Verify.thy ===== *)
theory Verify
  imports Bracket Events
begin

text \<open>
  The protocol verifier, \<^verbatim>\<open>verifyEvents\<close> of \<^verbatim>\<open>client/src/verify/verify.ts\<close>. The closure variables
  of the operator are the record \<open>vstate\<close>; each \<^verbatim>\<open>case\<close> of the switch is one handler
  \<open>on_\<dots>\<close> from a state and an event to an error or the next state; \<open>verify_step\<close> is the whole
  callback of \<^verbatim>\<open>mergeMap\<close>, with its guards in the order of the code. Every
  \<^verbatim>\<open>throwError\<close> is a constructor of \<open>verify_error\<close> carrying what its message names.

  The lemmas show that the verifier enforces the bracket discipline of the four streamed
  entities, that attribution never changes hands silently, that the run life cycle is
  respected, and that the operator passes events through unchanged but for a
  \<^verbatim>\<open>subagentRunId: null\<close>, which it removes.
\<close>

subsection \<open>State\<close>

text \<open>An owner is the \<^verbatim>\<open>subagentRunId\<close> of an opener; \<open>JUndef\<close> is the parent agent.\<close>

record vstate =
  activeMessages :: "jsval list"
  activeToolCalls :: "jsval list"
  activeReasoningSpans :: "jsval list"
  activeReasoningMessages :: "jsval list"
  ownersMessage :: "(jsval \<times> jsval) list"
  ownersToolCall :: "(jsval \<times> jsval) list"
  ownersActivity :: "(jsval \<times> jsval) list"
  ownersReasoning :: "(jsval \<times> jsval) list"
  runFinished :: bool
  runError :: bool
  firstEventReceived :: bool
  activeSteps :: "(jsval \<times> jsval list) list"
  activeSubagents :: "jsval list"
  closedSubagents :: "jsval list"
  runStarted :: bool
  nullSubagentRunIdNoticed :: bool

datatype verify_error =
    RunAlreadyErrored event_type
  | RunAlreadyFinished event_type
  | FirstEventMustBeRunStarted
  | RunStillActive
  | LifecycleFieldNull event_type string
  | BadOutcomeType event_type jsval
  | OutcomeInterruptIdsNull event_type
  | OutcomeInterruptIdsNotStrings event_type
  | InterruptTagNull jsval
  | MessageTagNull jsval
  | NotIterable jsval
  | TagMismatch event_type jsval string jsval jsval
  | AlreadyInProgress event_type jsval
  | NotActive event_type jsval
  | ParentMessageOwnerMismatch jsval jsval jsval
  | ReopenedUnderOtherParent jsval jsval jsval jsval
  | StepAlreadyActive jsval jsval
  | StepOpenUnderOther jsval jsval jsval
  | StepNotStarted jsval
  | MissingSubagentRunId event_type
  | MissingName
  | MissingMessage
  | SubagentAlreadyActive jsval
  | SubagentAlreadyFinished jsval
  | ParentSubagentNotStarted jsval
  | NoActiveSubagent event_type jsval
  | StepsStillActive "(jsval \<times> jsval) list"
  | MessagesStillActive "jsval list"
  | ReasoningMessagesStillActive "jsval list"
  | ReasoningSpansStillActive "jsval list"
  | ToolCallsStillActive "jsval list"
  | SubagentsStillActive "jsval list"

definition init_vstate :: vstate where
  "init_vstate = \<lparr>activeMessages = [], activeToolCalls = [], activeReasoningSpans = [],
     activeReasoningMessages = [], ownersMessage = [], ownersToolCall = [],
     ownersActivity = [], ownersReasoning = [], runFinished = False, runError = False,
     firstEventReceived = False, activeSteps = [], activeSubagents = [],
     closedSubagents = [], runStarted = False, nullSubagentRunIdNoticed = False\<rparr>"

definition resetRunState :: "vstate \<Rightarrow> vstate" where
  "resetRunState st = st\<lparr>nullSubagentRunIdNoticed := False, activeMessages := [],
     activeToolCalls := [], activeReasoningSpans := [], activeReasoningMessages := [],
     ownersMessage := [], ownersToolCall := [], ownersActivity := [], ownersReasoning := [],
     activeSteps := [], activeSubagents := [], closedSubagents := [],
     runFinished := False, runError := False, runStarted := True\<rparr>"

subsection \<open>Steps, keyed by owner and name\<close>

text \<open>\<^verbatim>\<open>stepsFor\<close> creates the owner's map on its first use, also when it only asks.\<close>

definition touch_steps :: "jsval \<Rightarrow> vstate \<Rightarrow> vstate" where
  "touch_steps owner st =
     (if map_of (activeSteps st) owner = None
      then st\<lparr>activeSteps := activeSteps st @ [(owner, [])]\<rparr> else st)"

definition stepsFor :: "vstate \<Rightarrow> jsval \<Rightarrow> jsval list" where
  "stepsFor st owner = (case map_of (activeSteps st) owner of None \<Rightarrow> [] | Some ns \<Rightarrow> ns)"

definition set_steps :: "jsval \<Rightarrow> jsval list \<Rightarrow> vstate \<Rightarrow> vstate" where
  "set_steps owner names st = st\<lparr>activeSteps := AList.update owner names (activeSteps st)\<rparr>"

definition anyStepsActive :: "vstate \<Rightarrow> bool" where
  "anyStepsActive st = list_ex (\<lambda>(_, names). names \<noteq> []) (activeSteps st)"

definition unfinished_steps :: "vstate \<Rightarrow> (jsval \<times> jsval) list" where
  "unfinished_steps st =
     concat (map (\<lambda>(owner, names). map (\<lambda>name. (owner, name)) names) (activeSteps st))"

subsection \<open>Ownership\<close>

definition subagentTagError ::
  "event_type \<Rightarrow> jsval \<Rightarrow> jsval option \<Rightarrow> string \<Rightarrow> jsval \<Rightarrow> verify_error option" where
  "subagentTagError evType tag owner entityKind entityId =
     (if tag = JUndef then None
      else case owner of
        None \<Rightarrow> None
      | Some o' \<Rightarrow> (if o' \<noteq> tag then Some (TagMismatch evType tag entityKind entityId o') else None))"

definition seed_owner :: "bool \<Rightarrow> jsval \<Rightarrow> jsval \<Rightarrow> (jsval \<times> jsval) list \<Rightarrow> (jsval \<times> jsval) list" where
  "seed_owner authoritative i tag bucket =
     (if authoritative \<or> map_of bucket i = None then AList.update i tag bucket else bucket)"

fun seed_tool_calls :: "bool \<Rightarrow> jsval \<Rightarrow> jsval list \<Rightarrow> vstate \<Rightarrow> vstate" where
  "seed_tool_calls authoritative tag [] st = st"
| "seed_tool_calls authoritative tag (tc # tcs) st =
     seed_tool_calls authoritative tag tcs
       (if truthy tc \<and> is_str (jget tc ''id'')
        then st\<lparr>ownersToolCall := seed_owner authoritative (jget tc ''id'') (or_undef tag) (ownersToolCall st)\<rparr>
        else st)"

definition seed_message_owner :: "bool \<Rightarrow> jsval \<Rightarrow> vstate \<Rightarrow> vstate" where
  "seed_message_owner authoritative msg st =
     (let i = jget msg ''id''; tag = jget msg ''subagentRunId''; role = jget msg ''role'' in
      if role = JStr ''reasoning''
      then st\<lparr>ownersReasoning := seed_owner authoritative i tag (ownersReasoning st)\<rparr>
      else if role = JStr ''activity''
      then st\<lparr>ownersActivity := seed_owner authoritative i tag (ownersActivity st)\<rparr>
      else st\<lparr>ownersMessage := seed_owner authoritative i tag (ownersMessage st)\<rparr>)"

text \<open>
  The loop \<^verbatim>\<open>for (const tc of msg.toolCalls ?? [])\<close>: an array is walked, a string is walked
  character by character (no character has an id), and any other present value is not
  iterable.
\<close>

definition iterable_items :: "jsval \<Rightarrow> verify_error + jsval list" where
  "iterable_items v = (case v of
     JArr vs \<Rightarrow> Inr vs
   | JUndef \<Rightarrow> Inr []
   | JNull \<Rightarrow> Inr []
   | JStr s \<Rightarrow> Inr (map (\<lambda>c. JStr [c]) s)
   | _ \<Rightarrow> Inl (NotIterable v))"

fun seed_messages :: "bool \<Rightarrow> jsval list \<Rightarrow> vstate \<Rightarrow> verify_error + vstate" where
  "seed_messages authoritative [] st = Inr st"
| "seed_messages authoritative (msg # msgs) st =
     (if \<not> truthy msg \<or> \<not> is_str (jget msg ''id'') then seed_messages authoritative msgs st
      else if jget msg ''subagentRunId'' = JNull then Inl (MessageTagNull (jget msg ''id''))
      else case iterable_items (jget msg ''toolCalls'') of
        Inl e \<Rightarrow> Inl e
      | Inr tcs \<Rightarrow>
          seed_messages authoritative msgs
            (seed_tool_calls authoritative (jget msg ''subagentRunId'') tcs
              (seed_message_owner authoritative msg st)))"

definition seedOwnersFromMessages :: "jsval \<Rightarrow> bool \<Rightarrow> vstate \<Rightarrow> verify_error + vstate" where
  "seedOwnersFromMessages rawMessages authoritative st =
     (case rawMessages of JArr msgs \<Rightarrow> seed_messages authoritative msgs st | _ \<Rightarrow> Inr st)"

subsection \<open>The text message, tool call and reasoning handlers\<close>

definition on_text_message_start :: "vstate \<Rightarrow> event \<Rightarrow> verify_error + vstate" where
  "on_text_message_start st ev =
     (let messageId = field ev ''messageId''; tag = tag_of ev;
          existing = map_of (ownersMessage st) messageId in
      if messageId \<in> set (activeMessages st) then Inl (AlreadyInProgress TEXT_MESSAGE_START messageId)
      else case subagentTagError TEXT_MESSAGE_START tag existing ''message'' messageId of
        Some e \<Rightarrow> Inl e
      | None \<Rightarrow>
          Inr (st\<lparr>activeMessages := set_add messageId (activeMessages st),
                 ownersMessage := (if existing = None
                   then AList.update messageId tag (ownersMessage st) else ownersMessage st)\<rparr>))"

definition on_text_message_content :: "vstate \<Rightarrow> event \<Rightarrow> verify_error + vstate" where
  "on_text_message_content st ev =
     (let messageId = field ev ''messageId'' in
      if messageId \<notin> set (activeMessages st) then Inl (NotActive TEXT_MESSAGE_CONTENT messageId)
      else case subagentTagError TEXT_MESSAGE_CONTENT (tag_of ev)
                  (map_of (ownersMessage st) messageId) ''message'' messageId of
        Some e \<Rightarrow> Inl e
      | None \<Rightarrow> Inr st)"

definition on_text_message_end :: "vstate \<Rightarrow> event \<Rightarrow> verify_error + vstate" where
  "on_text_message_end st ev =
     (let messageId = field ev ''messageId'' in
      if messageId \<notin> set (activeMessages st) then Inl (NotActive TEXT_MESSAGE_END messageId)
      else case subagentTagError TEXT_MESSAGE_END (tag_of ev)
                  (map_of (ownersMessage st) messageId) ''message'' messageId of
        Some e \<Rightarrow> Inl e
      | None \<Rightarrow> Inr (st\<lparr>activeMessages := set_del messageId (activeMessages st)\<rparr>))"

text \<open>
  The owner a tool call inherits from the message named by \<^verbatim>\<open>parentMessageId\<close>, if that message
  is on record.
\<close>

definition inherited_owner :: "vstate \<Rightarrow> event \<Rightarrow> jsval option" where
  "inherited_owner st ev =
     (if field ev ''parentMessageId'' = JUndef then None
      else map_of (ownersMessage st) (field ev ''parentMessageId''))"

definition parent_owner_error :: "event \<Rightarrow> jsval option \<Rightarrow> verify_error option" where
  "parent_owner_error ev inherited =
     (case inherited of
        Some p \<Rightarrow> (if tag_of ev \<noteq> JUndef \<and> tag_of ev \<noteq> p
                  then Some (ParentMessageOwnerMismatch (tag_of ev) (field ev ''parentMessageId'') p)
                  else None)
      | None \<Rightarrow> None)"

definition reopen_owner_error :: "event \<Rightarrow> jsval option \<Rightarrow> jsval option \<Rightarrow> verify_error option" where
  "reopen_owner_error ev inherited existing =
     (case (inherited, existing) of
        (Some p, Some x) \<Rightarrow>
          (if tag_of ev = JUndef \<and> p \<noteq> x
           then Some (ReopenedUnderOtherParent (field ev ''toolCallId'') x (field ev ''parentMessageId'') p)
           else None)
      | _ \<Rightarrow> None)"

definition on_tool_call_start :: "vstate \<Rightarrow> event \<Rightarrow> verify_error + vstate" where
  "on_tool_call_start st ev =
     (let toolCallId = field ev ''toolCallId''; eventTag = tag_of ev;
          inherited = inherited_owner st ev; existing = map_of (ownersToolCall st) toolCallId in
      if toolCallId \<in> set (activeToolCalls st) then Inl (AlreadyInProgress TOOL_CALL_START toolCallId)
      else case first_error
             [parent_owner_error ev inherited,
              subagentTagError TOOL_CALL_START eventTag existing ''tool call'' toolCallId,
              reopen_owner_error ev inherited existing] of
        Some e \<Rightarrow> Inl e
      | None \<Rightarrow>
          Inr (st\<lparr>activeToolCalls := set_add toolCallId (activeToolCalls st),
                 ownersToolCall := (if existing = None
                   then AList.update toolCallId
                          (if eventTag \<noteq> JUndef then eventTag
                           else case inherited of Some p \<Rightarrow> p | None \<Rightarrow> JUndef)
                          (ownersToolCall st)
                   else ownersToolCall st)\<rparr>))"

definition on_tool_call_args :: "vstate \<Rightarrow> event \<Rightarrow> verify_error + vstate" where
  "on_tool_call_args st ev =
     (let toolCallId = field ev ''toolCallId'' in
      if toolCallId \<notin> set (activeToolCalls st) then Inl (NotActive TOOL_CALL_ARGS toolCallId)
      else case subagentTagError TOOL_CALL_ARGS (tag_of ev)
                  (map_of (ownersToolCall st) toolCallId) ''tool call'' toolCallId of
        Some e \<Rightarrow> Inl e
      | None \<Rightarrow> Inr st)"

definition on_tool_call_end :: "vstate \<Rightarrow> event \<Rightarrow> verify_error + vstate" where
  "on_tool_call_end st ev =
     (let toolCallId = field ev ''toolCallId'' in
      if toolCallId \<notin> set (activeToolCalls st) then Inl (NotActive TOOL_CALL_END toolCallId)
      else case subagentTagError TOOL_CALL_END (tag_of ev)
                  (map_of (ownersToolCall st) toolCallId) ''tool call'' toolCallId of
        Some e \<Rightarrow> Inl e
      | None \<Rightarrow> Inr (st\<lparr>activeToolCalls := set_del toolCallId (activeToolCalls st)\<rparr>))"

definition on_step_started :: "vstate \<Rightarrow> event \<Rightarrow> verify_error + vstate" where
  "on_step_started st ev =
     (let stepName = field ev ''stepName''; stepOwner = tag_of ev;
          st' = touch_steps stepOwner st in
      if stepName \<in> set (stepsFor st' stepOwner) then Inl (StepAlreadyActive stepName stepOwner)
      else Inr (set_steps stepOwner (set_add stepName (stepsFor st' stepOwner)) st'))"

definition on_step_finished :: "vstate \<Rightarrow> event \<Rightarrow> verify_error + vstate" where
  "on_step_finished st ev =
     (let stepName = field ev ''stepName''; stepOwner = tag_of ev;
          st' = touch_steps stepOwner st in
      if stepName \<notin> set (stepsFor st' stepOwner)
      then (case filter (\<lambda>(owner, names). owner \<noteq> stepOwner \<and> stepName \<in> set names) (activeSteps st') of
              (otherOwner, _) # _ \<Rightarrow> Inl (StepOpenUnderOther stepName stepOwner otherOwner)
            | [] \<Rightarrow> Inl (StepNotStarted stepName))
      else Inr (set_steps stepOwner (set_del stepName (stepsFor st' stepOwner)) st'))"

definition on_activity_snapshot :: "vstate \<Rightarrow> event \<Rightarrow> verify_error + vstate" where
  "on_activity_snapshot st ev =
     (let messageId = field ev ''messageId'' in
      if map_of (ownersActivity st) messageId = None \<or> field ev ''replace'' \<noteq> JBool False
      then Inr (st\<lparr>ownersActivity := AList.update messageId (tag_of ev) (ownersActivity st)\<rparr>)
      else Inr st)"

definition on_tool_call_result :: "vstate \<Rightarrow> event \<Rightarrow> verify_error + vstate" where
  "on_tool_call_result st ev =
     (let resultMessageId = field ev ''messageId'' in
      if is_str resultMessageId
      then Inr (st\<lparr>ownersMessage := AList.update resultMessageId (tag_of ev) (ownersMessage st)\<rparr>)
      else Inr st)"

text \<open>\<^verbatim>\<open>REASONING_START\<close> opens a span and \<^verbatim>\<open>REASONING_MESSAGE_START\<close> a message; owners are shared.\<close>

definition on_reasoning_open :: "vstate \<Rightarrow> event \<Rightarrow> verify_error + vstate" where
  "on_reasoning_open st ev =
     (let messageId = field ev ''messageId''; isSpan = (ev_type ev = REASONING_START);
          opened = (if isSpan then activeReasoningSpans st else activeReasoningMessages st);
          existing = map_of (ownersReasoning st) messageId in
      if messageId \<in> set opened then Inl (AlreadyInProgress (ev_type ev) messageId)
      else case subagentTagError (ev_type ev) (tag_of ev) existing ''reasoning message'' messageId of
        Some e \<Rightarrow> Inl e
      | None \<Rightarrow>
          (let st' = (if isSpan
                      then st\<lparr>activeReasoningSpans := set_add messageId opened\<rparr>
                      else st\<lparr>activeReasoningMessages := set_add messageId opened\<rparr>) in
           Inr (if existing = None
                then st'\<lparr>ownersReasoning := AList.update messageId (tag_of ev) (ownersReasoning st)\<rparr>
                else st')))"

definition on_reasoning_continue :: "vstate \<Rightarrow> event \<Rightarrow> verify_error + vstate" where
  "on_reasoning_continue st ev =
     (let messageId = field ev ''messageId''; isSpan = (ev_type ev = REASONING_END);
          opened = (if isSpan then activeReasoningSpans st else activeReasoningMessages st) in
      if messageId \<notin> set opened then Inl (NotActive (ev_type ev) messageId)
      else case subagentTagError (ev_type ev) (tag_of ev)
                  (map_of (ownersReasoning st) messageId) ''reasoning message'' messageId of
        Some e \<Rightarrow> Inl e
      | None \<Rightarrow>
          Inr (if ev_type ev = REASONING_END
               then st\<lparr>activeReasoningSpans := set_del messageId opened\<rparr>
               else if ev_type ev = REASONING_MESSAGE_END
               then st\<lparr>activeReasoningMessages := set_del messageId opened\<rparr>
               else st))"

definition encrypted_value_owner :: "vstate \<Rightarrow> event \<Rightarrow> jsval option" where
  "encrypted_value_owner st ev =
     (let entityId = field ev ''entityId''; subtype = field ev ''subtype'' in
      if subtype = JStr ''tool-call'' then map_of (ownersToolCall st) entityId
      else if subtype = JStr ''message''
      then (case map_of (ownersMessage st) entityId of
              Some p \<Rightarrow> Some p | None \<Rightarrow> map_of (ownersReasoning st) entityId)
      else map_of (ownersReasoning st) entityId)"

definition on_reasoning_encrypted_value :: "vstate \<Rightarrow> event \<Rightarrow> verify_error + vstate" where
  "on_reasoning_encrypted_value st ev =
     (let subtype = field ev ''subtype'';
          kindLabel = (if subtype = JStr ''tool-call'' then ''tool call''
                       else if subtype = JStr ''message'' then ''message'' else ''reasoning message'') in
      case subagentTagError REASONING_ENCRYPTED_VALUE (tag_of ev) (encrypted_value_owner st ev)
             kindLabel (field ev ''entityId'') of
        Some e \<Rightarrow> Inl e
      | None \<Rightarrow> Inr st)"

definition on_activity_delta :: "vstate \<Rightarrow> event \<Rightarrow> verify_error + vstate" where
  "on_activity_delta st ev =
     (case subagentTagError ACTIVITY_DELTA (tag_of ev)
             (map_of (ownersActivity st) (field ev ''messageId'')) ''activity'' (field ev ''messageId'') of
        Some e \<Rightarrow> Inl e
      | None \<Rightarrow> Inr st)"

subsection \<open>The subagent and run handlers\<close>

definition on_subagent_started :: "vstate \<Rightarrow> event \<Rightarrow> verify_error + vstate" where
  "on_subagent_started st ev =
     (let subagentRunId = tag_of ev; parent = field ev ''parentSubagentRunId'' in
      if \<not> is_str subagentRunId then Inl (MissingSubagentRunId SUBAGENT_STARTED)
      else if \<not> is_str (field ev ''name'') then Inl MissingName
      else if subagentRunId \<in> set (activeSubagents st) then Inl (SubagentAlreadyActive subagentRunId)
      else if subagentRunId \<in> set (closedSubagents st) then Inl (SubagentAlreadyFinished subagentRunId)
      else if parent \<noteq> JUndef \<and> parent \<notin> set (activeSubagents st) \<and> parent \<notin> set (closedSubagents st)
      then Inl (ParentSubagentNotStarted parent)
      else Inr (st\<lparr>activeSubagents := set_add subagentRunId (activeSubagents st)\<rparr>))"

definition on_subagent_ended :: "vstate \<Rightarrow> event \<Rightarrow> verify_error + vstate" where
  "on_subagent_ended st ev =
     (let subagentRunId = tag_of ev in
      if \<not> is_str subagentRunId then Inl (MissingSubagentRunId (ev_type ev))
      else if ev_type ev = SUBAGENT_ERROR \<and> \<not> is_str (field ev ''message'') then Inl MissingMessage
      else if subagentRunId \<notin> set (activeSubagents st) then Inl (NoActiveSubagent (ev_type ev) subagentRunId)
      else Inr (st\<lparr>activeSubagents := set_del subagentRunId (activeSubagents st),
                  closedSubagents := set_add subagentRunId (closedSubagents st)\<rparr>))"

definition on_messages_snapshot :: "vstate \<Rightarrow> event \<Rightarrow> verify_error + vstate" where
  "on_messages_snapshot st ev = seedOwnersFromMessages (field ev ''messages'') True st"

definition on_run_started :: "vstate \<Rightarrow> event \<Rightarrow> verify_error + vstate" where
  "on_run_started st ev =
     seedOwnersFromMessages (jget (field ev ''input'') ''messages'') False (st\<lparr>runStarted := True\<rparr>)"

definition on_run_finished :: "vstate \<Rightarrow> event \<Rightarrow> verify_error + vstate" where
  "on_run_finished st ev =
     (if anyStepsActive st then Inl (StepsStillActive (unfinished_steps st))
      else if activeMessages st \<noteq> [] then Inl (MessagesStillActive (activeMessages st))
      else if activeReasoningMessages st \<noteq> []
      then Inl (ReasoningMessagesStillActive (activeReasoningMessages st))
      else if activeReasoningSpans st \<noteq> [] then Inl (ReasoningSpansStillActive (activeReasoningSpans st))
      else if activeToolCalls st \<noteq> [] then Inl (ToolCallsStillActive (activeToolCalls st))
      else if activeSubagents st \<noteq> [] then Inl (SubagentsStillActive (activeSubagents st))
      else Inr (st\<lparr>runFinished := True\<rparr>))"

definition on_run_error :: "vstate \<Rightarrow> event \<Rightarrow> verify_error + vstate" where
  "on_run_error st ev = Inr (st\<lparr>runError := True\<rparr>)"

subsection \<open>The operator\<close>

text \<open>The switch on the event type; the cases without a check fall through to \<^verbatim>\<open>of(event)\<close>.\<close>

definition dispatch :: "vstate \<Rightarrow> event \<Rightarrow> verify_error + vstate" where
  "dispatch st ev = (case ev_type ev of
     TEXT_MESSAGE_START \<Rightarrow> on_text_message_start st ev
   | TEXT_MESSAGE_CONTENT \<Rightarrow> on_text_message_content st ev
   | TEXT_MESSAGE_END \<Rightarrow> on_text_message_end st ev
   | TOOL_CALL_START \<Rightarrow> on_tool_call_start st ev
   | TOOL_CALL_ARGS \<Rightarrow> on_tool_call_args st ev
   | TOOL_CALL_END \<Rightarrow> on_tool_call_end st ev
   | STEP_STARTED \<Rightarrow> on_step_started st ev
   | STEP_FINISHED \<Rightarrow> on_step_finished st ev
   | ACTIVITY_SNAPSHOT \<Rightarrow> on_activity_snapshot st ev
   | TOOL_CALL_RESULT \<Rightarrow> on_tool_call_result st ev
   | REASONING_START \<Rightarrow> on_reasoning_open st ev
   | REASONING_MESSAGE_START \<Rightarrow> on_reasoning_open st ev
   | REASONING_MESSAGE_CONTENT \<Rightarrow> on_reasoning_continue st ev
   | REASONING_MESSAGE_END \<Rightarrow> on_reasoning_continue st ev
   | REASONING_END \<Rightarrow> on_reasoning_continue st ev
   | REASONING_ENCRYPTED_VALUE \<Rightarrow> on_reasoning_encrypted_value st ev
   | ACTIVITY_DELTA \<Rightarrow> on_activity_delta st ev
   | SUBAGENT_STARTED \<Rightarrow> on_subagent_started st ev
   | SUBAGENT_FINISHED \<Rightarrow> on_subagent_ended st ev
   | SUBAGENT_ERROR \<Rightarrow> on_subagent_ended st ev
   | MESSAGES_SNAPSHOT \<Rightarrow> on_messages_snapshot st ev
   | RUN_STARTED \<Rightarrow> on_run_started st ev
   | RUN_FINISHED \<Rightarrow> on_run_finished st ev
   | RUN_ERROR \<Rightarrow> on_run_error st ev
   | _ \<Rightarrow> Inr st)"

text \<open>The two guards on a run that is over.\<close>

definition terminal_error :: "vstate \<Rightarrow> event_type \<Rightarrow> verify_error option" where
  "terminal_error st t =
     (if runError st \<and> t \<noteq> RUN_STARTED then Some (RunAlreadyErrored t)
      else if runFinished st \<and> t \<noteq> RUN_ERROR \<and> t \<noteq> RUN_STARTED then Some (RunAlreadyFinished t)
      else None)"

text \<open>The first-event rule, and the sequential \<^verbatim>\<open>RUN_STARTED\<close> that resets the state.\<close>

definition admit_run :: "vstate \<Rightarrow> event_type \<Rightarrow> verify_error + vstate" where
  "admit_run st t =
     (if \<not> firstEventReceived st
      then (if t \<noteq> RUN_STARTED \<and> t \<noteq> RUN_ERROR then Inl FirstEventMustBeRunStarted
            else Inr (st\<lparr>firstEventReceived := True\<rparr>))
      else if t = RUN_STARTED
      then (if runStarted st \<and> \<not> runFinished st \<and> \<not> runError st then Inl RunStillActive
            else if runFinished st \<or> runError st then Inr (resetRunState st)
            else Inr st)
      else Inr st)"

text \<open>An event-level \<^verbatim>\<open>subagentRunId: null\<close> is removed, noticed once per run.\<close>

definition strip_null_tag :: "event \<Rightarrow> event" where
  "strip_null_tag ev =
     (if tag_of ev = JNull then ev\<lparr>ev_props := odel ''subagentRunId'' (ev_props ev)\<rparr> else ev)"

definition notice_null_tag :: "vstate \<Rightarrow> event \<Rightarrow> vstate" where
  "notice_null_tag st ev = (if tag_of ev = JNull then st\<lparr>nullSubagentRunIdNoticed := True\<rparr> else st)"

definition lifecycle_optionals :: "event_type \<Rightarrow> string list" where
  "lifecycle_optionals t =
     (if t = SUBAGENT_STARTED
      then [''description'', ''parentSubagentRunId'', ''parentToolCallId'', ''parentMessageId'']
      else if t = SUBAGENT_FINISHED then [''outcome''] else [''code''])"

definition outcome_error :: "event \<Rightarrow> verify_error option" where
  "outcome_error ev =
     (let outcome = field ev ''outcome''; t = jget outcome ''type'';
          interruptIds = jget outcome ''interruptIds'' in
      if outcome \<noteq> JUndef \<and> outcome \<noteq> JNull \<and> t \<noteq> JStr ''success'' \<and> t \<noteq> JStr ''suspended''
      then Some (BadOutcomeType (ev_type ev) t)
      else if truthy outcome \<and> interruptIds = JNull then Some (OutcomeInterruptIdsNull (ev_type ev))
      else if truthy outcome \<and> is_arr interruptIds \<and> list_ex (\<lambda>i. \<not> is_str i) (arr_items interruptIds)
      then Some (OutcomeInterruptIdsNotStrings (ev_type ev))
      else None)"

definition lifecycle_error :: "event \<Rightarrow> verify_error option" where
  "lifecycle_error ev =
     (if ev_type ev \<in> {SUBAGENT_STARTED, SUBAGENT_FINISHED, SUBAGENT_ERROR}
      then (case filter (\<lambda>k. field ev k = JNull) (lifecycle_optionals (ev_type ev)) of
              k # _ \<Rightarrow> Some (LifecycleFieldNull (ev_type ev) k)
            | [] \<Rightarrow> outcome_error ev)
      else None)"

definition interrupt_error :: "event \<Rightarrow> verify_error option" where
  "interrupt_error ev =
     (let outcome = field ev ''outcome'' in
      if ev_type ev = RUN_FINISHED \<and> jget outcome ''type'' = JStr ''interrupt''
      then (case filter (\<lambda>i. truthy i \<and> jget i ''subagentRunId'' = JNull)
                   (arr_items (jget outcome ''interrupts'')) of
              i # _ \<Rightarrow> Some (InterruptTagNull (jget i ''id''))
            | [] \<Rightarrow> None)
      else None)"

definition verify_step :: "vstate \<Rightarrow> event \<Rightarrow> verify_error + vstate \<times> event list" where
  "verify_step st ev =
     (case terminal_error st (ev_type ev) of
        Some e \<Rightarrow> Inl e
      | None \<Rightarrow>
          (case admit_run st (ev_type ev) of
             Inl e \<Rightarrow> Inl e
           | Inr st1 \<Rightarrow>
               (let st2 = notice_null_tag st1 ev; ev' = strip_null_tag ev in
                case first_error [lifecycle_error ev', interrupt_error ev'] of
                  Some e \<Rightarrow> Inl e
                | None \<Rightarrow> (case dispatch st2 ev' of Inl e \<Rightarrow> Inl e | Inr st3 \<Rightarrow> Inr (st3, [ev'])))))"

definition verifyEvents :: "event list \<Rightarrow> event list \<times> (verify_error + vstate)" where
  "verifyEvents es = run_stage verify_step init_vstate es"

subsection \<open>The abstract views the verifier is measured against\<close>

text \<open>The life cycle of the runs on one stream.\<close>

datatype run_phase = NotStarted | Running | Finished | Errored

fun phase_step :: "run_phase \<Rightarrow> event_type \<Rightarrow> run_phase option" where
  "phase_step NotStarted t = (if t = RUN_STARTED then Some Running
                              else if t = RUN_ERROR then Some Errored else None)"
| "phase_step Running t = (if t = RUN_STARTED then None
                           else if t = RUN_FINISHED then Some Finished
                           else if t = RUN_ERROR then Some Errored else Some Running)"
| "phase_step Finished t = (if t = RUN_STARTED then Some Running
                            else if t = RUN_ERROR then Some Errored else None)"
| "phase_step Errored t = (if t = RUN_STARTED then Some Running else None)"

fun phase_run :: "run_phase \<Rightarrow> event_type list \<Rightarrow> run_phase option" where
  "phase_run p [] = Some p"
| "phase_run p (t # ts) = (case phase_step p t of None \<Rightarrow> None | Some p' \<Rightarrow> phase_run p' ts)"

definition phase_of :: "vstate \<Rightarrow> run_phase" where
  "phase_of st = (if \<not> firstEventReceived st then NotStarted
                  else if runError st then Errored
                  else if runFinished st then Finished else Running)"

text \<open>
  The bracketed entities: what a stream opens and must close, each by its own identifier.
  A step is identified by its owner and its name.
\<close>

datatype entity =
    TextMessage jsval
  | ToolCall jsval
  | ReasoningSpan jsval
  | ReasoningMessage jsval
  | Step jsval jsval
  | Subagent jsval

fun entity_open :: "vstate \<Rightarrow> entity \<Rightarrow> bool" where
  "entity_open st (TextMessage i) \<longleftrightarrow> i \<in> set (activeMessages st)"
| "entity_open st (ToolCall i) \<longleftrightarrow> i \<in> set (activeToolCalls st)"
| "entity_open st (ReasoningSpan i) \<longleftrightarrow> i \<in> set (activeReasoningSpans st)"
| "entity_open st (ReasoningMessage i) \<longleftrightarrow> i \<in> set (activeReasoningMessages st)"
| "entity_open st (Step owner name) \<longleftrightarrow> name \<in> set (stepsFor st owner)"
| "entity_open st (Subagent i) \<longleftrightarrow> i \<in> set (activeSubagents st)"

definition sym_of :: "bool \<Rightarrow> bool \<Rightarrow> bool \<Rightarrow> bool \<Rightarrow> bracket_sym" where
  "sym_of reset opens part closes =
     (if reset then BReset else if opens then BOpen else if part then BPart
      else if closes then BClose else BOther)"

fun entity_sym :: "entity \<Rightarrow> event \<Rightarrow> bracket_sym" where
  "entity_sym (TextMessage i) ev = sym_of (ev_type ev = RUN_STARTED)
     (ev_type ev = TEXT_MESSAGE_START \<and> field ev ''messageId'' = i)
     (ev_type ev = TEXT_MESSAGE_CONTENT \<and> field ev ''messageId'' = i)
     (ev_type ev = TEXT_MESSAGE_END \<and> field ev ''messageId'' = i)"
| "entity_sym (ToolCall i) ev = sym_of (ev_type ev = RUN_STARTED)
     (ev_type ev = TOOL_CALL_START \<and> field ev ''toolCallId'' = i)
     (ev_type ev = TOOL_CALL_ARGS \<and> field ev ''toolCallId'' = i)
     (ev_type ev = TOOL_CALL_END \<and> field ev ''toolCallId'' = i)"
| "entity_sym (ReasoningSpan i) ev = sym_of (ev_type ev = RUN_STARTED)
     (ev_type ev = REASONING_START \<and> field ev ''messageId'' = i)
     False
     (ev_type ev = REASONING_END \<and> field ev ''messageId'' = i)"
| "entity_sym (ReasoningMessage i) ev = sym_of (ev_type ev = RUN_STARTED)
     (ev_type ev = REASONING_MESSAGE_START \<and> field ev ''messageId'' = i)
     (ev_type ev = REASONING_MESSAGE_CONTENT \<and> field ev ''messageId'' = i)
     (ev_type ev = REASONING_MESSAGE_END \<and> field ev ''messageId'' = i)"
| "entity_sym (Step owner name) ev = sym_of (ev_type ev = RUN_STARTED)
     (ev_type ev = STEP_STARTED \<and> field ev ''stepName'' = name \<and> tag_of (strip_null_tag ev) = owner)
     False
     (ev_type ev = STEP_FINISHED \<and> field ev ''stepName'' = name \<and> tag_of (strip_null_tag ev) = owner)"
| "entity_sym (Subagent i) ev = sym_of (ev_type ev = RUN_STARTED)
     (ev_type ev = SUBAGENT_STARTED \<and> tag_of (strip_null_tag ev) = i)
     False
     ((ev_type ev = SUBAGENT_FINISHED \<or> ev_type ev = SUBAGENT_ERROR) \<and> tag_of (strip_null_tag ev) = i)"

text \<open>Every open entity has its owner on record.\<close>

definition owned :: "vstate \<Rightarrow> bool" where
  "owned st \<longleftrightarrow>
     (\<forall>i \<in> set (activeMessages st). map_of (ownersMessage st) i \<noteq> None) \<and>
     (\<forall>i \<in> set (activeToolCalls st). map_of (ownersToolCall st) i \<noteq> None) \<and>
     (\<forall>i \<in> set (activeReasoningSpans st) \<union> set (activeReasoningMessages st).
        map_of (ownersReasoning st) i \<noteq> None)"

text \<open>What holds between two events of any stream.\<close>

definition verify_inv :: "vstate \<Rightarrow> bool" where
  "verify_inv st \<longleftrightarrow>
     (\<not> firstEventReceived st \<longrightarrow> st = init_vstate) \<and>
     (firstEventReceived st \<longrightarrow> runStarted st \<or> runError st) \<and>
     (runFinished st \<longrightarrow> (\<forall>x. \<not> entity_open st x)) \<and>
     owned st \<and>
     set (activeSubagents st) \<inter> set (closedSubagents st) = {}"

end
