(* ===== verification/Metadata.thy ===== *)
theory Metadata
  imports Events
begin

text \<open>
  Metadata and the activity history declaration: \<^verbatim>\<open>mergeMetadata\<close> of
  \<^verbatim>\<open>core/src/metadata.ts\<close> and the two functions of \<^verbatim>\<open>client/src/activity-history.ts\<close>. Metadata
  accumulates over the events that build a message; \<open>keyed_merge\<close> states what any such
  merge promises, key by key, and the fold law every client relies on.
\<close>

subsection \<open>Merging\<close>

text \<open>The properties an object spread \<^verbatim>\<open>...v\<close> copies; an array or a string has its indices. A spread into an
  empty literal gives these properties themselves.\<close>

definition own_props :: "jsval \<Rightarrow> jsobj" where
  "own_props v = (case v of
     JObj m \<Rightarrow> m
   | JArr vs \<Rightarrow> zip (map nat_str [0..<length vs]) vs
   | JStr s \<Rightarrow> zip (map nat_str [0..<length s]) (map (\<lambda>c. JStr [c]) s)
   | _ \<Rightarrow> [])"

definition mergeMetadata :: "jsval \<Rightarrow> jsval \<Rightarrow> jsval" where
  "mergeMetadata existing incoming =
     (if incoming = JUndef then existing
      else if existing = JUndef then JObj (own_props incoming)
      else JObj (spread (own_props existing) (own_props incoming)))"

text \<open>A metadata value as the type allows it: absent, or an object with distinct keys.\<close>

fun wf_metadata :: "jsval \<Rightarrow> bool" where
  "wf_metadata JUndef = True"
| "wf_metadata (JObj m) = distinct (map fst m)"
| "wf_metadata _ = False"

definition meta_lookup :: "jsval \<Rightarrow> string \<Rightarrow> jsval option" where
  "meta_lookup v k = map_of (own_props v) k"

subsection \<open>What a keyed merge promises\<close>

locale keyed_merge =
  fixes merge :: "'m \<Rightarrow> 'm \<Rightarrow> 'm"
    and look :: "'m \<Rightarrow> 'k \<Rightarrow> 'v option"
    and wf :: "'m \<Rightarrow> bool"
  assumes merge_wf: "wf a \<Longrightarrow> wf b \<Longrightarrow> wf (merge a b)"
    and look_merge: "wf a \<Longrightarrow> wf b \<Longrightarrow>
          look (merge a b) k = (case look b k of None \<Rightarrow> look a k | Some v \<Rightarrow> Some v)"
begin

lemma fold_wf: "wf a \<Longrightarrow> list_all wf bs \<Longrightarrow> wf (foldl merge a bs)"
  by (induction bs arbitrary: a) (auto intro: merge_wf)

text \<open>The last write to a key wins.\<close>

lemma fold_look:
  "wf a \<Longrightarrow> list_all wf bs \<Longrightarrow>
     look (foldl merge a bs) k =
       (case filter (\<lambda>v. v \<noteq> None) (map (\<lambda>b. look b k) bs) of
          [] \<Rightarrow> look a k | vs \<Rightarrow> last vs)"
proof (induction bs rule: rev_induct)
  case (snoc b bs)
  then have "wf (foldl merge a bs)" "wf b" by (auto intro: fold_wf)
  with snoc show ?case by (auto simp: look_merge split: option.splits list.splits)
qed simp

text \<open>Merging is associative and absorbs repetition, seen through the keys.\<close>

lemma look_assoc:
  "wf a \<Longrightarrow> wf b \<Longrightarrow> wf c \<Longrightarrow> look (merge (merge a b) c) = look (merge a (merge b c))"
  by (auto simp: look_merge merge_wf fun_eq_iff split: option.splits)

lemma look_twice: "wf a \<Longrightarrow> wf b \<Longrightarrow> look (merge (merge a b) b) = look (merge a b)"
  by (auto simp: look_merge merge_wf fun_eq_iff split: option.splits)

end

lemma spread_distinct: "distinct (map fst a) \<Longrightarrow> distinct (map fst (spread a b))"
  by (induction a b rule: spread.induct) (auto simp: distinct_oset)

lemma spread_new: "distinct (map fst a @ map fst b) \<Longrightarrow> spread a b = a @ b"
proof (induction a b rule: spread.induct)
  case (2 a k v b)
  then have "k \<notin> set (map fst a)" by auto
  then have "oset k v a = a @ [(k, v)]" by (induction a) (auto simp: oset_def)
  with 2 show ?case by simp
qed simp

lemma spread_Nil_left [simp]: "distinct (map fst b) \<Longrightarrow> spread [] b = b"
  using spread_new [of "[]" b] by simp

lemma wf_own_props: "wf_metadata v \<Longrightarrow> distinct (map fst (own_props v))"
  by (cases v) (simp_all add: own_props_def)

interpretation metadata: keyed_merge mergeMetadata meta_lookup wf_metadata
proof unfold_locales
  fix a b :: jsval and k
  assume wf: "wf_metadata a" "wf_metadata b"
  then show "wf_metadata (mergeMetadata a b)"
    by (cases a; cases b) (auto simp: mergeMetadata_def own_props_def spread_distinct)
  from wf show "meta_lookup (mergeMetadata a b) k =
      (case meta_lookup b k of None \<Rightarrow> meta_lookup a k | Some v \<Rightarrow> Some v)"
    by (cases a; cases b)
      (auto simp: mergeMetadata_def meta_lookup_def own_props_def map_of_spread map_of_rev_distinct
        split: option.splits)
qed

lemma merge_undef [simp]: "mergeMetadata a JUndef = a"
  by (simp add: mergeMetadata_def)

subsection \<open>The activity history declaration\<close>

definition ACTIVITY_HISTORY_METADATA :: string where
  "ACTIVITY_HISTORY_METADATA = ''@ag-ui/client''"

text \<open>The result of \<^verbatim>\<open>authoritativeActivityTypes\<close>: \<^verbatim>\<open>undefined\<close>, \<^verbatim>\<open>null\<close> or an array of strings.\<close>

datatype activity_scope = Undeclared | AllTypes | OwnTypes "string list"

fun str_of :: "jsval \<Rightarrow> string" where
  "str_of (JStr s) = s"
| "str_of _ = []"

definition authoritativeActivityTypes :: "event \<Rightarrow> activity_scope" where
  "authoritativeActivityTypes ev =
     (let metadata = field ev ''metadata''; declared = own_props metadata in
      if \<not> truthy metadata \<or> \<not> has_own declared ACTIVITY_HISTORY_METADATA then Undeclared
      else case oget declared ACTIVITY_HISTORY_METADATA of
        JObj m \<Rightarrow>
          (if \<not> has_own m ''authoritativeActivityTypes'' then Undeclared
           else case oget m ''authoritativeActivityTypes'' of
             JNull \<Rightarrow> AllTypes
           | JArr types \<Rightarrow> (if list_all is_str types then OwnTypes (map str_of types) else OwnTypes [])
           | _ \<Rightarrow> OwnTypes [])
      | _ \<Rightarrow> OwnTypes [])"

text \<open>\<^verbatim>\<open>new Set(\<dots>)\<close> of a list keeps first occurrences.\<close>

definition as_set :: "'a list \<Rightarrow> 'a list" where
  "as_set xs = foldl (\<lambda>s x. set_add x s) [] xs"

definition withAuthoritativeActivityTypes :: "event \<Rightarrow> string list \<Rightarrow> event" where
  "withAuthoritativeActivityTypes ev activityTypes =
     (let prior = jget (field ev ''metadata'') ACTIVITY_HISTORY_METADATA;
          scope = authoritativeActivityTypes ev;
          ownsAll = (scope = AllTypes \<or>
            scope = Undeclared \<and>
              list_ex (\<lambda>m. jget m ''role'' = JStr ''activity'') (arr_items (field ev ''messages'')));
          declared = (case scope of OwnTypes ts \<Rightarrow> ts | _ \<Rightarrow> []);
          inner = oset ''authoritativeActivityTypes''
            (if ownsAll then JNull else JArr (map JStr (as_set (declared @ activityTypes))))
            (case prior of JObj m \<Rightarrow> m | _ \<Rightarrow> [])
      in ev\<lparr>ev_props := oset ''metadata''
             (JObj (oset ACTIVITY_HISTORY_METADATA (JObj inner)
                (own_props (field ev ''metadata'')))) (ev_props ev)\<rparr>)"

end
