(* ===== verification/ToolResults.thy ===== *)
theory ToolResults
  imports Events "HOL-Library.Multiset"
begin

text \<open>
  \<^verbatim>\<open>keepToolResultsWithCalls\<close> of \<^verbatim>\<open>client/src/apply/default.ts\<close>: the pass that moves a tool result that
  drifted away back to the assistant message that issued its call. The maps of the source are
  insertion-ordered association lists; a call slot is the index of its issuer and whether
  it is answered. The output list \<^verbatim>\<open>repaired\<close> is kept as the positions of its entries, and
  turned into entries at the end, so that the lemmas can speak of where each entry came from.
\<close>

definition roleOf :: "jsval \<Rightarrow> jsval" where
  "roleOf message = (if is_object message then jget message ''role'' else JUndef)"

definition string_id :: "jsval \<Rightarrow> string list" where
  "string_id tc = (if is_object tc then (case jget tc ''id'' of JStr s \<Rightarrow> [s] | _ \<Rightarrow> []) else [])"

definition issuedCallIds :: "jsval \<Rightarrow> string list" where
  "issuedCallIds message =
     (if roleOf message \<noteq> JStr ''assistant'' then []
      else case jget message ''toolCalls'' of
        JArr toolCalls \<Rightarrow> concat (map string_id toolCalls)
      | _ \<Rightarrow> [])"

subsection \<open>The first pass\<close>

type_synonym slot = "nat \<times> bool"

record pass_state =
  slots :: "(string \<times> slot list) list"
  unanswered :: "(string \<times> int) list"
  detached :: "(string \<times> nat list) list"
  early :: "(string \<times> nat list) list"
  anchor :: int

definition init_pass :: pass_state where
  "init_pass = \<lparr>slots = [], unanswered = [], detached = [], early = [], anchor = -1\<rparr>"

definition map_append :: "'k \<Rightarrow> 'v \<Rightarrow> ('k \<times> 'v list) list \<Rightarrow> ('k \<times> 'v list) list" where
  "map_append key v m =
     (case map_of m key of Some l \<Rightarrow> AList.update key (l @ [v]) m | None \<Rightarrow> m @ [(key, [v])])"

definition slots_of :: "pass_state \<Rightarrow> string \<Rightarrow> slot list" where
  "slots_of st i = (case map_of (slots st) i of Some l \<Rightarrow> l | None \<Rightarrow> [])"

definition unanswered_of :: "pass_state \<Rightarrow> string \<Rightarrow> int" where
  "unanswered_of st i = (case map_of (unanswered st) i of Some n \<Rightarrow> n | None \<Rightarrow> 0)"

definition answer :: "string \<Rightarrow> nat \<Rightarrow> pass_state \<Rightarrow> pass_state" where
  "answer i s st =
     st\<lparr>slots := AList.update i ((slots_of st i)[s := (fst (slots_of st i ! s), True)]) (slots st),
        unanswered := AList.update i (unanswered_of st i - 1) (unanswered st)\<rparr>"

text \<open>The scan over the anchor's slots at the tail, from the last one down.\<close>

fun in_place :: "slot list \<Rightarrow> int \<Rightarrow> nat \<Rightarrow> nat option \<Rightarrow> nat option" where
  "in_place idSlots anch 0 found = found"
| "in_place idSlots anch (Suc s) found =
     (if int (fst (idSlots ! s)) = anch
      then in_place idSlots anch s (if snd (idSlots ! s) then found else Some s)
      else found)"

definition open_slot :: "nat \<Rightarrow> string \<Rightarrow> pass_state \<Rightarrow> pass_state" where
  "open_slot index i st =
     st\<lparr>slots := map_append i (index, False) (slots st),
        unanswered := AList.update i (unanswered_of st i + 1) (unanswered st)\<rparr>"

definition place_result :: "nat \<Rightarrow> string \<Rightarrow> pass_state \<Rightarrow> pass_state" where
  "place_result index i st =
     (case map_of (slots st) i of
        None \<Rightarrow> st\<lparr>early := map_append i index (early st)\<rparr>
      | Some idSlots \<Rightarrow>
          (case in_place idSlots (anchor st) (length idSlots) None of
             Some s \<Rightarrow> answer i s st
           | None \<Rightarrow>
               (if unanswered_of st i > 0 then st\<lparr>detached := map_append i index (detached st)\<rparr> else st)))"

definition pass_entry :: "nat \<Rightarrow> jsval \<Rightarrow> pass_state \<Rightarrow> pass_state" where
  "pass_entry index message st =
     (if \<not> is_object message then st
      else if roleOf message = JStr ''tool''
      then (case jget message ''toolCallId'' of JStr i \<Rightarrow> place_result index i st | _ \<Rightarrow> st)
      else if roleOf message \<noteq> JStr ''activity'' \<and> roleOf message \<noteq> JStr ''reasoning''
      then foldl (\<lambda>st i. open_slot index i st) (st\<lparr>anchor := int index\<rparr>) (issuedCallIds message)
      else st)"

fun first_pass :: "nat \<Rightarrow> jsval list \<Rightarrow> pass_state \<Rightarrow> pass_state" where
  "first_pass index [] st = st"
| "first_pass index (m # ms) st = first_pass (Suc index) ms (pass_entry index m st)"

subsection \<open>The moves\<close>

text \<open>The bookkeeping of the two moving passes: the slots so far, the results owed to each issuer, and the
  indices marked in \<^verbatim>\<open>moved\<close>.\<close>

record moves =
  mv_pass :: pass_state
  owedTo :: "(nat \<times> nat list) list"
  moved :: "nat list"

definition move :: "string \<Rightarrow> nat \<Rightarrow> nat \<Rightarrow> moves \<Rightarrow> moves" where
  "move i index s mv =
     mv\<lparr>mv_pass := answer i s (mv_pass mv),
        owedTo := map_append (fst (slots_of (mv_pass mv) i ! s)) index (owedTo mv),
        moved := moved mv @ [index]\<rparr>"

text \<open>The cursor walk; the cursor is one above the slot it points at, and 0 is off the list.\<close>

fun seek :: "slot list \<Rightarrow> nat \<Rightarrow> nat \<Rightarrow> nat" where
  "seek idSlots index 0 = 0"
| "seek idSlots index (Suc s) =
     (if snd (idSlots ! s) \<or> fst (idSlots ! s) \<ge> index then seek idSlots index s else Suc s)"

text \<open>One id's detached results, given from the last to the first.\<close>

fun move_back :: "string \<Rightarrow> nat list \<Rightarrow> nat \<Rightarrow> moves \<Rightarrow> moves" where
  "move_back i [] cursor mv = mv"
| "move_back i (index # results) cursor mv =
     (case seek (slots_of (mv_pass mv) i) index cursor of
        0 \<Rightarrow> mv
      | Suc s \<Rightarrow> move_back i results (Suc s) (move i index s mv))"

definition move_all_back :: "moves \<Rightarrow> moves" where
  "move_all_back mv =
     foldl (\<lambda>mv (i, results). move_back i (rev results) (length (slots_of (mv_pass mv) i)) mv)
       mv (detached (mv_pass mv))"

definition move_forward :: "moves \<Rightarrow> string \<times> nat list \<Rightarrow> moves" where
  "move_forward mv = (\<lambda>(i, results).
     (case slots_of (mv_pass mv) i of
        [(_, answered)] \<Rightarrow> (if answered then mv else move i (hd results) 0 mv)
      | _ \<Rightarrow> mv))"

definition move_all_forward :: "moves \<Rightarrow> moves" where
  "move_all_forward mv = foldl move_forward mv (early (mv_pass mv))"

subsection \<open>The rebuilt list\<close>

definition separates :: "jsval \<Rightarrow> bool" where
  "separates message \<longleftrightarrow> is_object message \<and>
     roleOf message \<noteq> JStr ''tool'' \<and> roleOf message \<noteq> JStr ''activity'' \<and> roleOf message \<noteq> JStr ''reasoning''"

text \<open>Where the owed results go: in front of any reasoning in the tail that does not separate. The argument is
  the length of the part of \<^verbatim>\<open>repaired\<close> still to look at, from the end.\<close>

fun flush_at :: "jsval list \<Rightarrow> nat list \<Rightarrow> nat \<Rightarrow> nat \<Rightarrow> nat" where
  "flush_at messages repaired 0 at' = at'"
| "flush_at messages repaired (Suc tail) at' =
     (let entry = messages ! (repaired ! tail); role = roleOf entry in
      if is_object entry \<and> role \<noteq> JStr ''activity'' \<and> role \<noteq> JStr ''reasoning'' then at'
      else flush_at messages repaired tail (if role = JStr ''reasoning'' then tail else at'))"

definition flush :: "jsval list \<Rightarrow> nat list \<Rightarrow> nat list option \<Rightarrow> nat list" where
  "flush messages repaired owed =
     (case owed of
        None \<Rightarrow> repaired
      | Some indices \<Rightarrow>
          (let at' = flush_at messages repaired (length repaired) (length repaired) in
           take at' repaired @ indices @ drop at' repaired))"

fun rebuild ::
  "jsval list \<Rightarrow> (nat \<times> nat list) list \<Rightarrow> nat list \<Rightarrow> nat list \<Rightarrow> nat list \<Rightarrow> nat list option \<Rightarrow> nat list" where
  "rebuild messages owes gone [] repaired owed = flush messages repaired owed"
| "rebuild messages owes gone (index # indices) repaired owed =
     (if index \<in> set gone then rebuild messages owes gone indices repaired owed
      else
        (let (repaired', owed') =
               (if separates (messages ! index) then (flush messages repaired owed, None) else (repaired, owed))
         in rebuild messages owes gone indices (repaired' @ [index])
              (case map_of owes index of Some l \<Rightarrow> Some l | None \<Rightarrow> owed')))"

definition sort_owed :: "(nat \<times> nat list) list \<Rightarrow> (nat \<times> nat list) list" where
  "sort_owed owes = map (\<lambda>(issuer, l). (issuer, sort l)) owes"

definition repair_order :: "jsval list \<Rightarrow> nat list" where
  "repair_order messages =
     (let pass = first_pass 0 messages init_pass;
          mv = move_all_forward (move_all_back \<lparr>mv_pass = pass, owedTo = [], moved = []\<rparr>)
      in if owedTo mv = [] then [0..<length messages]
         else rebuild messages (sort_owed (owedTo mv)) (moved mv) [0..<length messages] [] None)"

definition keepToolResultsWithCalls :: "jsval list \<Rightarrow> jsval list" where
  "keepToolResultsWithCalls messages = map (\<lambda>index. messages ! index) (repair_order messages)"

end
