(* ===== verification/Subscribers.thy ===== *)
theory Subscribers
  imports Events
begin

text \<open>
  \<^verbatim>\<open>runSubscribersWithMutation\<close> of \<^verbatim>\<open>client/src/agent/subscriber.ts\<close>. Subscribers are user code and therefore
  parameters: a subscriber is a function of the hook that is called, of the messages and state it is
  shown, and of an opaque world of type \<open>'w\<close> that the calls thread. A returned field says whether it is
  absent, the very reference that was passed in, or a fresh value. Subscribers are taken to communicate by
  their return value only, as the interface demands, so the development-time freezing of their
  arguments has nothing to guard and is left out; so is the logging of their errors.
\<close>

datatype hook =
    OnEvent | OnTextMessageStart | OnTextMessageContent | OnTextMessageEnd
  | OnToolCallStart | OnToolCallArgs | OnToolCallEnd | OnToolCallResult
  | OnStateSnapshot | OnStateDelta | OnMessagesSnapshot | OnActivitySnapshot | OnActivityDelta
  | OnRaw | OnCustom | OnRunStarted | OnRunFinished | OnRunError | OnStepStarted | OnStepFinished
  | OnReasoningStart | OnReasoningMessageStart | OnReasoningMessageContent | OnReasoningMessageEnd
  | OnReasoningEnd | OnReasoningEncryptedValue | OnSubagentStarted | OnSubagentFinished | OnSubagentError
  | OnNewMessage | OnNewToolCall
  | OnRunInitialized | OnRunFailed | OnRunFinalized | OnMessagesChanged | OnStateChanged

text \<open>What a hook is called with besides messages and state: the event, and the values computed for it (the text
  buffer, the tool call buffer and name, the message or tool call it is about, the outcome of a run).\<close>

record hook_call =
  hk :: hook
  hk_event :: event
  hk_args :: "jsval list"

datatype 'a mut_field = Absent | SameRef | Fresh 'a

record hook_mutation =
  ret_messages :: "jsval list mut_field"
  ret_state :: "jsval mut_field"
  ret_stop :: "bool option"

text \<open>A throw is told apart only by whether it is a \<^verbatim>\<open>TypeError\<close>.\<close>

datatype hook_result = Nothing | Returned hook_mutation | Threw bool

type_synonym 'w subscriber = "hook_call \<Rightarrow> jsval list \<Rightarrow> jsval \<Rightarrow> 'w \<Rightarrow> 'w \<times> hook_result"

text \<open>\<^verbatim>\<open>AgentStateMutation\<close> as the function returns it.\<close>

record mutation =
  mut_messages :: "jsval list option"
  mut_state :: "jsval option"
  mut_stop :: "bool option"

definition no_mutation :: mutation where
  "no_mutation = \<lparr>mut_messages = None, mut_state = None, mut_stop = None\<rparr>"

text \<open>The loop variables: the messages and state shown to the next subscriber, whether each was mutated, and
  \<^verbatim>\<open>stopPropagation\<close>.\<close>

record sub_loop =
  sl_messages :: "jsval list"
  sl_state :: jsval
  sl_messages_mutated :: bool
  sl_state_mutated :: bool
  sl_stop :: "bool option"

definition take_mutation :: "hook_mutation \<Rightarrow> sub_loop \<Rightarrow> sub_loop" where
  "take_mutation m sl =
     (let sl1 = (case ret_messages m of
                   Fresh ms \<Rightarrow> sl\<lparr>sl_messages := ms, sl_messages_mutated := True\<rparr>
                 | _ \<Rightarrow> sl);
          sl2 = (case ret_state m of
                   Fresh s \<Rightarrow> (if s = JUndef then sl1 else sl1\<lparr>sl_state := s, sl_state_mutated := True\<rparr>)
                 | _ \<Rightarrow> sl1)
      in sl2\<lparr>sl_stop := ret_stop m\<rparr>)"

text \<open>The loop; \<open>None\<close> is the rethrown \<^verbatim>\<open>TypeError\<close> of a test environment.\<close>

fun sub_iterate ::
  "bool \<Rightarrow> 'w subscriber list \<Rightarrow> hook_call \<Rightarrow> 'w \<Rightarrow> sub_loop \<Rightarrow> ('w \<times> sub_loop) option" where
  "sub_iterate test [] call w sl = Some (w, sl)"
| "sub_iterate test (s # ss) call w sl =
     (case s call (sl_messages sl) (sl_state sl) w of
        (w', Nothing) \<Rightarrow> sub_iterate test ss call w' sl
      | (w', Threw typeError) \<Rightarrow>
          (if test \<and> typeError then None else sub_iterate test ss call w' sl)
      | (w', Returned m) \<Rightarrow>
          (let sl' = take_mutation m sl in
           if sl_stop sl' = Some True then Some (w', sl') else sub_iterate test ss call w' sl'))"

definition runSubscribersWithMutation ::
  "bool \<Rightarrow> 'w subscriber list \<Rightarrow> hook_call \<Rightarrow> 'w \<Rightarrow> jsval list \<Rightarrow> jsval \<Rightarrow> ('w \<times> mutation) option" where
  "runSubscribersWithMutation test subs call w messages state =
     (case sub_iterate test subs call w
             \<lparr>sl_messages = messages, sl_state = state, sl_messages_mutated = False,
              sl_state_mutated = False, sl_stop = None\<rparr> of
        None \<Rightarrow> None
      | Some (w', sl) \<Rightarrow>
          Some (w', \<lparr>mut_messages = (if sl_messages_mutated sl then Some (sl_messages sl) else None),
                     mut_state = (if sl_state_mutated sl then Some (sl_state sl) else None),
                     mut_stop = sl_stop sl\<rparr>))"

text \<open>
  \<^verbatim>\<open>Promise.all(subscribers.map(\<dots>))\<close> over a notification hook: what it returns is ignored, and a
  rejection rejects the whole.
\<close>

fun notify_all :: "'w subscriber list \<Rightarrow> hook_call \<Rightarrow> 'w \<Rightarrow> jsval list \<Rightarrow> jsval \<Rightarrow> 'w option" where
  "notify_all [] call w messages state = Some w"
| "notify_all (s # ss) call w messages state =
     (case s call messages state w of
        (w', Threw _) \<Rightarrow> None
      | (w', _) \<Rightarrow> notify_all ss call w' messages state)"

end
