(* ===== verification/Apply.thy ===== *)
theory Apply
  imports Metadata ToolResults Subscribers
begin

text \<open>
  The reducer, \<^verbatim>\<open>defaultApplyEvents\<close> of \<^verbatim>\<open>client/src/apply/default.ts\<close>: it folds the events of a run into the
  message list and the state. The closure variables are the record \<open>rstate\<close>; each case of the switch is one handler
  \<open>ap_\<dots>\<close>; \<open>apply_step\<close> is the whole callback of \<^verbatim>\<open>concatMap\<close>.

  A message is a JavaScript object; the source's types say that entries of \<^verbatim>\<open>messages\<close> and of \<^verbatim>\<open>toolCalls\<close> are objects,
  and a field of anything else reads as \<^verbatim>\<open>undefined\<close> here. A message found by \<^verbatim>\<open>find\<close> is its index, and a
  write through that reference is a write at the index, unless a subscriber replaced the array in between: then
  the reference points into the discarded array and the write is lost. Two slots holding one object are two
  values; copying an object with a spread gives an equal value. JSON Patch (\<^verbatim>\<open>fast-json-patch\<close>) is a parameter. Console output is left out.
\<close>

subsection \<open>Messages\<close>

definition jset :: "string \<Rightarrow> jsval \<Rightarrow> jsval \<Rightarrow> jsval" where
  "jset k v m = (case m of JObj ob \<Rightarrow> JObj (oset k v ob) | _ \<Rightarrow> m)"

definition jdel :: "string \<Rightarrow> jsval \<Rightarrow> jsval" where
  "jdel k m = (case m of JObj ob \<Rightarrow> JObj (odel k ob) | _ \<Rightarrow> m)"

fun find_index :: "('a \<Rightarrow> bool) \<Rightarrow> 'a list \<Rightarrow> nat option" where
  "find_index P [] = None"
| "find_index P (x # xs) = (if P x then Some 0 else map_option Suc (find_index P xs))"

abbreviation find_message :: "jsval \<Rightarrow> jsval list \<Rightarrow> nat option" where
  "find_message i ms \<equiv> find_index (\<lambda>m. jget m ''id'' = i) ms"

text \<open>Assignment at an index, which extends a shorter array with holes.\<close>

definition set_at :: "nat \<Rightarrow> jsval \<Rightarrow> jsval list \<Rightarrow> jsval list" where
  "set_at n v xs = (if n < length xs then xs[n := v] else xs @ replicate (n - length xs) JUndef @ [v])"

definition holds_call :: "jsval \<Rightarrow> jsval \<Rightarrow> bool" where
  "holds_call i m = list_ex (\<lambda>tc. jget tc ''id'' = i) (arr_items (jget m ''toolCalls''))"

definition strip_message_tag :: "jsval \<Rightarrow> jsval" where
  "strip_message_tag m = (if jget m ''subagentRunId'' = JNull then jdel ''subagentRunId'' m else m)"

definition present_prop :: "string \<Rightarrow> jsval \<Rightarrow> jsobj" where
  "present_prop k v = (if nullish v then [] else [(k, v)])"

definition content_text :: "jsval \<Rightarrow> string" where
  "content_text m = (case jget m ''content'' of JStr s \<Rightarrow> s | _ \<Rightarrow> [])"

text \<open>The assistant message a tool call attaches to: its index, and the messages with it added if it is new.\<close>

definition resolveOrCreateAssistantMessage ::
  "jsval list \<Rightarrow> jsval \<Rightarrow> jsval \<Rightarrow> nat \<times> jsval list" where
  "resolveOrCreateAssistantMessage messages parentMessageId toolCallId =
     (let create = (\<lambda>i. (length messages,
            messages @ [JObj [(''id'', i), (''role'', JStr ''assistant''), (''toolCalls'', JArr [])]])) in
      if truthy parentMessageId
      then (case find_message parentMessageId messages of
              Some n \<Rightarrow> (if jget (messages ! n) ''role'' = JStr ''assistant'' then (n, messages)
                         else create toolCallId)
            | None \<Rightarrow> create parentMessageId)
      else create toolCallId)"

definition applyEventMetadata :: "jsval \<Rightarrow> event \<Rightarrow> jsval \<times> bool" where
  "applyEventMetadata target ev =
     (if field ev ''metadata'' = JUndef then (target, False)
      else (jset ''metadata'' (mergeMetadata (jget target ''metadata'') (field ev ''metadata'')) target, True))"

subsection \<open>State\<close>

record 'w rstate =
  messages :: "jsval list"
  state :: jsval
  curMessages :: "jsval list option"
  curState :: "jsval option"
  runToolCallIds :: "jsval list"
  answeredToolCallIds :: "jsval list"
  pendingInterrupts :: "jsval list"
  world :: 'w

text \<open>What the reducer is run with: the environment flag of the subscriber loop, the subscribers, and JSON Patch, which
  fails with \<open>None\<close>.\<close>

record 'w renv =
  test_env :: bool
  subscribers :: "'w subscriber list"
  applyPatch :: "jsval \<Rightarrow> jsval \<Rightarrow> jsval option"

datatype apply_error =
    SubscriberTypeError
  | NotificationRejected
  | MustBeTransformed event_type
  | NotAnArray string jsval

text \<open>What is emitted: the messages and the state that changed.\<close>

type_synonym update = "jsval list option \<times> jsval option"

definition init_rstate :: "jsval list \<Rightarrow> jsval \<Rightarrow> jsval list \<Rightarrow> 'w \<Rightarrow> 'w rstate" where
  "init_rstate ms st interrupts w = \<lparr>messages = ms, state = st, curMessages = None, curState = None,
     runToolCallIds = [], answeredToolCallIds = [], pendingInterrupts = interrupts, world = w\<rparr>"

definition applyMutation :: "jsval list option \<Rightarrow> jsval option \<Rightarrow> 'w rstate \<Rightarrow> 'w rstate" where
  "applyMutation ms st rs =
     (let rs1 = (case ms of Some l \<Rightarrow> rs\<lparr>messages := l, curMessages := Some l\<rparr> | None \<Rightarrow> rs) in
      case st of
        Some s \<Rightarrow> (if s = JUndef then rs1 else rs1\<lparr>state := s, curState := Some s\<rparr>)
      | None \<Rightarrow> rs1)"

definition set_messages :: "jsval list \<Rightarrow> 'w rstate \<Rightarrow> 'w rstate" where
  "set_messages ms rs = applyMutation (Some ms) None rs"

definition emitUpdates :: "'w rstate \<Rightarrow> 'w rstate \<times> update list" where
  "emitUpdates rs =
     (rs\<lparr>curMessages := None, curState := None\<rparr>,
      if curMessages rs = None \<and> curState rs = None then [] else [(curMessages rs, curState rs)])"

definition emit :: "'w rstate \<Rightarrow> apply_error + 'w rstate \<times> update list" where
  "emit rs = Inr (emitUpdates rs)"

text \<open>A hook and the mutation it leads to: the next state, whether propagation was stopped, and whether the message
  array was replaced.\<close>

record hook_outcome =
  stopped :: bool
  replaced :: bool

definition call_hook ::
  "'w renv \<Rightarrow> hook \<Rightarrow> event \<Rightarrow> jsval list \<Rightarrow> 'w rstate \<Rightarrow> apply_error + 'w rstate \<times> hook_outcome" where
  "call_hook env h ev args rs =
     (case runSubscribersWithMutation (test_env env) (subscribers env)
             \<lparr>hk = h, hk_event = ev, hk_args = args\<rparr> (world rs) (messages rs) (state rs) of
        None \<Rightarrow> Inl SubscriberTypeError
      | Some (w, m) \<Rightarrow>
          Inr (applyMutation (mut_messages m) (mut_state m) (rs\<lparr>world := w\<rparr>),
               \<lparr>stopped = (mut_stop m = Some True), replaced = (mut_messages m \<noteq> None)\<rparr>))"

definition notify :: "'w renv \<Rightarrow> hook \<Rightarrow> event \<Rightarrow> jsval list \<Rightarrow> 'w rstate \<Rightarrow> apply_error + 'w rstate" where
  "notify env h ev args rs =
     (case notify_all (subscribers env) \<lparr>hk = h, hk_event = ev, hk_args = args\<rparr> (world rs) (messages rs) (state rs) of
        None \<Rightarrow> Inl NotificationRejected
      | Some w \<Rightarrow> Inr (rs\<lparr>world := w\<rparr>))"

text \<open>The handlers that only call their hook.\<close>

definition ap_hook_only :: "hook \<Rightarrow> 'w renv \<Rightarrow> 'w rstate \<Rightarrow> event \<Rightarrow> apply_error + 'w rstate \<times> update list" where
  "ap_hook_only h env rs ev = andThen (call_hook env h ev [] rs) (\<lambda>(rs1, _). emit rs1)"

subsection \<open>Text and reasoning messages\<close>

text \<open>The new message of a start event; \<open>extra\<close> is the name a text message may carry.\<close>

definition start_message :: "jsval \<Rightarrow> jsval \<Rightarrow> jsobj \<Rightarrow> jsval \<Rightarrow> jsval" where
  "start_message messageId role extra subagentRunId =
     JObj ([(''id'', messageId), (''role'', role), (''content'', JStr [])] @ extra @
           present_prop ''subagentRunId'' subagentRunId)"

definition open_message :: "jsval \<Rightarrow> event \<Rightarrow> jsval list \<Rightarrow> jsval list option" where
  "open_message fresh ev ms =
     (case find_message (field ev ''messageId'') ms of
        None \<Rightarrow> Some (ms @ [fst (applyEventMetadata fresh ev)])
      | Some n \<Rightarrow>
          (if jget (ms ! n) ''role'' = JStr ''activity'' then None
           else if snd (applyEventMetadata (ms ! n) ev)
           then Some (ms[n := fst (applyEventMetadata (ms ! n) ev)]) else None))"

definition ap_text_message_start :: "'w renv \<Rightarrow> 'w rstate \<Rightarrow> event \<Rightarrow> apply_error + 'w rstate \<times> update list" where
  "ap_text_message_start env rs ev =
     andThen (call_hook env OnTextMessageStart ev [] rs) (\<lambda>(rs1, h).
       if stopped h then emit rs1
       else
         (let role = (if field ev ''role'' = JUndef then JStr ''assistant'' else field ev ''role'');
              fresh = start_message (field ev ''messageId'') role (opt_prop ''name'' (field ev ''name'')) (tag_of ev)
          in case open_message fresh ev (messages rs1) of
               Some ms \<Rightarrow> emit (set_messages ms rs1)
             | None \<Rightarrow> emit rs1))"

definition append_content :: "event \<Rightarrow> jsval \<Rightarrow> jsval" where
  "append_content ev m =
     fst (applyEventMetadata (jset ''content'' (JStr (content_text m @ js_string (field ev ''delta''))) m) ev)"

text \<open>A content event: the target is resolved before the hook runs.\<close>

definition ap_content :: "hook \<Rightarrow> 'w renv \<Rightarrow> 'w rstate \<Rightarrow> event \<Rightarrow> apply_error + 'w rstate \<times> update list" where
  "ap_content h env rs ev =
     (case find_message (field ev ''messageId'') (messages rs) of
        None \<Rightarrow> emit rs
      | Some n \<Rightarrow>
          (if jget (messages rs ! n) ''role'' = JStr ''activity'' then emit rs
           else andThen (call_hook env h ev [JStr (content_text (messages rs ! n))] rs) (\<lambda>(rs1, h).
             if stopped h then emit rs1
             else emit (set_messages
               (if replaced h then messages rs1
                else (messages rs1)[n := append_content ev (messages rs1 ! n)]) rs1))))"

definition ap_text_message_content :: "'w renv \<Rightarrow> 'w rstate \<Rightarrow> event \<Rightarrow> apply_error + 'w rstate \<times> update list" where
  "ap_text_message_content = ap_content OnTextMessageContent"

text \<open>An end event: metadata is merged into the target the hook was shown, and the message is announced.\<close>

definition ap_end :: "hook \<Rightarrow> 'w renv \<Rightarrow> 'w rstate \<Rightarrow> event \<Rightarrow> apply_error + 'w rstate \<times> update list" where
  "ap_end h env rs ev =
     (case find_message (field ev ''messageId'') (messages rs) of
        None \<Rightarrow> emit rs
      | Some n \<Rightarrow>
          (let target = messages rs ! n in
           if jget target ''role'' = JStr ''activity'' then emit rs
           else andThen (call_hook env h ev [JStr (content_text target)] rs) (\<lambda>(rs1, h).
             let merged = applyEventMetadata target ev;
                 target' = (if stopped h then target else fst merged);
                 rs2 = (if \<not> stopped h \<and> snd merged
                        then set_messages (if replaced h then messages rs1 else (messages rs1)[n := fst merged]) rs1
                        else rs1)
             in andThen (notify env OnNewMessage ev [target'] rs2) emit)))"

definition ap_text_message_end :: "'w renv \<Rightarrow> 'w rstate \<Rightarrow> event \<Rightarrow> apply_error + 'w rstate \<times> update list" where
  "ap_text_message_end = ap_end OnTextMessageEnd"

definition ap_reasoning_message_start :: "'w renv \<Rightarrow> 'w rstate \<Rightarrow> event \<Rightarrow> apply_error + 'w rstate \<times> update list" where
  "ap_reasoning_message_start env rs ev =
     andThen (call_hook env OnReasoningMessageStart ev [] rs) (\<lambda>(rs1, h).
       if stopped h then emit rs1
       else
         (case open_message (start_message (field ev ''messageId'') (JStr ''reasoning'') [] (tag_of ev)) ev (messages rs1) of
            Some ms \<Rightarrow> emit (set_messages ms rs1)
          | None \<Rightarrow> emit rs1))"

definition ap_reasoning_message_content :: "'w renv \<Rightarrow> 'w rstate \<Rightarrow> event \<Rightarrow> apply_error + 'w rstate \<times> update list" where
  "ap_reasoning_message_content = ap_content OnReasoningMessageContent"

definition ap_reasoning_message_end :: "'w renv \<Rightarrow> 'w rstate \<Rightarrow> event \<Rightarrow> apply_error + 'w rstate \<times> update list" where
  "ap_reasoning_message_end = ap_end OnReasoningMessageEnd"

subsection \<open>Tool calls\<close>

definition call_at :: "jsval \<Rightarrow> nat \<Rightarrow> jsval" where
  "call_at m c = arr_items (jget m ''toolCalls'') ! c"

definition set_call :: "nat \<Rightarrow> jsval \<Rightarrow> jsval \<Rightarrow> jsval" where
  "set_call c tc m = jset ''toolCalls'' (JArr ((arr_items (jget m ''toolCalls''))[c := tc])) m"

text \<open>The tool call of an id: the first message that holds it, and its place there.\<close>

definition find_call :: "jsval \<Rightarrow> jsval list \<Rightarrow> (nat \<times> nat) option" where
  "find_call i ms =
     (case find_index (holds_call i) ms of
        None \<Rightarrow> None
      | Some n \<Rightarrow>
          (case find_index (\<lambda>tc. jget tc ''id'' = i) (arr_items (jget (ms ! n) ''toolCalls'')) of
             None \<Rightarrow> None
           | Some c \<Rightarrow> Some (n, c)))"

definition update_call :: "(nat \<times> nat) \<Rightarrow> jsval \<Rightarrow> jsval list \<Rightarrow> jsval list" where
  "update_call nc tc ms = ms[fst nc := set_call (snd nc) tc (ms ! fst nc)]"

definition call_function :: "jsval \<Rightarrow> string \<Rightarrow> jsval" where
  "call_function tc k = jget (jget tc ''function'') k"

definition set_call_function :: "string \<Rightarrow> jsval \<Rightarrow> jsval \<Rightarrow> jsval" where
  "set_call_function k v tc = jset ''function'' (jset k v (jget tc ''function'')) tc"

definition new_tool_call :: "event \<Rightarrow> jsval" where
  "new_tool_call ev =
     fst (applyEventMetadata
       (JObj [(''id'', field ev ''toolCallId''), (''type'', JStr ''function''),
              (''function'', JObj [(''name'', field ev ''toolCallName''), (''arguments'', JStr [])])]) ev)"

definition rename_call :: "event \<Rightarrow> jsval \<Rightarrow> jsval \<times> bool" where
  "rename_call ev tc =
     (if call_function tc ''name'' \<noteq> field ev ''toolCallName''
      then (set_call_function ''name'' (field ev ''toolCallName'') tc, True) else (tc, False))"

text \<open>The message list with a new call attached to its assistant message.\<close>

definition attach_call :: "event \<Rightarrow> jsval list \<Rightarrow> jsval list" where
  "attach_call ev ms =
     (let (n, ms') = resolveOrCreateAssistantMessage ms (field ev ''parentMessageId'') (field ev ''toolCallId'');
          target = ms' ! n;
          wasCreated = (jget target ''id'' \<notin> set (map (\<lambda>m. jget m ''id'') ms));
          target1 = (if wasCreated \<and> \<not> nullish (tag_of ev) \<and> jget target ''subagentRunId'' = JUndef
                     then jset ''subagentRunId'' (tag_of ev) target else target);
          calls = arr_items (jget target1 ''toolCalls'')
      in ms'[n := jset ''toolCalls'' (JArr (calls @ [new_tool_call ev])) target1])"

definition ap_tool_call_start :: "'w renv \<Rightarrow> 'w rstate \<Rightarrow> event \<Rightarrow> apply_error + 'w rstate \<times> update list" where
  "ap_tool_call_start env rs ev =
     andThen (call_hook env OnToolCallStart ev [] rs) (\<lambda>(rs1, h).
       if stopped h then emit rs1
       else
         (let rs2 = rs1\<lparr>runToolCallIds := set_add (field ev ''toolCallId'') (runToolCallIds rs1)\<rparr>;
              ms = messages rs2
          in case find_call (field ev ''toolCallId'') ms of
               Some nc \<Rightarrow>
                 (let (tc1, renamed) = rename_call ev (call_at (ms ! fst nc) (snd nc));
                      (tc2, merged) = applyEventMetadata tc1 ev
                  in emit (if merged \<or> renamed then set_messages (update_call nc tc2 ms) rs2 else rs2))
             | None \<Rightarrow> emit (set_messages (attach_call ev ms) rs2)))"

definition append_arguments :: "event \<Rightarrow> jsval \<Rightarrow> jsval" where
  "append_arguments ev tc =
     fst (applyEventMetadata
       (set_call_function ''arguments''
          (JStr (js_string (call_function tc ''arguments'') @ js_string (field ev ''delta''))) tc) ev)"

definition ap_tool_call_args :: "'w renv \<Rightarrow> 'w rstate \<Rightarrow> event \<Rightarrow> apply_error + 'w rstate \<times> update list" where
  "ap_tool_call_args env rs ev =
     (case find_call (field ev ''toolCallId'') (messages rs) of
        None \<Rightarrow> emit rs
      | Some nc \<Rightarrow>
          (let tc = call_at (messages rs ! fst nc) (snd nc) in
           andThen (call_hook env OnToolCallArgs ev [call_function tc ''arguments'', call_function tc ''name''] rs)
             (\<lambda>(rs1, h).
               if stopped h then emit rs1
               else emit (set_messages
                 (if replaced h then messages rs1 else update_call nc (append_arguments ev tc) (messages rs1)) rs1))))"

definition ap_tool_call_end :: "'w renv \<Rightarrow> 'w rstate \<Rightarrow> event \<Rightarrow> apply_error + 'w rstate \<times> update list" where
  "ap_tool_call_end env rs ev =
     (case find_call (field ev ''toolCallId'') (messages rs) of
        None \<Rightarrow> emit rs
      | Some nc \<Rightarrow>
          (let tc = call_at (messages rs ! fst nc) (snd nc) in
           andThen (call_hook env OnToolCallEnd ev [call_function tc ''name'', call_function tc ''arguments''] rs)
             (\<lambda>(rs1, h).
               let merged = applyEventMetadata tc ev;
                   tc' = (if stopped h then tc else fst merged);
                   rs2 = (if \<not> stopped h \<and> snd merged
                          then set_messages
                            (if replaced h then messages rs1 else update_call nc (fst merged) (messages rs1)) rs1
                          else rs1)
               in andThen (notify env OnNewToolCall ev [tc'] rs2) emit)))"

subsection \<open>Tool results\<close>

definition is_tool_result :: "event \<Rightarrow> jsval \<Rightarrow> bool" where
  "is_tool_result ev m \<longleftrightarrow> jget m ''id'' = field ev ''messageId'' \<and> jget m ''role'' = JStr ''tool'' \<and>
     jget m ''toolCallId'' = field ev ''toolCallId''"

definition tool_message :: "event \<Rightarrow> jsobj \<Rightarrow> jsval" where
  "tool_message ev base =
     (let ob = spread base
            ([(''id'', field ev ''messageId''), (''toolCallId'', field ev ''toolCallId''),
              (''role'', if truthy (field ev ''role'') then field ev ''role'' else JStr ''tool''),
              (''content'', field ev ''content'')] @ present_prop ''subagentRunId'' (tag_of ev));
          ob' = (if nullish (tag_of ev) then odel ''subagentRunId'' ob else ob)
      in fst (applyEventMetadata (JObj ob') ev))"

text \<open>The backward scan for the message that owns the call; the counter is the number of entries still to look at.\<close>

fun find_owner :: "jsval list \<Rightarrow> jsval \<Rightarrow> nat \<Rightarrow> nat option \<Rightarrow> bool \<Rightarrow> nat option" where
  "find_owner ms i 0 newestHolder answered = newestHolder"
| "find_owner ms i (Suc index) newestHolder answered =
     (if roleOf (ms ! index) = JStr ''tool'' \<and> jget (ms ! index) ''toolCallId'' = i
      then find_owner ms i index newestHolder True
      else if i \<in> JStr ` set (issuedCallIds (ms ! index))
      then (if \<not> answered then Some index
            else find_owner ms i index (if newestHolder = None then Some index else newestHolder) False)
      else find_owner ms i index newestHolder answered)"

definition skipped :: "jsval \<Rightarrow> bool" where
  "skipped m \<longleftrightarrow> (\<not> is_object m \<and> m \<noteq> JNull) \<or> roleOf m = JStr ''tool'' \<or> roleOf m = JStr ''activity''"

definition insert_result :: "jsval \<Rightarrow> jsval \<Rightarrow> jsval list \<Rightarrow> jsval list" where
  "insert_result i toolMessage ms =
     (case find_owner ms i (length ms) None False of
        None \<Rightarrow> ms @ [toolMessage]
      | Some k \<Rightarrow>
          (let behind = drop (Suc k) ms in
           take (Suc k) ms @ takeWhile skipped behind @ [toolMessage] @ dropWhile skipped behind))"

definition ap_tool_call_result :: "'w renv \<Rightarrow> 'w rstate \<Rightarrow> event \<Rightarrow> apply_error + 'w rstate \<times> update list" where
  "ap_tool_call_result env rs ev =
     andThen (call_hook env OnToolCallResult ev [] rs) (\<lambda>(rs1, h).
       if stopped h then emit rs1
       else
         (let rs2 = rs1\<lparr>answeredToolCallIds := set_add (field ev ''toolCallId'') (answeredToolCallIds rs1)\<rparr>;
              ms = messages rs2
          in case find_index (is_tool_result ev) ms of
               Some n \<Rightarrow> emit (set_messages (ms[n := tool_message ev (own_props (ms ! n))]) rs2)
             | None \<Rightarrow>
                 (let toolMessage = tool_message ev [];
                      ms' = insert_result (field ev ''toolCallId'') toolMessage ms
                  in andThen (notify env OnNewMessage ev [toolMessage] (rs2\<lparr>messages := ms'\<rparr>))
                       (\<lambda>rs3. emit (set_messages ms' rs3)))))"

subsection \<open>State and snapshots\<close>

definition ap_state_snapshot :: "'w renv \<Rightarrow> 'w rstate \<Rightarrow> event \<Rightarrow> apply_error + 'w rstate \<times> update list" where
  "ap_state_snapshot env rs ev =
     andThen (call_hook env OnStateSnapshot ev [] rs) (\<lambda>(rs1, h).
       if stopped h then emit rs1
       else emit (applyMutation None (Some (field ev ''snapshot'')) (rs1\<lparr>state := field ev ''snapshot''\<rparr>)))"

definition ap_state_delta :: "'w renv \<Rightarrow> 'w rstate \<Rightarrow> event \<Rightarrow> apply_error + 'w rstate \<times> update list" where
  "ap_state_delta env rs ev =
     andThen (call_hook env OnStateDelta ev [] rs) (\<lambda>(rs1, h).
       if stopped h then emit rs1
       else case applyPatch env (state rs1) (field ev ''delta'') of
         Some doc \<Rightarrow> emit (applyMutation None (Some doc) (rs1\<lparr>state := doc\<rparr>))
       | None \<Rightarrow> emit rs1)"

definition snapshot_get :: "jsval list \<Rightarrow> jsval \<Rightarrow> jsval option" where
  "snapshot_get new i = map_of (rev (map (\<lambda>m. (jget m ''id'', m)) new)) i"

definition isPreservedClientOnly :: "event \<Rightarrow> jsval list \<Rightarrow> jsval \<Rightarrow> bool" where
  "isPreservedClientOnly ev new m \<longleftrightarrow>
     (jget m ''role'' = JStr ''activity'' \<and>
       (case authoritativeActivityTypes ev of
          OwnTypes types \<Rightarrow> jget m ''activityType'' \<notin> JStr ` set types
        | AllTypes \<Rightarrow> False
        | Undeclared \<Rightarrow> \<not> list_ex (\<lambda>m. jget m ''role'' = JStr ''activity'') new)) \<or>
     (jget m ''role'' = JStr ''reasoning'' \<and> \<not> list_ex (\<lambda>m. jget m ''role'' = JStr ''reasoning'') new)"

definition merge_snapshot :: "event \<Rightarrow> jsval list \<Rightarrow> jsval list \<Rightarrow> jsval list" where
  "merge_snapshot ev new ms =
     (let kept = map (\<lambda>m. case snapshot_get new (jget m ''id'') of Some m' \<Rightarrow> m' | None \<Rightarrow> m)
            (filter (\<lambda>m. snapshot_get new (jget m ''id'') \<noteq> None \<or> isPreservedClientOnly ev new m) ms);
          existingIds = set (map (\<lambda>m. jget m ''id'') kept)
      in keepToolResultsWithCalls (kept @ filter (\<lambda>m. jget m ''id'' \<notin> existingIds) new))"

definition ap_messages_snapshot :: "'w renv \<Rightarrow> 'w rstate \<Rightarrow> event \<Rightarrow> apply_error + 'w rstate \<times> update list" where
  "ap_messages_snapshot env rs ev =
     andThen (call_hook env OnMessagesSnapshot ev [] rs) (\<lambda>(rs1, h).
       if stopped h then emit rs1
       else case field ev ''messages'' of
         JArr raw \<Rightarrow> emit (set_messages (merge_snapshot ev (map strip_message_tag raw) (messages rs1)) rs1)
       | v \<Rightarrow> Inl (NotAnArray ''messages'' v))"

subsection \<open>Activities\<close>

definition activity_message :: "event \<Rightarrow> jsval" where
  "activity_message ev =
     JObj ([(''id'', field ev ''messageId''), (''role'', JStr ''activity''),
            (''activityType'', field ev ''activityType''), (''content'', field ev ''content'')] @
           present_prop ''subagentRunId'' (tag_of ev))"

definition replaced_activity :: "event \<Rightarrow> jsval \<Rightarrow> jsval" where
  "replaced_activity ev m =
     (let ob = spread (own_props m)
            [(''activityType'', field ev ''activityType''), (''content'', field ev ''content''),
             (''subagentRunId'', tag_of ev)]
      in JObj (if nullish (tag_of ev) then odel ''subagentRunId'' ob else ob))"

definition merge_at :: "event \<Rightarrow> nat \<Rightarrow> jsval list \<Rightarrow> jsval list" where
  "merge_at ev n ms = (if n < length ms then ms[n := fst (applyEventMetadata (ms ! n) ev)] else ms)"

text \<open>The messages after an activity snapshot, and the message it created, if any. The existing message was looked up before
  the hook ran; the index is used on the current list.\<close>

definition put_activity ::
  "event \<Rightarrow> (nat \<times> jsval) option \<Rightarrow> jsval list \<Rightarrow> jsval list \<times> jsval option" where
  "put_activity ev existing ms =
     (let fresh = fst (applyEventMetadata (activity_message ev) ev);
          replace = (nullish (field ev ''replace'') \<or> truthy (field ev ''replace''))
      in case existing of
           None \<Rightarrow> (ms @ [fresh], Some fresh)
         | Some (n, m) \<Rightarrow>
             (if jget m ''role'' = JStr ''activity''
              then (merge_at ev n (if replace then set_at n (replaced_activity ev m) ms else ms), None)
              else if replace then (set_at n fresh ms, Some fresh)
              else (ms, None)))"

definition ap_activity_snapshot :: "'w renv \<Rightarrow> 'w rstate \<Rightarrow> event \<Rightarrow> apply_error + 'w rstate \<times> update list" where
  "ap_activity_snapshot env rs ev =
     (let existing = map_option (\<lambda>n. (n, messages rs ! n)) (find_message (field ev ''messageId'') (messages rs)) in
      andThen (call_hook env OnActivitySnapshot ev
          [case existing of Some (_, m) \<Rightarrow> m | None \<Rightarrow> JUndef] rs) (\<lambda>(rs1, h).
        if stopped h then emit rs1
        else
          (let (ms', created) = put_activity ev existing (messages rs1);
               rs2 = set_messages ms' rs1
           in case created of
                Some m \<Rightarrow> andThen (notify env OnNewMessage ev [m] rs2) emit
              | None \<Rightarrow> emit rs2)))"

definition patched_activity :: "event \<Rightarrow> jsval \<Rightarrow> jsval \<Rightarrow> jsval" where
  "patched_activity ev doc m =
     JObj (spread (own_props m)
       [(''content'', doc), (''activityType'', field ev ''activityType'')])"

definition ap_activity_delta :: "'w renv \<Rightarrow> 'w rstate \<Rightarrow> event \<Rightarrow> apply_error + 'w rstate \<times> update list" where
  "ap_activity_delta env rs ev =
     (case find_message (field ev ''messageId'') (messages rs) of
        None \<Rightarrow> emit rs
      | Some n \<Rightarrow>
          (let existing = messages rs ! n in
           if jget existing ''role'' \<noteq> JStr ''activity'' then emit rs
           else andThen (call_hook env OnActivityDelta ev [existing] rs) (\<lambda>(rs1, h).
             if stopped h then emit rs1
             else
               (let (merged, changed) = applyEventMetadata existing ev;
                    rs2 = (if changed
                           then set_messages (if replaced h then messages rs1 else (messages rs1)[n := merged]) rs1
                           else rs1);
                    content = jget merged ''content'';
                    patch = field ev ''patch''
                in case applyPatch env (if nullish content then JObj [] else content)
                          (if nullish patch then JArr [] else patch) of
                     Some doc \<Rightarrow> emit (set_messages (set_at n (patched_activity ev doc merged) (messages rs2)) rs2)
                   | None \<Rightarrow> emit rs2))))"

subsection \<open>Runs\<close>

text \<open>\<^verbatim>\<open>for (const x of v)\<close>: an array, or the characters of a string.\<close>

definition iterate :: "jsval \<Rightarrow> jsval list option" where
  "iterate v = (case v of JArr vs \<Rightarrow> Some vs | JStr s \<Rightarrow> Some (map (\<lambda>c. JStr [c]) s) | _ \<Rightarrow> None)"

fun add_missing :: "jsval list \<Rightarrow> jsval list \<Rightarrow> jsval list" where
  "add_missing [] ms = ms"
| "add_missing (raw # raws) ms =
     (let m = strip_message_tag raw in
      add_missing raws (if find_message (jget m ''id'') ms = None then ms @ [m] else ms))"

definition ap_run_started :: "'w renv \<Rightarrow> 'w rstate \<Rightarrow> event \<Rightarrow> apply_error + 'w rstate \<times> update list" where
  "ap_run_started env rs ev =
     andThen (call_hook env OnRunStarted ev [] rs) (\<lambda>(rs1, h).
       (let rs2 = rs1\<lparr>runToolCallIds := [], answeredToolCallIds := []\<rparr>;
            input = jget (field ev ''input'') ''messages''
        in if stopped h \<or> \<not> truthy input then emit rs2
           else case iterate input of
             Some raws \<Rightarrow> emit (set_messages (add_missing raws (messages rs2)) rs2)
           | None \<Rightarrow> Inl (NotAnArray ''input.messages'' input)))"

definition pendingToolCallIdsOf :: "'w rstate \<Rightarrow> event \<Rightarrow> jsval list" where
  "pendingToolCallIdsOf rs ev =
     (let outcome = field ev ''outcome'';
          named = (if jget outcome ''type'' = JStr ''success''
                   then arr_items (jget outcome ''pendingToolCallIds'') else [])
      in if named \<noteq> [] then named
         else filter (\<lambda>i. i \<notin> set (answeredToolCallIds rs)) (runToolCallIds rs))"

definition finished_args :: "'w rstate \<Rightarrow> event \<Rightarrow> jsval list" where
  "finished_args rs ev =
     (let outcome = field ev ''outcome''; t = jget outcome ''type'' in
      if t = JStr ''interrupt'' then [t, jget outcome ''interrupts'']
      else if t = JStr ''cancelled'' then [t]
      else [JStr ''success'', field ev ''result'', JArr (pendingToolCallIdsOf rs ev)])"

definition ap_run_finished :: "'w renv \<Rightarrow> 'w rstate \<Rightarrow> event \<Rightarrow> apply_error + 'w rstate \<times> update list" where
  "ap_run_finished env rs ev =
     andThen (call_hook env OnRunFinished ev (finished_args rs ev) rs) (\<lambda>(rs1, h).
       if stopped h then emit rs1
       else if jget (field ev ''outcome'') ''type'' = JStr ''interrupt''
       then (case jget (field ev ''outcome'') ''interrupts'' of
               JArr interrupts \<Rightarrow> emit (rs1\<lparr>pendingInterrupts := map strip_message_tag interrupts\<rparr>)
             | v \<Rightarrow> Inl (NotAnArray ''interrupts'' v))
       else emit (rs1\<lparr>pendingInterrupts := []\<rparr>))"

definition set_encrypted :: "event \<Rightarrow> jsval list \<Rightarrow> jsval list option" where
  "set_encrypted ev ms =
     (let i = field ev ''entityId''; v = field ev ''encryptedValue'' in
      if field ev ''subtype'' = JStr ''tool-call''
      then (case find_index (\<lambda>m. jget m ''role'' = JStr ''assistant'' \<and> holds_call i m) ms of
              None \<Rightarrow> None
            | Some n \<Rightarrow>
                (case find_index (\<lambda>tc. jget tc ''id'' = i) (arr_items (jget (ms ! n) ''toolCalls'')) of
                   None \<Rightarrow> None
                 | Some c \<Rightarrow> Some (update_call (n, c) (jset ''encryptedValue'' v (call_at (ms ! n) c)) ms)))
      else (case find_message i ms of
              None \<Rightarrow> None
            | Some n \<Rightarrow>
                (if jget (ms ! n) ''role'' = JStr ''activity'' then None
                 else Some (ms[n := jset ''encryptedValue'' v (ms ! n)]))))"

definition ap_reasoning_encrypted_value ::
  "'w renv \<Rightarrow> 'w rstate \<Rightarrow> event \<Rightarrow> apply_error + 'w rstate \<times> update list" where
  "ap_reasoning_encrypted_value env rs ev =
     andThen (call_hook env OnReasoningEncryptedValue ev [] rs) (\<lambda>(rs1, h).
       if stopped h then emit rs1
       else case set_encrypted ev (messages rs1) of
         Some ms \<Rightarrow> emit (set_messages ms rs1)
       | None \<Rightarrow> emit rs1)"

subsection \<open>The operator\<close>

definition apply_dispatch :: "'w renv \<Rightarrow> 'w rstate \<Rightarrow> event \<Rightarrow> apply_error + 'w rstate \<times> update list" where
  "apply_dispatch env rs ev = (case ev_type ev of
     TEXT_MESSAGE_START \<Rightarrow> ap_text_message_start env rs ev
   | TEXT_MESSAGE_CONTENT \<Rightarrow> ap_text_message_content env rs ev
   | TEXT_MESSAGE_END \<Rightarrow> ap_text_message_end env rs ev
   | TOOL_CALL_START \<Rightarrow> ap_tool_call_start env rs ev
   | TOOL_CALL_ARGS \<Rightarrow> ap_tool_call_args env rs ev
   | TOOL_CALL_END \<Rightarrow> ap_tool_call_end env rs ev
   | TOOL_CALL_RESULT \<Rightarrow> ap_tool_call_result env rs ev
   | STATE_SNAPSHOT \<Rightarrow> ap_state_snapshot env rs ev
   | STATE_DELTA \<Rightarrow> ap_state_delta env rs ev
   | MESSAGES_SNAPSHOT \<Rightarrow> ap_messages_snapshot env rs ev
   | ACTIVITY_SNAPSHOT \<Rightarrow> ap_activity_snapshot env rs ev
   | ACTIVITY_DELTA \<Rightarrow> ap_activity_delta env rs ev
   | RAW \<Rightarrow> ap_hook_only OnRaw env rs ev
   | CUSTOM \<Rightarrow> ap_hook_only OnCustom env rs ev
   | RUN_STARTED \<Rightarrow> ap_run_started env rs ev
   | RUN_FINISHED \<Rightarrow> ap_run_finished env rs ev
   | RUN_ERROR \<Rightarrow> ap_hook_only OnRunError env rs ev
   | STEP_STARTED \<Rightarrow> ap_hook_only OnStepStarted env rs ev
   | STEP_FINISHED \<Rightarrow> ap_hook_only OnStepFinished env rs ev
   | TEXT_MESSAGE_CHUNK \<Rightarrow> Inl (MustBeTransformed TEXT_MESSAGE_CHUNK)
   | TOOL_CALL_CHUNK \<Rightarrow> Inl (MustBeTransformed TOOL_CALL_CHUNK)
   | REASONING_MESSAGE_CHUNK \<Rightarrow> Inl (MustBeTransformed REASONING_MESSAGE_CHUNK)
   | REASONING_START \<Rightarrow> ap_hook_only OnReasoningStart env rs ev
   | REASONING_MESSAGE_START \<Rightarrow> ap_reasoning_message_start env rs ev
   | REASONING_MESSAGE_CONTENT \<Rightarrow> ap_reasoning_message_content env rs ev
   | REASONING_MESSAGE_END \<Rightarrow> ap_reasoning_message_end env rs ev
   | REASONING_END \<Rightarrow> ap_hook_only OnReasoningEnd env rs ev
   | REASONING_ENCRYPTED_VALUE \<Rightarrow> ap_reasoning_encrypted_value env rs ev
   | SUBAGENT_STARTED \<Rightarrow> ap_hook_only OnSubagentStarted env rs ev
   | SUBAGENT_FINISHED \<Rightarrow> ap_hook_only OnSubagentFinished env rs ev
   | SUBAGENT_ERROR \<Rightarrow> ap_hook_only OnSubagentError env rs ev
   | OtherType _ \<Rightarrow> emit rs)"

definition apply_step :: "'w renv \<Rightarrow> 'w rstate \<Rightarrow> event \<Rightarrow> apply_error + 'w rstate \<times> update list" where
  "apply_step env rs ev =
     andThen (call_hook env OnEvent ev [] rs) (\<lambda>(rs1, h).
       if stopped h then emit rs1 else apply_dispatch env rs1 ev)"

text \<open>With subscribers, a stream that ends without an update emits one empty update.\<close>

definition defaultApplyEvents ::
  "'w renv \<Rightarrow> 'w rstate \<Rightarrow> event list \<Rightarrow> update list \<times> (apply_error + 'w rstate)" where
  "defaultApplyEvents env rs es =
     (let (os, r) = run_stage (apply_step env) rs es in
      case r of
        Inr rs' \<Rightarrow> (if os = [] \<and> subscribers env \<noteq> [] then [(None, None)] else os, Inr rs')
      | Inl e \<Rightarrow> (os, Inl e))"

end
