(* ===== verification/Schemas.thy ===== *)
theory Schemas
  imports Events
begin

text \<open>
  The validators of \<^verbatim>\<open>core/src/generated/schemas.ts\<close>, as values of a datatype of Zod schemas: what the enforcement
  stage takes apart. Zod itself is a library; a schema is here what its classes and definitions expose, and what
  parsing does is a parameter of the code that parses. A refinement (\<^verbatim>\<open>refine\<close>, \<^verbatim>\<open>min\<close>, \<^verbatim>\<open>regex\<close>) keeps the class
  of the schema it refines; a transformation makes a pipe, of which the input is kept.
\<close>

datatype zrefinement = NotNull | NotUndefined | MinLength nat | Matches string

datatype zschema =
    ZString
  | ZBoolean
  | ZInt int int
  | ZEnum "string list"
  | ZLiteral "jsval list"
  | ZAny
  | ZCustomObject
  | ZObject "(string \<times> zschema) list" bool
  | ZArray zschema
  | ZRecord zschema
  | ZUnion "string option" "zschema list"
  | ZOptional zschema
  | ZNullable zschema
  | ZDefault zschema jsval
  | ZReadonly zschema
  | ZCatch zschema
  | ZPipe zschema
  | ZLazy zschema
  | ZRefined zschema zrefinement

text \<open>The members of \<^verbatim>\<open>enum EventType\<close> with their strings.\<close>

definition EventType :: "(event_type \<times> string) list" where
  "EventType =
     [(TEXT_MESSAGE_START, ''TEXT_MESSAGE_START''), (TEXT_MESSAGE_CONTENT, ''TEXT_MESSAGE_CONTENT''),
      (TEXT_MESSAGE_END, ''TEXT_MESSAGE_END''), (TEXT_MESSAGE_CHUNK, ''TEXT_MESSAGE_CHUNK''), (TOOL_CALL_START, ''TOOL_CALL_START''),
      (TOOL_CALL_ARGS, ''TOOL_CALL_ARGS''), (TOOL_CALL_END, ''TOOL_CALL_END''), (TOOL_CALL_CHUNK, ''TOOL_CALL_CHUNK''),
      (TOOL_CALL_RESULT, ''TOOL_CALL_RESULT''), (STATE_SNAPSHOT, ''STATE_SNAPSHOT''), (STATE_DELTA, ''STATE_DELTA''),
      (MESSAGES_SNAPSHOT, ''MESSAGES_SNAPSHOT''), (ACTIVITY_SNAPSHOT, ''ACTIVITY_SNAPSHOT''), (ACTIVITY_DELTA, ''ACTIVITY_DELTA''),
      (RAW, ''RAW''), (CUSTOM, ''CUSTOM''), (RUN_STARTED, ''RUN_STARTED''), (RUN_FINISHED, ''RUN_FINISHED''),
      (RUN_ERROR, ''RUN_ERROR''), (STEP_STARTED, ''STEP_STARTED''), (STEP_FINISHED, ''STEP_FINISHED''),
      (REASONING_START, ''REASONING_START''), (REASONING_MESSAGE_START, ''REASONING_MESSAGE_START''),
      (REASONING_MESSAGE_CONTENT, ''REASONING_MESSAGE_CONTENT''), (REASONING_MESSAGE_END, ''REASONING_MESSAGE_END''),
      (REASONING_MESSAGE_CHUNK, ''REASONING_MESSAGE_CHUNK''), (REASONING_END, ''REASONING_END''),
      (REASONING_ENCRYPTED_VALUE, ''REASONING_ENCRYPTED_VALUE''), (SUBAGENT_STARTED, ''SUBAGENT_STARTED''),
      (SUBAGENT_FINISHED, ''SUBAGENT_FINISHED''), (SUBAGENT_ERROR, ''SUBAGENT_ERROR'')]"

definition event_type_names :: "string list" where
  "event_type_names = map snd EventType"

subsection \<open>Validators\<close>

definition EventTypeSchema :: zschema where
  "EventTypeSchema = ZEnum event_type_names"

definition MetadataSchema :: zschema where
  "MetadataSchema = ZCustomObject"

definition SubagentRunIdSchema :: zschema where
  "SubagentRunIdSchema = ZString"

definition TextMessageRoleSchema :: zschema where
  "TextMessageRoleSchema = ZEnum [''developer'', ''system'', ''assistant'', ''user'']"

definition TextMessageStartEventSchema :: zschema where
  "TextMessageStartEventSchema = ZObject
     [(''type'', ZLiteral [JStr ''TEXT_MESSAGE_START'']), (''timestamp'', ZOptional (ZInt (- 9007199254740991) 9007199254740991)),
      (''rawEvent'', ZOptional (ZRefined ZAny NotNull)), (''metadata'', ZOptional MetadataSchema),
      (''subagentRunId'', ZOptional SubagentRunIdSchema), (''messageId'', ZString), (''role'', ZOptional TextMessageRoleSchema),
      (''name'', ZOptional ZString)] False"

definition TextMessageContentEventSchema :: zschema where
  "TextMessageContentEventSchema = ZObject
     [(''type'', ZLiteral [JStr ''TEXT_MESSAGE_CONTENT'']), (''timestamp'', ZOptional (ZInt (- 9007199254740991) 9007199254740991)),
      (''rawEvent'', ZOptional (ZRefined ZAny NotNull)), (''metadata'', ZOptional MetadataSchema),
      (''subagentRunId'', ZOptional SubagentRunIdSchema), (''messageId'', ZString), (''delta'', ZString)] False"

definition TextMessageEndEventSchema :: zschema where
  "TextMessageEndEventSchema = ZObject
     [(''type'', ZLiteral [JStr ''TEXT_MESSAGE_END'']), (''timestamp'', ZOptional (ZInt (- 9007199254740991) 9007199254740991)),
      (''rawEvent'', ZOptional (ZRefined ZAny NotNull)), (''metadata'', ZOptional MetadataSchema),
      (''subagentRunId'', ZOptional SubagentRunIdSchema), (''messageId'', ZString)] False"

definition TextMessageChunkEventSchema :: zschema where
  "TextMessageChunkEventSchema = ZObject
     [(''type'', ZLiteral [JStr ''TEXT_MESSAGE_CHUNK'']), (''timestamp'', ZOptional (ZInt (- 9007199254740991) 9007199254740991)),
      (''rawEvent'', ZOptional (ZRefined ZAny NotNull)), (''metadata'', ZOptional MetadataSchema),
      (''subagentRunId'', ZOptional SubagentRunIdSchema), (''messageId'', ZOptional ZString),
      (''role'', ZOptional TextMessageRoleSchema), (''delta'', ZOptional ZString), (''name'', ZOptional ZString)] False"

definition ToolCallStartEventSchema :: zschema where
  "ToolCallStartEventSchema = ZObject
     [(''type'', ZLiteral [JStr ''TOOL_CALL_START'']), (''timestamp'', ZOptional (ZInt (- 9007199254740991) 9007199254740991)),
      (''rawEvent'', ZOptional (ZRefined ZAny NotNull)), (''metadata'', ZOptional MetadataSchema),
      (''subagentRunId'', ZOptional SubagentRunIdSchema), (''toolCallId'', ZString), (''toolCallName'', ZString),
      (''parentMessageId'', ZOptional ZString)] False"

definition ToolCallArgsEventSchema :: zschema where
  "ToolCallArgsEventSchema = ZObject
     [(''type'', ZLiteral [JStr ''TOOL_CALL_ARGS'']), (''timestamp'', ZOptional (ZInt (- 9007199254740991) 9007199254740991)),
      (''rawEvent'', ZOptional (ZRefined ZAny NotNull)), (''metadata'', ZOptional MetadataSchema),
      (''subagentRunId'', ZOptional SubagentRunIdSchema), (''toolCallId'', ZString), (''delta'', ZString)] False"

definition ToolCallEndEventSchema :: zschema where
  "ToolCallEndEventSchema = ZObject
     [(''type'', ZLiteral [JStr ''TOOL_CALL_END'']), (''timestamp'', ZOptional (ZInt (- 9007199254740991) 9007199254740991)),
      (''rawEvent'', ZOptional (ZRefined ZAny NotNull)), (''metadata'', ZOptional MetadataSchema),
      (''subagentRunId'', ZOptional SubagentRunIdSchema), (''toolCallId'', ZString)] False"

definition ToolCallChunkEventSchema :: zschema where
  "ToolCallChunkEventSchema = ZObject
     [(''type'', ZLiteral [JStr ''TOOL_CALL_CHUNK'']), (''timestamp'', ZOptional (ZInt (- 9007199254740991) 9007199254740991)),
      (''rawEvent'', ZOptional (ZRefined ZAny NotNull)), (''metadata'', ZOptional MetadataSchema),
      (''subagentRunId'', ZOptional SubagentRunIdSchema), (''toolCallId'', ZOptional ZString), (''toolCallName'', ZOptional ZString),
      (''parentMessageId'', ZOptional ZString), (''delta'', ZOptional ZString)] False"

definition TextPartSchema :: zschema where
  "TextPartSchema = ZObject
     [(''type'', ZLiteral [JStr ''text'']), (''id'', ZOptional ZString), (''text'', ZString),
      (''metadata'', ZOptional (ZRefined ZAny NotNull))] False"

definition DataSourceSchema :: zschema where
  "DataSourceSchema = ZObject
     [(''type'', ZLiteral [JStr ''data'']), (''value'', ZString), (''mimeType'', ZString)] False"

definition UrlSourceSchema :: zschema where
  "UrlSourceSchema = ZObject
     [(''type'', ZLiteral [JStr ''url'']), (''value'', ZString), (''mimeType'', ZOptional ZString)] False"

definition FileSourceSchema :: zschema where
  "FileSourceSchema = ZObject
     [(''type'', ZLiteral [JStr ''file'']), (''value'', ZString), (''provider'', ZOptional ZString), (''mimeType'', ZOptional ZString)] False"

definition PartSourceSchema :: zschema where
  "PartSourceSchema = ZUnion (Some ''type'')
     [DataSourceSchema, UrlSourceSchema, FileSourceSchema]"

definition ImagePartSchema :: zschema where
  "ImagePartSchema = ZObject
     [(''type'', ZLiteral [JStr ''image'']), (''id'', ZOptional ZString), (''source'', PartSourceSchema),
      (''metadata'', ZOptional (ZRefined ZAny NotNull))] False"

definition AudioPartSchema :: zschema where
  "AudioPartSchema = ZObject
     [(''type'', ZLiteral [JStr ''audio'']), (''id'', ZOptional ZString), (''source'', PartSourceSchema),
      (''metadata'', ZOptional (ZRefined ZAny NotNull))] False"

definition VideoPartSchema :: zschema where
  "VideoPartSchema = ZObject
     [(''type'', ZLiteral [JStr ''video'']), (''id'', ZOptional ZString), (''source'', PartSourceSchema),
      (''metadata'', ZOptional (ZRefined ZAny NotNull))] False"

definition DocumentPartSchema :: zschema where
  "DocumentPartSchema = ZObject
     [(''type'', ZLiteral [JStr ''document'']), (''id'', ZOptional ZString), (''source'', PartSourceSchema),
      (''metadata'', ZOptional (ZRefined ZAny NotNull))] False"

definition ContentPartSchema :: zschema where
  "ContentPartSchema = ZUnion (Some ''type'')
     [TextPartSchema, ImagePartSchema, AudioPartSchema, VideoPartSchema, DocumentPartSchema]"

definition ToolCallResultEventSchema :: zschema where
  "ToolCallResultEventSchema = ZObject
     [(''type'', ZLiteral [JStr ''TOOL_CALL_RESULT'']), (''timestamp'', ZOptional (ZInt (- 9007199254740991) 9007199254740991)),
      (''rawEvent'', ZOptional (ZRefined ZAny NotNull)), (''metadata'', ZOptional MetadataSchema),
      (''subagentRunId'', ZOptional SubagentRunIdSchema), (''messageId'', ZString), (''toolCallId'', ZString),
      (''content'', ZUnion None [ZString, (ZArray ContentPartSchema)]), (''role'', ZOptional (ZLiteral [JStr ''tool'']))] False"

definition StateSchema :: zschema where
  "StateSchema = ZAny"

definition StateSnapshotEventSchema :: zschema where
  "StateSnapshotEventSchema = ZObject
     [(''type'', ZLiteral [JStr ''STATE_SNAPSHOT'']), (''timestamp'', ZOptional (ZInt (- 9007199254740991) 9007199254740991)),
      (''rawEvent'', ZOptional (ZRefined ZAny NotNull)), (''metadata'', ZOptional MetadataSchema),
      (''subagentRunId'', ZOptional SubagentRunIdSchema), (''snapshot'', ZRefined StateSchema NotUndefined)] False"

definition JsonPointerSchema :: zschema where
  "JsonPointerSchema = ZRefined ZString (Matches ''^(/([^/~]|~[01])*)*$'')"

definition AddOperationSchema :: zschema where
  "AddOperationSchema = ZObject
     [(''op'', ZLiteral [JStr ''add'']), (''path'', JsonPointerSchema), (''value'', ZRefined ZAny NotUndefined)] True"

definition RemoveOperationSchema :: zschema where
  "RemoveOperationSchema = ZObject
     [(''op'', ZLiteral [JStr ''remove'']), (''path'', JsonPointerSchema)] True"

definition ReplaceOperationSchema :: zschema where
  "ReplaceOperationSchema = ZObject
     [(''op'', ZLiteral [JStr ''replace'']), (''path'', JsonPointerSchema), (''value'', ZRefined ZAny NotUndefined)] True"

definition MoveOperationSchema :: zschema where
  "MoveOperationSchema = ZObject
     [(''op'', ZLiteral [JStr ''move'']), (''from'', JsonPointerSchema), (''path'', JsonPointerSchema)] True"

definition CopyOperationSchema :: zschema where
  "CopyOperationSchema = ZObject
     [(''op'', ZLiteral [JStr ''copy'']), (''from'', JsonPointerSchema), (''path'', JsonPointerSchema)] True"

definition TestOperationSchema :: zschema where
  "TestOperationSchema = ZObject
     [(''op'', ZLiteral [JStr ''test'']), (''path'', JsonPointerSchema), (''value'', ZRefined ZAny NotUndefined)] True"

definition JsonPatchOperationSchema :: zschema where
  "JsonPatchOperationSchema = ZUnion (Some ''op'')
     [AddOperationSchema, RemoveOperationSchema, ReplaceOperationSchema, MoveOperationSchema, CopyOperationSchema, TestOperationSchema]"

definition JsonPatchSchema :: zschema where
  "JsonPatchSchema = ZArray JsonPatchOperationSchema"

definition StateDeltaEventSchema :: zschema where
  "StateDeltaEventSchema = ZObject
     [(''type'', ZLiteral [JStr ''STATE_DELTA'']), (''timestamp'', ZOptional (ZInt (- 9007199254740991) 9007199254740991)),
      (''rawEvent'', ZOptional (ZRefined ZAny NotNull)), (''metadata'', ZOptional MetadataSchema),
      (''subagentRunId'', ZOptional SubagentRunIdSchema), (''delta'', JsonPatchSchema)] False"

definition DeveloperMessageSchema :: zschema where
  "DeveloperMessageSchema = ZObject
     [(''subagentRunId'', ZOptional SubagentRunIdSchema), (''id'', ZString), (''role'', ZLiteral [JStr ''developer'']),
      (''name'', ZOptional ZString), (''encryptedValue'', ZOptional ZString), (''metadata'', ZOptional MetadataSchema),
      (''content'', ZString)] False"

definition SystemMessageSchema :: zschema where
  "SystemMessageSchema = ZObject
     [(''subagentRunId'', ZOptional SubagentRunIdSchema), (''id'', ZString), (''role'', ZLiteral [JStr ''system'']),
      (''name'', ZOptional ZString), (''encryptedValue'', ZOptional ZString), (''metadata'', ZOptional MetadataSchema),
      (''content'', ZString)] False"

definition FunctionCallSchema :: zschema where
  "FunctionCallSchema = ZObject
     [(''name'', ZString), (''arguments'', ZString)] False"

definition ToolCallSchema :: zschema where
  "ToolCallSchema = ZObject
     [(''id'', ZString), (''type'', ZLiteral [JStr ''function'']), (''function'', FunctionCallSchema),
      (''encryptedValue'', ZOptional ZString), (''metadata'', ZOptional MetadataSchema)] False"

definition AssistantMessageSchema :: zschema where
  "AssistantMessageSchema = ZObject
     [(''subagentRunId'', ZOptional SubagentRunIdSchema), (''id'', ZString), (''role'', ZLiteral [JStr ''assistant'']),
      (''name'', ZOptional ZString), (''encryptedValue'', ZOptional ZString), (''metadata'', ZOptional MetadataSchema),
      (''content'', ZOptional ZString), (''toolCalls'', ZOptional (ZArray ToolCallSchema))] False"

definition UserMessageSchema :: zschema where
  "UserMessageSchema = ZObject
     [(''subagentRunId'', ZOptional SubagentRunIdSchema), (''id'', ZString), (''role'', ZLiteral [JStr ''user'']),
      (''name'', ZOptional ZString), (''encryptedValue'', ZOptional ZString), (''metadata'', ZOptional MetadataSchema),
      (''content'', ZUnion None [ZString, (ZArray ContentPartSchema)])] False"

definition ToolMessageSchema :: zschema where
  "ToolMessageSchema = ZObject
     [(''subagentRunId'', ZOptional SubagentRunIdSchema), (''id'', ZString), (''role'', ZLiteral [JStr ''tool'']),
      (''content'', ZUnion None [ZString, (ZArray ContentPartSchema)]), (''toolCallId'', ZString), (''error'', ZOptional ZString),
      (''encryptedValue'', ZOptional ZString), (''metadata'', ZOptional MetadataSchema)] False"

definition ActivityMessageSchema :: zschema where
  "ActivityMessageSchema = ZObject
     [(''subagentRunId'', ZOptional SubagentRunIdSchema), (''id'', ZString), (''role'', ZLiteral [JStr ''activity'']),
      (''activityType'', ZString), (''content'', ZCustomObject), (''metadata'', ZOptional MetadataSchema)] False"

definition ReasoningMessageSchema :: zschema where
  "ReasoningMessageSchema = ZObject
     [(''subagentRunId'', ZOptional SubagentRunIdSchema), (''id'', ZString), (''role'', ZLiteral [JStr ''reasoning'']),
      (''content'', ZString), (''encryptedValue'', ZOptional ZString), (''metadata'', ZOptional MetadataSchema)] False"

definition MessageSchema :: zschema where
  "MessageSchema = ZUnion (Some ''role'')
     [DeveloperMessageSchema, SystemMessageSchema, AssistantMessageSchema, UserMessageSchema, ToolMessageSchema, ActivityMessageSchema,
      ReasoningMessageSchema]"

definition MessagesSnapshotEventSchema :: zschema where
  "MessagesSnapshotEventSchema = ZObject
     [(''type'', ZLiteral [JStr ''MESSAGES_SNAPSHOT'']), (''timestamp'', ZOptional (ZInt (- 9007199254740991) 9007199254740991)),
      (''rawEvent'', ZOptional (ZRefined ZAny NotNull)), (''metadata'', ZOptional MetadataSchema), (''messages'', ZArray MessageSchema)] False"

definition ActivitySnapshotEventSchema :: zschema where
  "ActivitySnapshotEventSchema = ZObject
     [(''type'', ZLiteral [JStr ''ACTIVITY_SNAPSHOT'']), (''timestamp'', ZOptional (ZInt (- 9007199254740991) 9007199254740991)),
      (''rawEvent'', ZOptional (ZRefined ZAny NotNull)), (''metadata'', ZOptional MetadataSchema),
      (''subagentRunId'', ZOptional SubagentRunIdSchema), (''messageId'', ZString), (''activityType'', ZString),
      (''content'', ZCustomObject), (''replace'', ZOptional ZBoolean)] False"

definition ActivityDeltaEventSchema :: zschema where
  "ActivityDeltaEventSchema = ZObject
     [(''type'', ZLiteral [JStr ''ACTIVITY_DELTA'']), (''timestamp'', ZOptional (ZInt (- 9007199254740991) 9007199254740991)),
      (''rawEvent'', ZOptional (ZRefined ZAny NotNull)), (''metadata'', ZOptional MetadataSchema),
      (''subagentRunId'', ZOptional SubagentRunIdSchema), (''messageId'', ZString), (''activityType'', ZString),
      (''patch'', JsonPatchSchema)] False"

definition RawEventSchema :: zschema where
  "RawEventSchema = ZObject
     [(''type'', ZLiteral [JStr ''RAW'']), (''timestamp'', ZOptional (ZInt (- 9007199254740991) 9007199254740991)),
      (''rawEvent'', ZOptional (ZRefined ZAny NotNull)), (''metadata'', ZOptional MetadataSchema),
      (''subagentRunId'', ZOptional SubagentRunIdSchema), (''event'', ZRefined ZAny NotUndefined), (''source'', ZOptional ZString)] False"

definition CustomEventSchema :: zschema where
  "CustomEventSchema = ZObject
     [(''type'', ZLiteral [JStr ''CUSTOM'']), (''timestamp'', ZOptional (ZInt (- 9007199254740991) 9007199254740991)),
      (''rawEvent'', ZOptional (ZRefined ZAny NotNull)), (''metadata'', ZOptional MetadataSchema),
      (''subagentRunId'', ZOptional SubagentRunIdSchema), (''name'', ZString), (''value'', ZRefined ZAny NotUndefined)] False"

definition ToolSchema :: zschema where
  "ToolSchema = ZObject
     [(''name'', ZString), (''description'', ZString), (''parameters'', ZOptional (ZRefined ZAny NotNull)),
      (''metadata'', ZOptional MetadataSchema)] False"

definition ContextSchema :: zschema where
  "ContextSchema = ZObject
     [(''description'', ZString), (''value'', ZString)] False"

definition ResumeEntrySchema :: zschema where
  "ResumeEntrySchema = ZObject
     [(''interruptId'', ZString), (''status'', ZEnum [''resolved'', ''cancelled'']), (''payload'', ZOptional (ZRefined ZAny NotNull)),
      (''metadata'', ZOptional MetadataSchema)] False"

definition RunAgentInputSchema :: zschema where
  "RunAgentInputSchema = ZObject
     [(''threadId'', ZString), (''runId'', ZString), (''protocolVersion'', ZOptional ZString), (''parentRunId'', ZOptional ZString),
      (''state'', ZOptional (ZPipe (ZNullable (ZRefined StateSchema NotNull)))), (''messages'', ZArray MessageSchema),
      (''tools'', ZDefault (ZArray ToolSchema) (JArr [])), (''context'', ZDefault (ZArray ContextSchema) (JArr [])),
      (''forwardedProps'', ZOptional (ZRefined ZAny NotNull)), (''resume'', ZOptional (ZArray ResumeEntrySchema))] False"

definition RunStartedEventSchema :: zschema where
  "RunStartedEventSchema = ZObject
     [(''type'', ZLiteral [JStr ''RUN_STARTED'']), (''timestamp'', ZOptional (ZInt (- 9007199254740991) 9007199254740991)),
      (''rawEvent'', ZOptional (ZRefined ZAny NotNull)), (''metadata'', ZOptional MetadataSchema), (''threadId'', ZString),
      (''runId'', ZString), (''protocolVersion'', ZOptional ZString), (''parentRunId'', ZOptional ZString),
      (''input'', ZOptional RunAgentInputSchema)] False"

definition RunFinishedSuccessOutcomeSchema :: zschema where
  "RunFinishedSuccessOutcomeSchema = ZObject
     [(''type'', ZLiteral [JStr ''success'']), (''pendingToolCallIds'', ZOptional (ZArray ZString))] False"

definition InterruptSchema :: zschema where
  "InterruptSchema = ZObject
     [(''subagentRunId'', ZOptional SubagentRunIdSchema), (''id'', ZString), (''reason'', ZString), (''message'', ZOptional ZString),
      (''toolCallId'', ZOptional ZString), (''responseSchema'', ZOptional ZCustomObject), (''expiresAt'', ZOptional ZString),
      (''metadata'', ZOptional MetadataSchema)] False"

definition RunFinishedInterruptOutcomeSchema :: zschema where
  "RunFinishedInterruptOutcomeSchema = ZObject
     [(''type'', ZLiteral [JStr ''interrupt'']), (''interrupts'', ZRefined (ZArray InterruptSchema) (MinLength 1))] False"

definition RunFinishedCancelledOutcomeSchema :: zschema where
  "RunFinishedCancelledOutcomeSchema = ZObject
     [(''type'', ZLiteral [JStr ''cancelled''])] False"

definition RunFinishedOutcomeSchema :: zschema where
  "RunFinishedOutcomeSchema = ZUnion (Some ''type'')
     [RunFinishedSuccessOutcomeSchema, RunFinishedInterruptOutcomeSchema, RunFinishedCancelledOutcomeSchema]"

definition TokenUsageSchema :: zschema where
  "TokenUsageSchema = ZObject
     [(''provider'', ZOptional ZString), (''model'', ZOptional ZString), (''inputTokens'', ZOptional (ZInt 0 9007199254740991)),
      (''outputTokens'', ZOptional (ZInt 0 9007199254740991)), (''totalTokens'', ZOptional (ZInt 0 9007199254740991)),
      (''reasoningTokens'', ZOptional (ZInt 0 9007199254740991)), (''cachedInputTokens'', ZOptional (ZInt 0 9007199254740991)),
      (''cacheWriteInputTokens'', ZOptional (ZInt 0 9007199254740991))] False"

definition RunFinishedEventSchema :: zschema where
  "RunFinishedEventSchema = ZObject
     [(''type'', ZLiteral [JStr ''RUN_FINISHED'']), (''timestamp'', ZOptional (ZInt (- 9007199254740991) 9007199254740991)),
      (''rawEvent'', ZOptional (ZRefined ZAny NotNull)), (''metadata'', ZOptional MetadataSchema), (''threadId'', ZString),
      (''runId'', ZString), (''result'', ZOptional (ZRefined ZAny NotNull)), (''outcome'', ZOptional RunFinishedOutcomeSchema),
      (''usage'', ZOptional (ZArray TokenUsageSchema))] False"

definition RunErrorEventSchema :: zschema where
  "RunErrorEventSchema = ZObject
     [(''type'', ZLiteral [JStr ''RUN_ERROR'']), (''timestamp'', ZOptional (ZInt (- 9007199254740991) 9007199254740991)),
      (''rawEvent'', ZOptional (ZRefined ZAny NotNull)), (''metadata'', ZOptional MetadataSchema), (''message'', ZString),
      (''code'', ZOptional ZString), (''usage'', ZOptional (ZArray TokenUsageSchema))] False"

definition StepStartedEventSchema :: zschema where
  "StepStartedEventSchema = ZObject
     [(''type'', ZLiteral [JStr ''STEP_STARTED'']), (''timestamp'', ZOptional (ZInt (- 9007199254740991) 9007199254740991)),
      (''rawEvent'', ZOptional (ZRefined ZAny NotNull)), (''metadata'', ZOptional MetadataSchema),
      (''subagentRunId'', ZOptional SubagentRunIdSchema), (''stepName'', ZString)] False"

definition StepFinishedEventSchema :: zschema where
  "StepFinishedEventSchema = ZObject
     [(''type'', ZLiteral [JStr ''STEP_FINISHED'']), (''timestamp'', ZOptional (ZInt (- 9007199254740991) 9007199254740991)),
      (''rawEvent'', ZOptional (ZRefined ZAny NotNull)), (''metadata'', ZOptional MetadataSchema),
      (''subagentRunId'', ZOptional SubagentRunIdSchema), (''stepName'', ZString)] False"

definition ReasoningStartEventSchema :: zschema where
  "ReasoningStartEventSchema = ZObject
     [(''type'', ZLiteral [JStr ''REASONING_START'']), (''timestamp'', ZOptional (ZInt (- 9007199254740991) 9007199254740991)),
      (''rawEvent'', ZOptional (ZRefined ZAny NotNull)), (''metadata'', ZOptional MetadataSchema),
      (''subagentRunId'', ZOptional SubagentRunIdSchema), (''messageId'', ZString)] False"

definition ReasoningMessageStartEventSchema :: zschema where
  "ReasoningMessageStartEventSchema = ZObject
     [(''type'', ZLiteral [JStr ''REASONING_MESSAGE_START'']), (''timestamp'', ZOptional (ZInt (- 9007199254740991) 9007199254740991)),
      (''rawEvent'', ZOptional (ZRefined ZAny NotNull)), (''metadata'', ZOptional MetadataSchema),
      (''subagentRunId'', ZOptional SubagentRunIdSchema), (''messageId'', ZString), (''role'', ZLiteral [JStr ''reasoning''])] False"

definition ReasoningMessageContentEventSchema :: zschema where
  "ReasoningMessageContentEventSchema = ZObject
     [(''type'', ZLiteral [JStr ''REASONING_MESSAGE_CONTENT'']),
      (''timestamp'', ZOptional (ZInt (- 9007199254740991) 9007199254740991)), (''rawEvent'', ZOptional (ZRefined ZAny NotNull)),
      (''metadata'', ZOptional MetadataSchema), (''subagentRunId'', ZOptional SubagentRunIdSchema), (''messageId'', ZString),
      (''delta'', ZString)] False"

definition ReasoningMessageEndEventSchema :: zschema where
  "ReasoningMessageEndEventSchema = ZObject
     [(''type'', ZLiteral [JStr ''REASONING_MESSAGE_END'']), (''timestamp'', ZOptional (ZInt (- 9007199254740991) 9007199254740991)),
      (''rawEvent'', ZOptional (ZRefined ZAny NotNull)), (''metadata'', ZOptional MetadataSchema),
      (''subagentRunId'', ZOptional SubagentRunIdSchema), (''messageId'', ZString)] False"

definition ReasoningMessageChunkEventSchema :: zschema where
  "ReasoningMessageChunkEventSchema = ZObject
     [(''type'', ZLiteral [JStr ''REASONING_MESSAGE_CHUNK'']), (''timestamp'', ZOptional (ZInt (- 9007199254740991) 9007199254740991)),
      (''rawEvent'', ZOptional (ZRefined ZAny NotNull)), (''metadata'', ZOptional MetadataSchema),
      (''subagentRunId'', ZOptional SubagentRunIdSchema), (''messageId'', ZOptional ZString), (''delta'', ZOptional ZString)] False"

definition ReasoningEndEventSchema :: zschema where
  "ReasoningEndEventSchema = ZObject
     [(''type'', ZLiteral [JStr ''REASONING_END'']), (''timestamp'', ZOptional (ZInt (- 9007199254740991) 9007199254740991)),
      (''rawEvent'', ZOptional (ZRefined ZAny NotNull)), (''metadata'', ZOptional MetadataSchema),
      (''subagentRunId'', ZOptional SubagentRunIdSchema), (''messageId'', ZString)] False"

definition ReasoningEncryptedValueSubtypeSchema :: zschema where
  "ReasoningEncryptedValueSubtypeSchema = ZEnum [''tool-call'', ''message'']"

definition ReasoningEncryptedValueEventSchema :: zschema where
  "ReasoningEncryptedValueEventSchema = ZObject
     [(''type'', ZLiteral [JStr ''REASONING_ENCRYPTED_VALUE'']),
      (''timestamp'', ZOptional (ZInt (- 9007199254740991) 9007199254740991)), (''rawEvent'', ZOptional (ZRefined ZAny NotNull)),
      (''metadata'', ZOptional MetadataSchema), (''subagentRunId'', ZOptional SubagentRunIdSchema),
      (''subtype'', ReasoningEncryptedValueSubtypeSchema), (''entityId'', ZString), (''encryptedValue'', ZString)] False"

definition SubagentStartedEventSchema :: zschema where
  "SubagentStartedEventSchema = ZObject
     [(''type'', ZLiteral [JStr ''SUBAGENT_STARTED'']), (''timestamp'', ZOptional (ZInt (- 9007199254740991) 9007199254740991)),
      (''rawEvent'', ZOptional (ZRefined ZAny NotNull)), (''metadata'', ZOptional MetadataSchema),
      (''subagentRunId'', SubagentRunIdSchema), (''name'', ZString), (''description'', ZOptional ZString),
      (''parentSubagentRunId'', ZOptional SubagentRunIdSchema), (''parentToolCallId'', ZOptional ZString),
      (''parentMessageId'', ZOptional ZString)] False"

definition SubagentFinishedSuccessOutcomeSchema :: zschema where
  "SubagentFinishedSuccessOutcomeSchema = ZObject
     [(''type'', ZLiteral [JStr ''success''])] False"

definition SubagentFinishedSuspendedOutcomeSchema :: zschema where
  "SubagentFinishedSuspendedOutcomeSchema = ZObject
     [(''type'', ZLiteral [JStr ''suspended'']), (''interruptIds'', ZOptional (ZArray ZString))] False"

definition SubagentFinishedOutcomeSchema :: zschema where
  "SubagentFinishedOutcomeSchema = ZUnion (Some ''type'')
     [SubagentFinishedSuccessOutcomeSchema, SubagentFinishedSuspendedOutcomeSchema]"

definition SubagentFinishedEventSchema :: zschema where
  "SubagentFinishedEventSchema = ZObject
     [(''type'', ZLiteral [JStr ''SUBAGENT_FINISHED'']), (''timestamp'', ZOptional (ZInt (- 9007199254740991) 9007199254740991)),
      (''rawEvent'', ZOptional (ZRefined ZAny NotNull)), (''metadata'', ZOptional MetadataSchema),
      (''subagentRunId'', SubagentRunIdSchema), (''result'', ZOptional (ZRefined ZAny NotNull)),
      (''outcome'', ZOptional SubagentFinishedOutcomeSchema)] False"

definition SubagentErrorEventSchema :: zschema where
  "SubagentErrorEventSchema = ZObject
     [(''type'', ZLiteral [JStr ''SUBAGENT_ERROR'']), (''timestamp'', ZOptional (ZInt (- 9007199254740991) 9007199254740991)),
      (''rawEvent'', ZOptional (ZRefined ZAny NotNull)), (''metadata'', ZOptional MetadataSchema),
      (''subagentRunId'', SubagentRunIdSchema), (''message'', ZString), (''code'', ZOptional ZString)] False"

definition EventSchema :: zschema where
  "EventSchema = ZUnion (Some ''type'')
     [TextMessageStartEventSchema, TextMessageContentEventSchema, TextMessageEndEventSchema, TextMessageChunkEventSchema,
      ToolCallStartEventSchema, ToolCallArgsEventSchema, ToolCallEndEventSchema, ToolCallChunkEventSchema, ToolCallResultEventSchema,
      StateSnapshotEventSchema, StateDeltaEventSchema, MessagesSnapshotEventSchema, ActivitySnapshotEventSchema,
      ActivityDeltaEventSchema, RawEventSchema, CustomEventSchema, RunStartedEventSchema, RunFinishedEventSchema, RunErrorEventSchema,
      StepStartedEventSchema, StepFinishedEventSchema, ReasoningStartEventSchema, ReasoningMessageStartEventSchema,
      ReasoningMessageContentEventSchema, ReasoningMessageEndEventSchema, ReasoningMessageChunkEventSchema, ReasoningEndEventSchema,
      ReasoningEncryptedValueEventSchema, SubagentStartedEventSchema, SubagentFinishedEventSchema, SubagentErrorEventSchema]"

definition RoleSchema :: zschema where
  "RoleSchema = ZEnum [''developer'', ''system'', ''assistant'', ''user'', ''tool'', ''activity'', ''reasoning'']"

definition SubagentInfoSchema :: zschema where
  "SubagentInfoSchema = ZObject
     [(''name'', ZString), (''description'', ZOptional ZString)] False"

definition IdentityCapabilitiesSchema :: zschema where
  "IdentityCapabilitiesSchema = ZObject
     [(''name'', ZOptional ZString), (''type'', ZOptional ZString), (''description'', ZOptional ZString),
      (''version'', ZOptional ZString), (''provider'', ZOptional ZString), (''documentationUrl'', ZOptional ZString),
      (''metadata'', ZOptional MetadataSchema)] False"

definition TransportCapabilitiesSchema :: zschema where
  "TransportCapabilitiesSchema = ZObject
     [(''streaming'', ZOptional ZBoolean), (''websocket'', ZOptional ZBoolean), (''httpBinary'', ZOptional ZBoolean),
      (''pushNotifications'', ZOptional ZBoolean), (''resumable'', ZOptional ZBoolean)] False"

definition ToolsCapabilitiesSchema :: zschema where
  "ToolsCapabilitiesSchema = ZObject
     [(''supported'', ZOptional ZBoolean), (''items'', ZOptional (ZArray ToolSchema)), (''parallelCalls'', ZOptional ZBoolean),
      (''clientProvided'', ZOptional ZBoolean)] False"

definition OutputCapabilitiesSchema :: zschema where
  "OutputCapabilitiesSchema = ZObject
     [(''structuredOutput'', ZOptional ZBoolean), (''supportedMimeTypes'', ZOptional (ZArray ZString))] False"

definition StateCapabilitiesSchema :: zschema where
  "StateCapabilitiesSchema = ZObject
     [(''snapshots'', ZOptional ZBoolean), (''deltas'', ZOptional ZBoolean), (''memory'', ZOptional ZBoolean),
      (''persistentState'', ZOptional ZBoolean)] False"

definition MultiAgentCapabilitiesSchema :: zschema where
  "MultiAgentCapabilitiesSchema = ZObject
     [(''supported'', ZOptional ZBoolean), (''delegation'', ZOptional ZBoolean), (''handoffs'', ZOptional ZBoolean),
      (''subagents'', ZOptional (ZArray SubagentInfoSchema))] False"

definition ReasoningCapabilitiesSchema :: zschema where
  "ReasoningCapabilitiesSchema = ZObject
     [(''supported'', ZOptional ZBoolean), (''streaming'', ZOptional ZBoolean), (''encrypted'', ZOptional ZBoolean)] False"

definition MultimodalInputCapabilitiesSchema :: zschema where
  "MultimodalInputCapabilitiesSchema = ZObject
     [(''image'', ZOptional ZBoolean), (''audio'', ZOptional ZBoolean), (''video'', ZOptional ZBoolean), (''pdf'', ZOptional ZBoolean),
      (''file'', ZOptional ZBoolean)] False"

definition MultimodalOutputCapabilitiesSchema :: zschema where
  "MultimodalOutputCapabilitiesSchema = ZObject
     [(''image'', ZOptional ZBoolean), (''audio'', ZOptional ZBoolean)] False"

definition MultimodalCapabilitiesSchema :: zschema where
  "MultimodalCapabilitiesSchema = ZObject
     [(''input'', ZOptional MultimodalInputCapabilitiesSchema), (''output'', ZOptional MultimodalOutputCapabilitiesSchema)] False"

definition ExecutionCapabilitiesSchema :: zschema where
  "ExecutionCapabilitiesSchema = ZObject
     [(''codeExecution'', ZOptional ZBoolean), (''sandboxed'', ZOptional ZBoolean),
      (''maxIterations'', ZOptional (ZInt 0 9007199254740991)), (''maxExecutionTime'', ZOptional (ZInt 0 9007199254740991))] False"

definition HumanInTheLoopCapabilitiesSchema :: zschema where
  "HumanInTheLoopCapabilitiesSchema = ZObject
     [(''supported'', ZOptional ZBoolean), (''approvals'', ZOptional ZBoolean), (''interventions'', ZOptional ZBoolean),
      (''feedback'', ZOptional ZBoolean), (''interrupts'', ZOptional ZBoolean), (''approveWithEdits'', ZOptional ZBoolean)] False"

definition AgentCapabilitiesSchema :: zschema where
  "AgentCapabilitiesSchema = ZObject
     [(''identity'', ZOptional IdentityCapabilitiesSchema), (''transport'', ZOptional TransportCapabilitiesSchema),
      (''tools'', ZOptional ToolsCapabilitiesSchema), (''output'', ZOptional OutputCapabilitiesSchema),
      (''state'', ZOptional StateCapabilitiesSchema), (''multiAgent'', ZOptional MultiAgentCapabilitiesSchema),
      (''reasoning'', ZOptional ReasoningCapabilitiesSchema), (''multimodal'', ZOptional MultimodalCapabilitiesSchema),
      (''execution'', ZOptional ExecutionCapabilitiesSchema), (''humanInTheLoop'', ZOptional HumanInTheLoopCapabilitiesSchema),
      (''custom'', ZOptional ZCustomObject)] False"

definition AttributableSchema :: zschema where
  "AttributableSchema = ZObject
     [(''subagentRunId'', ZOptional SubagentRunIdSchema)] False"

definition BaseEventSchema :: zschema where
  "BaseEventSchema = ZObject
     [(''type'', EventTypeSchema), (''timestamp'', ZOptional (ZInt (- 9007199254740991) 9007199254740991)),
      (''rawEvent'', ZOptional (ZRefined ZAny NotNull)), (''metadata'', ZOptional MetadataSchema)] False"

definition BaseMessageSchema :: zschema where
  "BaseMessageSchema = ZObject
     [(''subagentRunId'', ZOptional SubagentRunIdSchema), (''id'', ZString), (''role'', ZString), (''name'', ZOptional ZString),
      (''encryptedValue'', ZOptional ZString), (''metadata'', ZOptional MetadataSchema)] False"

end
