(* ===== verification/Serialize.thy ===== *)
theory Serialize
  imports JsValue
begin

text \<open>
  Serialization, \<^verbatim>\<open>core/src/generated/serialization.ts\<close>: before an event or an input is transmitted, optional fields that hold
  \<^verbatim>\<open>null\<close> are omitted. The walk follows a table of shapes, which names may refer back to; \<open>omit\<close> therefore takes fuel and is
  \<open>None\<close> when it runs out or a name is missing. That \<open>omitOptionalNulls\<close> gives it enough, and the table has every name,
  is proved in \<open>SerializeProps\<close>.
\<close>

datatype shape =
    SName string
  | SArray shape
  | SObject "string list" "(string \<times> shape) list"
  | SVariants string "(string \<times> string) list"

definition shapes :: "string \<Rightarrow> shape option" where
  "shapes n =
     (if n = ''TextMessageStartEvent'' then Some (SObject [''timestamp'', ''rawEvent'', ''metadata'', ''subagentRunId'', ''role'', ''name''] [])
      else if n = ''TextMessageContentEvent'' then Some (SObject [''timestamp'', ''rawEvent'', ''metadata'', ''subagentRunId''] [])
      else if n = ''TextMessageEndEvent'' then Some (SObject [''timestamp'', ''rawEvent'', ''metadata'', ''subagentRunId''] [])
      else if n = ''TextMessageChunkEvent'' then Some (SObject [''timestamp'', ''rawEvent'', ''metadata'', ''subagentRunId'', ''messageId'', ''role'',
        ''delta'', ''name''] [])
      else if n = ''ToolCallStartEvent'' then Some (SObject [''timestamp'', ''rawEvent'', ''metadata'', ''subagentRunId'', ''parentMessageId''] [])
      else if n = ''ToolCallArgsEvent'' then Some (SObject [''timestamp'', ''rawEvent'', ''metadata'', ''subagentRunId''] [])
      else if n = ''ToolCallEndEvent'' then Some (SObject [''timestamp'', ''rawEvent'', ''metadata'', ''subagentRunId''] [])
      else if n = ''ToolCallChunkEvent'' then Some (SObject [''timestamp'', ''rawEvent'', ''metadata'', ''subagentRunId'', ''toolCallId'',
        ''toolCallName'', ''parentMessageId'', ''delta''] [])
      else if n = ''TextPart'' then Some (SObject [''id'', ''metadata''] [])
      else if n = ''DataSource'' then Some (SObject [] [])
      else if n = ''UrlSource'' then Some (SObject [''mimeType''] [])
      else if n = ''FileSource'' then Some (SObject [''provider'', ''mimeType''] [])
      else if n = ''PartSource'' then Some (SVariants ''type'' [(''data'', ''DataSource''), (''url'', ''UrlSource''), (''file'',
        ''FileSource'')])
      else if n = ''ImagePart'' then Some (SObject [''id'', ''metadata''] [(''source'', SName ''PartSource'')])
      else if n = ''AudioPart'' then Some (SObject [''id'', ''metadata''] [(''source'', SName ''PartSource'')])
      else if n = ''VideoPart'' then Some (SObject [''id'', ''metadata''] [(''source'', SName ''PartSource'')])
      else if n = ''DocumentPart'' then Some (SObject [''id'', ''metadata''] [(''source'', SName ''PartSource'')])
      else if n = ''ContentPart'' then Some (SVariants ''type'' [(''text'', ''TextPart''), (''image'', ''ImagePart''), (''audio'',
        ''AudioPart''), (''video'', ''VideoPart''), (''document'', ''DocumentPart'')])
      else if n = ''ToolCallResultEvent'' then Some (SObject [''timestamp'', ''rawEvent'', ''metadata'', ''subagentRunId'', ''role''] [(''content'',
        SArray (SName ''ContentPart''))])
      else if n = ''StateSnapshotEvent'' then Some (SObject [''timestamp'', ''rawEvent'', ''metadata'', ''subagentRunId''] [])
      else if n = ''AddOperation'' then Some (SObject [] [])
      else if n = ''RemoveOperation'' then Some (SObject [] [])
      else if n = ''ReplaceOperation'' then Some (SObject [] [])
      else if n = ''MoveOperation'' then Some (SObject [] [])
      else if n = ''CopyOperation'' then Some (SObject [] [])
      else if n = ''TestOperation'' then Some (SObject [] [])
      else if n = ''JsonPatchOperation'' then Some (SVariants ''op'' [(''add'', ''AddOperation''), (''remove'', ''RemoveOperation''), (''replace'',
        ''ReplaceOperation''), (''move'', ''MoveOperation''), (''copy'', ''CopyOperation''), (''test'',
        ''TestOperation'')])
      else if n = ''StateDeltaEvent'' then Some (SObject [''timestamp'', ''rawEvent'', ''metadata'', ''subagentRunId''] [(''delta'', SArray (SName
        ''JsonPatchOperation''))])
      else if n = ''DeveloperMessage'' then Some (SObject [''subagentRunId'', ''name'', ''encryptedValue'', ''metadata''] [])
      else if n = ''SystemMessage'' then Some (SObject [''subagentRunId'', ''name'', ''encryptedValue'', ''metadata''] [])
      else if n = ''FunctionCall'' then Some (SObject [] [])
      else if n = ''ToolCall'' then Some (SObject [''encryptedValue'', ''metadata''] [(''function'', SName ''FunctionCall'')])
      else if n = ''AssistantMessage'' then Some (SObject [''subagentRunId'', ''name'', ''encryptedValue'', ''metadata'', ''content'', ''toolCalls'']
        [(''toolCalls'', SArray (SName ''ToolCall''))])
      else if n = ''UserMessage'' then Some (SObject [''subagentRunId'', ''name'', ''encryptedValue'', ''metadata''] [(''content'', SArray (SName
        ''ContentPart''))])
      else if n = ''ToolMessage'' then Some (SObject [''subagentRunId'', ''error'', ''encryptedValue'', ''metadata''] [(''content'', SArray
        (SName ''ContentPart''))])
      else if n = ''ActivityMessage'' then Some (SObject [''subagentRunId'', ''metadata''] [])
      else if n = ''ReasoningMessage'' then Some (SObject [''subagentRunId'', ''encryptedValue'', ''metadata''] [])
      else if n = ''Message'' then Some (SVariants ''role'' [(''developer'', ''DeveloperMessage''), (''system'', ''SystemMessage''),
        (''assistant'', ''AssistantMessage''), (''user'', ''UserMessage''), (''tool'', ''ToolMessage''),
        (''activity'', ''ActivityMessage''), (''reasoning'', ''ReasoningMessage'')])
      else if n = ''MessagesSnapshotEvent'' then Some (SObject [''timestamp'', ''rawEvent'', ''metadata''] [(''messages'', SArray (SName ''Message''))])
      else if n = ''ActivitySnapshotEvent'' then Some (SObject [''timestamp'', ''rawEvent'', ''metadata'', ''subagentRunId'', ''replace''] [])
      else if n = ''ActivityDeltaEvent'' then Some (SObject [''timestamp'', ''rawEvent'', ''metadata'', ''subagentRunId''] [(''patch'', SArray (SName
        ''JsonPatchOperation''))])
      else if n = ''RawEvent'' then Some (SObject [''timestamp'', ''rawEvent'', ''metadata'', ''subagentRunId'', ''source''] [])
      else if n = ''CustomEvent'' then Some (SObject [''timestamp'', ''rawEvent'', ''metadata'', ''subagentRunId''] [])
      else if n = ''Tool'' then Some (SObject [''parameters'', ''metadata''] [])
      else if n = ''Context'' then Some (SObject [] [])
      else if n = ''ResumeEntry'' then Some (SObject [''payload'', ''metadata''] [])
      else if n = ''RunAgentInput'' then Some (SObject [''protocolVersion'', ''parentRunId'', ''state'', ''tools'', ''context'',
        ''forwardedProps'', ''resume''] [(''messages'', SArray (SName ''Message'')), (''tools'', SArray
        (SName ''Tool'')), (''context'', SArray (SName ''Context'')), (''resume'', SArray (SName
        ''ResumeEntry''))])
      else if n = ''RunStartedEvent'' then Some (SObject [''timestamp'', ''rawEvent'', ''metadata'', ''protocolVersion'', ''parentRunId'', ''input'']
        [(''input'', SName ''RunAgentInput'')])
      else if n = ''RunFinishedSuccessOutcome'' then Some (SObject [''pendingToolCallIds''] [])
      else if n = ''Interrupt'' then Some (SObject [''subagentRunId'', ''message'', ''toolCallId'', ''responseSchema'', ''expiresAt'',
        ''metadata''] [])
      else if n = ''RunFinishedInterruptOutcome'' then Some (SObject [] [(''interrupts'', SArray (SName ''Interrupt''))])
      else if n = ''RunFinishedCancelledOutcome'' then Some (SObject [] [])
      else if n = ''RunFinishedOutcome'' then Some (SVariants ''type'' [(''success'', ''RunFinishedSuccessOutcome''), (''interrupt'',
        ''RunFinishedInterruptOutcome''), (''cancelled'', ''RunFinishedCancelledOutcome'')])
      else if n = ''TokenUsage'' then Some (SObject [''provider'', ''model'', ''inputTokens'', ''outputTokens'', ''totalTokens'',
        ''reasoningTokens'', ''cachedInputTokens'', ''cacheWriteInputTokens''] [])
      else if n = ''RunFinishedEvent'' then Some (SObject [''timestamp'', ''rawEvent'', ''metadata'', ''result'', ''outcome'', ''usage'']
        [(''outcome'', SName ''RunFinishedOutcome''), (''usage'', SArray (SName ''TokenUsage''))])
      else if n = ''RunErrorEvent'' then Some (SObject [''timestamp'', ''rawEvent'', ''metadata'', ''code'', ''usage''] [(''usage'', SArray (SName
        ''TokenUsage''))])
      else if n = ''StepStartedEvent'' then Some (SObject [''timestamp'', ''rawEvent'', ''metadata'', ''subagentRunId''] [])
      else if n = ''StepFinishedEvent'' then Some (SObject [''timestamp'', ''rawEvent'', ''metadata'', ''subagentRunId''] [])
      else if n = ''ReasoningStartEvent'' then Some (SObject [''timestamp'', ''rawEvent'', ''metadata'', ''subagentRunId''] [])
      else if n = ''ReasoningMessageStartEvent'' then Some (SObject [''timestamp'', ''rawEvent'', ''metadata'', ''subagentRunId''] [])
      else if n = ''ReasoningMessageContentEvent'' then Some (SObject [''timestamp'', ''rawEvent'', ''metadata'', ''subagentRunId''] [])
      else if n = ''ReasoningMessageEndEvent'' then Some (SObject [''timestamp'', ''rawEvent'', ''metadata'', ''subagentRunId''] [])
      else if n = ''ReasoningMessageChunkEvent'' then Some (SObject [''timestamp'', ''rawEvent'', ''metadata'', ''subagentRunId'', ''messageId'', ''delta''] [])
      else if n = ''ReasoningEndEvent'' then Some (SObject [''timestamp'', ''rawEvent'', ''metadata'', ''subagentRunId''] [])
      else if n = ''ReasoningEncryptedValueEvent'' then Some (SObject [''timestamp'', ''rawEvent'', ''metadata'', ''subagentRunId''] [])
      else if n = ''SubagentStartedEvent'' then Some (SObject [''timestamp'', ''rawEvent'', ''metadata'', ''description'', ''parentSubagentRunId'',
        ''parentToolCallId'', ''parentMessageId''] [])
      else if n = ''SubagentFinishedSuccessOutcome'' then Some (SObject [] [])
      else if n = ''SubagentFinishedSuspendedOutcome'' then Some (SObject [''interruptIds''] [])
      else if n = ''SubagentFinishedOutcome'' then Some (SVariants ''type'' [(''success'', ''SubagentFinishedSuccessOutcome''), (''suspended'',
        ''SubagentFinishedSuspendedOutcome'')])
      else if n = ''SubagentFinishedEvent'' then Some (SObject [''timestamp'', ''rawEvent'', ''metadata'', ''result'', ''outcome''] [(''outcome'', SName
        ''SubagentFinishedOutcome'')])
      else if n = ''SubagentErrorEvent'' then Some (SObject [''timestamp'', ''rawEvent'', ''metadata'', ''code''] [])
      else if n = ''Event'' then Some (SVariants ''type'' [(''TEXT_MESSAGE_START'', ''TextMessageStartEvent''), (''TEXT_MESSAGE_CONTENT'',
        ''TextMessageContentEvent''), (''TEXT_MESSAGE_END'', ''TextMessageEndEvent''),
        (''TEXT_MESSAGE_CHUNK'', ''TextMessageChunkEvent''), (''TOOL_CALL_START'', ''ToolCallStartEvent''),
        (''TOOL_CALL_ARGS'', ''ToolCallArgsEvent''), (''TOOL_CALL_END'', ''ToolCallEndEvent''),
        (''TOOL_CALL_CHUNK'', ''ToolCallChunkEvent''), (''TOOL_CALL_RESULT'', ''ToolCallResultEvent''),
        (''STATE_SNAPSHOT'', ''StateSnapshotEvent''), (''STATE_DELTA'', ''StateDeltaEvent''),
        (''MESSAGES_SNAPSHOT'', ''MessagesSnapshotEvent''), (''ACTIVITY_SNAPSHOT'',
        ''ActivitySnapshotEvent''), (''ACTIVITY_DELTA'', ''ActivityDeltaEvent''), (''RAW'', ''RawEvent''),
        (''CUSTOM'', ''CustomEvent''), (''RUN_STARTED'', ''RunStartedEvent''), (''RUN_FINISHED'',
        ''RunFinishedEvent''), (''RUN_ERROR'', ''RunErrorEvent''), (''STEP_STARTED'', ''StepStartedEvent''),
        (''STEP_FINISHED'', ''StepFinishedEvent''), (''REASONING_START'', ''ReasoningStartEvent''),
        (''REASONING_MESSAGE_START'', ''ReasoningMessageStartEvent''), (''REASONING_MESSAGE_CONTENT'',
        ''ReasoningMessageContentEvent''), (''REASONING_MESSAGE_END'', ''ReasoningMessageEndEvent''),
        (''REASONING_MESSAGE_CHUNK'', ''ReasoningMessageChunkEvent''), (''REASONING_END'',
        ''ReasoningEndEvent''), (''REASONING_ENCRYPTED_VALUE'', ''ReasoningEncryptedValueEvent''),
        (''SUBAGENT_STARTED'', ''SubagentStartedEvent''), (''SUBAGENT_FINISHED'',
        ''SubagentFinishedEvent''), (''SUBAGENT_ERROR'', ''SubagentErrorEvent'')])
      else if n = ''SubagentInfo'' then Some (SObject [''description''] [])
      else if n = ''IdentityCapabilities'' then Some (SObject [''name'', ''type'', ''description'', ''version'', ''provider'', ''documentationUrl'',
        ''metadata''] [])
      else if n = ''TransportCapabilities'' then Some (SObject [''streaming'', ''websocket'', ''httpBinary'', ''pushNotifications'', ''resumable''] [])
      else if n = ''ToolsCapabilities'' then Some (SObject [''supported'', ''items'', ''parallelCalls'', ''clientProvided''] [(''items'', SArray (SName
        ''Tool''))])
      else if n = ''OutputCapabilities'' then Some (SObject [''structuredOutput'', ''supportedMimeTypes''] [])
      else if n = ''StateCapabilities'' then Some (SObject [''snapshots'', ''deltas'', ''memory'', ''persistentState''] [])
      else if n = ''MultiAgentCapabilities'' then Some (SObject [''supported'', ''delegation'', ''handoffs'', ''subagents''] [(''subagents'', SArray (SName
        ''SubagentInfo''))])
      else if n = ''ReasoningCapabilities'' then Some (SObject [''supported'', ''streaming'', ''encrypted''] [])
      else if n = ''MultimodalInputCapabilities'' then Some (SObject [''image'', ''audio'', ''video'', ''pdf'', ''file''] [])
      else if n = ''MultimodalOutputCapabilities'' then Some (SObject [''image'', ''audio''] [])
      else if n = ''MultimodalCapabilities'' then Some (SObject [''input'', ''output''] [(''input'', SName ''MultimodalInputCapabilities''), (''output'',
        SName ''MultimodalOutputCapabilities'')])
      else if n = ''ExecutionCapabilities'' then Some (SObject [''codeExecution'', ''sandboxed'', ''maxIterations'', ''maxExecutionTime''] [])
      else if n = ''HumanInTheLoopCapabilities'' then Some (SObject [''supported'', ''approvals'', ''interventions'', ''feedback'', ''interrupts'',
        ''approveWithEdits''] [])
      else if n = ''AgentCapabilities'' then Some (SObject [''identity'', ''transport'', ''tools'', ''output'', ''state'', ''multiAgent'',
        ''reasoning'', ''multimodal'', ''execution'', ''humanInTheLoop'', ''custom''] [(''identity'', SName
        ''IdentityCapabilities''), (''transport'', SName ''TransportCapabilities''), (''tools'', SName
        ''ToolsCapabilities''), (''output'', SName ''OutputCapabilities''), (''state'', SName
        ''StateCapabilities''), (''multiAgent'', SName ''MultiAgentCapabilities''), (''reasoning'', SName
        ''ReasoningCapabilities''), (''multimodal'', SName ''MultimodalCapabilities''), (''execution'',
        SName ''ExecutionCapabilities''), (''humanInTheLoop'', SName ''HumanInTheLoopCapabilities'')])
      else None)"

subsection \<open>The walk\<close>

text \<open>The loop over the optional keys.\<close>

fun drop_nulls :: "string list \<Rightarrow> jsobj \<Rightarrow> jsobj" where
  "drop_nulls [] m = m"
| "drop_nulls (key # keys) m = drop_nulls keys (if has_own m key \<and> oget m key = JNull then odel key m else m)"

fun omit :: "(string \<Rightarrow> shape option) \<Rightarrow> nat \<Rightarrow> jsval \<Rightarrow> shape \<Rightarrow> jsval option" and
  omit_fields :: "(string \<Rightarrow> shape option) \<Rightarrow> nat \<Rightarrow> (string \<times> shape) list \<Rightarrow> jsobj \<Rightarrow> jsobj option"
where
  "omit table 0 v s = None"
| "omit table (Suc n) v (SName name) =
     (case table name of None \<Rightarrow> None | Some s \<Rightarrow> omit table n v s)"
| "omit table (Suc n) v (SArray s) =
     (case v of JArr vs \<Rightarrow> map_option JArr (those (map (\<lambda>x. omit table n x s) vs)) | _ \<Rightarrow> Some v)"
| "omit table (Suc n) v (SVariants discriminator variants) =
     (case v of
        JObj m \<Rightarrow>
          (case oget m discriminator of
             JStr tag \<Rightarrow> (case map_of variants tag of Some name \<Rightarrow> omit table n v (SName name) | None \<Rightarrow> Some v)
           | _ \<Rightarrow> Some v)
      | _ \<Rightarrow> Some v)"
| "omit table (Suc n) v (SObject optional children) =
     (case v of JObj m \<Rightarrow> map_option JObj (omit_fields table n children (drop_nulls optional m)) | _ \<Rightarrow> Some v)"
| "omit_fields table n [] m = Some m"
| "omit_fields table n ((key, child) # children) m =
     (if \<not> has_own m key then omit_fields table n children m
      else case omit table n (oget m key) child of
        None \<Rightarrow> None
      | Some x \<Rightarrow> omit_fields table n children (oset key x m))"

definition omitOptionalNulls :: "jsval \<Rightarrow> string \<Rightarrow> jsval option" where
  "omitOptionalNulls v root = omit shapes (4 * size v + 4) v (SName root)"

end
