(* ===== verification/Enforce.thy ===== *)
theory Enforce
  imports Schemas Serialize
begin

text \<open>
  The enforcement stage, \<^verbatim>\<open>client/src/enforce\<close>: the entry budget (\<^verbatim>\<open>limits.ts\<close>), the stripper (\<^verbatim>\<open>strip.ts\<close>) and the two
  boundaries that use it (\<^verbatim>\<open>enforce.ts\<close>). Parsing is Zod's: \<open>parse\<close> is a parameter, and \<^verbatim>\<open>safeParse(undefined).success\<close> is that it
  accepts \<open>JUndef\<close>. Warnings and logging are left out; the list of stripped paths that they report is kept.
  A key \<^verbatim>\<open>__proto__\<close>, whose assignment sets a prototype, is not distinguished from other keys.
\<close>

subsection \<open>The budget\<close>

text \<open>The unbounded budget \<^verbatim>\<open>Infinity\<close> is \<open>None\<close>.\<close>

definition DEFAULT_MAX_ENFORCED_ENTRIES :: nat where
  "DEFAULT_MAX_ENFORCED_ENTRIES = 1000000"

datatype budget_option = Infinite | BudgetValue jsval

fun is_safe_integer :: "jsval \<Rightarrow> bool" where
  "is_safe_integer (JNum n) = (\<bar>n\<bar> \<le> 9007199254740991)"
| "is_safe_integer _ = False"

datatype enforce_error =
    InvalidBudget jsval
  | LimitExceeded nat string
  | WholeValueUnrecognised
  | NoValidator string
  | ParseFailed string
  | UnknownShape

definition resolveMaxEntries :: "budget_option \<Rightarrow> enforce_error + nat option" where
  "resolveMaxEntries b = (case b of
     Infinite \<Rightarrow> Inr None
   | BudgetValue JUndef \<Rightarrow> Inr (Some DEFAULT_MAX_ENFORCED_ENTRIES)
   | BudgetValue v \<Rightarrow>
       (case v of
          JNum n \<Rightarrow> (if is_safe_integer v \<and> n > 0 then Inr (Some (nat n)) else Inl (InvalidBudget v))
        | _ \<Rightarrow> Inl (InvalidBudget v)))"

text \<open>What the walk has reported and how many entries it has charged.\<close>

type_synonym walk = "string list \<times> nat"

definition charge :: "nat option \<Rightarrow> nat \<Rightarrow> string \<Rightarrow> walk \<Rightarrow> enforce_error + walk" where
  "charge max' entries path w =
     (let used = snd w + entries in
      case max' of
        None \<Rightarrow> Inr (fst w, used)
      | Some n \<Rightarrow> (if used > n then Inl (LimitExceeded n path) else Inr (fst w, used)))"

subsection \<open>Looking at schemas\<close>

fun unwrap :: "zschema \<Rightarrow> zschema" where
  "unwrap (ZOptional s) = unwrap s"
| "unwrap (ZNullable s) = unwrap s"
| "unwrap (ZDefault s d) = unwrap s"
| "unwrap (ZReadonly s) = unwrap s"
| "unwrap (ZCatch s) = unwrap s"
| "unwrap (ZPipe s) = unwrap s"
| "unwrap (ZLazy s) = unwrap s"
| "unwrap (ZRefined s r) = unwrap s"
| "unwrap s = s"

fun is_object_schema :: "zschema \<Rightarrow> bool" where
  "is_object_schema (ZObject _ _) = True"
| "is_object_schema _ = False"

fun is_array_schema :: "zschema \<Rightarrow> bool" where
  "is_array_schema (ZArray _) = True"
| "is_array_schema _ = False"

fun object_shape :: "zschema \<Rightarrow> (string \<times> zschema) list option" where
  "object_shape (ZObject shape _) = Some shape"
| "object_shape _ = None"

text \<open>The single value of a literal schema; the validators have no literal of several values.\<close>

fun literalValue :: "zschema \<Rightarrow> jsval" where
  "literalValue (ZLiteral [v]) = v"
| "literalValue _ = JUndef"

definition literalValueOf :: "zschema option \<Rightarrow> jsval" where
  "literalValueOf schema = (case schema of None \<Rightarrow> JUndef | Some s \<Rightarrow> literalValue (unwrap s))"

fun is_plain_object :: "jsval \<Rightarrow> bool" where
  "is_plain_object (JObj _) = True"
| "is_plain_object _ = False"

subsection \<open>The walk\<close>

definition child_path :: "string \<Rightarrow> string \<Rightarrow> string" where
  "child_path path key = path @ ''/'' @ key"

definition report :: "string \<Rightarrow> walk \<Rightarrow> walk" where
  "report path w = (fst w @ [path], snd w)"

text \<open>\<^verbatim>\<open>stripped.length = mark\<close>: the report as it stood at \<open>mark\<close>.\<close>

definition rewind :: "walk \<Rightarrow> walk \<Rightarrow> walk" where
  "rewind mark w = (take (length (fst mark)) (fst w), snd w)"

text \<open>The option whose discriminator is the tag, and the option of the kind of a value.\<close>

fun find_variant :: "string \<Rightarrow> jsval \<Rightarrow> zschema list \<Rightarrow> zschema option" where
  "find_variant d tag [] = None"
| "find_variant d tag (option # options) =
     (case object_shape (unwrap option) of
        None \<Rightarrow> find_variant d tag options
      | Some shape \<Rightarrow> (if literalValueOf (map_of shape d) = tag then Some option else find_variant d tag options))"

fun find_kind :: "jsval \<Rightarrow> zschema list \<Rightarrow> zschema option" where
  "find_kind v [] = None"
| "find_kind v (option # options) =
     (if is_array_schema (unwrap option) \<and> is_arr v then Some option
      else if is_object_schema (unwrap option) \<and> is_plain_object v then Some option
      else find_kind v options)"

lemma unwrap_size: "size (unwrap s) \<le> size s"
  by (induction s rule: unwrap.induct) auto

lemma find_variant_mem: "find_variant d tag options = Some s \<Longrightarrow> s \<in> set options"
  by (induction options) (auto split: option.splits if_splits)

lemma find_kind_mem: "find_kind v options = Some s \<Longrightarrow> s \<in> set options"
  by (induction options) (auto split: if_splits)

lemma shape_size: "map_of shape k = Some s \<Longrightarrow> size s < size (ZObject shape o')"
  by (induction shape) (auto split: if_splits)

lemma option_size: "s \<in> set options \<Longrightarrow> size s < size (ZUnion d options)"
  by (induction options) auto

lemma unwrap_sizes:
  "unwrap s = ZObject shape o' \<Longrightarrow> map_of shape k = Some t \<Longrightarrow> size t < size s"
  "unwrap s = ZArray e \<Longrightarrow> size e < size s"
  "unwrap s = ZRecord e \<Longrightarrow> size e < size s"
  using unwrap_size [of s] by (auto dest: shape_size [of _ _ _ o'])

lemma union_sizes:
  "unwrap s = ZUnion d options \<Longrightarrow> find_variant k tag options = Some t \<Longrightarrow> size t < size s"
  "unwrap s = ZUnion d options \<Longrightarrow> find_kind v options = Some t \<Longrightarrow> size t < size s"
  using unwrap_size [of s] by (force dest: option_size [of _ _ d] find_variant_mem find_kind_mem)+

text \<open>
  A visit ends the walk with an error, or gives \<open>None\<close> for \<^verbatim>\<open>DROP\<close>, or a value. The three loops of the stripper run a body over
  the entries of a container: it gives what is pushed to the result, or returns \<^verbatim>\<open>DROP\<close> at once.
\<close>

type_synonym 'a visited = "enforce_error + 'a option \<times> walk"

fun strip_each :: "('x \<Rightarrow> walk \<Rightarrow> 'y list visited) \<Rightarrow> 'x list \<Rightarrow> walk \<Rightarrow> 'y list visited" where
  "strip_each body [] w = Inr (Some [], w)"
| "strip_each body (x # xs) w =
     (case body x w of
        Inl e \<Rightarrow> Inl e
      | Inr (None, w1) \<Rightarrow> Inr (None, w1)
      | Inr (Some ys, w1) \<Rightarrow>
          (case strip_each body xs w1 of
             Inl e \<Rightarrow> Inl e
           | Inr (None, w2) \<Rightarrow> Inr (None, w2)
           | Inr (Some zs, w2) \<Rightarrow> Inr (Some (ys @ zs), w2)))"

lemma strip_each_cong [fundef_cong]:
  "xs = xs' \<Longrightarrow> w = w' \<Longrightarrow> (\<And>x w. x \<in> set xs' \<Longrightarrow> body x w = body' x w) \<Longrightarrow> strip_each body xs w = strip_each body' xs' w'"
  by (induction xs arbitrary: xs' w w') (auto split: sum.split option.split)

text \<open>What a loop does with the visit of a child: keep it, or, where it may be absent, report it alone instead of what its own walk
  reported.\<close>

definition keep_child :: "('a \<Rightarrow> 'y) \<Rightarrow> bool \<Rightarrow> string \<Rightarrow> walk \<Rightarrow> 'a visited \<Rightarrow> 'y list visited" where
  "keep_child entry removable path mark r = (case r of
     Inl e \<Rightarrow> Inl e
   | Inr (Some child, w1) \<Rightarrow> Inr (Some [entry child], w1)
   | Inr (None, w1) \<Rightarrow>
       (if removable then Inr (Some [], report path (rewind mark w1)) else Inr (None, rewind mark w1)))"

definition build :: "('y list \<Rightarrow> jsval) \<Rightarrow> 'y list visited \<Rightarrow> jsval visited" where
  "build container r = (case r of
     Inl e \<Rightarrow> Inl e
   | Inr (None, w) \<Rightarrow> Inr (None, w)
   | Inr (Some ys, w) \<Rightarrow> Inr (Some (container ys), w))"

text \<open>The stripper; \<open>opt\<close> tells whether \<^verbatim>\<open>undefined\<close> satisfies a schema.\<close>

function stripAgainst ::
  "(zschema \<Rightarrow> bool) \<Rightarrow> nat option \<Rightarrow> zschema \<Rightarrow> jsval \<Rightarrow> string \<Rightarrow> walk \<Rightarrow> jsval visited" where
  "stripAgainst opt mx schema v path w =
     (case unwrap schema of
        ZObject shape specOpen \<Rightarrow>
          (case v of
             JObj m \<Rightarrow>
               (case charge mx (length m) path w of
                  Inl e \<Rightarrow> Inl e
                | Inr w1 \<Rightarrow>
                    build JObj (strip_each (\<lambda>(key, x) w.
                      (case map_of shape key of
                         None \<Rightarrow>
                           (if specOpen then Inr (Some [(key, x)], w)
                            else Inr (Some [], report (child_path path key) w))
                       | Some s \<Rightarrow>
                           keep_child (Pair key) (opt s) (child_path path key) w
                             (stripAgainst opt mx s x (child_path path key) w))) m w1))
           | _ \<Rightarrow> Inr (Some v, w))
      | ZArray element \<Rightarrow>
          (case v of
             JArr vs \<Rightarrow>
               (case charge mx (length vs) path w of
                  Inl e \<Rightarrow> Inl e
                | Inr w1 \<Rightarrow>
                    build JArr (strip_each (\<lambda>(index, x) w.
                      keep_child id True (child_path path (nat_str index)) w
                        (stripAgainst opt mx element x (child_path path (nat_str index)) w)) (enumerate 0 vs) w1))
           | _ \<Rightarrow> Inr (Some v, w))
      | ZRecord valueType \<Rightarrow>
          (case v of
             JObj m \<Rightarrow>
               (case charge mx (length m) path w of
                  Inl e \<Rightarrow> Inl e
                | Inr w1 \<Rightarrow>
                    build JObj (strip_each (\<lambda>(key, x) w.
                      keep_child (Pair key) True (child_path path key) w
                        (stripAgainst opt mx valueType x (child_path path key) w)) m w1))
           | _ \<Rightarrow> Inr (Some v, w))
      | ZUnion (Some discriminator) options \<Rightarrow>
          (case v of
             JObj m \<Rightarrow>
               (case find_variant discriminator (oget m discriminator) options of
                  Some option \<Rightarrow> stripAgainst opt mx option v path w
                | None \<Rightarrow> Inr (None, w))
           | _ \<Rightarrow> Inr (Some v, w))
      | ZUnion None options \<Rightarrow>
          (if 1 < length (filter (\<lambda>s. is_object_schema (unwrap s)) options) \<and> is_plain_object v then Inr (Some v, w)
           else case find_kind v options of
             Some option \<Rightarrow> stripAgainst opt mx option v path w
           | None \<Rightarrow> Inr (Some v, w))
      | _ \<Rightarrow> Inr (Some v, w))"
  by pat_completeness auto
termination
  by (relation "measure (\<lambda>(opt, mx, s, v, path, w). size s)") (auto dest: unwrap_sizes union_sizes)

declare stripAgainst.simps [simp del]

text \<open>\<^verbatim>\<open>field.safeParse(undefined).success\<close>\<close>

definition accepts_undefined :: "(zschema \<Rightarrow> jsval \<Rightarrow> string + jsval) \<Rightarrow> zschema \<Rightarrow> bool" where
  "accepts_undefined parse s = (case parse s JUndef of Inl _ \<Rightarrow> False | Inr _ \<Rightarrow> True)"

definition stripUnknown ::
  "(zschema \<Rightarrow> bool) \<Rightarrow> budget_option \<Rightarrow> jsval \<Rightarrow> zschema \<Rightarrow> enforce_error + jsval \<times> string list" where
  "stripUnknown opt maxEntries v schema =
     (case resolveMaxEntries maxEntries of
        Inl e \<Rightarrow> Inl e
      | Inr mx \<Rightarrow>
          (case stripAgainst opt mx schema v [] ([], 0) of
             Inl e \<Rightarrow> Inl e
           | Inr (None, w) \<Rightarrow> Inl WholeValueUnrecognised
           | Inr (Some v', w) \<Rightarrow> Inr (v', fst w)))"

subsection \<open>Events\<close>

text \<open>An event as the object it is, and back.\<close>

definition type_string :: "event_type \<Rightarrow> string" where
  "type_string t = (case t of OtherType s \<Rightarrow> s | _ \<Rightarrow> (case map_of EventType t of Some s \<Rightarrow> s | None \<Rightarrow> []))"

definition type_of_string :: "string \<Rightarrow> event_type" where
  "type_of_string s = (case find (\<lambda>e. snd e = s) EventType of Some e \<Rightarrow> fst e | None \<Rightarrow> OtherType s)"

definition event_object :: "event \<Rightarrow> jsval" where
  "event_object ev = JObj ((''type'', JStr (type_string (ev_type ev))) # ev_props ev)"

definition object_event :: "jsval \<Rightarrow> event" where
  "object_event v =
     \<lparr>ev_type = (case jget v ''type'' of JStr s \<Rightarrow> type_of_string s | _ \<Rightarrow> OtherType []),
      ev_props = (case v of JObj m \<Rightarrow> odel ''type'' m | _ \<Rightarrow> [])\<rparr>"

definition isRecognizedEvent :: "event \<Rightarrow> bool" where
  "isRecognizedEvent ev \<longleftrightarrow> type_string (ev_type ev) \<in> set event_type_names"

text \<open>The validator of each type, read off the options of \<^verbatim>\<open>EventSchema\<close>.\<close>

definition EVENT_SCHEMA_BY_TYPE :: "(string \<times> zschema) list" where
  "EVENT_SCHEMA_BY_TYPE =
     (case EventSchema of
        ZUnion _ options \<Rightarrow>
          map (\<lambda>option. (case object_shape option of
             Some shape \<Rightarrow> (js_string (case map_of shape ''type'' of Some s \<Rightarrow> literalValue s | None \<Rightarrow> JUndef), option)
           | None \<Rightarrow> (''undefined'', option))) options
      | _ \<Rightarrow> [])"

definition enforce_event ::
  "(zschema \<Rightarrow> jsval \<Rightarrow> string + jsval) \<Rightarrow> budget_option \<Rightarrow> unit \<Rightarrow> event \<Rightarrow> enforce_error + unit \<times> event list" where
  "enforce_event parse maxEntries st ev =
     (if \<not> isRecognizedEvent ev then Inr (st, [])
      else case map_of EVENT_SCHEMA_BY_TYPE (type_string (ev_type ev)) of
        None \<Rightarrow> Inl (NoValidator (type_string (ev_type ev)))
      | Some schema \<Rightarrow>
          (case stripUnknown (accepts_undefined parse) maxEntries (event_object ev) schema of
             Inl e \<Rightarrow> Inl e
           | Inr (v, stripped) \<Rightarrow>
               (case parse schema v of
                  Inl msg \<Rightarrow> Inl (ParseFailed msg)
                | Inr v' \<Rightarrow> Inr (st, [object_event v']))))"

text \<open>The budget is judged when the stage is made; the resolved value is what every event gets.\<close>

definition resolved :: "nat option \<Rightarrow> budget_option" where
  "resolved mx = (case mx of None \<Rightarrow> Infinite | Some n \<Rightarrow> BudgetValue (JNum (int n)))"

definition enforceEvents ::
  "(zschema \<Rightarrow> jsval \<Rightarrow> string + jsval) \<Rightarrow> budget_option \<Rightarrow> event list \<Rightarrow>
     enforce_error + event list \<times> (enforce_error + unit)" where
  "enforceEvents parse maxEntries events =
     (case resolveMaxEntries maxEntries of
        Inl e \<Rightarrow> Inl e
      | Inr mx \<Rightarrow> Inr (run_stage (enforce_event parse (resolved mx)) () events))"

subsection \<open>The outgoing input\<close>

definition enforceOutgoingInput ::
  "(zschema \<Rightarrow> jsval \<Rightarrow> string + jsval) \<Rightarrow> budget_option \<Rightarrow> jsval \<Rightarrow> enforce_error + jsval" where
  "enforceOutgoingInput parse maxEntries input =
     (case resolveMaxEntries maxEntries of
        Inl e \<Rightarrow> Inl e
      | Inr mx \<Rightarrow>
          (case omitOptionalNulls input ''RunAgentInput'' of
             None \<Rightarrow> Inl UnknownShape
           | Some v \<Rightarrow>
               (case stripUnknown (accepts_undefined parse) (resolved mx) v RunAgentInputSchema of
                  Inl e \<Rightarrow> Inl e
                | Inr (v', stripped) \<Rightarrow> (case parse RunAgentInputSchema v' of Inl msg \<Rightarrow> Inl (ParseFailed msg) | Inr v'' \<Rightarrow> Inr v''))))"

end
