(* ===== verification/LegacyContent.thy ===== *)
theory LegacyContent
  imports JsValue
begin

text \<open>
  Retired content parts: \<^verbatim>\<open>client/src/middleware/legacy-content.ts\<close>, which turns the parts of type \<^verbatim>\<open>binary\<close> inside a message into
  the media parts of today. Both the compatibility boundary and outgoing requests use it. Proved: nothing that
  could be converted is left or lost, the other parts stay in order, and a second upgrade changes nothing. The warning for a part that cannot be converted is left out.
\<close>

subsection \<open>Definitions\<close>

definition mimeTypeToContentType :: "string \<Rightarrow> string" where
  "mimeTypeToContentType mimeType =
     (if prefix ''image/'' mimeType then ''image''
      else if prefix ''audio/'' mimeType then ''audio''
      else if prefix ''video/'' mimeType then ''video''
      else ''document'')"

text \<open>\<^verbatim>\<open>k in v\<close> for an object; arrays own only indices and \<^verbatim>\<open>length\<close>.\<close>

definition has_prop :: "jsval \<Rightarrow> string \<Rightarrow> bool" where
  "has_prop v k = (case v of JObj m \<Rightarrow> has_own m k | _ \<Rightarrow> False)"

definition isLegacyBinaryContent :: "jsval \<Rightarrow> bool" where
  "isLegacyBinaryContent part =
     (is_object part \<and> has_prop part ''type'' \<and> jget part ''type'' = JStr ''binary'' \<and>
      has_prop part ''mimeType'' \<and> is_str (jget part ''mimeType''))"

fun the_str :: "jsval \<Rightarrow> string" where
  "the_str (JStr s) = s"
| "the_str _ = []"

definition filename_metadata :: "jsval \<Rightarrow> jsobj" where
  "filename_metadata binary =
     (if truthy (jget binary ''filename'') then [(''metadata'', JObj [(''filename'', jget binary ''filename'')])] else [])"

definition convertBinaryToNewFormat :: "jsval \<Rightarrow> jsval" where
  "convertBinaryToNewFormat binary =
     (let contentType = JStr (mimeTypeToContentType (the_str (jget binary ''mimeType''))) in
      if truthy (jget binary ''data'') then
        JObj ([(''type'', contentType),
               (''source'', JObj [(''type'', JStr ''data''), (''value'', jget binary ''data''), (''mimeType'', jget binary ''mimeType'')])]
              @ filename_metadata binary)
      else if truthy (jget binary ''url'') then
        JObj ([(''type'', contentType),
               (''source'', JObj [(''type'', JStr ''url''), (''value'', jget binary ''url''), (''mimeType'', jget binary ''mimeType'')])]
              @ filename_metadata binary)
      else binary)"

definition matchesModernPart :: "jsval \<Rightarrow> jsval \<Rightarrow> jsval \<Rightarrow> bool" where
  "matchesModernPart part converted filename =
     (is_object part \<and> has_prop part ''type'' \<and>
      jget part ''type'' = jget converted ''type'' \<and> has_prop part ''source'' \<and>
      (let source = jget part ''source''; converted_source = jget converted ''source'' in
       is_object source \<and>
       has_prop source ''type'' \<and> jget source ''type'' = jget converted_source ''type'' \<and>
       has_prop source ''value'' \<and> jget source ''value'' = jget converted_source ''value'' \<and>
       has_prop source ''mimeType'' \<and> jget source ''mimeType'' = jget converted_source ''mimeType'') \<and>
      (\<not> truthy filename \<or>
        has_prop part ''metadata'' \<and> is_object (jget part ''metadata'') \<and>
        has_prop (jget part ''metadata'') ''filename'' \<and> jget (jget part ''metadata'') ''filename'' = filename))"

definition upgrade_part :: "jsval list \<Rightarrow> jsval \<Rightarrow> jsval list" where
  "upgrade_part rawContent part =
     (if isLegacyBinaryContent part
      then let converted = convertBinaryToNewFormat part in
           if jget converted ''type'' \<noteq> JStr ''binary'' \<and>
              list_ex (\<lambda>other. matchesModernPart other converted (jget part ''filename'')) rawContent
           then [] else [converted]
      else [part])"

definition upgradeMessageContent :: "jsval \<Rightarrow> jsval" where
  "upgradeMessageContent message =
     (case message of
        JObj m \<Rightarrow>
          (case oget m ''content'' of
             JArr rawContent \<Rightarrow> JObj (oset ''content'' (JArr (concat (map (upgrade_part rawContent) rawContent))) m)
           | _ \<Rightarrow> message)
      | _ \<Rightarrow> message)"

subsection \<open>Laws\<close>

text \<open>A legacy part with data or a url has a form of today; one with only an id has not.\<close>

definition convertible :: "jsval \<Rightarrow> bool" where
  "convertible part = (isLegacyBinaryContent part \<and> (truthy (jget part ''data'') \<or> truthy (jget part ''url'')))"

lemma content_type_modern: "mimeTypeToContentType t \<noteq> ''binary''"
  by (simp add: mimeTypeToContentType_def)

lemma converted_type: "convertible part \<Longrightarrow> jget (convertBinaryToNewFormat part) ''type'' \<noteq> JStr ''binary''"
  by (auto simp: convertible_def convertBinaryToNewFormat_def Let_def content_type_modern)

lemma converted_same: "isLegacyBinaryContent part \<Longrightarrow> \<not> convertible part \<Longrightarrow> convertBinaryToNewFormat part = part"
  by (simp add: convertible_def convertBinaryToNewFormat_def Let_def)

lemma converted_matches:
  "convertible part \<Longrightarrow> matchesModernPart (convertBinaryToNewFormat part) (convertBinaryToNewFormat part) (jget part ''filename'')"
  by (auto simp: convertible_def convertBinaryToNewFormat_def matchesModernPart_def has_prop_def filename_metadata_def Let_def)

lemma upgrade_part_kept: "\<not> convertible part \<Longrightarrow> upgrade_part raw part = [part]"
  by (cases "isLegacyBinaryContent part") (auto simp: upgrade_part_def converted_same isLegacyBinaryContent_def)

lemma upgrade_part_converted:
  assumes "convertible part"
  shows "upgrade_part raw part =
    (if list_ex (\<lambda>other. matchesModernPart other (convertBinaryToNewFormat part) (jget part ''filename'')) raw
     then [] else [convertBinaryToNewFormat part])"
proof -
  from assms have "isLegacyBinaryContent part" by (simp add: convertible_def)
  with converted_type [OF assms] show ?thesis by (simp add: upgrade_part_def)
qed

lemma modern_not_convertible: "jget part ''type'' \<noteq> JStr ''binary'' \<Longrightarrow> \<not> convertible part"
  by (simp add: convertible_def isLegacyBinaryContent_def)

lemma upgrade_part_in: "p \<in> set (upgrade_part raw part) \<Longrightarrow> \<not> convertible p"
  using converted_type [of part]
  by (cases "convertible part") (auto simp: upgrade_part_kept upgrade_part_converted modern_not_convertible split: if_splits)

lemma upgrade_none: "(\<And>p. p \<in> set ps \<Longrightarrow> \<not> convertible p) \<Longrightarrow> concat (map (upgrade_part raw) ps) = ps"
  by (induction ps) (simp_all add: upgrade_part_kept)

text \<open>A part that matches a converted one is a part of today, so the upgrade keeps it.\<close>

lemma matching_stays:
  "other \<in> set raw \<Longrightarrow> convertible part \<Longrightarrow> matchesModernPart other (convertBinaryToNewFormat part) f \<Longrightarrow>
     other \<in> set (concat (map (upgrade_part raw) raw))"
proof -
  assume *: "other \<in> set raw" "convertible part" "matchesModernPart other (convertBinaryToNewFormat part) f"
  then have "\<not> convertible other" by (intro modern_not_convertible) (simp add: matchesModernPart_def converted_type)
  then have "upgrade_part raw other = [other]" by (rule upgrade_part_kept)
  with *(1) show ?thesis by (auto intro!: bexI [of _ other])
qed

lemma upgraded_represents:
  assumes "part \<in> set raw" "convertible part"
  shows "\<exists>p \<in> set (concat (map (upgrade_part raw) raw)).
    matchesModernPart p (convertBinaryToNewFormat part) (jget part ''filename'')"
proof (cases "list_ex (\<lambda>other. matchesModernPart other (convertBinaryToNewFormat part) (jget part ''filename'')) raw")
  case True
  then obtain other where other: "other \<in> set raw"
    "matchesModernPart other (convertBinaryToNewFormat part) (jget part ''filename'')"
    unfolding list_ex_iff by blast
  have "other \<in> set (concat (map (upgrade_part raw) raw))" by (rule matching_stays [OF other(1) assms(2) other(2)])
  with other(2) show ?thesis by (rule bexI [of _ other])
next
  case False
  with assms(2) have "upgrade_part raw part = [convertBinaryToNewFormat part]" by (simp add: upgrade_part_converted)
  with assms(1) have "convertBinaryToNewFormat part \<in> set (concat (map (upgrade_part raw) raw))"
    by (auto intro!: bexI [of _ part])
  with converted_matches [OF assms(2)] show ?thesis by blast
qed

text \<open>What is no legacy part stays, in order: it is what the upgrade leaves of the list without the converted parts.\<close>

lemma upgraded_others:
  "\<exists>new. concat (map (upgrade_part raw) ps) \<in> shuffles (filter (\<lambda>p. \<not> convertible p) ps) new \<and> length new \<le> length ps \<and>
     set new \<subseteq> convertBinaryToNewFormat ` {p \<in> set ps. convertible p}"
proof (induction ps)
  case (Cons p ps)
  then obtain new where new: "concat (map (upgrade_part raw) ps) \<in> shuffles (filter (\<lambda>p. \<not> convertible p) ps) new"
    "length new \<le> length ps" "set new \<subseteq> convertBinaryToNewFormat ` {p \<in> set ps. convertible p}" by blast
  show ?case
  proof (cases "convertible p")
    case False
    with new show ?thesis by (intro exI [of _ new]) (auto simp: upgrade_part_kept intro: Cons_in_shuffles_leftI)
  next
    case True
    consider "upgrade_part raw p = []" | "upgrade_part raw p = [convertBinaryToNewFormat p]"
      using upgrade_part_converted [OF True, of raw] by (auto split: if_splits)
    then show ?thesis
    proof cases
      case 1
      with True new show ?thesis by (intro exI [of _ new]) auto
    next
      case 2
      with True new show ?thesis
        by (intro exI [of _ "convertBinaryToNewFormat p # new"]) (auto intro: Cons_in_shuffles_rightI)
    qed
  qed
qed simp

end
