(* ===== verification/Boundary.thy ===== *)
theory Boundary
  imports Enforce LegacyContent
begin

text \<open>
  The compatibility boundary, \<^verbatim>\<open>client/src/middleware/compatibility-boundary.ts\<close>, which turns what older producers send into the events
  of today. A conversion returns its result with the notices it gives, in order; the record \<open>boundary_fields\<close> holds the fields of one
  \<^verbatim>\<open>CompatibilityBoundary\<close>. \<^verbatim>\<open>randomUUID\<close> is the parameter \<open>uuid\<close>, read at the number of the call. A conversion that
  finds nothing to do returns its argument itself, so the tests by identity of the code are tests of equality here.
\<close>

subsection \<open>Optional nulls\<close>

definition event_nulls :: "string list" where
  "event_nulls = [''rawEvent'', ''subagentRunId'']"

definition EVENT_TYPE_OPTIONAL_NULLS :: "(event_type \<times> string list) list" where
  "EVENT_TYPE_OPTIONAL_NULLS =
     [(RUN_STARTED, [''parentRunId'', ''input'']),
      (RUN_FINISHED, [''result'', ''outcome'']),
      (RUN_ERROR, [''usage'']),
      (SUBAGENT_FINISHED, [''result'']),
      (TOOL_CALL_START, [''parentMessageId'']),
      (TOOL_CALL_CHUNK, [''parentMessageId'']),
      (TOOL_CALL_RESULT, [''role''])]"

definition outcome_nulls :: "string list" where
  "outcome_nulls = [''pendingToolCallIds'']"

definition usage_nulls :: "string list" where
  "usage_nulls = [''provider'', ''reasoningTokens'', ''cachedInputTokens'', ''cacheWriteInputTokens'']"

definition input_nulls :: "string list" where
  "input_nulls = [''forwardedProps'']"

definition tool_nulls :: "string list" where
  "tool_nulls = [''parameters'']"

definition resume_nulls :: "string list" where
  "resume_nulls = [''payload'']"

definition part_nulls :: "string list" where
  "part_nulls = [''metadata'']"

definition null_notice :: "string option \<Rightarrow> string \<Rightarrow> string" where
  "null_notice label fld =
     (case label of None \<Rightarrow> fld @ '': null'' | Some l \<Rightarrow> l @ ''.'' @ fld @ '': null'')"

text \<open>The loop of \<^verbatim>\<open>omitOptionalNulls\<close>: \<open>m\<close> is the value, \<open>rest\<close> the copy made so far.\<close>

fun omit_each :: "string option \<Rightarrow> jsobj \<Rightarrow> string list \<Rightarrow> jsobj \<Rightarrow> jsobj \<times> string list" where
  "omit_each label m [] rest = (rest, [])"
| "omit_each label m (fld # flds) rest =
     (if oget m fld \<noteq> JNull then omit_each label m flds rest
      else let (rest', ns) = omit_each label m flds (odel fld rest) in (rest', null_notice label fld # ns))"

definition omitNulls :: "jsval \<Rightarrow> string list \<Rightarrow> string option \<Rightarrow> jsval \<times> string list" where
  "omitNulls v flds label =
     (case v of
        JObj m \<Rightarrow> (let (rest, ns) = omit_each label m flds m in (JObj rest, ns))
      | _ \<Rightarrow> (v, []))"

definition omit_event_nulls :: "event \<Rightarrow> string list \<Rightarrow> string option \<Rightarrow> event \<times> string list" where
  "omit_event_nulls ev flds label =
     (let (rest, ns) = omit_each label (ev_props ev) flds (ev_props ev) in (ev\<lparr>ev_props := rest\<rparr>, ns))"

definition mapProtocolArray :: "jsval \<Rightarrow> string \<Rightarrow> (jsval \<Rightarrow> jsval \<times> string list) \<Rightarrow> jsval \<times> string list" where
  "mapProtocolArray v fld norm =
     (case v of
        JObj m \<Rightarrow>
          (case oget m fld of
             JArr original \<Rightarrow>
               (let entries = map (fst \<circ> norm) original; ns = concat (map (snd \<circ> norm) original)
                in (if entries \<noteq> original then JObj (oset fld (JArr entries) m) else v, ns))
           | _ \<Rightarrow> (v, []))
      | _ \<Rightarrow> (v, []))"

definition normalize_part :: "jsval \<Rightarrow> jsval \<times> string list" where
  "normalize_part part =
     (case part of
        JObj m \<Rightarrow>
          (case oget m ''type'' of
             JStr t \<Rightarrow>
               (if t \<in> {''image'', ''audio'', ''video'', ''document''}
                then omitNulls part part_nulls (Some (t @ '' input content'')) else (part, []))
           | _ \<Rightarrow> (part, []))
      | _ \<Rightarrow> (part, []))"

definition normalizeLegacyMessageNulls :: "jsval \<Rightarrow> jsval \<times> string list" where
  "normalizeLegacyMessageNulls message = mapProtocolArray message ''content'' normalize_part"

definition normalizeLegacyRunAgentInput :: "jsval \<Rightarrow> jsval \<times> string list" where
  "normalizeLegacyRunAgentInput input =
     (let (v1, n1) = omitNulls input input_nulls (Some ''RunAgentInput'');
          (v2, n2) = mapProtocolArray v1 ''tools'' (\<lambda>tool. omitNulls tool tool_nulls (Some ''Tool''));
          (v3, n3) = mapProtocolArray v2 ''resume'' (\<lambda>entry. omitNulls entry resume_nulls (Some ''ResumeEntry''));
          (v4, n4) = mapProtocolArray v3 ''messages'' normalizeLegacyMessageNulls
      in (v4, n1 @ n2 @ n3 @ n4))"

subsection \<open>State and notices\<close>

datatype notice =
    Converting string string
  | Minting string string
  | DroppingTitle jsval

record boundary_fields =
  currentReasoningId :: "string option"
  currentMessageId :: "string option"
  nullsNoticedThisRun :: "string list"
  uuids :: nat

definition init_boundary :: boundary_fields where
  "init_boundary = \<lparr>currentReasoningId = None, currentMessageId = None, nullsNoticedThisRun = [], uuids = 0\<rparr>"

definition randomUUID :: "(nat \<Rightarrow> string) \<Rightarrow> boundary_fields \<Rightarrow> string \<times> boundary_fields" where
  "randomUUID uuid st = (uuid (uuids st), st\<lparr>uuids := Suc (uuids st)\<rparr>)"

fun noticeNulls :: "string list \<Rightarrow> string list \<Rightarrow> string list \<times> notice list" where
  "noticeNulls seen [] = (seen, [])"
| "noticeNulls seen (w # ws) =
     (if w \<in> set seen then noticeNulls seen ws
      else let (seen', ns) = noticeNulls (set_add w seen) ws in (seen', Converting w ''an absent field'' # ns))"

definition noticeNullOncePerRun :: "string list \<Rightarrow> boundary_fields \<Rightarrow> boundary_fields \<times> notice list" where
  "noticeNullOncePerRun whats st =
     (let (seen, ns) = noticeNulls (nullsNoticedThisRun st) whats in (st\<lparr>nullsNoticedThisRun := seen\<rparr>, ns))"

definition mintedContinuationId ::
  "(nat \<Rightarrow> string) \<Rightarrow> string \<Rightarrow> string option \<Rightarrow> boundary_fields \<Rightarrow> string \<times> boundary_fields \<times> notice list" where
  "mintedContinuationId uuid origin established st =
     (case established of
        Some i \<Rightarrow> (i, st, [])
      | None \<Rightarrow> (let (minted, st) = randomUUID uuid st in (minted, st, [Minting minted origin])))"

subsection \<open>Translating an event\<close>

abbreviation THINKING_START :: event_type where "THINKING_START \<equiv> OtherType ''THINKING_START''"
abbreviation THINKING_END :: event_type where "THINKING_END \<equiv> OtherType ''THINKING_END''"
abbreviation THINKING_TEXT_MESSAGE_START :: event_type where
  "THINKING_TEXT_MESSAGE_START \<equiv> OtherType ''THINKING_TEXT_MESSAGE_START''"
abbreviation THINKING_TEXT_MESSAGE_CONTENT :: event_type where
  "THINKING_TEXT_MESSAGE_CONTENT \<equiv> OtherType ''THINKING_TEXT_MESSAGE_CONTENT''"
abbreviation THINKING_TEXT_MESSAGE_END :: event_type where
  "THINKING_TEXT_MESSAGE_END \<equiv> OtherType ''THINKING_TEXT_MESSAGE_END''"

text \<open>\<^verbatim>\<open>{ ...event, type: t, messageId: i }\<close>\<close>

definition retyped :: "event_type \<Rightarrow> string \<Rightarrow> jsobj \<Rightarrow> event" where
  "retyped t i props = \<lparr>ev_type = t, ev_props = oset ''messageId'' (JStr i) props\<rparr>"

definition on_thinking_start :: "(nat \<Rightarrow> string) \<Rightarrow> event \<Rightarrow> boundary_fields \<Rightarrow> boundary_fields \<times> event \<times> notice list" where
  "on_thinking_start uuid ev st =
     (let (i, st) = randomUUID uuid st;
          title = field ev ''title'';
          rest = odel ''title'' (ev_props ev)
      in (st\<lparr>currentReasoningId := Some i\<rparr>, retyped REASONING_START i rest,
          Converting ''THINKING_START'' ''REASONING_START'' # (if title \<noteq> JUndef then [DroppingTitle title] else [])))"

definition on_thinking_text_start :: "(nat \<Rightarrow> string) \<Rightarrow> event \<Rightarrow> boundary_fields \<Rightarrow> boundary_fields \<times> event \<times> notice list" where
  "on_thinking_text_start uuid ev st =
     (let (i, st) = randomUUID uuid st;
          ev' = retyped REASONING_MESSAGE_START i (ev_props ev)
      in (st\<lparr>currentMessageId := Some i\<rparr>, ev'\<lparr>ev_props := oset ''role'' (JStr ''reasoning'') (ev_props ev')\<rparr>,
          [Converting ''THINKING_TEXT_MESSAGE_START'' ''REASONING_MESSAGE_START'']))"

definition on_thinking_text_content :: "(nat \<Rightarrow> string) \<Rightarrow> event \<Rightarrow> boundary_fields \<Rightarrow> boundary_fields \<times> event \<times> notice list" where
  "on_thinking_text_content uuid ev st =
     (let (i, st, ns) = mintedContinuationId uuid ''THINKING_TEXT_MESSAGE_CONTENT'' (currentMessageId st) st;
          ev' = retyped REASONING_MESSAGE_CONTENT i (odel ''delta'' (ev_props ev))
      in (st, ev'\<lparr>ev_props := oset ''delta'' (field ev ''delta'') (ev_props ev')\<rparr>,
          Converting ''THINKING_TEXT_MESSAGE_CONTENT'' ''REASONING_MESSAGE_CONTENT'' # ns))"

definition on_thinking_text_end :: "(nat \<Rightarrow> string) \<Rightarrow> event \<Rightarrow> boundary_fields \<Rightarrow> boundary_fields \<times> event \<times> notice list" where
  "on_thinking_text_end uuid ev st =
     (let (i, st, ns) = mintedContinuationId uuid ''THINKING_TEXT_MESSAGE_END'' (currentMessageId st) st
      in (st\<lparr>currentMessageId := None\<rparr>, retyped REASONING_MESSAGE_END i (ev_props ev),
          ns @ [Converting ''THINKING_TEXT_MESSAGE_END'' ''REASONING_MESSAGE_END'']))"

definition on_thinking_end :: "(nat \<Rightarrow> string) \<Rightarrow> event \<Rightarrow> boundary_fields \<Rightarrow> boundary_fields \<times> event \<times> notice list" where
  "on_thinking_end uuid ev st =
     (let (i, st, ns) = mintedContinuationId uuid ''THINKING_END'' (currentReasoningId st) st
      in (st\<lparr>currentReasoningId := None\<rparr>, retyped REASONING_END i (ev_props ev),
          ns @ [Converting ''THINKING_END'' ''REASONING_END'']))"

definition finished_nulls :: "event \<Rightarrow> event \<times> string list" where
  "finished_nulls ev =
     (let (outcome, n1) = omitNulls (field ev ''outcome'') outcome_nulls (Some ''RUN_FINISHED.outcome'');
          normalized = (if outcome = field ev ''outcome'' then ev_props ev else oset ''outcome'' outcome (ev_props ev));
          (v, n2) = mapProtocolArray (JObj normalized) ''usage''
                      (\<lambda>entry. omitNulls entry usage_nulls (Some ''RUN_FINISHED.usage[]''))
      in (case v of JObj m \<Rightarrow> (ev\<lparr>ev_props := m\<rparr>, n1 @ n2) | _ \<Rightarrow> (ev, n1 @ n2)))"

text \<open>A message of a snapshot or of an echoed input: its nulls are noticed before its parts are converted.\<close>

definition has_legacy_binary :: "jsval \<Rightarrow> bool" where
  "has_legacy_binary message =
     list_ex (\<lambda>part. is_object part \<and> jget part ''type'' = JStr ''binary'') (arr_items (jget message ''content''))"

definition upgradeInboundMessage :: "boundary_fields \<Rightarrow> jsval \<Rightarrow> boundary_fields \<times> jsval \<times> notice list" where
  "upgradeInboundMessage st message =
     (let (message, whats) = normalizeLegacyMessageNulls message;
          (st, ns) = noticeNullOncePerRun whats st
      in if \<not> has_legacy_binary message then (st, message, ns)
         else (st, upgradeMessageContent message,
               ns @ [Converting ''binary input content'' ''the modern media content parts'']))"

fun upgradeInboundMessages :: "boundary_fields \<Rightarrow> jsval list \<Rightarrow> boundary_fields \<times> jsval list \<times> notice list" where
  "upgradeInboundMessages st [] = (st, [], [])"
| "upgradeInboundMessages st (m # ms) =
     (let (st, m', ns) = upgradeInboundMessage st m;
          (st, ms', ns') = upgradeInboundMessages st ms
      in (st, m' # ms', ns @ ns'))"

definition on_legacy_snapshot :: "event \<Rightarrow> boundary_fields \<Rightarrow> boundary_fields \<times> event \<times> notice list" where
  "on_legacy_snapshot ev st =
     (case field ev ''messages'' of
        JArr ms \<Rightarrow>
          (let (st, ms', ns) = upgradeInboundMessages st ms
           in (st, ev\<lparr>ev_props := oset ''messages'' (JArr ms') (ev_props ev)\<rparr>, ns))
      | _ \<Rightarrow> (st, ev, []))"

definition on_legacy_run_started :: "event \<Rightarrow> boundary_fields \<Rightarrow> boundary_fields \<times> event \<times> notice list" where
  "on_legacy_run_started ev st =
     (let (input, whats) = normalizeLegacyRunAgentInput (field ev ''input'');
          (st, ns) = noticeNullOncePerRun whats st;
          ev = (if input = field ev ''input'' then ev else ev\<lparr>ev_props := oset ''input'' input (ev_props ev)\<rparr>)
      in case field ev ''input'' of
           JObj m \<Rightarrow>
             (case oget m ''messages'' of
                JArr ms \<Rightarrow>
                  (let (st, ms', ns') = upgradeInboundMessages st ms
                   in (st, ev\<lparr>ev_props := oset ''input'' (JObj (oset ''messages'' (JArr ms') m)) (ev_props ev)\<rparr>, ns @ ns'))
              | _ \<Rightarrow> (st, ev, ns))
         | _ \<Rightarrow> (st, ev, ns))"

definition clear_noticed :: "event \<Rightarrow> boundary_fields \<Rightarrow> boundary_fields" where
  "clear_noticed ev st = (if ev_type ev = RUN_STARTED then st\<lparr>nullsNoticedThisRun := []\<rparr> else st)"

text \<open>The nulls of the event itself, those allowed on any event first.\<close>

definition event_level_nulls :: "event \<Rightarrow> event \<times> string list" where
  "event_level_nulls ev =
     (let (ev, n1) = omit_event_nulls ev event_nulls None in
      case map_of EVENT_TYPE_OPTIONAL_NULLS (ev_type ev) of
        None \<Rightarrow> (ev, n1)
      | Some typeFields \<Rightarrow>
          (let (ev, n2) = omit_event_nulls ev typeFields (Some (type_string (ev_type ev))) in (ev, n1 @ n2)))"

definition translate :: "(nat \<Rightarrow> string) \<Rightarrow> event \<Rightarrow> boundary_fields \<Rightarrow> boundary_fields \<times> event \<times> notice list" where
  "translate uuid ev st =
     (if ev_type ev = THINKING_START then on_thinking_start uuid ev st
      else if ev_type ev = THINKING_TEXT_MESSAGE_START then on_thinking_text_start uuid ev st
      else if ev_type ev = THINKING_TEXT_MESSAGE_CONTENT then on_thinking_text_content uuid ev st
      else if ev_type ev = THINKING_TEXT_MESSAGE_END then on_thinking_text_end uuid ev st
      else if ev_type ev = THINKING_END then on_thinking_end uuid ev st
      else if ev_type ev = RUN_FINISHED then
        (let (ev, whats) = finished_nulls ev; (st, ns) = noticeNullOncePerRun whats st in (st, ev, ns))
      else if ev_type ev = MESSAGES_SNAPSHOT then on_legacy_snapshot ev st
      else if ev_type ev = RUN_STARTED then on_legacy_run_started ev st
      else (st, ev, []))"

definition transformEvent :: "(nat \<Rightarrow> string) \<Rightarrow> event \<Rightarrow> boundary_fields \<Rightarrow> boundary_fields \<times> event \<times> notice list" where
  "transformEvent uuid ev st =
     (let st = clear_noticed ev st;
          (ev, whats) = event_level_nulls ev;
          (st, ns) = noticeNullOncePerRun whats st;
          (st, ev, ns') = translate uuid ev st
      in (st, ev, ns @ ns'))"

fun boundary_events :: "(nat \<Rightarrow> string) \<Rightarrow> boundary_fields \<Rightarrow> event list \<Rightarrow> event list \<times> notice list" where
  "boundary_events uuid st [] = ([], [])"
| "boundary_events uuid st (ev # evs) =
     (let (st, ev', ns) = transformEvent uuid ev st; (evs', ns') = boundary_events uuid st evs
      in (ev' # evs', ns @ ns'))"

text \<open>\<^verbatim>\<open>compatibilityBoundaryOperator\<close>: a fresh instance for each subscription.\<close>

definition compatibilityBoundaryOperator :: "(nat \<Rightarrow> string) \<Rightarrow> event list \<Rightarrow> event list" where
  "compatibilityBoundaryOperator uuid events = fst (boundary_events uuid init_boundary events)"

end
