(* ===== verification/Chunks.thy ===== *)
theory Chunks
  imports Events
begin

text \<open>
  Chunk expansion, \<^verbatim>\<open>transformChunks\<close> of \<^verbatim>\<open>client/src/chunks/transform.ts\<close>: the chunk
  shorthand events become start, content and end events. The closure variable \<^verbatim>\<open>lanes\<close> is an
  insertion-ordered association list from an owner (\<open>JUndef\<close> for the parent agent) to the
  stream its chunks are assembling. The three chunk cases of the switch have one shape;
  \<open>on_chunk\<close> is that shape, and what the three arms do differently (the identifier, the opener
  literal, the fields a continuation may repeat) are the functions of \<open>stream_kind\<close> it uses.
  Debug logging and the console warning about a shadowed property are left out.
\<close>

subsection \<open>Data\<close>

datatype stream_kind = KText | KTool | KReasoning

text \<open>\<^verbatim>\<open>PendingStream\<close>: the fields are those of the three interfaces, in their order; the last one is
  \<^verbatim>\<open>subagentRunId\<close>.\<close>

datatype pending_stream =
    PText jsval jsval jsval jsval
  | PTool jsval jsval jsval jsval
  | PReasoning jsval jsval

type_synonym lanes = "(jsval \<times> pending_stream) list"

datatype chunk_error =
    OpenerDisagreement stream_kind jsval string jsval jsval
  | LaneMismatch stream_kind jsval jsval jsval
  | AmbiguousChunk stream_kind nat
  | FirstChunkMissing stream_kind string

fun pending_kind :: "pending_stream \<Rightarrow> stream_kind" where
  "pending_kind (PText _ _ _ _) = KText"
| "pending_kind (PTool _ _ _ _) = KTool"
| "pending_kind (PReasoning _ _) = KReasoning"

fun pendingEntityId :: "pending_stream \<Rightarrow> jsval" where
  "pendingEntityId (PText messageId _ _ _) = messageId"
| "pendingEntityId (PTool toolCallId _ _ _) = toolCallId"
| "pendingEntityId (PReasoning messageId _) = messageId"

fun pending_owner :: "pending_stream \<Rightarrow> jsval" where
  "pending_owner (PText _ _ _ tag) = tag"
| "pending_owner (PTool _ _ _ tag) = tag"
| "pending_owner (PReasoning _ tag) = tag"

fun missingIdFieldName :: "stream_kind \<Rightarrow> string" where
  "missingIdFieldName KText = ''messageId''"
| "missingIdFieldName KTool = ''toolCallId''"
| "missingIdFieldName KReasoning = ''messageId''"

fun kind_of_type :: "event_type \<Rightarrow> stream_kind option" where
  "kind_of_type TEXT_MESSAGE_CHUNK = Some KText"
| "kind_of_type TOOL_CALL_CHUNK = Some KTool"
| "kind_of_type REASONING_MESSAGE_CHUNK = Some KReasoning"
| "kind_of_type _ = None"

fun start_type :: "stream_kind \<Rightarrow> event_type" where
  "start_type KText = TEXT_MESSAGE_START"
| "start_type KTool = TOOL_CALL_START"
| "start_type KReasoning = REASONING_MESSAGE_START"

fun content_type :: "stream_kind \<Rightarrow> event_type" where
  "content_type KText = TEXT_MESSAGE_CONTENT"
| "content_type KTool = TOOL_CALL_ARGS"
| "content_type KReasoning = REASONING_MESSAGE_CONTENT"

fun end_type :: "stream_kind \<Rightarrow> event_type" where
  "end_type KText = TEXT_MESSAGE_END"
| "end_type KTool = TOOL_CALL_END"
| "end_type KReasoning = REASONING_MESSAGE_END"

subsection \<open>What rides on a synthesized event\<close>

definition requireOpenerAgreement ::
  "stream_kind \<Rightarrow> jsval \<Rightarrow> string \<Rightarrow> jsval \<Rightarrow> jsval \<Rightarrow> chunk_error option" where
  "requireOpenerAgreement kind entityId fld incoming established =
     (if incoming \<noteq> JUndef \<and> incoming \<noteq> established
      then Some (OpenerDisagreement kind entityId fld incoming established) else None)"

definition withChunkMetadata :: "event \<Rightarrow> event \<Rightarrow> event" where
  "withChunkMetadata ev chunk =
     (if field chunk ''metadata'' = JUndef then ev
      else ev\<lparr>ev_props := oset ''metadata'' (field chunk ''metadata'') (ev_props ev)\<rparr>)"

definition withChunkOrigin :: "event \<Rightarrow> event \<Rightarrow> event" where
  "withChunkOrigin ev chunk =
     (let withMetadata = withChunkMetadata ev chunk in
      if field chunk ''rawEvent'' = JUndef then withMetadata
      else withMetadata\<lparr>ev_props := oset ''rawEvent'' (field chunk ''rawEvent'') (ev_props withMetadata)\<rparr>)"

text \<open>The property names of the three chunk schemas, \<^verbatim>\<open>type\<close> apart.\<close>

fun describedFields :: "stream_kind \<Rightarrow> string list" where
  "describedFields KText = [''timestamp'', ''rawEvent'', ''metadata'', ''subagentRunId'',
     ''messageId'', ''role'', ''delta'', ''name'']"
| "describedFields KTool = [''timestamp'', ''rawEvent'', ''metadata'', ''subagentRunId'',
     ''toolCallId'', ''toolCallName'', ''parentMessageId'', ''delta'']"
| "describedFields KReasoning = [''timestamp'', ''rawEvent'', ''metadata'', ''subagentRunId'',
     ''messageId'', ''delta'']"

text \<open>The empty remainder is the source's \<^verbatim>\<open>undefined\<close>: the object is made on its first property.\<close>

definition unrecognisedChunkProperties :: "event \<Rightarrow> stream_kind \<Rightarrow> jsobj" where
  "unrecognisedChunkProperties chunk kind =
     filter (\<lambda>(k, _). k \<notin> set (describedFields kind)) (ev_props chunk)"

definition carryRemainderOnOpener :: "event list \<Rightarrow> jsobj \<Rightarrow> bool \<Rightarrow> event list" where
  "carryRemainderOnOpener synthesized remainder alreadyCarried =
     (if remainder = [] \<or> alreadyCarried \<or> synthesized = [] then synthesized
      else butlast synthesized @
        [(last synthesized)\<lparr>ev_props := spread remainder (ev_props (last synthesized))\<rparr>])"

subsection \<open>Lanes\<close>

fun end_event :: "pending_stream \<Rightarrow> event" where
  "end_event (PText messageId role name tag) =
     mk_event TEXT_MESSAGE_END ((''messageId'', messageId) # opt_prop ''subagentRunId'' tag)"
| "end_event (PTool toolCallId name parent tag) =
     mk_event TOOL_CALL_END ((''toolCallId'', toolCallId) # opt_prop ''subagentRunId'' tag)"
| "end_event (PReasoning messageId tag) =
     mk_event REASONING_MESSAGE_END ((''messageId'', messageId) # opt_prop ''subagentRunId'' tag)"

definition closeLane :: "jsval \<Rightarrow> lanes \<Rightarrow> event list \<times> lanes" where
  "closeLane owner ls =
     (case map_of ls owner of
        None \<Rightarrow> ([], ls)
      | Some pending \<Rightarrow> ([end_event pending], AList.delete owner ls))"

fun close_each :: "jsval list \<Rightarrow> lanes \<Rightarrow> event list \<times> lanes" where
  "close_each [] ls = ([], ls)"
| "close_each (owner # owners) ls =
     (let (evs, ls') = closeLane owner ls; (evs', ls'') = close_each owners ls' in (evs @ evs', ls''))"

definition closeAllLanes :: "lanes \<Rightarrow> event list \<times> lanes" where
  "closeAllLanes ls = close_each (map fst ls) ls"

definition laneHolding :: "stream_kind \<Rightarrow> jsval \<Rightarrow> lanes \<Rightarrow> jsval option" where
  "laneHolding kind entityId ls =
     map_option fst (find (\<lambda>(_, pending). pending_kind pending = kind \<and> pendingEntityId pending = entityId) ls)"

definition resolveLane :: "stream_kind \<Rightarrow> jsval \<Rightarrow> jsval \<Rightarrow> lanes \<Rightarrow> chunk_error + jsval" where
  "resolveLane kind entityId tag ls =
     (if entityId \<noteq> JUndef
      then (case laneHolding kind entityId ls of
              Some owner \<Rightarrow> (if tag \<noteq> JUndef \<and> tag \<noteq> owner
                            then Inl (LaneMismatch kind entityId tag owner) else Inr owner)
            | None \<Rightarrow> Inr tag)
      else if tag \<noteq> JUndef then Inr tag
      else if map_option pending_kind (map_of ls JUndef) = Some kind then Inr JUndef
      else (case filter (\<lambda>(_, pending). pending_kind pending = kind) ls of
              [] \<Rightarrow> Inr JUndef
            | [(owner, _)] \<Rightarrow> Inr owner
            | candidates \<Rightarrow> Inl (AmbiguousChunk kind (length candidates))))"

subsection \<open>The chunk cases\<close>

text \<open>A continuation: the lane's stream is of the chunk's kind and the chunk names no other one.\<close>

definition continues :: "stream_kind \<Rightarrow> event \<Rightarrow> pending_stream \<Rightarrow> bool" where
  "continues kind chunk pending \<longleftrightarrow> pending_kind pending = kind \<and>
     (field chunk (missingIdFieldName kind) = JUndef \<or>
      field chunk (missingIdFieldName kind) = pendingEntityId pending)"

fun opener_agreement :: "event \<Rightarrow> pending_stream \<Rightarrow> chunk_error option" where
  "opener_agreement chunk (PText messageId role name tag) =
     first_error [requireOpenerAgreement KText messageId ''role'' (field chunk ''role'') role,
                  requireOpenerAgreement KText messageId ''name'' (field chunk ''name'') name]"
| "opener_agreement chunk (PTool toolCallId toolCallName parentMessageId tag) =
     first_error
       [requireOpenerAgreement KTool toolCallId ''toolCallName'' (field chunk ''toolCallName'') toolCallName,
        requireOpenerAgreement KTool toolCallId ''parentMessageId'' (field chunk ''parentMessageId'') parentMessageId]"
| "opener_agreement chunk (PReasoning messageId tag) = None"

text \<open>What the first chunk of a stream must carry.\<close>

fun opener_missing :: "stream_kind \<Rightarrow> event \<Rightarrow> chunk_error option" where
  "opener_missing KText chunk =
     (if field chunk ''messageId'' = JUndef then Some (FirstChunkMissing KText ''messageId'') else None)"
| "opener_missing KTool chunk =
     (if field chunk ''toolCallId'' = JUndef then Some (FirstChunkMissing KTool ''toolCallId'')
      else if field chunk ''toolCallName'' = JUndef then Some (FirstChunkMissing KTool ''toolCallName'')
      else None)"
| "opener_missing KReasoning chunk =
     (if field chunk ''messageId'' = JUndef then Some (FirstChunkMissing KReasoning ''messageId'') else None)"

fun opened_stream :: "stream_kind \<Rightarrow> event \<Rightarrow> pending_stream" where
  "opened_stream KText chunk =
     PText (field chunk ''messageId'')
       (if field chunk ''role'' = JUndef then JStr ''assistant'' else field chunk ''role'')
       (field chunk ''name'') (tag_of chunk)"
| "opened_stream KTool chunk =
     PTool (field chunk ''toolCallId'') (field chunk ''toolCallName'') (field chunk ''parentMessageId'')
       (tag_of chunk)"
| "opened_stream KReasoning chunk = PReasoning (field chunk ''messageId'') (tag_of chunk)"

fun opener_props :: "event \<Rightarrow> pending_stream \<Rightarrow> jsobj" where
  "opener_props chunk (PText messageId role name tag) =
     [(''messageId'', messageId), (''role'', role)] @
     opt_prop ''name'' (field chunk ''name'') @ opt_prop ''subagentRunId'' (tag_of chunk)"
| "opener_props chunk (PTool toolCallId toolCallName parentMessageId tag) =
     [(''toolCallId'', toolCallId), (''toolCallName'', toolCallName)] @
     opt_prop ''parentMessageId'' (field chunk ''parentMessageId'') @
     opt_prop ''subagentRunId'' (tag_of chunk)"
| "opener_props chunk (PReasoning messageId tag) =
     [(''messageId'', messageId), (''role'', JStr ''reasoning'')] @
     opt_prop ''subagentRunId'' (tag_of chunk)"

definition start_event :: "stream_kind \<Rightarrow> event \<Rightarrow> pending_stream \<Rightarrow> event" where
  "start_event kind chunk pending =
     withChunkMetadata (mk_event (start_type kind) (opener_props chunk pending)) chunk"

definition chunk_owner :: "event \<Rightarrow> pending_stream \<Rightarrow> jsval" where
  "chunk_owner chunk pending = (if tag_of chunk \<noteq> JUndef then tag_of chunk else pending_owner pending)"

text \<open>The content event of a chunk with a delta or a provider payload.\<close>

definition content_event :: "stream_kind \<Rightarrow> event \<Rightarrow> jsobj \<Rightarrow> pending_stream \<Rightarrow> event" where
  "content_event kind chunk remainder pending =
     withChunkOrigin
       (mk_event (content_type kind)
          (spread remainder
             ([(missingIdFieldName kind, pendingEntityId pending),
               (''delta'', if field chunk ''delta'' = JUndef then JStr [] else field chunk ''delta'')] @
              opt_prop ''subagentRunId'' (chunk_owner chunk pending)))) chunk"

text \<open>The zero-delta content event of a continuation that would otherwise expand into nothing.\<close>

definition bare_content_event :: "stream_kind \<Rightarrow> event \<Rightarrow> jsobj \<Rightarrow> pending_stream \<Rightarrow> event" where
  "bare_content_event kind chunk remainder pending =
     mk_event (content_type kind)
       (spread remainder
          ([(missingIdFieldName kind, pendingEntityId pending), (''delta'', JStr [])] @
           opt_prop ''metadata'' (field chunk ''metadata'') @
           opt_prop ''rawEvent'' (field chunk ''rawEvent'') @
           opt_prop ''subagentRunId'' (chunk_owner chunk pending)))"

text \<open>The stream the chunk belongs to, and what opening it emits.\<close>

definition assemble ::
  "stream_kind \<Rightarrow> event \<Rightarrow> jsval \<Rightarrow> lanes \<Rightarrow> chunk_error + lanes \<times> pending_stream \<times> event list" where
  "assemble kind chunk lane ls =
     (case map_of ls lane of
        Some pending \<Rightarrow>
          (if continues kind chunk pending
           then (case opener_agreement chunk pending of
                   Some e \<Rightarrow> Inl e | None \<Rightarrow> Inr (ls, pending, []))
           else (let (evs, ls') = closeLane lane ls; new = opened_stream kind chunk in
                 case opener_missing kind chunk of
                   Some e \<Rightarrow> Inl e
                 | None \<Rightarrow> Inr (AList.update lane new ls', new, evs @ [start_event kind chunk new])))
      | None \<Rightarrow>
          (let new = opened_stream kind chunk in
           case opener_missing kind chunk of
             Some e \<Rightarrow> Inl e
           | None \<Rightarrow> Inr (AList.update lane new ls, new, [start_event kind chunk new])))"

definition on_chunk :: "stream_kind \<Rightarrow> lanes \<Rightarrow> event \<Rightarrow> chunk_error + lanes \<times> event list" where
  "on_chunk kind ls chunk =
     (let remainder = unrecognisedChunkProperties chunk kind in
      case resolveLane kind (field chunk (missingIdFieldName kind)) (or_undef (tag_of chunk)) ls of
        Inl e \<Rightarrow> Inl e
      | Inr lane \<Rightarrow>
          (case assemble kind chunk lane ls of
             Inl e \<Rightarrow> Inl e
           | Inr (ls', pending, opening) \<Rightarrow>
               (let hasContent = (field chunk ''delta'' \<noteq> JUndef \<or> field chunk ''rawEvent'' \<noteq> JUndef);
                    result = opening @ (if hasContent then [content_event kind chunk remainder pending] else []);
                    bare = (result = [] \<and>
                      (field chunk ''metadata'' \<noteq> JUndef \<or> field chunk ''rawEvent'' \<noteq> JUndef \<or>
                       tag_of chunk = JNull \<or> remainder \<noteq> []));
                    result' = result @ (if bare then [bare_content_event kind chunk remainder pending] else [])
                in Inr (ls', carryRemainderOnOpener result' remainder (hasContent \<or> bare)))))"

definition on_text_message_chunk :: "lanes \<Rightarrow> event \<Rightarrow> chunk_error + lanes \<times> event list" where
  "on_text_message_chunk = on_chunk KText"

definition on_tool_call_chunk :: "lanes \<Rightarrow> event \<Rightarrow> chunk_error + lanes \<times> event list" where
  "on_tool_call_chunk = on_chunk KTool"

definition on_reasoning_message_chunk :: "lanes \<Rightarrow> event \<Rightarrow> chunk_error + lanes \<times> event list" where
  "on_reasoning_message_chunk = on_chunk KReasoning"

subsection \<open>The operator\<close>

text \<open>The explicit events, which close the lane of their own tag before they pass.\<close>

definition closes_own_lane :: "event_type \<Rightarrow> bool" where
  "closes_own_lane t \<longleftrightarrow> t \<in> {TEXT_MESSAGE_START, TEXT_MESSAGE_CONTENT, TEXT_MESSAGE_END,
     TOOL_CALL_START, TOOL_CALL_ARGS, TOOL_CALL_END, TOOL_CALL_RESULT, STATE_SNAPSHOT, STATE_DELTA,
     CUSTOM, STEP_STARTED, STEP_FINISHED, REASONING_START, REASONING_MESSAGE_START,
     REASONING_MESSAGE_CONTENT, REASONING_MESSAGE_END, REASONING_END}"

definition closes_all_lanes :: "event_type \<Rightarrow> bool" where
  "closes_all_lanes t \<longleftrightarrow> t \<in> {RUN_STARTED, RUN_FINISHED, RUN_ERROR, MESSAGES_SNAPSHOT}"

definition chunk_step :: "lanes \<Rightarrow> event \<Rightarrow> chunk_error + lanes \<times> event list" where
  "chunk_step ls ev =
     (if closes_own_lane (ev_type ev)
      then (let (evs, ls') = closeLane (or_undef (tag_of ev)) ls in Inr (ls', evs @ [ev]))
      else if closes_all_lanes (ev_type ev)
      then (let (evs, ls') = closeAllLanes ls in Inr (ls', evs @ [ev]))
      else case ev_type ev of
        SUBAGENT_FINISHED \<Rightarrow>
          (if nullish (tag_of ev) then Inr (ls, [ev])
           else let (evs, ls') = closeLane (tag_of ev) ls in Inr (ls', evs @ [ev]))
      | SUBAGENT_ERROR \<Rightarrow>
          (if nullish (tag_of ev) then Inr (ls, [ev])
           else let (evs, ls') = closeLane (tag_of ev) ls in Inr (ls', evs @ [ev]))
      | TEXT_MESSAGE_CHUNK \<Rightarrow> on_text_message_chunk ls ev
      | TOOL_CALL_CHUNK \<Rightarrow> on_tool_call_chunk ls ev
      | REASONING_MESSAGE_CHUNK \<Rightarrow> on_reasoning_message_chunk ls ev
      | _ \<Rightarrow> Inr (ls, [ev]))"

text \<open>\<^verbatim>\<open>finalize\<close> closes every lane and discards the events: it runs after the stream has ended.\<close>

definition finalize_lanes :: "lanes \<Rightarrow> lanes" where
  "finalize_lanes ls = snd (closeAllLanes ls)"

definition transformChunks :: "event list \<Rightarrow> event list \<times> (chunk_error + lanes)" where
  "transformChunks es =
     (let (os, r) = run_stage chunk_step [] es in (os, map_sum id finalize_lanes r))"

end
