(* ===== verification/Middleware.thy ===== *)
theory Middleware
  imports Boundary Chunks
begin

text \<open>
  The middlewares of \<^verbatim>\<open>client/src/middleware\<close> and their chain in \<^verbatim>\<open>agent/agent.ts\<close>. An agent is a function of the run input to the
  stream it emits: the events and, if it failed, the error that ends them; a middleware makes an agent of the next one. Warnings are left out.
\<close>

subsection \<open>Agents and middlewares\<close>

datatype stream_error = ExpansionError chunk_error | SourceFailure jsval

type_synonym stream = "event list \<times> stream_error option"
type_synonym agent = "jsobj \<Rightarrow> stream"
type_synonym middleware = "agent \<Rightarrow> agent"

text \<open>\<^verbatim>\<open>Middleware.runNext\<close>: the next agent with its chunks expanded.\<close>

definition runNext :: "agent \<Rightarrow> agent" where
  "runNext nxt input =
     (let (events, failure) = nxt input; (expanded, r) = transformChunks events
      in (expanded, case r of Inl e \<Rightarrow> Some (ExpansionError e) | Inr _ \<Rightarrow> failure))"

definition input_messages :: "jsobj \<Rightarrow> jsval list" where
  "input_messages input = arr_items (oget input ''messages'')"

definition with_messages :: "jsval list \<Rightarrow> jsobj \<Rightarrow> jsobj" where
  "with_messages ms input = oset ''messages'' (JArr ms) input"

subsection \<open>The compatibility boundary\<close>

definition CompatibilityBoundary :: "(nat \<Rightarrow> string) \<Rightarrow> middleware" where
  "CompatibilityBoundary uuid nxt input =
     (let (events, failure) = nxt (with_messages (map upgradeMessageContent (input_messages input)) input)
      in (fst (boundary_events uuid init_boundary events), failure))"

subsection \<open>Agents up to 0.0.39: flat content\<close>

definition isTextPart :: "jsval \<Rightarrow> bool" where
  "isTextPart part = (is_object part \<and> has_prop part ''type'' \<and> jget part ''type'' = JStr ''text'')"

definition isText :: "jsval \<Rightarrow> bool" where
  "isText part = (isTextPart part \<and> is_str (jget part ''text''))"

definition sanitizeMessageContent :: "jsval \<Rightarrow> jsval" where
  "sanitizeMessageContent message =
     (case message of
        JObj m \<Rightarrow>
          (case oget m ''content'' of
             JArr rawContent \<Rightarrow>
               (if filter (\<lambda>part. isTextPart part \<and> \<not> isText part) rawContent \<noteq> [] then message
                else let concatenatedContent = concat (map (\<lambda>part. the_str (jget part ''text'')) (filter isText rawContent))
                     in JObj (oset ''content'' (JStr concatenatedContent) m))
           | JStr _ \<Rightarrow> message
           | JUndef \<Rightarrow> JObj (oset ''content'' (JStr []) m)
           | _ \<Rightarrow> message)
      | _ \<Rightarrow> message)"

definition BackwardCompatibility_0_0_39 :: middleware where
  "BackwardCompatibility_0_0_39 nxt input =
     runNext nxt (with_messages (map sanitizeMessageContent (input_messages input)) (odel ''parentRunId'' input))"

subsection \<open>Agents up to 0.0.45: thinking events\<close>

record state45 =
  reasoning45 :: "string option"
  message45 :: "string option"
  uuids45 :: nat

definition init_state45 :: state45 where
  "init_state45 = \<lparr>reasoning45 = None, message45 = None, uuids45 = 0\<rparr>"

text \<open>\<^verbatim>\<open>id ?? randomUUID()\<close>\<close>

definition established_or_new :: "(nat \<Rightarrow> string) \<Rightarrow> string option \<Rightarrow> state45 \<Rightarrow> string \<times> state45" where
  "established_or_new uuid i st =
     (case i of Some i \<Rightarrow> (i, st) | None \<Rightarrow> (uuid (uuids45 st), st\<lparr>uuids45 := Suc (uuids45 st)\<rparr>))"

definition transformEvent45 :: "(nat \<Rightarrow> string) \<Rightarrow> event \<Rightarrow> state45 \<Rightarrow> state45 \<times> event" where
  "transformEvent45 uuid ev st =
     (if ev_type ev = THINKING_START then
        let (i, st) = established_or_new uuid None st
        in (st\<lparr>reasoning45 := Some i\<rparr>, retyped REASONING_START i (odel ''title'' (ev_props ev)))
      else if ev_type ev = THINKING_TEXT_MESSAGE_START then
        let (i, st) = established_or_new uuid None st; ev' = retyped REASONING_MESSAGE_START i (ev_props ev)
        in (st\<lparr>message45 := Some i\<rparr>, ev'\<lparr>ev_props := oset ''role'' (JStr ''reasoning'') (ev_props ev')\<rparr>)
      else if ev_type ev = THINKING_TEXT_MESSAGE_CONTENT then
        let (i, st) = established_or_new uuid (message45 st) st;
            ev' = retyped REASONING_MESSAGE_CONTENT i (odel ''delta'' (ev_props ev))
        in (st, ev'\<lparr>ev_props := oset ''delta'' (field ev ''delta'') (ev_props ev')\<rparr>)
      else if ev_type ev = THINKING_TEXT_MESSAGE_END then
        let (i, st) = established_or_new uuid (message45 st) st in (st, retyped REASONING_MESSAGE_END i (ev_props ev))
      else if ev_type ev = THINKING_END then
        let (i, st) = established_or_new uuid (reasoning45 st) st in (st, retyped REASONING_END i (ev_props ev))
      else (st, ev))"

fun events45 :: "(nat \<Rightarrow> string) \<Rightarrow> state45 \<Rightarrow> event list \<Rightarrow> event list" where
  "events45 uuid st [] = []"
| "events45 uuid st (ev # evs) = (let (st, ev') = transformEvent45 uuid ev st in ev' # events45 uuid st evs)"

definition BackwardCompatibility_0_0_45 :: "(nat \<Rightarrow> string) \<Rightarrow> middleware" where
  "BackwardCompatibility_0_0_45 uuid nxt input =
     (let (events, failure) = runNext nxt input in (events45 uuid init_state45 events, failure))"

subsection \<open>Agents up to 0.0.57: no subagents\<close>

definition stripSubagentRunId :: "jsval \<Rightarrow> jsval" where
  "stripSubagentRunId v = (case v of JObj m \<Rightarrow> JObj (odel ''subagentRunId'' m) | _ \<Rightarrow> v)"

definition stripMessages :: "jsval list \<Rightarrow> jsval list" where
  "stripMessages messages = map stripSubagentRunId messages"

definition subagent_types :: "event_type list" where
  "subagent_types = [SUBAGENT_STARTED, SUBAGENT_FINISHED, SUBAGENT_ERROR]"

text \<open>\<^verbatim>\<open>{ ...m, [k]: messages }\<close> for an array member \<open>k\<close> of \<open>m\<close>.\<close>

definition strip_member :: "string \<Rightarrow> jsobj \<Rightarrow> jsobj" where
  "strip_member k m = (case oget m k of JArr ms \<Rightarrow> oset k (JArr (stripMessages ms)) m | _ \<Rightarrow> m)"

definition strip_nested :: "string \<Rightarrow> string \<Rightarrow> jsobj \<Rightarrow> jsobj" where
  "strip_nested k k' m = (case oget m k of JObj m' \<Rightarrow> (case oget m' k' of JArr _ \<Rightarrow> oset k (JObj (strip_member k' m')) m | _ \<Rightarrow> m) | _ \<Rightarrow> m)"

definition transformEvent57 :: "event \<Rightarrow> event" where
  "transformEvent57 ev =
     (let stripped = odel ''subagentRunId'' (ev_props ev) in
      ev\<lparr>ev_props :=
        (if ev_type ev = MESSAGES_SNAPSHOT then strip_member ''messages'' stripped
         else if ev_type ev = RUN_FINISHED then strip_nested ''outcome'' ''interrupts'' stripped
         else if ev_type ev = RUN_STARTED then strip_nested ''input'' ''messages'' stripped
         else stripped)\<rparr>)"

definition events57 :: "event list \<Rightarrow> event list" where
  "events57 events = map transformEvent57 (filter (\<lambda>ev. ev_type ev \<notin> set subagent_types) events)"

definition BackwardCompatibility_0_0_57 :: middleware where
  "BackwardCompatibility_0_0_57 nxt input =
     (let (events, failure) = runNext nxt (with_messages (map stripSubagentRunId (input_messages input)) input)
      in (events57 events, failure))"

subsection \<open>Filtering tool calls\<close>

datatype tool_filter = Allowed "string list" | Disallowed "string list"

datatype filter_error = BothLists | NeitherList

definition mk_tool_filter :: "string list option \<Rightarrow> string list option \<Rightarrow> filter_error + tool_filter" where
  "mk_tool_filter allowed disallowed =
     (case (allowed, disallowed) of
        (Some _, Some _) \<Rightarrow> Inl BothLists
      | (None, None) \<Rightarrow> Inl NeitherList
      | (Some names, None) \<Rightarrow> Inr (Allowed names)
      | (None, Some names) \<Rightarrow> Inr (Disallowed names))"

definition shouldFilterTool :: "tool_filter \<Rightarrow> jsval \<Rightarrow> bool" where
  "shouldFilterTool cfg name =
     (case cfg of Allowed names \<Rightarrow> name \<notin> JStr ` set names | Disallowed names \<Rightarrow> name \<in> JStr ` set names)"

text \<open>The predicate of \<^verbatim>\<open>filter\<close> with its set of blocked ids.\<close>

definition filter_step :: "tool_filter \<Rightarrow> jsval list \<Rightarrow> event \<Rightarrow> jsval list \<times> bool" where
  "filter_step cfg blocked ev =
     (let i = field ev ''toolCallId'' in
      if ev_type ev = RUN_STARTED then ([], True)
      else if ev_type ev = TOOL_CALL_START then
        (if shouldFilterTool cfg (field ev ''toolCallName'') then (set_add i blocked, False) else (blocked, True))
      else if ev_type ev = TOOL_CALL_ARGS then (blocked, i \<notin> set blocked)
      else if ev_type ev = TOOL_CALL_END then (blocked, i \<notin> set blocked)
      else if ev_type ev = TOOL_CALL_RESULT then (if i \<in> set blocked then (set_del i blocked, False) else (blocked, True))
      else (blocked, True))"

fun filter_events :: "tool_filter \<Rightarrow> jsval list \<Rightarrow> event list \<Rightarrow> event list" where
  "filter_events cfg blocked [] = []"
| "filter_events cfg blocked (ev # evs) =
     (let (blocked, keep) = filter_step cfg blocked ev; evs' = filter_events cfg blocked evs in (if keep then ev # evs' else evs'))"

definition FilterToolCallsMiddleware :: "tool_filter \<Rightarrow> middleware" where
  "FilterToolCallsMiddleware cfg nxt input =
     (let (events, failure) = runNext nxt input in (filter_events cfg [] events, failure))"

subsection \<open>The chain\<close>

text \<open>The shims the constructor installs for a peer; \<open>le\<close> compares versions (the package \<^verbatim>\<open>compare-versions\<close>) with \<^verbatim>\<open><=\<close>.
  Each \<^verbatim>\<open>unshift\<close> puts the newer one in front.\<close>

definition installed_shims :: "(string \<Rightarrow> string \<Rightarrow> bool) \<Rightarrow> (nat \<Rightarrow> string) \<Rightarrow> string \<Rightarrow> middleware list" where
  "installed_shims le uuid peerCeiling =
     (let m1 = (if le peerCeiling ''0.0.39'' then [BackwardCompatibility_0_0_39] else []);
          m2 = (if le peerCeiling ''0.0.45'' then BackwardCompatibility_0_0_45 uuid # m1 else m1)
      in if le peerCeiling ''0.0.57'' then BackwardCompatibility_0_0_57 # m2 else m2)"

definition chainedAgent :: "(nat \<Rightarrow> string) \<Rightarrow> middleware list \<Rightarrow> middleware" where
  "chainedAgent uuid middlewares agent = foldr (\<lambda>middleware nxt. middleware nxt) (middlewares @ [CompatibilityBoundary uuid]) agent"

end
