(* ===== verification/Agent.thy ===== *)
theory Agent
  imports Verify Apply Enforce Middleware
begin

text \<open>
  The stages of a run as \<^verbatim>\<open>AbstractAgent.runAgent\<close> of \<^verbatim>\<open>client/src/agent/agent.ts\<close> composes them: what the chained agent
  emits is enforced, expanded, verified and reduced. An error of a stage ends the source; it
  is held back until everything emitted before it has been applied. Debug logging and the
  hooks for changed messages and state, whose results are ignored, are left out.
\<close>

datatype run_error =
    StreamFailure stream_error
  | EnforceFailure enforce_error
  | ChunkFailure chunk_error
  | VerifyFailure verify_error
  | ApplyFailure apply_error

text \<open>A source is the events that come through and the error that ended it, if any.\<close>

type_synonym source = "event list \<times> run_error option"

text \<open>Expansion and verification. The verifier sees events one at a time, so its own error comes before one that expansion
  raises later.\<close>

definition source_events :: "event list \<Rightarrow> source" where
  "source_events es =
     (let (expanded, r) = transformChunks es;
          (verified, v) = verifyEvents expanded
      in (verified,
          case v of
            Inl e \<Rightarrow> Some (VerifyFailure e)
          | Inr _ \<Rightarrow> (case r of Inl e \<Rightarrow> Some (ChunkFailure e) | Inr _ \<Rightarrow> None)))"

text \<open>The whole source: enforcement with the agent's entry budget comes first.\<close>

definition run_source :: "(zschema \<Rightarrow> jsval \<Rightarrow> string + jsval) \<Rightarrow> nat option \<Rightarrow> stream \<Rightarrow> source" where
  "run_source parse budget emitted =
     (let (events, failure) = emitted;
          (enforced, r) = run_stage (enforce_event parse (resolved budget)) () events;
          (verified, err) = source_events enforced
      in (verified,
          case err of
            Some e \<Rightarrow> Some e
          | None \<Rightarrow> (case r of Inl e \<Rightarrow> Some (EnforceFailure e) | Inr _ \<Rightarrow> map_option StreamFailure failure)))"

text \<open>\<^verbatim>\<open>takeUntil\<close> after the verifier: a run detached after \<open>n\<close> events completes with them, unless it ended before.\<close>

definition detach_after :: "nat option \<Rightarrow> source \<Rightarrow> source" where
  "detach_after d src =
     (case d of None \<Rightarrow> src
      | Some n \<Rightarrow> (if n \<le> length (fst src) then (take n (fst src), None) else src))"

definition applyBeforeSourceError ::
  "'w renv \<Rightarrow> 'w rstate \<Rightarrow> source \<Rightarrow> update list \<times> (run_error + 'w rstate)" where
  "applyBeforeSourceError env rs src =
     (let (events, sourceError) = src;
          (updates, r) = defaultApplyEvents env rs events
      in (updates,
          case r of
            Inl e \<Rightarrow> Inl (ApplyFailure e)
          | Inr rs' \<Rightarrow> (case sourceError of Some e \<Rightarrow> Inl e | None \<Rightarrow> Inr rs')))"

text \<open>The agent's own messages and state, replaced by each update that carries them.\<close>

record agent_view =
  agent_messages :: "jsval list"
  agent_state :: jsval

definition take_update :: "'a agent_view_scheme \<Rightarrow> update \<Rightarrow> 'a agent_view_scheme" where
  "take_update a u =
     (let a1 = (case fst u of Some ms \<Rightarrow> a\<lparr>agent_messages := ms\<rparr> | None \<Rightarrow> a) in
      case snd u of
        Some s \<Rightarrow> (if s = JUndef then a1 else a1\<lparr>agent_state := s\<rparr>)
      | None \<Rightarrow> a1)"

definition processApplyEvents :: "'a agent_view_scheme \<Rightarrow> update list \<Rightarrow> 'a agent_view_scheme" where
  "processApplyEvents a us = foldl take_update a us"

end
