(* ===== verification/VerifyProps.thy ===== *)
theory VerifyProps
  imports Verify
begin

text \<open>
  Properties of the verifier of theory \<open>Verify\<close>: the frame lemmas of its handlers, the
  invariant, the refinement of the run life cycle and of the bracket discipline, and the
  attribution rules.
\<close>

subsection \<open>Helper lemmas\<close>

lemmas text_handlers = on_text_message_start_def on_text_message_content_def on_text_message_end_def
lemmas tool_handlers = on_tool_call_start_def on_tool_call_args_def on_tool_call_end_def
  on_tool_call_result_def
lemmas reasoning_handlers = on_reasoning_open_def on_reasoning_continue_def
  on_reasoning_encrypted_value_def
lemmas other_handlers = on_step_started_def on_step_finished_def on_activity_snapshot_def
  on_activity_delta_def on_subagent_started_def on_subagent_ended_def on_run_finished_def
  on_run_error_def

declare text_handlers [handler_defs] tool_handlers [handler_defs]
  reasoning_handlers [handler_defs] other_handlers [handler_defs]

lemma strip_null_tag_type [simp]: "ev_type (strip_null_tag ev) = ev_type ev"
  by (simp add: strip_null_tag_def)

lemma strip_null_tag_field [simp]: "k \<noteq> ''subagentRunId'' \<Longrightarrow> field (strip_null_tag ev) k = field ev k"
  by (simp add: strip_null_tag_def field_def)

lemma strip_null_tag_not_null [simp]: "tag_of (strip_null_tag ev) \<noteq> JNull"
  by (simp add: strip_null_tag_def field_def)

lemma strip_null_tag_id [simp]: "tag_of ev \<noteq> JNull \<Longrightarrow> strip_null_tag ev = ev"
  by (simp add: strip_null_tag_def)

lemma strip_null_tag_idem [simp]: "strip_null_tag (strip_null_tag ev) = strip_null_tag ev"
  by simp

text \<open>Seeding writes owners only.\<close>

definition clear_owners :: "vstate \<Rightarrow> vstate" where
  "clear_owners st = st\<lparr>ownersMessage := [], ownersToolCall := [], ownersActivity := [],
     ownersReasoning := []\<rparr>"

lemma seed_tool_calls_frame: "clear_owners (seed_tool_calls a tag tcs st) = clear_owners st"
  by (induction a tag tcs st rule: seed_tool_calls.induct) (auto simp: clear_owners_def)

lemma seed_message_owner_frame: "clear_owners (seed_message_owner a msg st) = clear_owners st"
  by (simp add: seed_message_owner_def clear_owners_def Let_def)

lemma seed_messages_frame: "seed_messages a msgs st = Inr st' \<Longrightarrow> clear_owners st' = clear_owners st"
  by (induction a msgs st rule: seed_messages.induct)
    (auto split: if_splits sum.splits simp: seed_tool_calls_frame seed_message_owner_frame)

lemma seed_frame: "seedOwnersFromMessages raw a st = Inr st' \<Longrightarrow> clear_owners st' = clear_owners st"
  by (auto simp: seedOwnersFromMessages_def seed_messages_frame split: jsval.splits)

lemma clear_owners_eqD:
  assumes "clear_owners st' = clear_owners st"
  shows "activeMessages st' = activeMessages st" "activeToolCalls st' = activeToolCalls st"
    "activeReasoningSpans st' = activeReasoningSpans st"
    "activeReasoningMessages st' = activeReasoningMessages st"
    "runFinished st' = runFinished st" "runError st' = runError st"
    "firstEventReceived st' = firstEventReceived st" "activeSteps st' = activeSteps st"
    "activeSubagents st' = activeSubagents st" "closedSubagents st' = closedSubagents st"
    "runStarted st' = runStarted st"
    "nullSubagentRunIdNoticed st' = nullSubagentRunIdNoticed st"
  using assms unfolding clear_owners_def by (cases st; cases st'; simp)+

subsection \<open>What one event does to the open entities\<close>

lemma stepsFor_touch [simp]: "stepsFor (touch_steps owner st) o' = stepsFor st o'"
  by (auto simp: stepsFor_def touch_steps_def map_add_def split: option.splits)

lemma stepsFor_set [simp]:
  "stepsFor (set_steps owner ns st) o' = (if o' = owner then ns else stepsFor st o')"
  by (simp add: stepsFor_def set_steps_def js_simps)

lemma stepsFor_cong: "activeSteps st' = activeSteps st \<Longrightarrow> stepsFor st' = stepsFor st"
  by (simp add: stepsFor_def fun_eq_iff)

lemma stepsFor_upd [simp]:
  "stepsFor (st\<lparr>activeMessages := a\<rparr>) = stepsFor st" "stepsFor (st\<lparr>activeToolCalls := a\<rparr>) = stepsFor st"
  "stepsFor (st\<lparr>activeReasoningSpans := a\<rparr>) = stepsFor st"
  "stepsFor (st\<lparr>activeReasoningMessages := a\<rparr>) = stepsFor st"
  "stepsFor (st\<lparr>ownersMessage := m\<rparr>) = stepsFor st" "stepsFor (st\<lparr>ownersToolCall := m\<rparr>) = stepsFor st"
  "stepsFor (st\<lparr>ownersActivity := m\<rparr>) = stepsFor st" "stepsFor (st\<lparr>ownersReasoning := m\<rparr>) = stepsFor st"
  "stepsFor (st\<lparr>activeSubagents := a\<rparr>) = stepsFor st" "stepsFor (st\<lparr>closedSubagents := a\<rparr>) = stepsFor st"
  "stepsFor (st\<lparr>runFinished := b\<rparr>) = stepsFor st" "stepsFor (st\<lparr>runError := b\<rparr>) = stepsFor st"
  "stepsFor (st\<lparr>runStarted := b\<rparr>) = stepsFor st" "stepsFor (st\<lparr>firstEventReceived := b\<rparr>) = stepsFor st"
  "stepsFor (st\<lparr>nullSubagentRunIdNoticed := b\<rparr>) = stepsFor st"
  by (auto intro!: stepsFor_cong)

lemma touch_set_fields [simp]:
  "activeMessages (set_steps o' ns (touch_steps o' st)) = activeMessages st"
  "activeToolCalls (set_steps o' ns (touch_steps o' st)) = activeToolCalls st"
  "activeReasoningSpans (set_steps o' ns (touch_steps o' st)) = activeReasoningSpans st"
  "activeReasoningMessages (set_steps o' ns (touch_steps o' st)) = activeReasoningMessages st"
  "activeSubagents (set_steps o' ns (touch_steps o' st)) = activeSubagents st"
  by (simp_all add: set_steps_def touch_steps_def)

text \<open>Inversion: what an accepted event of each kind says of the state before and after.\<close>

definition agrees :: "jsval \<Rightarrow> jsval option \<Rightarrow> bool" where
  "agrees tag owner \<longleftrightarrow> tag = JUndef \<or> owner = None \<or> owner = Some tag"

lemma tag_error_None [simp]: "subagentTagError t tag owner k i = None \<longleftrightarrow> agrees tag owner"
  by (auto simp: subagentTagError_def agrees_def split: option.splits)

lemma case_None_Inr: "(case c of Some e \<Rightarrow> Inl e | None \<Rightarrow> Inr y) = Inr z \<longleftrightarrow> c = None \<and> y = z"
  by (cases c) auto

lemma if_Inl_Inr: "(if b then Inl e else r) = Inr z \<longleftrightarrow> \<not> b \<and> r = Inr z"
  by simp

lemmas inversion = case_None_Inr if_Inl_Inr

lemma text_start_Inr:
  "on_text_message_start st ev = Inr st' \<longleftrightarrow>
     field ev ''messageId'' \<notin> set (activeMessages st) \<and>
     agrees (tag_of ev) (map_of (ownersMessage st) (field ev ''messageId'')) \<and>
     st' = st\<lparr>activeMessages := set_add (field ev ''messageId'') (activeMessages st),
              ownersMessage := (if map_of (ownersMessage st) (field ev ''messageId'') = None
                then AList.update (field ev ''messageId'') (tag_of ev) (ownersMessage st)
                else ownersMessage st)\<rparr>"
  unfolding on_text_message_start_def Let_def inversion tag_error_None by blast

lemma text_content_Inr:
  "on_text_message_content st ev = Inr st' \<longleftrightarrow>
     field ev ''messageId'' \<in> set (activeMessages st) \<and>
     agrees (tag_of ev) (map_of (ownersMessage st) (field ev ''messageId'')) \<and> st' = st"
  unfolding on_text_message_content_def Let_def inversion tag_error_None by blast

lemma text_end_Inr:
  "on_text_message_end st ev = Inr st' \<longleftrightarrow>
     field ev ''messageId'' \<in> set (activeMessages st) \<and>
     agrees (tag_of ev) (map_of (ownersMessage st) (field ev ''messageId'')) \<and>
     st' = st\<lparr>activeMessages := set_del (field ev ''messageId'') (activeMessages st)\<rparr>"
  unfolding on_text_message_end_def Let_def inversion tag_error_None by blast

lemma tool_start_Inr:
  "on_tool_call_start st ev = Inr st' \<longleftrightarrow>
     field ev ''toolCallId'' \<notin> set (activeToolCalls st) \<and>
     agrees (tag_of ev) (inherited_owner st ev) \<and>
     agrees (tag_of ev) (map_of (ownersToolCall st) (field ev ''toolCallId'')) \<and>
     reopen_owner_error ev (inherited_owner st ev) (map_of (ownersToolCall st) (field ev ''toolCallId'')) = None \<and>
     st' = st\<lparr>activeToolCalls := set_add (field ev ''toolCallId'') (activeToolCalls st),
              ownersToolCall := (if map_of (ownersToolCall st) (field ev ''toolCallId'') = None
                then AList.update (field ev ''toolCallId'')
                  (if tag_of ev \<noteq> JUndef then tag_of ev
                   else case inherited_owner st ev of Some p \<Rightarrow> p | None \<Rightarrow> JUndef) (ownersToolCall st)
                else ownersToolCall st)\<rparr>"
proof -
  have "parent_owner_error ev inh = None \<longleftrightarrow> agrees (tag_of ev) inh" for inh
    by (auto simp: parent_owner_error_def agrees_def split: option.splits)
  then show ?thesis
    unfolding on_tool_call_start_def Let_def inversion tag_error_None by (auto simp: first_error_None)
qed

lemma tool_args_Inr:
  "on_tool_call_args st ev = Inr st' \<longleftrightarrow>
     field ev ''toolCallId'' \<in> set (activeToolCalls st) \<and>
     agrees (tag_of ev) (map_of (ownersToolCall st) (field ev ''toolCallId'')) \<and> st' = st"
  unfolding on_tool_call_args_def Let_def inversion tag_error_None by blast

lemma tool_end_Inr:
  "on_tool_call_end st ev = Inr st' \<longleftrightarrow>
     field ev ''toolCallId'' \<in> set (activeToolCalls st) \<and>
     agrees (tag_of ev) (map_of (ownersToolCall st) (field ev ''toolCallId'')) \<and>
     st' = st\<lparr>activeToolCalls := set_del (field ev ''toolCallId'') (activeToolCalls st)\<rparr>"
  unfolding on_tool_call_end_def Let_def inversion tag_error_None by blast

lemma step_started_Inr:
  "on_step_started st ev = Inr st' \<longleftrightarrow>
     field ev ''stepName'' \<notin> set (stepsFor st (tag_of ev)) \<and>
     st' = set_steps (tag_of ev) (set_add (field ev ''stepName'') (stepsFor st (tag_of ev)))
             (touch_steps (tag_of ev) st)"
  unfolding on_step_started_def Let_def inversion stepsFor_touch by blast

lemma step_finished_Inr:
  "on_step_finished st ev = Inr st' \<longleftrightarrow>
     field ev ''stepName'' \<in> set (stepsFor st (tag_of ev)) \<and>
     st' = set_steps (tag_of ev) (set_del (field ev ''stepName'') (stepsFor st (tag_of ev)))
             (touch_steps (tag_of ev) st)"
  unfolding on_step_finished_def Let_def stepsFor_touch by (auto split: list.splits)

lemma activity_snapshot_Inr:
  "on_activity_snapshot st ev = Inr st' \<longleftrightarrow>
     st' = st\<lparr>ownersActivity := (if map_of (ownersActivity st) (field ev ''messageId'') = None
                \<or> field ev ''replace'' \<noteq> JBool False
              then AList.update (field ev ''messageId'') (tag_of ev) (ownersActivity st)
              else ownersActivity st)\<rparr>"
  by (auto simp: on_activity_snapshot_def Let_def)

lemma tool_result_Inr:
  "on_tool_call_result st ev = Inr st' \<longleftrightarrow>
     st' = st\<lparr>ownersMessage := (if is_str (field ev ''messageId'')
              then AList.update (field ev ''messageId'') (tag_of ev) (ownersMessage st)
              else ownersMessage st)\<rparr>"
  by (auto simp: on_tool_call_result_def Let_def)

lemma reasoning_open_Inr:
  "on_reasoning_open st ev = Inr st' \<longleftrightarrow>
     field ev ''messageId'' \<notin> set (if ev_type ev = REASONING_START
       then activeReasoningSpans st else activeReasoningMessages st) \<and>
     agrees (tag_of ev) (map_of (ownersReasoning st) (field ev ''messageId'')) \<and>
     st' = st\<lparr>activeReasoningSpans := (if ev_type ev = REASONING_START
                then set_add (field ev ''messageId'') (activeReasoningSpans st) else activeReasoningSpans st),
              activeReasoningMessages := (if ev_type ev = REASONING_START then activeReasoningMessages st
                else set_add (field ev ''messageId'') (activeReasoningMessages st)),
              ownersReasoning := (if map_of (ownersReasoning st) (field ev ''messageId'') = None
                then AList.update (field ev ''messageId'') (tag_of ev) (ownersReasoning st)
                else ownersReasoning st)\<rparr>"
  unfolding on_reasoning_open_def Let_def inversion tag_error_None by auto

lemma reasoning_continue_Inr:
  "on_reasoning_continue st ev = Inr st' \<longleftrightarrow>
     field ev ''messageId'' \<in> set (if ev_type ev = REASONING_END
       then activeReasoningSpans st else activeReasoningMessages st) \<and>
     agrees (tag_of ev) (map_of (ownersReasoning st) (field ev ''messageId'')) \<and>
     st' = st\<lparr>activeReasoningSpans := (if ev_type ev = REASONING_END
                then set_del (field ev ''messageId'') (activeReasoningSpans st) else activeReasoningSpans st),
              activeReasoningMessages := (if ev_type ev = REASONING_MESSAGE_END
                then set_del (field ev ''messageId'') (activeReasoningMessages st)
                else activeReasoningMessages st)\<rparr>"
  unfolding on_reasoning_continue_def Let_def inversion tag_error_None by auto

lemma encrypted_value_Inr:
  "on_reasoning_encrypted_value st ev = Inr st' \<longleftrightarrow>
     agrees (tag_of ev) (encrypted_value_owner st ev) \<and> st' = st"
  unfolding on_reasoning_encrypted_value_def Let_def inversion tag_error_None by blast

lemma activity_delta_Inr:
  "on_activity_delta st ev = Inr st' \<longleftrightarrow>
     agrees (tag_of ev) (map_of (ownersActivity st) (field ev ''messageId'')) \<and> st' = st"
  unfolding on_activity_delta_def Let_def inversion tag_error_None by blast

lemma subagent_started_Inr:
  "on_subagent_started st ev = Inr st' \<Longrightarrow>
     is_str (tag_of ev) \<and> tag_of ev \<notin> set (activeSubagents st) \<and> tag_of ev \<notin> set (closedSubagents st) \<and>
     st' = st\<lparr>activeSubagents := set_add (tag_of ev) (activeSubagents st)\<rparr>"
  unfolding on_subagent_started_def Let_def inversion by blast

lemma subagent_ended_Inr:
  "on_subagent_ended st ev = Inr st' \<Longrightarrow>
     is_str (tag_of ev) \<and> tag_of ev \<in> set (activeSubagents st) \<and>
     st' = st\<lparr>activeSubagents := set_del (tag_of ev) (activeSubagents st),
              closedSubagents := set_add (tag_of ev) (closedSubagents st)\<rparr>"
  unfolding on_subagent_ended_def Let_def inversion by blast

lemma run_finished_Inr:
  "on_run_finished st ev = Inr st' \<Longrightarrow>
     \<not> anyStepsActive st \<and> activeMessages st = [] \<and> activeReasoningMessages st = [] \<and>
     activeReasoningSpans st = [] \<and> activeToolCalls st = [] \<and> activeSubagents st = [] \<and>
     st' = st\<lparr>runFinished := True\<rparr>"
  unfolding on_run_finished_def inversion by blast

lemmas handler_inversions = text_start_Inr text_content_Inr text_end_Inr tool_start_Inr tool_args_Inr
  tool_end_Inr step_started_Inr step_finished_Inr activity_snapshot_Inr tool_result_Inr
  reasoning_open_Inr reasoning_continue_Inr encrypted_value_Inr activity_delta_Inr

lemmas handler_dests = subagent_started_Inr subagent_ended_Inr run_finished_Inr

lemma dispatch_bracket:
  assumes "dispatch st ev = Inr st'" "tag_of ev \<noteq> JNull" "ev_type ev \<noteq> RUN_STARTED"
  shows "bracket_step (entity_open st x) (entity_sym x ev) = Some (entity_open st' x)"
proof (cases "ev_type ev = MESSAGES_SNAPSHOT")
  case True
  with assms(1) have "clear_owners st' = clear_owners st"
    by (auto simp: dispatch_def on_messages_snapshot_def seed_frame)
  note eqs = clear_owners_eqD [OF this]
  show ?thesis using True eqs stepsFor_cong [OF eqs(8)]
    by (cases x) (simp_all add: sym_of_def)
next
  case False
  then show ?thesis using assms
    by (cases "ev_type ev"; cases x;
        auto simp: dispatch_def handler_inversions on_run_error_def sym_of_def dest!: handler_dests)
qed

subsection \<open>The step as a whole\<close>

lemma verify_step_Inr:
  assumes "verify_step st ev = Inr (st', os)"
  obtains st1 where "terminal_error st (ev_type ev) = None" "admit_run st (ev_type ev) = Inr st1"
    "lifecycle_error (strip_null_tag ev) = None" "interrupt_error (strip_null_tag ev) = None"
    "dispatch (notice_null_tag st1 ev) (strip_null_tag ev) = Inr st'" "os = [strip_null_tag ev]"
  using assms
  by (auto simp: verify_step_def Let_def first_error_None split: option.splits sum.splits)

lemma entity_open_notice [simp]: "entity_open (notice_null_tag st ev) = entity_open st"
proof
  fix x show "entity_open (notice_null_tag st ev) x = entity_open st x"
    by (cases x) (simp_all add: notice_null_tag_def)
qed

lemma entity_open_init [simp]: "\<not> entity_open init_vstate x"
  by (cases x) (simp_all add: init_vstate_def stepsFor_def)

lemma entity_open_reset [simp]: "\<not> entity_open (resetRunState st) x"
  by (cases x) (simp_all add: resetRunState_def stepsFor_def)

lemma entity_open_clear: "clear_owners st' = clear_owners st \<Longrightarrow> entity_open st' = entity_open st"
proof
  fix x assume "clear_owners st' = clear_owners st"
  note eqs = clear_owners_eqD [OF this]
  show "entity_open st' x = entity_open st x"
    using eqs stepsFor_cong [OF eqs(8)] by (cases x) simp_all
qed

lemma entity_open_runStarted [simp]: "entity_open (st\<lparr>runStarted := b\<rparr>) x = entity_open st x"
  by (cases x) simp_all

lemma entity_open_first [simp]: "entity_open (st\<lparr>firstEventReceived := b\<rparr>) x = entity_open st x"
  by (cases x) simp_all

lemma entity_sym_strip: "entity_sym x (strip_null_tag ev) = entity_sym x ev"
  by (cases x) simp_all

lemma admit_run_open:
  assumes "verify_inv st" "admit_run st t = Inr st1"
  shows "entity_open st1 x \<longleftrightarrow> t \<noteq> RUN_STARTED \<and> entity_open st x"
  using assms by (auto simp: admit_run_def verify_inv_def split: if_splits)

lemma dispatch_run_started:
  assumes "dispatch st ev = Inr st'" "ev_type ev = RUN_STARTED"
  shows "clear_owners st' = clear_owners (st\<lparr>runStarted := True\<rparr>)"
  using assms by (auto simp: dispatch_def on_run_started_def dest: seed_frame)

lemma verify_step_bracket:
  assumes inv: "verify_inv st" and step: "verify_step st ev = Inr (st', os)"
  shows "bracket_step (entity_open st x) (entity_sym x ev) = Some (entity_open st' x)"
proof -
  from step obtain st1 where admit: "admit_run st (ev_type ev) = Inr st1"
    and disp: "dispatch (notice_null_tag st1 ev) (strip_null_tag ev) = Inr st'"
    by (rule verify_step_Inr)
  note adm = admit_run_open [OF inv admit, of x]
  show ?thesis
  proof (cases "ev_type ev = RUN_STARTED")
    case True
    with dispatch_run_started [OF disp]
    have "entity_open st' = entity_open ((notice_null_tag st1 ev)\<lparr>runStarted := True\<rparr>)"
      by (auto intro: entity_open_clear)
    with adm True have "\<not> entity_open st' x" by simp
    moreover have "entity_sym x ev = BReset" using True by (cases x) (simp_all add: sym_of_def)
    ultimately show ?thesis by simp
  next
    case False
    with dispatch_bracket [OF disp, of x] adm show ?thesis
      by (simp add: entity_sym_strip)
  qed
qed

lemma dispatch_flags:
  assumes "dispatch st ev = Inr st'"
  shows "firstEventReceived st' = firstEventReceived st"
    "runError st' = (runError st \<or> ev_type ev = RUN_ERROR)"
    "runFinished st' = (runFinished st \<or> ev_type ev = RUN_FINISHED)"
    "runStarted st' = (runStarted st \<or> ev_type ev = RUN_STARTED)"
proof -
  have seed: "firstEventReceived st' = firstEventReceived st \<and> runError st' = runError st \<and>
    runFinished st' = runFinished st \<and> runStarted st' = runStarted st"
    if "clear_owners st' = clear_owners st" for st st'
    using clear_owners_eqD [OF that] by simp
  have step: "firstEventReceived (set_steps a ns (touch_steps a st)) = firstEventReceived st"
    "runError (set_steps a ns (touch_steps a st)) = runError st"
    "runFinished (set_steps a ns (touch_steps a st)) = runFinished st"
    "runStarted (set_steps a ns (touch_steps a st)) = runStarted st" for a ns
    by (simp_all add: set_steps_def touch_steps_def)
  have "firstEventReceived st' = firstEventReceived st \<and> runError st' = (runError st \<or> ev_type ev = RUN_ERROR) \<and>
    runFinished st' = (runFinished st \<or> ev_type ev = RUN_FINISHED) \<and>
    runStarted st' = (runStarted st \<or> ev_type ev = RUN_STARTED)"
    using assms
    by (cases "ev_type ev")
      (auto simp: dispatch_def handler_inversions on_run_error_def step on_messages_snapshot_def
         on_run_started_def dest!: handler_dests seed_frame seed)
  then show "firstEventReceived st' = firstEventReceived st"
    "runError st' = (runError st \<or> ev_type ev = RUN_ERROR)"
    "runFinished st' = (runFinished st \<or> ev_type ev = RUN_FINISHED)"
    "runStarted st' = (runStarted st \<or> ev_type ev = RUN_STARTED)" by blast+
qed

lemma notice_flags [simp]:
  "firstEventReceived (notice_null_tag st ev) = firstEventReceived st"
  "runError (notice_null_tag st ev) = runError st" "runFinished (notice_null_tag st ev) = runFinished st"
  "runStarted (notice_null_tag st ev) = runStarted st"
  by (simp_all add: notice_null_tag_def)

text \<open>The verifier's flags refine the life cycle automaton.\<close>

lemma verify_step_phase:
  assumes inv: "verify_inv st" and step: "verify_step st ev = Inr (st', os)"
  shows "phase_step (phase_of st) (ev_type ev) = Some (phase_of st')"
proof -
  from step obtain st1 where over: "terminal_error st (ev_type ev) = None"
    and admit: "admit_run st (ev_type ev) = Inr st1"
    and disp: "dispatch (notice_null_tag st1 ev) (strip_null_tag ev) = Inr st'"
    by (rule verify_step_Inr)
  note flags = dispatch_flags [OF disp, simplified]
  show ?thesis
  proof (cases "firstEventReceived st")
    case False
    with inv have "st = init_vstate" by (simp add: verify_inv_def)
    with admit flags show ?thesis
      by (auto simp: phase_of_def admit_run_def init_vstate_def split: if_splits)
  next
    case True
    with inv over admit flags show ?thesis
      by (auto simp: phase_of_def admit_run_def terminal_error_def resetRunState_def verify_inv_def
          split: if_splits)
  qed
qed

lemma not_open_iff:
  "(\<forall>x. \<not> entity_open st x) \<longleftrightarrow>
     activeMessages st = [] \<and> activeToolCalls st = [] \<and> activeReasoningSpans st = [] \<and>
     activeReasoningMessages st = [] \<and> (\<forall>p. stepsFor st p = []) \<and> activeSubagents st = []"
proof
  assume none: "\<forall>x. \<not> entity_open st x"
  have nil: "(\<And>x. x \<notin> set xs) \<Longrightarrow> xs = []" for xs :: "jsval list" by (cases xs) auto
  show "activeMessages st = [] \<and> activeToolCalls st = [] \<and> activeReasoningSpans st = [] \<and>
     activeReasoningMessages st = [] \<and> (\<forall>p. stepsFor st p = []) \<and> activeSubagents st = []"
    using none [THEN spec, of "TextMessage _"] none [THEN spec, of "ToolCall _"]
      none [THEN spec, of "ReasoningSpan _"] none [THEN spec, of "ReasoningMessage _"]
      none [THEN spec, of "Step _ _"] none [THEN spec, of "Subagent _"]
    by (intro conjI allI nil) simp_all
next
  assume "activeMessages st = [] \<and> activeToolCalls st = [] \<and> activeReasoningSpans st = [] \<and>
     activeReasoningMessages st = [] \<and> (\<forall>p. stepsFor st p = []) \<and> activeSubagents st = []"
  then show "\<forall>x. \<not> entity_open st x" by (intro allI, case_tac x) auto
qed

lemma anyStepsActive_iff: "\<not> anyStepsActive st \<Longrightarrow> stepsFor st p = []"
  by (auto simp: anyStepsActive_def stepsFor_def list_ex_iff split: option.splits dest!: map_of_SomeD)

text \<open>The owner buckets are only ever extended within a run, so an open entity keeps its owner.\<close>

definition bucket_le :: "vstate \<Rightarrow> vstate \<Rightarrow> bool" where
  "bucket_le st st' \<longleftrightarrow>
     (\<forall>i. (map_of (ownersMessage st) i \<noteq> None \<longrightarrow> map_of (ownersMessage st') i \<noteq> None) \<and>
          (map_of (ownersToolCall st) i \<noteq> None \<longrightarrow> map_of (ownersToolCall st') i \<noteq> None) \<and>
          (map_of (ownersReasoning st) i \<noteq> None \<longrightarrow> map_of (ownersReasoning st') i \<noteq> None))"

lemma seed_owner_keys [simp]: "map_of m j = Some y \<Longrightarrow> \<exists>y'. map_of (seed_owner a i tag m) j = Some y'"
  by (simp add: seed_owner_def js_simps)

lemma bucket_le_refl [simp]: "bucket_le st st"
  by (simp add: bucket_le_def)

lemma bucket_le_trans: "bucket_le a b \<Longrightarrow> bucket_le b c \<Longrightarrow> bucket_le a c"
  unfolding bucket_le_def by blast

lemma seed_tool_calls_le: "bucket_le st (seed_tool_calls a tag tcs st)"
proof (induction a tag tcs st rule: seed_tool_calls.induct)
  case (2 a tag tc tcs st)
  have "bucket_le st (if truthy tc \<and> is_str (jget tc ''id'')
      then st\<lparr>ownersToolCall := seed_owner a (jget tc ''id'') (or_undef tag) (ownersToolCall st)\<rparr> else st)"
    by (auto simp: bucket_le_def)
  from bucket_le_trans [OF this "2"] show ?case by simp
qed (simp add: bucket_le_def)

lemma seed_message_owner_le: "bucket_le st (seed_message_owner a msg st)"
  by (auto simp: seed_message_owner_def Let_def bucket_le_def)

lemma seed_messages_le: "seed_messages a msgs st = Inr st' \<Longrightarrow> bucket_le st st'"
proof (induction a msgs st rule: seed_messages.induct)
  case (2 a msg msgs st)
  then show ?case
    by (auto split: if_splits sum.splits
        intro: bucket_le_trans [OF bucket_le_trans [OF seed_message_owner_le seed_tool_calls_le]])
qed (simp add: bucket_le_def)

lemma seed_le: "seedOwnersFromMessages raw a st = Inr st' \<Longrightarrow> bucket_le st st'"
  by (cases raw) (auto simp: seedOwnersFromMessages_def intro: seed_messages_le)

lemma seed_owned:
  assumes "seedOwnersFromMessages raw a st = Inr st'" "owned st" shows "owned st'"
  using seed_le [OF assms(1)] clear_owners_eqD(1-4) [OF seed_frame [OF assms(1)]] assms(2)
  unfolding owned_def bucket_le_def by auto

lemma owned_steps [simp]: "owned (set_steps a ns (touch_steps a st)) = owned st"
  by (simp add: owned_def set_steps_def touch_steps_def)

lemma dispatch_owned:
  assumes disp: "dispatch st ev = Inr st'" and own: "owned st"
  shows "owned st'"
proof (cases "ev_type ev \<in> {MESSAGES_SNAPSHOT, RUN_STARTED}")
  case True
  moreover from own have "owned (st\<lparr>runStarted := True\<rparr>)" by (simp add: owned_def)
  ultimately show ?thesis using disp own
    by (auto simp: dispatch_def on_messages_snapshot_def on_run_started_def intro: seed_owned)
next
  case False
  then show ?thesis using disp own
    by (cases "ev_type ev")
      (simp_all add: dispatch_def handler_inversions on_run_error_def,
       auto simp: owned_def js_simps dest!: handler_dests)
qed


lemma dispatch_subagents:
  assumes disp: "dispatch st ev = Inr st'"
    and dis: "set (activeSubagents st) \<inter> set (closedSubagents st) = {}"
  shows "set (activeSubagents st') \<inter> set (closedSubagents st') = {}"
proof (cases "ev_type ev \<in> {MESSAGES_SNAPSHOT, RUN_STARTED}")
  case True
  with disp have "clear_owners st' = clear_owners st \<or> clear_owners st' = clear_owners (st\<lparr>runStarted := True\<rparr>)"
    by (auto simp: dispatch_def on_messages_snapshot_def on_run_started_def dest: seed_frame)
  then have "activeSubagents st' = activeSubagents st" "closedSubagents st' = closedSubagents st"
    by (auto dest: clear_owners_eqD(9,10))
  then show ?thesis using dis by simp
next
  case False
  then show ?thesis using disp dis
    by (cases "ev_type ev")
      (auto simp: dispatch_def handler_inversions on_run_error_def set_steps_def touch_steps_def
        dest!: handler_dests)
qed

lemma verify_inv_init [simp]: "verify_inv init_vstate"
  by (simp add: verify_inv_def owned_def) (simp add: init_vstate_def)

lemma admit_run_inv:
  assumes "verify_inv st" "admit_run st t = Inr st1"
  shows "owned st1" "set (activeSubagents st1) \<inter> set (closedSubagents st1) = {}"
    "firstEventReceived st1" "t = RUN_STARTED \<Longrightarrow> \<not> runFinished st1 \<and> \<not> runError st1"
  using assms
  by (auto simp: admit_run_def verify_inv_def owned_def resetRunState_def init_vstate_def split: if_splits)

lemma bracket_step_open:
  "bracket_step o1 s = Some o2 \<Longrightarrow> o2 \<longrightarrow> o1 \<or> s = BOpen"
  by (cases s) (auto split: if_splits)

lemma finished_closed:
  assumes inv: "verify_inv st" and step: "verify_step st ev = Inr (st', os)" and fin: "runFinished st'"
  shows "\<not> entity_open st' x"
proof -
  from step obtain st1 where over: "terminal_error st (ev_type ev) = None"
    and admit: "admit_run st (ev_type ev) = Inr st1"
    and disp: "dispatch (notice_null_tag st1 ev) (strip_null_tag ev) = Inr st'"
    by (rule verify_step_Inr)
  note flags = dispatch_flags [OF disp, simplified]
  show ?thesis
  proof (cases "ev_type ev = RUN_FINISHED")
    case True
    with disp have "\<forall>x. \<not> entity_open st' x"
      by (auto simp: not_open_iff dispatch_def dest!: run_finished_Inr intro: anyStepsActive_iff)
    then show ?thesis ..
  next
    case False
    with flags fin admit_run_inv(4) [OF inv admit] have "runFinished st1" "ev_type ev \<noteq> RUN_STARTED" by auto
    with admit have "runFinished st" by (auto simp: admit_run_def split: if_splits)
    with over \<open>ev_type ev \<noteq> RUN_STARTED\<close> have "ev_type ev = RUN_ERROR"
      by (auto simp: terminal_error_def split: if_splits)
    then have "entity_sym x ev = BOther" by (cases x) (simp_all add: sym_of_def)
    with verify_step_bracket [OF inv step, of x] inv \<open>runFinished st\<close> show ?thesis
      by (simp add: verify_inv_def)
  qed
qed

lemma verify_step_inv:
  assumes inv: "verify_inv st" and step: "verify_step st ev = Inr (st', os)"
  shows "verify_inv st'"
proof -
  from step obtain st1 where over: "terminal_error st (ev_type ev) = None"
    and admit: "admit_run st (ev_type ev) = Inr st1"
    and disp: "dispatch (notice_null_tag st1 ev) (strip_null_tag ev) = Inr st'"
    by (rule verify_step_Inr)
  note flags = dispatch_flags [OF disp, simplified] and adm = admit_run_inv [OF inv admit]
  have "owned (notice_null_tag st1 ev)"
    "set (activeSubagents (notice_null_tag st1 ev)) \<inter> set (closedSubagents (notice_null_tag st1 ev)) = {}"
    using adm(1,2) by (simp_all add: notice_null_tag_def owned_def)
  note own = dispatch_owned [OF disp this(1)] dispatch_subagents [OF disp this(2)]
  have "runStarted st' \<or> runError st'"
    using inv admit flags
    by (auto simp: admit_run_def verify_inv_def resetRunState_def split: if_splits)
  with own flags adm finished_closed [OF inv step] show ?thesis
    by (simp add: verify_inv_def)
qed

subsection \<open>The verifier as a stage and as a bracket checker\<close>

interpretation verifier: stage_contract verify_step verify_inv "\<lambda>ev. tag_of ev \<noteq> JNull"
proof unfold_locales
  show "list_all (\<lambda>ev. tag_of ev \<noteq> JNull) os" if "verify_step s e = Inr (s', os)" for s e s' os
    using that by (elim verify_step_Inr) simp
qed (rule verify_step_inv)

interpretation verifier: bracketed verify_step verify_inv entity_open entity_sym
  by unfold_locales (rule verify_step_inv verify_step_bracket; assumption)+

subsection \<open>Runs of the verifier\<close>

lemma phase_run_append:
  "phase_run p (ts @ us) = (case phase_run p ts of None \<Rightarrow> None | Some p' \<Rightarrow> phase_run p' us)"
  by (induction ts arbitrary: p) (auto split: option.splits)

lemma run_phase:
  "verify_inv s \<Longrightarrow> run_stage verify_step s es = (os, Inr t) \<Longrightarrow>
     phase_run (phase_of s) (map ev_type es) = Some (phase_of t)"
proof (induction es arbitrary: s os)
  case (Cons e es)
  from Cons.prems(2) obtain s' os1 os2 where
    step: "verify_step s e = Inr (s', os1)" and rest: "run_stage verify_step s' es = (os2, Inr t)"
    by (rule run_stage_Cons_Inr)
  with Cons.IH verify_step_inv [OF Cons.prems(1)] verify_step_phase [OF Cons.prems(1) step]
  show ?case by simp
qed simp

lemma run_stage_append_Inr:
  assumes "run_stage f s (es @ es') = (os, Inr t)"
  obtains os1 s' os2 where "run_stage f s es = (os1, Inr s')" "run_stage f s' es' = (os2, Inr t)" "os = os1 @ os2"
  using assms by (auto simp: run_stage_append Let_def split: prod.splits sum.splits)

lemma verify_step_out: "verify_step s e = Inr (s', os) \<Longrightarrow> os = [strip_null_tag e]"
  by (elim verify_step_Inr)

lemma run_pass_through:
  "run_stage verify_step s es = (os, r) \<Longrightarrow>
     \<exists>n. os = map strip_null_tag (take n es) \<and>
         (case r of Inl _ \<Rightarrow> n < length es | Inr _ \<Rightarrow> n = length es)"
proof (induction es arbitrary: s os)
  case (Cons e es)
  show ?case
  proof (cases "verify_step s e")
    case (Inl x)
    with Cons.prems show ?thesis by (intro exI [of _ 0]) auto
  next
    case (Inr p)
    then obtain s' where s': "verify_step s e = Inr (s', [strip_null_tag e])"
      by (cases p) (auto dest: verify_step_out)
    obtain os2 where "run_stage verify_step s' es = (os2, r)" "os = strip_null_tag e # os2"
      using Cons.prems s' by (auto split: prod.splits)
    with Cons.IH obtain n where "os2 = map strip_null_tag (take n es)"
      "case r of Inl _ \<Rightarrow> n < length es | Inr _ \<Rightarrow> n = length es" by blast
    with \<open>os = strip_null_tag e # os2\<close> show ?thesis
      by (intro exI [of _ "Suc n"]) (auto split: sum.splits)
  qed
qed (auto split: sum.splits)

subsection \<open>Attribution\<close>

fun owner_of :: "vstate \<Rightarrow> entity \<Rightarrow> jsval option" where
  "owner_of st (TextMessage i) = map_of (ownersMessage st) i"
| "owner_of st (ToolCall i) = map_of (ownersToolCall st) i"
| "owner_of st (ReasoningSpan i) = map_of (ownersReasoning st) i"
| "owner_of st (ReasoningMessage i) = map_of (ownersReasoning st) i"
| "owner_of st (Step p n) = Some p"
| "owner_of st (Subagent i) = Some i"

text \<open>The events that may attribute an entity anew: a new run, an authoritative snapshot, and a
  tool result that mints a message of the same id.\<close>

fun reattributes :: "entity \<Rightarrow> event \<Rightarrow> bool" where
  "reattributes (TextMessage i) ev \<longleftrightarrow> ev_type ev \<in> {RUN_STARTED, MESSAGES_SNAPSHOT} \<or>
     ev_type ev = TOOL_CALL_RESULT \<and> field ev ''messageId'' = i"
| "reattributes x ev \<longleftrightarrow> ev_type ev \<in> {RUN_STARTED, MESSAGES_SNAPSHOT}"

lemma owners_steps [simp]:
  "ownersMessage (set_steps a ns (touch_steps a st)) = ownersMessage st"
  "ownersToolCall (set_steps a ns (touch_steps a st)) = ownersToolCall st"
  "ownersReasoning (set_steps a ns (touch_steps a st)) = ownersReasoning st"
  "ownersActivity (set_steps a ns (touch_steps a st)) = ownersActivity st"
  by (simp_all add: set_steps_def touch_steps_def)

lemma owner_of_notice [simp]: "owner_of (notice_null_tag st ev) x = owner_of st x"
  by (cases x) (simp_all add: notice_null_tag_def)

lemma dispatch_owner:
  assumes "dispatch st ev = Inr st'" "\<not> reattributes x ev" "owner_of st x = Some p"
  shows "owner_of st' x = Some p"
  using assms
  by (cases "ev_type ev"; cases x;
      auto simp: dispatch_def handler_inversions on_run_error_def js_simps dest!: handler_dests)

lemma entity_owned:
  "owned st \<Longrightarrow> entity_open st x \<Longrightarrow> \<exists>p. owner_of st x = Some p"
  by (cases x) (auto simp: owned_def)

lemma dispatch_agrees:
  assumes disp: "dispatch st ev = Inr st'" and own: "owned st"
    and sym: "entity_sym x ev \<in> {BOpen, BPart, BClose}" and tag: "tag_of ev \<noteq> JNull"
  shows "\<exists>p. owner_of st' x = Some p \<and> (tag_of ev = JUndef \<or> tag_of ev = p)"
  using assms
  by (cases x)
    (auto simp: sym_of_def dispatch_def handler_inversions agrees_def js_simps owned_def ball_Un
      split: if_splits dest!: handler_dests)

lemma admit_run_same:
  "admit_run st t = Inr st1 \<Longrightarrow> t \<noteq> RUN_STARTED \<Longrightarrow> st1 = st \<or> st1 = st\<lparr>firstEventReceived := True\<rparr>"
  by (auto simp: admit_run_def split: if_splits)

lemma owner_of_first [simp]: "owner_of (st\<lparr>firstEventReceived := b\<rparr>) x = owner_of st x"
  by (cases x) simp_all

lemma reattributes_strip [simp]: "reattributes x (strip_null_tag ev) = reattributes x ev"
  by (cases x) simp_all

lemma not_reattributes_run: "\<not> reattributes x ev \<Longrightarrow> ev_type ev \<noteq> RUN_STARTED"
  by (cases x) auto

lemma verify_step_owner:
  assumes "verify_step st ev = Inr (st', os)" "\<not> reattributes x ev" "owner_of st x = Some p"
  shows "owner_of st' x = Some p"
proof -
  from assms(1) obtain st1 where admit: "admit_run st (ev_type ev) = Inr st1"
    and disp: "dispatch (notice_null_tag st1 ev) (strip_null_tag ev) = Inr st'"
    by (rule verify_step_Inr)
  from admit_run_same [OF admit not_reattributes_run [OF assms(2)]] assms(3)
  have "owner_of (notice_null_tag st1 ev) x = Some p" by auto
  with dispatch_owner [OF disp] assms(2) show ?thesis by simp
qed

lemma run_owner:
  "run_stage verify_step s es = (os, Inr t) \<Longrightarrow> list_all (\<lambda>ev. \<not> reattributes x ev) es \<Longrightarrow>
     owner_of s x = Some p \<Longrightarrow> owner_of t x = Some p"
proof (induction es arbitrary: s os)
  case (Cons e es)
  from Cons.prems(1) obtain s' os1 os2 where
    step: "verify_step s e = Inr (s', os1)" and rest: "run_stage verify_step s' es = (os2, Inr t)"
    by (rule run_stage_Cons_Inr)
  with Cons.IH Cons.prems verify_step_owner [OF step] show ?case by simp
qed simp

lemma verify_step_agrees:
  assumes inv: "verify_inv st" and step: "verify_step st ev = Inr (st', os)"
    and sym: "entity_sym x ev \<in> {BOpen, BPart, BClose}"
  shows "\<exists>p. owner_of st' x = Some p \<and> (tag_of (strip_null_tag ev) = JUndef \<or> tag_of (strip_null_tag ev) = p)"
proof -
  from step obtain st1 where admit: "admit_run st (ev_type ev) = Inr st1"
    and disp: "dispatch (notice_null_tag st1 ev) (strip_null_tag ev) = Inr st'"
    by (rule verify_step_Inr)
  have "owned (notice_null_tag st1 ev)"
    using admit_run_inv(1) [OF inv admit] by (simp add: notice_null_tag_def owned_def)
  from dispatch_agrees [OF disp this] sym show ?thesis by (simp add: entity_sym_strip)
qed

subsection \<open>Subagents run once\<close>

definition seen_subagents :: "vstate \<Rightarrow> jsval set" where
  "seen_subagents st = set (activeSubagents st) \<union> set (closedSubagents st)"

lemma dispatch_seen:
  assumes "dispatch st ev = Inr st'"
  shows "seen_subagents st \<subseteq> seen_subagents st'"
    "ev_type ev = SUBAGENT_STARTED \<Longrightarrow> tag_of ev \<notin> seen_subagents st \<and> tag_of ev \<in> seen_subagents st'"
proof -
  have frame: "seen_subagents st'' = seen_subagents st" if "clear_owners st'' = clear_owners st" for st st''
    using clear_owners_eqD(9,10) [OF that] by (simp add: seen_subagents_def)
  have started: "seen_subagents (st\<lparr>runStarted := b\<rparr>) = seen_subagents st" for b
    by (simp add: seen_subagents_def)
  have steps: "closedSubagents (set_steps a ns (touch_steps a st)) = closedSubagents st" for a ns
    by (simp add: set_steps_def touch_steps_def)
  show "seen_subagents st \<subseteq> seen_subagents st'"
  proof (cases "ev_type ev = MESSAGES_SNAPSHOT \<or> ev_type ev = RUN_STARTED")
    case True
    with assms have "seen_subagents st' = seen_subagents st"
      by (auto simp: on_messages_snapshot_def on_run_started_def dispatch_def started
          dest!: seed_frame frame)
    then show ?thesis by simp
  next
    case False
    with assms steps show ?thesis
      by (auto simp: dispatch_def handler_inversions on_run_error_def seen_subagents_def
          split: event_type.splits dest!: handler_dests)
  qed
  show "ev_type ev = SUBAGENT_STARTED \<Longrightarrow> tag_of ev \<notin> seen_subagents st \<and> tag_of ev \<in> seen_subagents st'"
    using assms by (auto simp: dispatch_def seen_subagents_def dest!: subagent_started_Inr)
qed

lemma verify_step_seen:
  assumes "verify_step st ev = Inr (st', os)" "ev_type ev \<noteq> RUN_STARTED"
  shows "seen_subagents st \<subseteq> seen_subagents st'"
    "ev_type ev = SUBAGENT_STARTED \<Longrightarrow>
       tag_of (strip_null_tag ev) \<notin> seen_subagents st \<and> tag_of (strip_null_tag ev) \<in> seen_subagents st'"
proof -
  from assms(1) obtain st1 where admit: "admit_run st (ev_type ev) = Inr st1"
    and disp: "dispatch (notice_null_tag st1 ev) (strip_null_tag ev) = Inr st'"
    by (rule verify_step_Inr)
  have "seen_subagents (notice_null_tag st1 ev) = seen_subagents st"
    using admit_run_same [OF admit assms(2)] by (auto simp: notice_null_tag_def seen_subagents_def)
  with dispatch_seen [OF disp] show "seen_subagents st \<subseteq> seen_subagents st'"
    "ev_type ev = SUBAGENT_STARTED \<Longrightarrow>
       tag_of (strip_null_tag ev) \<notin> seen_subagents st \<and> tag_of (strip_null_tag ev) \<in> seen_subagents st'"
    by auto
qed

lemma run_seen:
  "run_stage verify_step s es = (os, Inr t) \<Longrightarrow> list_all (\<lambda>ev. ev_type ev \<noteq> RUN_STARTED) es \<Longrightarrow>
     i \<in> seen_subagents s \<Longrightarrow> i \<in> seen_subagents t"
proof (induction es arbitrary: s os)
  case (Cons e es)
  from Cons.prems(1) obtain s' os1 os2 where
    step: "verify_step s e = Inr (s', os1)" and rest: "run_stage verify_step s' es = (os2, Inr t)"
    by (rule run_stage_Cons_Inr)
  with Cons.IH Cons.prems verify_step_seen(1) [OF step] show ?case by auto
qed simp


subsection \<open>Verifying twice\<close>

text \<open>Whether the null tag was already noticed influences nothing else.\<close>

definition same_but_notice :: "vstate \<Rightarrow> vstate \<Rightarrow> bool" where
  "same_but_notice a b \<longleftrightarrow> (\<exists>n. b = a\<lparr>nullSubagentRunIdNoticed := n\<rparr>)"

lemma seed_tool_calls_notice:
  "seed_tool_calls a tag tcs (st\<lparr>nullSubagentRunIdNoticed := n\<rparr>) =
     (seed_tool_calls a tag tcs st)\<lparr>nullSubagentRunIdNoticed := n\<rparr>"
proof (induction a tag tcs st rule: seed_tool_calls.induct)
  case (2 a tag tc tcs st)
  have comm: "st\<lparr>nullSubagentRunIdNoticed := n, ownersToolCall := m\<rparr> =
    st\<lparr>ownersToolCall := m, nullSubagentRunIdNoticed := n\<rparr>" for m by simp
  have sel: "ownersToolCall (st\<lparr>nullSubagentRunIdNoticed := n\<rparr>) = ownersToolCall st" by simp
  show ?case
    using "2" unfolding seed_tool_calls.simps by (cases "truthy tc \<and> is_str (jget tc ''id'')")
      (simp_all only: if_True if_False simp_thms comm sel)
qed simp

lemma seed_messages_notice:
  "seed_messages a msgs (st\<lparr>nullSubagentRunIdNoticed := n\<rparr>) =
     map_sum id (\<lambda>s. s\<lparr>nullSubagentRunIdNoticed := n\<rparr>) (seed_messages a msgs st)"
proof (induction a msgs st rule: seed_messages.induct)
  case (2 a msg msgs st)
  have "seed_message_owner a msg (st\<lparr>nullSubagentRunIdNoticed := n\<rparr>) =
    (seed_message_owner a msg st)\<lparr>nullSubagentRunIdNoticed := n\<rparr>"
    by (simp add: seed_message_owner_def Let_def)
  with 2 show ?case by (simp add: seed_tool_calls_notice split: sum.split)
qed simp

lemma seed_notice:
  "seedOwnersFromMessages raw a (st\<lparr>nullSubagentRunIdNoticed := n\<rparr>) =
     map_sum id (\<lambda>s. s\<lparr>nullSubagentRunIdNoticed := n\<rparr>) (seedOwnersFromMessages raw a st)"
  by (simp add: seedOwnersFromMessages_def seed_messages_notice split: jsval.split)

lemma steps_notice [simp]:
  "touch_steps p (st\<lparr>nullSubagentRunIdNoticed := n\<rparr>) = (touch_steps p st)\<lparr>nullSubagentRunIdNoticed := n\<rparr>"
  "set_steps p ns (st\<lparr>nullSubagentRunIdNoticed := n\<rparr>) = (set_steps p ns st)\<lparr>nullSubagentRunIdNoticed := n\<rparr>"
  "anyStepsActive (st\<lparr>nullSubagentRunIdNoticed := n\<rparr>) = anyStepsActive st"
  "unfinished_steps (st\<lparr>nullSubagentRunIdNoticed := n\<rparr>) = unfinished_steps st"
  "inherited_owner (st\<lparr>nullSubagentRunIdNoticed := n\<rparr>) ev = inherited_owner st ev"
  "encrypted_value_owner (st\<lparr>nullSubagentRunIdNoticed := n\<rparr>) ev = encrypted_value_owner st ev"
  by (simp_all add: touch_steps_def set_steps_def anyStepsActive_def unfinished_steps_def
      inherited_owner_def encrypted_value_owner_def Let_def split: option.split)

lemma run_started_notice:
  "on_run_started (st\<lparr>nullSubagentRunIdNoticed := n\<rparr>) ev =
     map_sum id (\<lambda>s. s\<lparr>nullSubagentRunIdNoticed := n\<rparr>) (on_run_started st ev)"
proof -
  have "st\<lparr>nullSubagentRunIdNoticed := n, runStarted := True\<rparr> =
    st\<lparr>runStarted := True, nullSubagentRunIdNoticed := n\<rparr>" by simp
  then show ?thesis unfolding on_run_started_def by (simp only: seed_notice)
qed

lemma admit_notice:
  "admit_run (st\<lparr>nullSubagentRunIdNoticed := n\<rparr>) t =
     map_sum id (\<lambda>s. s\<lparr>nullSubagentRunIdNoticed :=
       n \<and> \<not> (firstEventReceived st \<and> t = RUN_STARTED \<and> (runFinished st \<or> runError st))\<rparr>) (admit_run st t)"
  by (simp add: admit_run_def resetRunState_def)

lemma dispatch_notice:
  assumes "dispatch st ev = Inr st'"
  shows "dispatch (st\<lparr>nullSubagentRunIdNoticed := n\<rparr>) ev = Inr (st'\<lparr>nullSubagentRunIdNoticed := n\<rparr>)"
  using assms
  by (cases "ev_type ev")
    (auto simp: dispatch_def handler_inversions on_messages_snapshot_def run_started_notice
      seed_notice on_run_error_def on_subagent_started_def on_subagent_ended_def on_run_finished_def
      Let_def split: if_splits)

lemma verify_step_again:
  assumes step: "verify_step st ev = Inr (st', os)" and same: "same_but_notice st st2"
  shows "\<exists>st2'. verify_step st2 (strip_null_tag ev) = Inr (st2', os) \<and> same_but_notice st' st2'"
proof -
  obtain n where st2: "st2 = st\<lparr>nullSubagentRunIdNoticed := n\<rparr>" using same by (auto simp: same_but_notice_def)
  from step obtain st1 where ok: "terminal_error st (ev_type ev) = None" "admit_run st (ev_type ev) = Inr st1"
    "lifecycle_error (strip_null_tag ev) = None" "interrupt_error (strip_null_tag ev) = None"
    "dispatch (notice_null_tag st1 ev) (strip_null_tag ev) = Inr st'" "os = [strip_null_tag ev]"
    by (rule verify_step_Inr)
  obtain m where adm: "admit_run st2 (ev_type ev) = Inr (st1\<lparr>nullSubagentRunIdNoticed := m\<rparr>)"
    using ok(2) by (simp add: st2 admit_notice)
  have "st1\<lparr>nullSubagentRunIdNoticed := m\<rparr> = (notice_null_tag st1 ev)\<lparr>nullSubagentRunIdNoticed := m\<rparr>"
    by (simp add: notice_null_tag_def)
  then have "dispatch (st1\<lparr>nullSubagentRunIdNoticed := m\<rparr>) (strip_null_tag ev) =
      Inr (st'\<lparr>nullSubagentRunIdNoticed := m\<rparr>)"
    using dispatch_notice [OF ok(5)] by simp
  moreover have "terminal_error st2 (ev_type ev) = None"
    using ok(1) by (auto simp: st2 terminal_error_def split: if_splits)
  moreover have "notice_null_tag s (strip_null_tag ev) = s" for s by (simp add: notice_null_tag_def)
  ultimately have "verify_step st2 (strip_null_tag ev) = Inr (st'\<lparr>nullSubagentRunIdNoticed := m\<rparr>, os)"
    using adm ok(3,4,6) by (simp add: verify_step_def)
  then show ?thesis by (auto simp: same_but_notice_def)
qed

lemma run_again:
  "run_stage verify_step s es = (os, r) \<Longrightarrow> same_but_notice s s2 \<Longrightarrow>
     \<exists>t2. run_stage verify_step s2 os = (os, Inr t2) \<and> (\<forall>t. r = Inr t \<longrightarrow> same_but_notice t t2)"
proof (induction es arbitrary: s s2 os)
  case (Cons e es)
  show ?case
  proof (cases "verify_step s e")
    case (Inl x)
    with Cons.prems show ?thesis by auto
  next
    case (Inr p)
    then obtain s' where s': "verify_step s e = Inr (s', [strip_null_tag e])"
      by (cases p) (auto dest: verify_step_out)
    obtain os2 where os2: "run_stage verify_step s' es = (os2, r)" "os = strip_null_tag e # os2"
      using Cons.prems s' by (auto split: prod.splits)
    obtain s2' where s2': "verify_step s2 (strip_null_tag e) = Inr (s2', [strip_null_tag e])" "same_but_notice s' s2'"
      using verify_step_again [OF s' Cons.prems(2)] by auto
    with Cons.IH [OF os2(1) s2'(2)] os2(2) show ?thesis by auto
  qed
qed auto

end
