(* ===== verification/VerifySpec.thy ===== *)
theory VerifySpec
  imports VerifyProps
begin

text \<open>
  What the verifier guarantees, stated on whole streams: the bracket discipline of every
  streamed entity, balance at the end of a run, the run life cycle and its error branches,
  attribution, pass-through and idempotence; and, on streams of the parent agent alone, that the
  verifier accepts exactly the streams a small reference acceptor accepts.
\<close>

subsection \<open>Completeness on streams of the parent agent\<close>

text \<open>
  The reference acceptor for streams without attribution: the life cycle automaton and one
  bracket per entity, and everything closed at \<^verbatim>\<open>RUN_FINISHED\<close>.
\<close>

fun plain_ok :: "run_phase \<Rightarrow> entity set \<Rightarrow> event list \<Rightarrow> bool" where
  "plain_ok p opens [] = True"
| "plain_ok p opens (ev # es) =
     (case phase_step p (ev_type ev) of
        None \<Rightarrow> False
      | Some p' \<Rightarrow>
          (\<forall>x. bracket_step (x \<in> opens) (entity_sym x ev) \<noteq> None) \<and>
          (ev_type ev = RUN_FINISHED \<longrightarrow> opens = {}) \<and>
          plain_ok p' {x. bracket_step (x \<in> opens) (entity_sym x ev) = Some True} es)"

text \<open>An event of the parent agent: untagged, no subagent lifecycle, no message history to seed
  owners from, and no interrupt outcome.\<close>

definition plain_event :: "event \<Rightarrow> bool" where
  "plain_event ev \<longleftrightarrow> nullish (tag_of ev) \<and>
     ev_type ev \<notin> {SUBAGENT_STARTED, SUBAGENT_FINISHED, SUBAGENT_ERROR} \<and>
     (ev_type ev = MESSAGES_SNAPSHOT \<longrightarrow> \<not> is_arr (field ev ''messages'')) \<and>
     (ev_type ev = RUN_STARTED \<longrightarrow> \<not> is_arr (jget (field ev ''input'') ''messages'')) \<and>
     (ev_type ev = RUN_FINISHED \<longrightarrow> jget (field ev ''outcome'') ''type'' \<noteq> JStr ''interrupt'')"

definition plain_state :: "vstate \<Rightarrow> bool" where
  "plain_state st \<longleftrightarrow> (\<forall>i p. map_of (ownersMessage st) i = Some p \<longrightarrow> p = JUndef) \<and>
     (\<forall>i p. map_of (ownersToolCall st) i = Some p \<longrightarrow> p = JUndef) \<and> distinct (map fst (activeSteps st))"

lemma plain_tag: "plain_event ev \<Longrightarrow> tag_of (strip_null_tag ev) = JUndef"
  by (auto simp: plain_event_def strip_null_tag_def nullish_def field_def)

lemma plain_reopen: "plain_state st \<Longrightarrow> reopen_owner_error ev (inherited_owner st ev) (map_of (ownersToolCall st) i) = None"
  by (auto simp: reopen_owner_error_def plain_state_def inherited_owner_def split: option.splits)

lemma seed_not_arr: "\<not> is_arr raw \<Longrightarrow> seedOwnersFromMessages raw a st = Inr st"
  by (cases raw) (simp_all add: seedOwnersFromMessages_def)

lemma agrees_undef [simp]: "agrees JUndef p"
  by (simp add: agrees_def)

lemma run_finished_ok:
  assumes "\<forall>x. \<not> entity_open st x" "distinct (map fst (activeSteps st))"
  shows "on_run_finished st ev = Inr (st\<lparr>runFinished := True\<rparr>)"
proof -
  have "\<not> anyStepsActive st"
    using assms unfolding not_open_iff anyStepsActive_def list_ex_iff stepsFor_def
    by (auto dest!: map_of_is_SomeI split: option.splits)
  with assms(1) show ?thesis unfolding not_open_iff on_run_finished_def by simp
qed

lemma dispatch_plain:
  assumes tag: "tag_of ev = JUndef" and plain: "plain_event ev" and st: "plain_state st"
    and br: "\<forall>x. bracket_step (entity_open st x) (entity_sym x ev) \<noteq> None"
    and fin: "ev_type ev = RUN_FINISHED \<Longrightarrow> \<forall>x. \<not> entity_open st x"
  shows "\<exists>st'. dispatch st ev = Inr st'"
proof (cases "ev_type ev = RUN_FINISHED")
  case True
  with fin st show ?thesis by (simp add: dispatch_def run_finished_ok plain_state_def)
next
  case False
  have strip: "strip_null_tag ev = ev" using tag by simp
  show ?thesis
    using False plain tag plain_reopen [OF st] strip
      br [THEN spec, of "TextMessage (field ev ''messageId'')"] br [THEN spec, of "ToolCall (field ev ''toolCallId'')"]
      br [THEN spec, of "ReasoningSpan (field ev ''messageId'')"]
      br [THEN spec, of "ReasoningMessage (field ev ''messageId'')"]
      br [THEN spec, of "Step JUndef (field ev ''stepName'')"]
    by (cases "ev_type ev")
      (auto simp: dispatch_def handler_inversions sym_of_def on_messages_snapshot_def on_run_started_def
        on_run_error_def plain_event_def seed_not_arr split: if_splits)
qed

lemma distinct_touch: "distinct (map fst (activeSteps st)) \<Longrightarrow>
    distinct (map fst (activeSteps (set_steps p ns (touch_steps p st))))"
  by (simp add: set_steps_def touch_steps_def distinct_update map_of_eq_None_iff)

lemma dispatch_plain_state:
  assumes "dispatch st ev = Inr st'" "tag_of ev = JUndef" "plain_event ev" "plain_state st"
  shows "plain_state st'"
proof -
  have inh: "inherited_owner st ev = Some p \<Longrightarrow> p = JUndef" for p
    using assms(4) by (auto simp: inherited_owner_def plain_state_def split: if_splits)
  show ?thesis
    using assms inh
    by (cases "ev_type ev")
      (auto simp: dispatch_def handler_inversions on_messages_snapshot_def on_run_started_def
        on_run_error_def plain_event_def seed_not_arr plain_state_def js_simps distinct_touch
        split: if_splits option.splits dest!: handler_dests)
qed

lemma plain_strip: "plain_event ev \<Longrightarrow> plain_event (strip_null_tag ev)"
  using plain_tag [of ev] by (simp add: plain_event_def)

lemma admit_plain_state:
  "admit_run st t = Inr st1 \<Longrightarrow> plain_state st \<Longrightarrow> plain_state (notice_null_tag st1 ev)"
  by (auto simp: admit_run_def plain_state_def notice_null_tag_def resetRunState_def split: if_splits)

lemma verify_step_plain_state:
  assumes "verify_step st ev = Inr (st', os)" "plain_event ev" "plain_state st"
  shows "plain_state st'"
  using assms(1)
  by (elim verify_step_Inr) (metis assms(2,3) admit_plain_state dispatch_plain_state plain_strip plain_tag)

lemma plain_checks:
  "plain_event ev \<Longrightarrow> lifecycle_error (strip_null_tag ev) = None \<and> interrupt_error (strip_null_tag ev) = None"
  by (auto simp: plain_event_def lifecycle_error_def interrupt_error_def Let_def)

lemma phase_admits:
  assumes "verify_inv st" "phase_step (phase_of st) t \<noteq> None"
  shows "terminal_error st t = None \<and> (\<exists>st1. admit_run st t = Inr st1)"
  using assms
  by (auto simp: phase_of_def terminal_error_def admit_run_def verify_inv_def init_vstate_def split: if_splits)

lemma verify_step_plain:
  assumes inv: "verify_inv st" and st: "plain_state st" and ev: "plain_event ev"
    and ph: "phase_step (phase_of st) (ev_type ev) \<noteq> None"
    and br: "\<forall>x. bracket_step (entity_open st x) (entity_sym x ev) \<noteq> None"
    and fin: "ev_type ev = RUN_FINISHED \<Longrightarrow> \<forall>x. \<not> entity_open st x"
  shows "\<exists>st'. verify_step st ev = Inr (st', [strip_null_tag ev])"
proof -
  obtain st1 where ok: "terminal_error st (ev_type ev) = None" "admit_run st (ev_type ev) = Inr st1"
    using phase_admits [OF inv ph] by blast
  have run: "entity_sym x ev = BReset" if "ev_type ev = RUN_STARTED" for x
    using that by (cases x) (simp_all add: sym_of_def)
  have opens: "entity_open (notice_null_tag st1 ev) x \<longleftrightarrow> ev_type ev \<noteq> RUN_STARTED \<and> entity_open st x" for x
    using admit_run_open [OF inv ok(2), of x] by simp
  have "\<exists>st'. dispatch (notice_null_tag st1 ev) (strip_null_tag ev) = Inr st'"
  proof (rule dispatch_plain)
    show "\<forall>x. bracket_step (entity_open (notice_null_tag st1 ev) x) (entity_sym x (strip_null_tag ev)) \<noteq> None"
      using br run opens by (cases "ev_type ev = RUN_STARTED") (simp_all add: entity_sym_strip)
  qed (use opens fin ev in \<open>auto simp: plain_tag plain_strip admit_plain_state [OF ok(2) st]\<close>)
  with ok plain_checks [OF ev] show ?thesis by (auto simp: verify_step_def)
qed

lemma run_plain:
  "verify_inv st \<Longrightarrow> plain_state st \<Longrightarrow> list_all plain_event es \<Longrightarrow>
     accepts verify_step st es \<longleftrightarrow> plain_ok (phase_of st) {x. entity_open st x} es"
proof (induction es arbitrary: st)
  case (Cons ev es)
  show ?case
  proof (cases "verify_step st ev")
    case (Inl e)
    have "\<not> plain_ok (phase_of st) {x. entity_open st x} (ev # es)"
    proof
      assume "plain_ok (phase_of st) {x. entity_open st x} (ev # es)"
      then have "\<exists>st'. verify_step st ev = Inr (st', [strip_null_tag ev])"
        using Cons.prems by (intro verify_step_plain) (auto split: option.splits)
      with Inl show False by simp
    qed
    with Inl show ?thesis by (simp add: accepts_def)
  next
    case (Inr r)
    then obtain st' where step: "verify_step st ev = Inr (st', [strip_null_tag ev])"
      by (cases r) (auto dest: verify_step_out)
    have br: "bracket_step (entity_open st x) (entity_sym x ev) = Some (entity_open st' x)" for x
      by (rule verify_step_bracket [OF Cons.prems(1) step])
    have fin: "\<not> entity_open st x" if "ev_type ev = RUN_FINISHED" for x
    proof -
      from that have "entity_sym x ev = BOther" by (cases x) (simp_all add: sym_of_def)
      moreover from that step have "runFinished st'"
        by (elim verify_step_Inr) (simp add: dispatch_flags(3))
      ultimately show ?thesis using br [of x] finished_closed [OF Cons.prems(1) step] by simp
    qed
    have "accepts verify_step st (ev # es) \<longleftrightarrow> accepts verify_step st' es"
      using step by (simp add: accepts_def split: prod.split)
    also have "\<dots> \<longleftrightarrow> plain_ok (phase_of st') {x. entity_open st' x} es"
      using Cons.prems verify_step_inv [OF _ step] verify_step_plain_state [OF step] by (intro Cons.IH) auto
    also have "\<dots> \<longleftrightarrow> plain_ok (phase_of st) {x. entity_open st x} (ev # es)"
      using verify_step_phase [OF Cons.prems(1) step] br fin by simp
    finally show ?thesis .
  qed
qed (simp add: accepts_def)


subsection \<open>Theorems\<close>

text \<open>A stream for the witnesses: a text message, a tool call and a subagent in one run.\<close>

definition demo_stream :: "event list" where
  "demo_stream =
     [mk_event RUN_STARTED [],
      mk_event SUBAGENT_STARTED [(''subagentRunId'', JStr ''s''), (''name'', JStr ''n'')],
      mk_event TEXT_MESSAGE_START [(''messageId'', JStr ''m''), (''subagentRunId'', JStr ''s'')],
      mk_event TOOL_CALL_START [(''toolCallId'', JStr ''t''), (''subagentRunId'', JNull)],
      mk_event TEXT_MESSAGE_CONTENT [(''messageId'', JStr ''m''), (''subagentRunId'', JStr ''s''), (''delta'', JStr ''d'')],
      mk_event TOOL_CALL_END [(''toolCallId'', JStr ''t'')],
      mk_event TEXT_MESSAGE_END [(''messageId'', JStr ''m'')],
      mk_event SUBAGENT_FINISHED [(''subagentRunId'', JStr ''s'')],
      mk_event RUN_FINISHED []]"

lemma demo_accepted: "\<exists>os st. verifyEvents demo_stream = (os, Inr st)"
proof -
  have "accepts verify_step init_vstate demo_stream" by code_simp
  then show ?thesis unfolding verifyEvents_def accepts_iff .
qed

lemma verifyEvents_word:
  "verifyEvents es = (os, Inr st) \<Longrightarrow>
     bracket_run False (map (entity_sym x) es) = Some (entity_open st x)"
  using verifier.accepted_word [of init_vstate es os st x] by (simp add: verifyEvents_def)

lemma verifyEvents_inv: "verifyEvents es = (os, Inr st) \<Longrightarrow> verify_inv st"
  unfolding verifyEvents_def by (rule verifier.run_inv [OF verify_inv_init])

lemma verifyEvents_snocE:
  assumes "verifyEvents (es @ [ev]) = (os, Inr st)"
  obtains os1 s1 where "verifyEvents es = (os1, Inr s1)" "verify_step s1 ev = Inr (st, [strip_null_tag ev])"
    "verify_inv s1"
proof -
  from assms obtain os1 s1 os2 where run: "run_stage verify_step init_vstate es = (os1, Inr s1)"
    and last: "run_stage verify_step s1 [ev] = (os2, Inr st)"
    unfolding verifyEvents_def by (rule run_stage_append_Inr)
  from last have "verify_step s1 ev = Inr (st, [strip_null_tag ev])"
    by (auto split: sum.splits dest: verify_step_out)
  with run that verifyEvents_inv show thesis by (simp add: verifyEvents_def)
qed

text \<open>A stream that passes through the event \<open>a\<close>: the states around it.\<close>

lemma verifyEvents_midE:
  assumes "verifyEvents (pre @ a # mid) = (os, Inr st)"
  obtains s0 s1 os1 where "verify_inv s0" "verify_step s0 a = Inr (s1, [strip_null_tag a])" "verify_inv s1"
    "run_stage verify_step s1 mid = (os1, Inr st)"
proof -
  from assms obtain os1 s1 os2 where run: "verifyEvents (pre @ [a]) = (os1, Inr s1)"
    "run_stage verify_step s1 mid = (os2, Inr st)"
    unfolding verifyEvents_def by (metis append.assoc append_Cons append_Nil run_stage_append_Inr)
  from run(1) obtain s0 where "verify_step s0 a = Inr (s1, [strip_null_tag a])" "verify_inv s0"
    by (rule verifyEvents_snocE)
  with run that verifyEvents_inv show thesis by blast
qed

text \<open>
  C1. Bracket discipline: in every stream the verifier accepts, every text message, tool call,
  reasoning span, reasoning message, step and subagent, seen through its own identifier, follows the
  word open, continue, close, and what the verifier records as open is exactly what the
  word left open. Nothing is continued or closed that was not opened in this run.
\<close>

theorem verify_brackets:
  assumes "verifyEvents es = (os, Inr st)"
  shows "bracket_run False (map (entity_sym x) es) = Some (entity_open st x)"
  by (rule verifyEvents_word [OF assms])

theorem verify_brackets_witness:
  "\<exists>os st. verifyEvents demo_stream = (os, Inr st) \<and>
     bracket_run False (map (entity_sym (TextMessage (JStr ''m''))) demo_stream) =
       Some (entity_open st (TextMessage (JStr ''m'')))"
  using demo_accepted verify_brackets by blast

text \<open>
  C2. A run that finishes is balanced: between a \<^verbatim>\<open>RUN_STARTED\<close> and an accepted
  \<^verbatim>\<open>RUN_FINISHED\<close> every entity was opened as often as it was closed, and none is open
  after it.
\<close>

theorem verify_finished_balanced:
  assumes run: "verifyEvents (pre @ start # body @ [fin]) = (os, Inr st)"
    and types: "ev_type start = RUN_STARTED" "ev_type fin = RUN_FINISHED"
    and single: "\<forall>ev \<in> set body. ev_type ev \<noteq> RUN_STARTED"
  shows "\<not> entity_open st x \<and>
    count_list (map (entity_sym x) body) BOpen = count_list (map (entity_sym x) body) BClose"
proof -
  have "verifyEvents ((pre @ start # body) @ [fin]) = (os, Inr st)" using run by simp
  then obtain s1 where step: "verify_step s1 fin = Inr (st, [strip_null_tag fin])" and inv: "verify_inv s1"
    by (rule verifyEvents_snocE)
  from step have "runFinished st" using types(2) by (elim verify_step_Inr) (simp add: dispatch_flags(3))
  with step inv finished_closed have closed: "\<not> entity_open st x" by blast
  have start: "entity_sym x start = BReset" using types(1) by (cases x) (simp_all add: sym_of_def)
  have fin: "entity_sym x fin = BOther" using types(2) by (cases x) (simp_all add: sym_of_def)
  have no_reset: "BReset \<notin> set (map (entity_sym x) body)"
    using single by (cases x) (auto simp: sym_of_def split: if_splits)
  have "bracket_run False (map (entity_sym x) (pre @ start # body @ [fin])) = Some False"
    using verifyEvents_word [OF run, of x] closed by simp
  then have "bracket_run False (map (entity_sym x) body) = Some False"
    by (auto simp: bracket_run_append start fin split: option.splits)
  from bracket_run_counts [OF this no_reset] closed show ?thesis by simp
qed

theorem verify_finished_balanced_witness:
  "\<exists>start body fin. demo_stream = [] @ start # body @ [fin] \<and>
     count_list (map (entity_sym (ToolCall (JStr ''t''))) body) BOpen =
     count_list (map (entity_sym (ToolCall (JStr ''t''))) body) BClose"
proof -
  obtain os st where acc: "verifyEvents demo_stream = (os, Inr st)" using demo_accepted by blast
  have split: "demo_stream = [] @ hd demo_stream # butlast (tl demo_stream) @ [last demo_stream]"
    by (simp add: demo_stream_def)
  have "\<forall>ev \<in> set (butlast (tl demo_stream)). ev_type ev \<noteq> RUN_STARTED"
    "ev_type (hd demo_stream) = RUN_STARTED" "ev_type (last demo_stream) = RUN_FINISHED"
    by (simp_all add: demo_stream_def)
  with verify_finished_balanced [of "[]" "hd demo_stream" "butlast (tl demo_stream)" "last demo_stream" os st
      "ToolCall (JStr ''t'')"] acc split
  show ?thesis by metis
qed

text \<open>
  C3. The run life cycle: the event types of every accepted stream drive the automaton
  not started, running, finished or errored, and the flags \<^verbatim>\<open>firstEventReceived\<close>,
  \<^verbatim>\<open>runFinished\<close> and \<^verbatim>\<open>runError\<close> are its state: a run starts only when none is active,
  and only \<^verbatim>\<open>RUN_STARTED\<close> follows an error.
\<close>

theorem verify_lifecycle:
  assumes "verifyEvents es = (os, Inr st)"
  shows "phase_run NotStarted (map ev_type es) = Some (phase_of st)"
proof -
  have "phase_of init_vstate = NotStarted" by (simp add: phase_of_def init_vstate_def)
  with run_phase [OF verify_inv_init] assms show ?thesis by (simp add: verifyEvents_def)
qed

theorem verify_lifecycle_witness:
  "\<exists>os st. verifyEvents demo_stream = (os, Inr st) \<and>
     phase_run NotStarted (map ev_type demo_stream) = Some (phase_of st) \<and> phase_of st = Finished"
proof -
  obtain os st where acc: "verifyEvents demo_stream = (os, Inr st)" using demo_accepted by blast
  moreover have "phase_run NotStarted (map ev_type demo_stream) = Some Finished" by code_simp
  ultimately show ?thesis using verify_lifecycle [OF acc] by auto
qed

text \<open>
  Every life cycle violation is rejected with its own error and nothing is emitted for it:
  an event the automaton has no transition for fails as a missing \<^verbatim>\<open>RUN_STARTED\<close>, as a run
  still active, as an event after \<^verbatim>\<open>RUN_FINISHED\<close> or as an event after \<^verbatim>\<open>RUN_ERROR\<close>.
\<close>

theorem verify_lifecycle_errors:
  assumes run: "verifyEvents es = (os, Inr st)"
    and bad: "phase_step (phase_of st) (ev_type ev) = None"
  shows "verifyEvents (es @ [ev]) =
    (os, Inl (case phase_of st of
        NotStarted \<Rightarrow> FirstEventMustBeRunStarted
      | Running \<Rightarrow> RunStillActive
      | Finished \<Rightarrow> RunAlreadyFinished (ev_type ev)
      | Errored \<Rightarrow> RunAlreadyErrored (ev_type ev)))"
proof -
  have "verify_step st ev = Inl (case phase_of st of NotStarted \<Rightarrow> FirstEventMustBeRunStarted
      | Running \<Rightarrow> RunStillActive | Finished \<Rightarrow> RunAlreadyFinished (ev_type ev)
      | Errored \<Rightarrow> RunAlreadyErrored (ev_type ev))"
    using verifyEvents_inv [OF run] bad
    by (auto simp: phase_of_def verify_step_def terminal_error_def admit_run_def verify_inv_def
        init_vstate_def split: if_splits)
  with run show ?thesis by (simp add: verifyEvents_def run_stage_append)
qed

theorem verify_lifecycle_errors_witness:
  "\<exists>os. verifyEvents (demo_stream @ [mk_event CUSTOM []]) = (os, Inl (RunAlreadyFinished CUSTOM))"
proof -
  obtain os st where acc: "verifyEvents demo_stream = (os, Inr st)" using demo_accepted by blast
  have "case snd (verifyEvents demo_stream) of Inr st \<Rightarrow> phase_of st = Finished | Inl _ \<Rightarrow> False" by code_simp
  with acc have "phase_of st = Finished" by simp
  with verify_lifecycle_errors [OF acc, of "mk_event CUSTOM []"] show ?thesis by simp
qed



text \<open>
  Pass-through: whatever the verifier emits is the input in its order, event by event, with
  only a null \<^verbatim>\<open>subagentRunId\<close> removed; it emits everything up to the first rejected event, and
  everything when it accepts.
\<close>

theorem verify_pass_through:
  "\<exists>n. fst (verifyEvents es) = map strip_null_tag (take n es) \<and>
     (case snd (verifyEvents es) of Inl _ \<Rightarrow> n < length es | Inr _ \<Rightarrow> n = length es)"
  using run_pass_through [of init_vstate es] unfolding verifyEvents_def by (metis prod.collapse)

text \<open>
  Verifying is idempotent: what a verifier emitted, also before an error, is accepted
  unchanged by a second verifier.
\<close>

theorem verify_idempotent:
  "\<exists>st. verifyEvents (fst (verifyEvents es)) = (fst (verifyEvents es), Inr st)"
proof -
  have "same_but_notice init_vstate init_vstate"
    unfolding same_but_notice_def by (intro exI [of _ False]) (simp add: init_vstate_def)
  from run_again [OF _ this, of es] show ?thesis unfolding verifyEvents_def by (metis prod.collapse)
qed

text \<open>
  A subagent run id is used once per run: after an accepted \<^verbatim>\<open>SUBAGENT_STARTED\<close> no later one in
  the same run carries the same id, whether the subagent is still active or has finished.
\<close>

theorem verify_subagent_once:
  assumes run: "verifyEvents (pre @ a # mid @ [b]) = (os, Inr st)"
    and types: "ev_type a = SUBAGENT_STARTED" "ev_type b = SUBAGENT_STARTED"
    and single: "\<forall>ev \<in> set mid. ev_type ev \<noteq> RUN_STARTED"
  shows "tag_of a \<noteq> tag_of b"
proof
  assume same: "tag_of a = tag_of b"
  have "verifyEvents ((pre @ a # mid) @ [b]) = (os, Inr st)" using run by simp
  then obtain os1 s2 where pre: "verifyEvents (pre @ a # mid) = (os1, Inr s2)"
    and b: "verify_step s2 b = Inr (st, [strip_null_tag b])" by (rule verifyEvents_snocE)
  from pre obtain s0 s1 os2 where a: "verify_step s0 a = Inr (s1, [strip_null_tag a])"
    and mid: "run_stage verify_step s1 mid = (os2, Inr s2)" by (rule verifyEvents_midE)
  have "tag_of (strip_null_tag a) \<in> seen_subagents s1" using verify_step_seen(2) [OF a] types(1) by simp
  with run_seen [OF mid] single have "tag_of (strip_null_tag a) \<in> seen_subagents s2"
    by (simp add: list_all_iff)
  moreover have "tag_of (strip_null_tag b) \<notin> seen_subagents s2" using verify_step_seen(2) [OF b] types(2) by simp
  ultimately show False using same by (simp add: strip_null_tag_def field_def split: if_splits)
qed

theorem verify_subagent_once_witness:
  "\<exists>os st. verifyEvents ([mk_event RUN_STARTED []] @
        mk_event SUBAGENT_STARTED [(''subagentRunId'', JStr ''s''), (''name'', JStr ''n'')] # [] @
        [mk_event SUBAGENT_STARTED [(''subagentRunId'', JStr ''s2''), (''name'', JStr ''n'')]]) = (os, Inr st) \<and>
     JStr ''s'' \<noteq> JStr ''s2''"
proof -
  have "accepts verify_step init_vstate ([mk_event RUN_STARTED []] @
        mk_event SUBAGENT_STARTED [(''subagentRunId'', JStr ''s''), (''name'', JStr ''n'')] # [] @
        [mk_event SUBAGENT_STARTED [(''subagentRunId'', JStr ''s2''), (''name'', JStr ''n'')]])" by code_simp
  then obtain os st where acc: "verifyEvents ([mk_event RUN_STARTED []] @
        mk_event SUBAGENT_STARTED [(''subagentRunId'', JStr ''s''), (''name'', JStr ''n'')] # [] @
        [mk_event SUBAGENT_STARTED [(''subagentRunId'', JStr ''s2''), (''name'', JStr ''n'')]]) = (os, Inr st)"
    unfolding verifyEvents_def accepts_iff by blast
  with verify_subagent_once [OF acc] show ?thesis by simp
qed

text \<open>
  C6. Completeness: on streams of the parent agent alone (untagged, no history to seed owners from)
  the verifier rejects nothing it should accept: it accepts a stream exactly when the
  life cycle automaton and the bracket of every entity accept it and nothing is open at each
  \<^verbatim>\<open>RUN_FINISHED\<close>.
\<close>

theorem verify_complete:
  assumes "list_all plain_event es"
  shows "accepts verify_step init_vstate es \<longleftrightarrow> plain_ok NotStarted {} es"
proof -
  have "plain_state init_vstate" "phase_of init_vstate = NotStarted"
    by (simp_all add: plain_state_def phase_of_def init_vstate_def)
  with run_plain [OF verify_inv_init _ assms] show ?thesis by simp
qed

theorem verify_complete_witness:
  "plain_ok NotStarted {}
     [mk_event RUN_STARTED [], mk_event TEXT_MESSAGE_START [(''messageId'', JStr ''m'')],
      mk_event TEXT_MESSAGE_END [(''messageId'', JStr ''m'')], mk_event RUN_FINISHED []]"
proof -
  let ?es = "[mk_event RUN_STARTED [], mk_event TEXT_MESSAGE_START [(''messageId'', JStr ''m'')],
      mk_event TEXT_MESSAGE_END [(''messageId'', JStr ''m'')], mk_event RUN_FINISHED []]"
  have "accepts verify_step init_vstate ?es" by code_simp
  moreover have "list_all plain_event ?es" by code_simp
  ultimately show ?thesis using verify_complete [of ?es] by blast
qed

end
