(* ===== verification/ChunksProps.thy ===== *)
theory ChunksProps
  imports Chunks
begin

text \<open>
  Properties of chunk expansion (theory \<open>Chunks\<close>): the lane invariant, the shape of what one
  chunk expands into, and, on whole streams, that no chunk is left, that chunk-free streams
  pass unchanged, that every delta and provider payload is carried exactly once and in order, and that
  lanes do not disturb each other.
\<close>

subsection \<open>Lanes\<close>

definition same_stream :: "pending_stream \<Rightarrow> pending_stream \<Rightarrow> bool" where
  "same_stream p q \<longleftrightarrow> pending_kind p = pending_kind q \<and> pendingEntityId p = pendingEntityId q"

text \<open>
  What holds between two events: one stream per lane, each lane named by the owner its opener
  carried, and no stream assembled in two lanes.
\<close>

definition lanes_inv :: "lanes \<Rightarrow> bool" where
  "lanes_inv ls \<longleftrightarrow> distinct (map fst ls) \<and>
     (\<forall>k p. map_of ls k = Some p \<longrightarrow> k = or_undef (pending_owner p) \<and> pendingEntityId p \<noteq> JUndef) \<and>
     (\<forall>k p k' p'. map_of ls k = Some p \<and> map_of ls k' = Some p' \<and> same_stream p p' \<longrightarrow> k = k')"

lemma closeLane_lanes: "snd (closeLane k ls) = AList.delete k ls"
  by (auto simp: closeLane_def delete_id map_of_eq_None_iff split: option.splits)

lemma closeLane_map: "map_of (snd (closeLane k ls)) j = (if j = k then None else map_of ls j)"
  by (simp add: closeLane_lanes js_simps)

lemma close_each_lanes: "snd (close_each ks ls) = foldl (\<lambda>l k. AList.delete k l) ls ks"
  by (induction ks ls rule: close_each.induct)
    (auto simp: Let_def split: prod.splits simp flip: closeLane_lanes)

lemma foldl_delete_map:
  "map_of (foldl (\<lambda>l k. AList.delete k l) ls ks) j = (if j \<in> set ks then None else map_of ls j)"
  by (induction ks arbitrary: ls) (auto simp: js_simps)

lemma closeAll_lanes [simp]: "snd (closeAllLanes ls) = []"
proof -
  have "map_of (snd (closeAllLanes ls)) j = None" for j
    by (auto simp: closeAllLanes_def close_each_lanes foldl_delete_map map_of_eq_None_iff)
  then have "map_of (snd (closeAllLanes ls)) = Map.empty" by blast
  then show ?thesis by simp
qed

lemma lanes_inv_Nil [simp]: "lanes_inv []"
  by (simp add: lanes_inv_def)

lemma lanes_inv_delete: "lanes_inv ls \<Longrightarrow> lanes_inv (AList.delete k ls)"
  unfolding lanes_inv_def by (auto simp: js_simps distinct_delete split: if_splits)

lemma lanes_inv_open:
  assumes "lanes_inv ls" "k = or_undef (pending_owner p)" "pendingEntityId p \<noteq> JUndef"
    and "\<And>k' p'. map_of ls k' = Some p' \<Longrightarrow> same_stream p p' \<Longrightarrow> k' = k"
  shows "lanes_inv (AList.update k p ls)"
  using assms unfolding lanes_inv_def same_stream_def
  by (auto simp: js_simps distinct_update split: if_splits)

lemma laneHolding_Some:
  assumes "laneHolding kind i ls = Some k" "distinct (map fst ls)"
  obtains p where "map_of ls k = Some p" "pending_kind p = kind" "pendingEntityId p = i"
proof -
  from assms(1) obtain p where "(k, p) \<in> set ls" "pending_kind p = kind" "pendingEntityId p = i"
    by (auto simp: laneHolding_def find_Some_iff) (metis nth_mem)
  with assms(2) that show thesis by (auto dest: map_of_is_SomeI)
qed

lemma laneHolding_None:
  "laneHolding kind i ls = None \<Longrightarrow> map_of ls k = Some p \<Longrightarrow> \<not> (pending_kind p = kind \<and> pendingEntityId p = i)"
  by (auto simp: laneHolding_def find_None_iff dest!: map_of_SomeD)

lemma opened_stream_simps [simp]:
  "pending_kind (opened_stream kind chunk) = kind"
  "pendingEntityId (opened_stream kind chunk) = field chunk (missingIdFieldName kind)"
  "pending_owner (opened_stream kind chunk) = tag_of chunk"
  by (cases kind; simp)+

lemma opener_missing_None: "opener_missing kind chunk = None \<Longrightarrow> field chunk (missingIdFieldName kind) \<noteq> JUndef"
  by (cases kind) (auto split: if_splits)

text \<open>The two ways a chunk finds its stream.\<close>

lemma assemble_cases:
  assumes "assemble kind chunk lane ls = Inr (ls', p, ops)"
  obtains (Continue) "map_of ls lane = Some p" "continues kind chunk p" "opener_agreement chunk p = None"
      "ls' = ls" "ops = []"
  | (Open) "opener_missing kind chunk = None" "p = opened_stream kind chunk"
      "ls' = AList.update lane p (AList.delete lane ls)"
      "ops = fst (closeLane lane ls) @ [start_event kind chunk p]"
      "\<And>q. map_of ls lane = Some q \<Longrightarrow> \<not> continues kind chunk q"
proof -
  have del: "map_of ls lane = None \<Longrightarrow> AList.delete lane ls = ls" by (simp add: delete_id map_of_eq_None_iff)
  show thesis
  proof (cases "map_of ls lane")
    case None
    with assms del show ?thesis
      by (intro Open) (auto simp: assemble_def Let_def closeLane_def split: option.splits)
  next
    case (Some q)
    show ?thesis
    proof (cases "continues kind chunk q")
      case True
      with assms Some show ?thesis by (intro Continue) (auto simp: assemble_def split: option.splits)
    next
      case False
      with assms Some show ?thesis
        by (intro Open) (auto simp: assemble_def Let_def closeLane_def split: option.splits)
    qed
  qed
qed

lemma on_chunk_cases:
  assumes "on_chunk kind ls chunk = Inr (ls', os)"
  obtains lane p ops where
    "resolveLane kind (field chunk (missingIdFieldName kind)) (or_undef (tag_of chunk)) ls = Inr lane"
    "assemble kind chunk lane ls = Inr (ls', p, ops)"
    "os = (if field chunk ''delta'' \<noteq> JUndef \<or> field chunk ''rawEvent'' \<noteq> JUndef
           then ops @ [content_event kind chunk (unrecognisedChunkProperties chunk kind) p]
           else if ops = [] \<and> (field chunk ''metadata'' \<noteq> JUndef \<or> tag_of chunk = JNull \<or>
             unrecognisedChunkProperties chunk kind \<noteq> [])
           then [bare_content_event kind chunk (unrecognisedChunkProperties chunk kind) p]
           else carryRemainderOnOpener ops (unrecognisedChunkProperties chunk kind) False)"
proof -
  from assms obtain lane p ops where
    "resolveLane kind (field chunk (missingIdFieldName kind)) (or_undef (tag_of chunk)) ls = Inr lane"
    "assemble kind chunk lane ls = Inr (ls', p, ops)"
    by (auto simp: on_chunk_def Let_def split: sum.splits)
  moreover from this assms show thesis
    by (intro that) (assumption+, auto simp: on_chunk_def Let_def carryRemainderOnOpener_def)
qed

text \<open>The shapes of a step of the operator.\<close>

lemma kind_of_type_iff: "kind_of_type t = None \<longleftrightarrow> \<not> is_chunk_type t"
  by (cases t) (simp_all add: is_chunk_type_def)

lemma chunk_step_cases:
  assumes "chunk_step ls ev = Inr (ls', os)"
  obtains (Chunk) kind where "kind_of_type (ev_type ev) = Some kind" "on_chunk kind ls ev = Inr (ls', os)"
  | (Pass) "\<not> is_chunk_type (ev_type ev)" "ls' = ls" "os = [ev]"
  | (Close) "\<not> is_chunk_type (ev_type ev)" "ls' = AList.delete (or_undef (tag_of ev)) ls"
      "os = fst (closeLane (or_undef (tag_of ev)) ls) @ [ev]"
  | (All) "\<not> is_chunk_type (ev_type ev)" "closes_all_lanes (ev_type ev)" "ls' = []"
      "os = fst (closeAllLanes ls) @ [ev]"
proof -
  have split: "(case x of (evs, l) \<Rightarrow> Inr (l, evs @ [ev])) = Inr (ls', os) \<longleftrightarrow> ls' = snd x \<and> os = fst x @ [ev]"
    for x by (cases x) auto
  consider (own) "closes_own_lane (ev_type ev)"
    | (all) "\<not> closes_own_lane (ev_type ev)" "closes_all_lanes (ev_type ev)"
    | (other) "\<not> closes_own_lane (ev_type ev)" "\<not> closes_all_lanes (ev_type ev)" by blast
  then show thesis
  proof cases
    case own
    then have "\<not> is_chunk_type (ev_type ev)" by (auto simp: closes_own_lane_def is_chunk_type_def)
    with own assms Close show ?thesis by (simp add: chunk_step_def split closeLane_lanes)
  next
    case all
    then have "\<not> is_chunk_type (ev_type ev)" by (auto simp: closes_all_lanes_def is_chunk_type_def)
    with all assms All show ?thesis by (simp add: chunk_step_def split)
  next
    case other
    have "nullish (tag_of ev) \<or> or_undef (tag_of ev) = tag_of ev" by (auto simp: or_undef_def)
    with other assms Chunk Pass Close show ?thesis
      by (cases "ev_type ev")
        (auto simp: chunk_step_def split closeLane_lanes on_text_message_chunk_def on_tool_call_chunk_def
          on_reasoning_message_chunk_def is_chunk_type_def split: if_splits)
  qed
qed

text \<open>Opening happens only for a named stream that no lane holds, in the lane of the chunk's own tag.\<close>

lemma opens_own_lane:
  assumes inv: "lanes_inv ls"
    and lane: "resolveLane kind (field chunk (missingIdFieldName kind)) (or_undef (tag_of chunk)) ls = Inr lane"
    and id: "field chunk (missingIdFieldName kind) \<noteq> JUndef"
    and new: "\<And>q. map_of ls lane = Some q \<Longrightarrow> \<not> continues kind chunk q"
  shows "lane = or_undef (tag_of chunk)" "laneHolding kind (field chunk (missingIdFieldName kind)) ls = None"
proof -
  have "laneHolding kind (field chunk (missingIdFieldName kind)) ls = None"
  proof (rule ccontr)
    assume "laneHolding kind (field chunk (missingIdFieldName kind)) ls \<noteq> None"
    then obtain k where k: "laneHolding kind (field chunk (missingIdFieldName kind)) ls = Some k" by blast
    with lane id have "lane = k" by (auto simp: resolveLane_def split: if_splits)
    from k inv obtain p where "map_of ls k = Some p" "pending_kind p = kind"
      "pendingEntityId p = field chunk (missingIdFieldName kind)"
      by (elim laneHolding_Some) (auto simp: lanes_inv_def)
    with new [of p] \<open>lane = k\<close> show False by (simp add: continues_def)
  qed
  with lane id show "lane = or_undef (tag_of chunk)"
    "laneHolding kind (field chunk (missingIdFieldName kind)) ls = None"
    by (auto simp: resolveLane_def)
qed

lemma on_chunk_inv:
  assumes inv: "lanes_inv ls" and step: "on_chunk kind ls chunk = Inr (ls', os)"
  shows "lanes_inv ls'"
proof -
  from step obtain lane p ops where
    lane: "resolveLane kind (field chunk (missingIdFieldName kind)) (or_undef (tag_of chunk)) ls = Inr lane"
    and asm: "assemble kind chunk lane ls = Inr (ls', p, ops)"
    by (rule on_chunk_cases)
  from asm show ?thesis
  proof (cases rule: assemble_cases)
    case Continue
    with inv show ?thesis by simp
  next
    case Open
    note id = opener_missing_None [OF Open(1)]
    note own = opens_own_lane [OF inv lane id Open(5)]
    have "k' = lane" if "map_of (AList.delete lane ls) k' = Some p'" "same_stream p p'" for k' p'
      using that laneHolding_None [OF own(2)] Open(2)
      by (auto simp: same_stream_def js_simps split: if_splits)
    then show ?thesis
      unfolding Open(3) using inv own(1) id
      by (intro lanes_inv_open lanes_inv_delete) (auto simp: Open(2))
  qed
qed

lemma chunk_step_inv:
  assumes "lanes_inv ls" "chunk_step ls ev = Inr (ls', os)"
  shows "lanes_inv ls'"
  using assms(2)
  by (cases rule: chunk_step_cases) (use assms(1) in \<open>auto intro: on_chunk_inv lanes_inv_delete\<close>)

subsection \<open>Expansion leaves no chunk\<close>

lemma end_event_type [simp]: "ev_type (end_event p) = end_type (pending_kind p)"
  by (cases p) simp_all

lemma with_types [simp]: "ev_type (withChunkMetadata ev c) = ev_type ev" "ev_type (withChunkOrigin ev c) = ev_type ev"
  by (simp_all add: withChunkMetadata_def withChunkOrigin_def Let_def)

lemma synthesized_types [simp]:
  "ev_type (start_event kind c p) = start_type kind" "ev_type (content_event kind c r p) = content_type kind"
  "ev_type (bare_content_event kind c r p) = content_type kind"
  by (simp_all add: start_event_def content_event_def bare_content_event_def)

lemma kind_types_not_chunk [simp]:
  "\<not> is_chunk_type (start_type kind)" "\<not> is_chunk_type (content_type kind)" "\<not> is_chunk_type (end_type kind)"
  by (cases kind; simp add: is_chunk_type_def)+

lemma closeLane_events: "fst (closeLane k ls) = (case map_of ls k of None \<Rightarrow> [] | Some p \<Rightarrow> [end_event p])"
  by (simp add: closeLane_def split: option.splits)

lemma closeAll_types: "e \<in> set (fst (close_each ks ls)) \<Longrightarrow> \<exists>p. e = end_event p"
  by (induction ks ls rule: close_each.induct)
    (auto simp: Let_def closeLane_def split: prod.splits option.splits)

lemma carry_types: "map ev_type (carryRemainderOnOpener es r b) = map ev_type es"
proof -
  have "map ev_type es = map ev_type (butlast es) @ [ev_type (last es)]" if "es \<noteq> []"
    using that by (metis append_butlast_last_id list.simps(8,9) map_append)
  then show ?thesis by (auto simp: carryRemainderOnOpener_def)
qed

lemma list_all_types: "list_all (\<lambda>e. P (ev_type e)) es \<longleftrightarrow> list_all P (map ev_type es)"
  by (simp add: list_all_iff)

text \<open>Every emitted event is one of the source that is no chunk, or has a type of some kind of stream.\<close>

lemma on_chunk_types:
  assumes "on_chunk kind ls chunk = Inr (ls', os)"
    and kinds: "\<And>k. P (start_type k) \<and> P (content_type k) \<and> P (end_type k)"
  shows "list_all (\<lambda>e. P (ev_type e)) os"
proof -
  from assms(1) obtain lane p ops where
    asm: "assemble kind chunk lane ls = Inr (ls', p, ops)"
    and os: "os = (if field chunk ''delta'' \<noteq> JUndef \<or> field chunk ''rawEvent'' \<noteq> JUndef
           then ops @ [content_event kind chunk (unrecognisedChunkProperties chunk kind) p]
           else if ops = [] \<and> (field chunk ''metadata'' \<noteq> JUndef \<or> tag_of chunk = JNull \<or>
             unrecognisedChunkProperties chunk kind \<noteq> [])
           then [bare_content_event kind chunk (unrecognisedChunkProperties chunk kind) p]
           else carryRemainderOnOpener ops (unrecognisedChunkProperties chunk kind) False)"
    by (rule on_chunk_cases)
  from asm have ops: "list_all (\<lambda>e. P (ev_type e)) ops"
    by (cases rule: assemble_cases) (auto simp: closeLane_events kinds split: option.splits)
  then have "list_all (\<lambda>e. P (ev_type e)) (carryRemainderOnOpener ops r b)" for r b
    unfolding list_all_types [of P] carry_types .
  with ops os show ?thesis by (simp add: kinds)
qed

lemma chunk_step_types:
  assumes "chunk_step ls ev = Inr (ls', os)"
    and kinds: "\<And>k. P (start_type k) \<and> P (content_type k) \<and> P (end_type k)"
    and pass: "\<not> is_chunk_type (ev_type ev) \<Longrightarrow> P (ev_type ev)"
  shows "list_all (\<lambda>e. P (ev_type e)) os"
  using assms(1)
proof (cases rule: chunk_step_cases)
  case All
  with pass show ?thesis
    by (auto simp: list_all_iff closeAllLanes_def kinds dest!: closeAll_types)
qed (use pass in \<open>auto simp: closeLane_events kinds dest: on_chunk_types [OF _ kinds] split: option.splits\<close>)

lemma run_types:
  assumes kinds: "\<And>k. P (start_type k) \<and> P (content_type k) \<and> P (end_type k)"
  shows "list_all (\<lambda>e. P (ev_type e)) es \<Longrightarrow> list_all (\<lambda>e. P (ev_type e)) (fst (run_stage chunk_step ls es))"
proof (induction es arbitrary: ls)
  case (Cons ev es)
  show ?case
  proof (cases "chunk_step ls ev")
    case (Inr r)
    with Cons chunk_step_types [of ls ev "fst r" "snd r" P, OF _ kinds] show ?thesis
      by (cases r) (simp add: case_prod_unfold Let_def)
  qed simp
qed simp

lemma chunk_step_no_chunk:
  assumes "chunk_step ls ev = Inr (ls', os)"
  shows "list_all (\<lambda>e. \<not> is_chunk_type (ev_type e)) os"
  by (rule chunk_step_types [OF assms]) simp_all

interpretation expander: stage_contract chunk_step lanes_inv "\<lambda>ev. \<not> is_chunk_type (ev_type ev)"
  by unfold_locales (rule chunk_step_inv chunk_step_no_chunk; assumption)+


subsection \<open>What the expansion carries\<close>

text \<open>The values a stream carries under one property, in order; and its non-empty deltas.\<close>

definition payload :: "string \<Rightarrow> event list \<Rightarrow> jsval list" where
  "payload k es = filter (\<lambda>v. v \<noteq> JUndef) (map (\<lambda>e. field e k) es)"

definition deltas :: "event list \<Rightarrow> jsval list" where
  "deltas es = filter (\<lambda>v. v \<noteq> JUndef \<and> v \<noteq> JStr []) (map (\<lambda>e. field e ''delta'') es)"

lemma payload_append [simp]: "payload k (a @ b) = payload k a @ payload k b"
  by (simp add: payload_def)

lemma deltas_append [simp]: "deltas (a @ b) = deltas a @ deltas b"
  by (simp add: deltas_def)

lemma payload_single: "payload k [e] = (if field e k = JUndef then [] else [field e k])"
  by (simp add: payload_def)

lemma payload_Nil [simp]: "payload k [] = []" "deltas [] = []"
  by (simp_all add: payload_def deltas_def)

lemma oget_remainder:
  "oget (unrecognisedChunkProperties chunk kind) k =
     (if k \<in> set (describedFields kind) then JUndef else field chunk k)"
proof -
  have "map_of (filter (\<lambda>(k, _). k \<notin> S) m) k = (if k \<in> S then None else map_of m k)" for S and m :: jsobj
    by (induction m) auto
  then show ?thesis by (simp add: unrecognisedChunkProperties_def oget_def field_def)
qed

lemma field_withChunkMetadata [simp]:
  "field (withChunkMetadata ev c) k = (if k = ''metadata'' \<and> field c k \<noteq> JUndef then field c k else field ev k)"
  by (auto simp: withChunkMetadata_def field_def)

lemma field_withChunkOrigin [simp]:
  "field (withChunkOrigin ev c) k =
     (if (k = ''metadata'' \<or> k = ''rawEvent'') \<and> field c k \<noteq> JUndef then field c k else field ev k)"
  using field_withChunkMetadata [of ev c k] by (auto simp: withChunkOrigin_def Let_def field_def)

definition synthesized_fields :: "string list" where
  "synthesized_fields = [''timestamp'', ''metadata'', ''subagentRunId'', ''messageId'', ''role'', ''delta'',
     ''name'', ''toolCallId'', ''toolCallName'', ''parentMessageId'']"

lemma end_event_carries: "k \<notin> set synthesized_fields \<Longrightarrow> field (end_event p) k = JUndef"
  "field (end_event p) ''delta'' = JUndef"
  by (cases p; simp add: synthesized_fields_def)+

lemma start_event_carries: "k \<notin> set synthesized_fields \<Longrightarrow> field (start_event kind c p) k = JUndef"
  "field (start_event kind c p) ''delta'' = JUndef"
  by (cases p; simp add: synthesized_fields_def start_event_def)+

lemma remainder_other:
  "k \<notin> set synthesized_fields \<Longrightarrow>
     oget (unrecognisedChunkProperties c kind) k = (if k = ''rawEvent'' then JUndef else field c k)"
  unfolding oget_remainder by (cases kind) (auto simp: synthesized_fields_def)

lemma content_event_carries:
  "k \<notin> set synthesized_fields \<Longrightarrow>
     field (content_event kind c (unrecognisedChunkProperties c kind) p) k = field c k"
  "field (content_event kind c (unrecognisedChunkProperties c kind) p) ''delta'' =
     (if field c ''delta'' = JUndef then JStr [] else field c ''delta'')"
proof -
  show "field (content_event kind c (unrecognisedChunkProperties c kind) p) k = field c k"
    if "k \<notin> set synthesized_fields"
    using that remainder_other [OF that, of c kind]
    by (cases kind) (auto simp: content_event_def oget_spread synthesized_fields_def)
  show "field (content_event kind c (unrecognisedChunkProperties c kind) p) ''delta'' =
     (if field c ''delta'' = JUndef then JStr [] else field c ''delta'')"
    by (cases kind) (simp_all add: content_event_def oget_spread)
qed

lemma bare_event_carries:
  "k \<notin> set synthesized_fields \<Longrightarrow> 
     field (bare_content_event kind c (unrecognisedChunkProperties c kind) p) k = field c k"
  "field (bare_content_event kind c (unrecognisedChunkProperties c kind) p) ''delta'' = JStr []"
proof -
  show "field (bare_content_event kind c (unrecognisedChunkProperties c kind) p) k = field c k"
    if "k \<notin> set synthesized_fields"
    using that remainder_other [OF that, of c kind]
    by (cases kind) (auto simp: bare_content_event_def oget_spread synthesized_fields_def)
  show "field (bare_content_event kind c (unrecognisedChunkProperties c kind) p) ''delta'' = JStr []"
    by (cases kind) (simp_all add: bare_content_event_def oget_spread)
qed

lemma closeLane_carries:
  "k \<notin> set synthesized_fields \<Longrightarrow> payload k (fst (closeLane j ls)) = []" "deltas (fst (closeLane j ls)) = []"
  by (auto simp: closeLane_events payload_def deltas_def end_event_carries split: option.splits)

lemma close_each_carries:
  assumes "k \<notin> set synthesized_fields"
  shows "payload k (fst (close_each ks ls)) = []" "deltas (fst (close_each ks ls)) = []"
proof -
  have "field e k = JUndef \<and> field e ''delta'' = JUndef" if "e \<in> set (fst (close_each ks ls))" for e
    using closeAll_types [OF that] end_event_carries assms by auto
  then show "payload k (fst (close_each ks ls)) = []" "deltas (fst (close_each ks ls)) = []"
    by (simp_all add: payload_def deltas_def filter_empty_conv)
qed


lemma start_event_not_own:
  assumes "k \<notin> set synthesized_fields \<or> k = ''delta'' \<or> k = ''timestamp''"
  shows "\<not> has_own (ev_props (start_event kind c (opened_stream kind c))) k"
  using assms
  by (cases kind) (auto simp: start_event_def withChunkMetadata_def synthesized_fields_def)

lemma carry_snoc:
  "carryRemainderOnOpener (es @ [e]) r False =
     es @ [if r = [] then e else e\<lparr>ev_props := spread r (ev_props e)\<rparr>]"
  by (simp add: carryRemainderOnOpener_def)

lemma ops_carry:
  assumes "assemble kind c lane ls = Inr (ls', p, ops)" "k \<notin> set synthesized_fields"
  shows "payload k ops = []" "deltas ops = []"
  using assms(1)
  by (cases rule: assemble_cases;
      auto simp: closeLane_carries assms(2) payload_def [of k "[_]"] deltas_def [of "[_]"] start_event_carries)+

lemma on_chunk_carries:
  assumes step: "on_chunk kind ls c = Inr (ls', os)" and k: "k \<notin> set synthesized_fields"
  shows "payload k os = payload k [c] \<and> deltas os = deltas [c]"
proof -
  let ?r = "unrecognisedChunkProperties c kind"
  from step obtain lane p ops where asm: "assemble kind c lane ls = Inr (ls', p, ops)"
    and os: "os = (if field c ''delta'' \<noteq> JUndef \<or> field c ''rawEvent'' \<noteq> JUndef
           then ops @ [content_event kind c ?r p]
           else if ops = [] \<and> (field c ''metadata'' \<noteq> JUndef \<or> tag_of c = JNull \<or> ?r \<noteq> [])
           then [bare_content_event kind c ?r p]
           else carryRemainderOnOpener ops ?r False)"
    by (rule on_chunk_cases)
  note ops = ops_carry [OF asm k]
  consider (content) "field c ''delta'' \<noteq> JUndef \<or> field c ''rawEvent'' \<noteq> JUndef"
    | (bare) "field c ''delta'' = JUndef" "field c ''rawEvent'' = JUndef"
        "ops = [] \<and> (field c ''metadata'' \<noteq> JUndef \<or> tag_of c = JNull \<or> ?r \<noteq> [])"
    | (carry) "field c ''delta'' = JUndef" "field c ''rawEvent'' = JUndef"
        "ops \<noteq> [] \<or> ?r = []" "os = carryRemainderOnOpener ops ?r False"
    using os by (auto split: if_splits)
  then show ?thesis
  proof cases
    case content
    with os ops show ?thesis
      by (simp add: payload_def [of k "[_]"] deltas_def [of "[_]"] content_event_carries k)
  next
    case bare
    with os ops show ?thesis
      by (simp add: payload_def [of k "[_]"] deltas_def [of "[_]"] bare_event_carries k)
  next
    case carry
    have r: "oget ?r k = field c k" using remainder_other [OF k, of c kind] carry(2) by simp
    have r': "oget ?r ''delta'' = JUndef" by (cases kind) (simp_all add: oget_remainder)
    show ?thesis
    proof (cases "ops = []")
      case True
      with carry r show ?thesis by (simp add: carryRemainderOnOpener_def payload_def deltas_def)
    next
      case False
      with asm have new: "ops = fst (closeLane lane ls) @ [start_event kind c (opened_stream kind c)]"
        by (cases rule: assemble_cases) auto
      from start_event_not_own [of k kind c] start_event_not_own [of "''delta''" kind c] k
      have "field (start_event kind c (opened_stream kind c)\<lparr>ev_props :=
          spread ?r (ev_props (start_event kind c (opened_stream kind c)))\<rparr>) k = field c k"
        "field (start_event kind c (opened_stream kind c)\<lparr>ev_props :=
          spread ?r (ev_props (start_event kind c (opened_stream kind c)))\<rparr>) ''delta'' = JUndef"
        by (simp_all add: oget_spread r r')
      with carry r k show ?thesis
        by (auto simp: new carry_snoc closeLane_carries payload_def [of k "[_]"] deltas_def [of "[_]"]
            start_event_carries)
    qed
  qed
qed

lemma chunk_step_carries:
  assumes "chunk_step ls ev = Inr (ls', os)" and k: "k \<notin> set synthesized_fields"
  shows "payload k os = payload k [ev] \<and> deltas os = deltas [ev]"
  using assms(1)
  by (cases rule: chunk_step_cases)
    (auto simp: closeLane_carries k closeAllLanes_def close_each_carries [OF k] dest: on_chunk_carries [OF _ k])

lemma run_carries:
  "run_stage chunk_step ls es = (os, Inr t) \<Longrightarrow> k \<notin> set synthesized_fields \<Longrightarrow>
     payload k os = payload k es \<and> deltas os = deltas es"
proof (induction es arbitrary: ls os)
  case (Cons e es)
  from Cons.prems(1) obtain s' os1 os2 where
    step: "chunk_step ls e = Inr (s', os1)" and rest: "run_stage chunk_step s' es = (os2, Inr t)"
    "os = os1 @ os2" by (rule run_stage_Cons_Inr)
  have "payload k (e # es) = payload k [e] @ payload k es" "deltas (e # es) = deltas [e] @ deltas es"
    by (simp_all add: payload_def deltas_def)
  with chunk_step_carries [OF step Cons.prems(2)] Cons.IH [OF rest(1) Cons.prems(2)] rest(2) show ?case
    by simp
qed simp

subsection \<open>Lanes do not disturb each other\<close>

lemma resolve_tagged:
  assumes "resolveLane kind i tag ls = Inr lane" "tag \<noteq> JUndef"
  shows "lane = tag"
  using assms by (auto simp: resolveLane_def split: if_splits option.splits)

lemma assemble_frame:
  "assemble kind c lane ls = Inr (ls', p, ops) \<Longrightarrow> k \<noteq> lane \<Longrightarrow> map_of ls' k = map_of ls k"
  by (cases rule: assemble_cases) (auto simp: js_simps)

lemma assemble_owner:
  assumes "assemble kind c lane ls = Inr (ls', p, ops)" "lanes_inv ls" "tag_of c = lane" "\<not> nullish lane"
  shows "list_all (\<lambda>e. tag_of e = lane) ops"
  using assms(1)
proof (cases rule: assemble_cases)
  case Open
  have "tag_of (end_event q) = pending_owner q" for q by (cases q) simp_all
  moreover have "pending_owner q = lane" if "map_of ls lane = Some q" for q
  proof -
    from assms(2) that have "lane = or_undef (pending_owner q)" by (simp add: lanes_inv_def)
    with assms(4) show ?thesis by (auto simp: or_undef_def split: if_splits)
  qed
  moreover have "tag_of (start_event kind c p) = tag_of c" using Open(2)
    by (cases kind) (simp_all add: start_event_def)
  ultimately show ?thesis using Open(4) assms(3) by (auto simp: closeLane_events split: option.splits)
qed simp

lemma synth_owner:
  assumes "tag_of c \<noteq> JUndef"
  shows "tag_of (content_event kind c r p) = tag_of c" "tag_of (bare_content_event kind c r p) = tag_of c"
  using assms by (cases kind; simp add: content_event_def bare_content_event_def oget_spread chunk_owner_def)+

lemma start_event_distinct: "distinct (map fst (ev_props (start_event kind c (opened_stream kind c))))"
  by (cases kind) (auto simp: start_event_def withChunkMetadata_def opt_prop_def intro!: distinct_oset)

text \<open>The remainder never shadows what the opener describes.\<close>

lemma carried_start_field:
  "field (start_event kind c (opened_stream kind c)\<lparr>ev_props :=
     spread r (ev_props (start_event kind c (opened_stream kind c)))\<rparr>) k =
   (if has_own (ev_props (start_event kind c (opened_stream kind c))) k
    then field (start_event kind c (opened_stream kind c)) k else oget r k)"
  by (simp add: oget_spread_distinct [OF start_event_distinct] field_def)

lemma start_event_own: "field (start_event kind c p) k \<noteq> JUndef \<Longrightarrow> has_own (ev_props (start_event kind c p)) k"
  using oget_not_own [of "ev_props (start_event kind c p)" k] by (auto simp: field_def)

lemma start_event_fields [simp]:
  "tag_of (start_event kind c (opened_stream kind c)) = tag_of c"
  "field (start_event kind c (opened_stream kind c)) (missingIdFieldName kind) = field c (missingIdFieldName kind)"
  by (cases kind; simp add: start_event_def)+

lemma carried_start_tag:
  assumes "tag_of c \<noteq> JUndef"
  shows "tag_of (start_event kind c (opened_stream kind c)\<lparr>ev_props :=
    spread r (ev_props (start_event kind c (opened_stream kind c)))\<rparr>) = tag_of c"
  using start_event_own [of kind c "opened_stream kind c" "''subagentRunId''"] assms
  unfolding carried_start_field by simp

text \<open>A chunk that names its owner touches that owner's lane only, and all it emits is the owner's.\<close>

lemma on_chunk_own_lane:
  assumes inv: "lanes_inv ls" and step: "on_chunk kind ls c = Inr (ls', os)" and tag: "\<not> nullish (tag_of c)"
  shows "list_all (\<lambda>e. tag_of e = tag_of c) os \<and> (\<forall>k. k \<noteq> tag_of c \<longrightarrow> map_of ls' k = map_of ls k)"
proof -
  let ?r = "unrecognisedChunkProperties c kind"
  from step obtain lane p ops where
    lane: "resolveLane kind (field c (missingIdFieldName kind)) (or_undef (tag_of c)) ls = Inr lane"
    and asm: "assemble kind c lane ls = Inr (ls', p, ops)"
    and os: "os = (if field c ''delta'' \<noteq> JUndef \<or> field c ''rawEvent'' \<noteq> JUndef
           then ops @ [content_event kind c ?r p]
           else if ops = [] \<and> (field c ''metadata'' \<noteq> JUndef \<or> tag_of c = JNull \<or> ?r \<noteq> [])
           then [bare_content_event kind c ?r p]
           else carryRemainderOnOpener ops ?r False)"
    by (rule on_chunk_cases)
  have tag': "tag_of c \<noteq> JUndef" "or_undef (tag_of c) = tag_of c" using tag by (auto simp: or_undef_def)
  have l: "lane = tag_of c" using resolve_tagged [OF lane] tag' by simp
  have ops: "list_all (\<lambda>e. tag_of e = tag_of c) ops"
    using assemble_owner [OF asm inv] l tag by simp
  have "list_all (\<lambda>e. tag_of e = tag_of c) (carryRemainderOnOpener ops ?r False)"
    using asm
  proof (cases rule: assemble_cases)
    case Open
    with ops carried_start_tag [OF tag'(1)] show ?thesis by (auto simp: carry_snoc)
  qed (simp add: carryRemainderOnOpener_def)
  with os ops have "list_all (\<lambda>e. tag_of e = tag_of c) os" using synth_owner [OF tag'(1)] by auto
  with assemble_frame [OF asm] l show ?thesis by blast
qed

subsection \<open>Metadata and timestamps\<close>

lemma end_event_bare: "field (end_event p) ''metadata'' = JUndef" "field (end_event p) ''timestamp'' = JUndef"
  by (cases p; simp)+

lemma synth_metadata:
  "field c ''metadata'' \<noteq> JUndef \<Longrightarrow> field (start_event kind c p) ''metadata'' = field c ''metadata''"
  "field c ''metadata'' \<noteq> JUndef \<Longrightarrow> field (content_event kind c r p) ''metadata'' = field c ''metadata''"
  "field c ''metadata'' \<noteq> JUndef \<Longrightarrow> field (bare_content_event kind c r p) ''metadata'' = field c ''metadata''"
  by (simp_all add: start_event_def content_event_def)
    (cases kind; simp add: bare_content_event_def oget_spread)

lemma synth_timestamp:
  "field (start_event kind c (opened_stream kind c)) ''timestamp'' = JUndef"
  "field (content_event kind c (unrecognisedChunkProperties c kind) p) ''timestamp'' = JUndef"
  "field (bare_content_event kind c (unrecognisedChunkProperties c kind) p) ''timestamp'' = JUndef"
  by (cases kind; simp add: start_event_def content_event_def bare_content_event_def oget_spread oget_remainder)+


lemma carried_start_metadata:
  assumes "field c ''metadata'' \<noteq> JUndef"
  shows "field (start_event kind c (opened_stream kind c)\<lparr>ev_props :=
    spread r (ev_props (start_event kind c (opened_stream kind c)))\<rparr>) ''metadata'' = field c ''metadata''"
  using start_event_own [of kind c "opened_stream kind c" "''metadata''"] synth_metadata(1) [OF assms] assms
  unfolding carried_start_field by simp

text \<open>A chunk expands into the end of the stream its lane had open, if it begins another, and its own
  events.\<close>

lemma on_chunk_expansion:
  assumes step: "on_chunk kind ls c = Inr (ls', os)"
  obtains closing own where "os = closing @ own" "closing = [] \<or> (\<exists>k q. map_of ls k = Some q \<and> closing = [end_event q])"
    "field c ''metadata'' \<noteq> JUndef \<Longrightarrow> own \<noteq> [] \<and> (\<forall>e \<in> set own. field e ''metadata'' = field c ''metadata'')"
    "\<forall>e \<in> set own. field e ''timestamp'' = JUndef"
proof -
  let ?r = "unrecognisedChunkProperties c kind"
  from step obtain lane p ops where asm: "assemble kind c lane ls = Inr (ls', p, ops)"
    and os: "os = (if field c ''delta'' \<noteq> JUndef \<or> field c ''rawEvent'' \<noteq> JUndef
           then ops @ [content_event kind c ?r p]
           else if ops = [] \<and> (field c ''metadata'' \<noteq> JUndef \<or> tag_of c = JNull \<or> ?r \<noteq> [])
           then [bare_content_event kind c ?r p]
           else carryRemainderOnOpener ops ?r False)"
    by (rule on_chunk_cases)
  from asm show thesis
  proof (cases rule: assemble_cases)
    case Continue
    with os show ?thesis
      by (intro that [of "[]" os]) (auto simp: synth_metadata synth_timestamp carryRemainderOnOpener_def)
  next
    case Open
    let ?start = "start_event kind c p"
    have closing: "fst (closeLane lane ls) = [] \<or>
        (\<exists>k q. map_of ls k = Some q \<and> fst (closeLane lane ls) = [end_event q])"
      by (auto simp: closeLane_events split: option.splits)
    have stamp: "field (?start\<lparr>ev_props := spread ?r (ev_props ?start)\<rparr>) ''timestamp'' = JUndef"
      unfolding Open(2) carried_start_field using start_event_not_own [of "''timestamp''" kind c]
      by (cases kind) (simp_all add: oget_remainder)
    have meta: "field (?start\<lparr>ev_props := spread ?r (ev_props ?start)\<rparr>) ''metadata'' = field c ''metadata''"
      if "field c ''metadata'' \<noteq> JUndef" using carried_start_metadata [OF that] Open(2) by simp
    show ?thesis
    proof (cases "field c ''delta'' \<noteq> JUndef \<or> field c ''rawEvent'' \<noteq> JUndef")
      case True
      with os Open closing show ?thesis
        by (intro that [of "fst (closeLane lane ls)" "[?start, content_event kind c ?r p]"])
          (auto simp: synth_metadata synth_timestamp)
    next
      case False
      with os Open closing stamp meta show ?thesis
        by (intro that [of "fst (closeLane lane ls)"
              "[if ?r = [] then ?start else ?start\<lparr>ev_props := spread ?r (ev_props ?start)\<rparr>]"])
          (auto simp: synth_metadata synth_timestamp carry_snoc)
    qed
  qed
qed

lemma chunk_step_kind: "kind_of_type (ev_type c) = Some kind \<Longrightarrow> chunk_step ls c = on_chunk kind ls c"
  by (cases "ev_type c")
    (auto simp: chunk_step_def closes_own_lane_def closes_all_lanes_def on_text_message_chunk_def
      on_tool_call_chunk_def on_reasoning_message_chunk_def)

lemma transformChunks_Inr:
  assumes "transformChunks es = (os, Inr t)"
  obtains ls where "run_stage chunk_step [] es = (os, Inr ls)" "t = []"
  using assms by (auto simp: transformChunks_def Let_def finalize_lanes_def map_sum_def split: prod.splits sum.splits)

subsection \<open>Theorems\<close>

text \<open>Two subagents streaming text at the same time, one of them continuing without an id.\<close>

definition demo_chunks :: "event list" where
  "demo_chunks =
     [mk_event TEXT_MESSAGE_CHUNK [(''messageId'', JStr ''a''), (''subagentRunId'', JStr ''s''), (''delta'', JStr ''x'')],
      mk_event TEXT_MESSAGE_CHUNK [(''messageId'', JStr ''b''), (''subagentRunId'', JStr ''t''), (''future'', JNum 1)],
      mk_event TEXT_MESSAGE_CHUNK [(''subagentRunId'', JStr ''s''), (''delta'', JStr ''y''), (''rawEvent'', JNum 2)],
      mk_event RUN_FINISHED []]"

lemma demo_chunks_ok: "\<exists>os ls. transformChunks demo_chunks = (os, Inr ls)"
proof -
  have "case snd (transformChunks demo_chunks) of Inr _ \<Rightarrow> True | Inl _ \<Rightarrow> False" by code_simp
  then show ?thesis by (cases "transformChunks demo_chunks") (auto split: sum.splits)
qed

text \<open>No chunk event leaves the expansion, whatever the stream and whether or not it fails.\<close>

theorem chunks_none_left: "list_all (\<lambda>ev. \<not> is_chunk_type (ev_type ev)) (fst (transformChunks es))"
  using expander.run_out [OF lanes_inv_Nil, of es] by (auto simp: transformChunks_def Let_def split: prod.split)

text \<open>A stream without chunks passes unchanged, event by event, and no event is synthesized.\<close>

theorem chunks_identity:
  assumes "list_all (\<lambda>ev. \<not> is_chunk_type (ev_type ev)) es"
  shows "transformChunks es = (es, Inr [])"
proof -
  have step: "chunk_step [] ev = Inr ([], [ev])" if "\<not> is_chunk_type (ev_type ev)" for ev
    using that by (cases "ev_type ev") (simp_all add: chunk_step_def closeLane_def closeAllLanes_def is_chunk_type_def)
  have "run_stage chunk_step [] es = (es, Inr [])"
    using assms by (induction es) (simp_all add: step)
  then show ?thesis by (simp add: transformChunks_def finalize_lanes_def)
qed

theorem chunks_identity_witness:
  "transformChunks [mk_event RUN_STARTED [], mk_event RUN_FINISHED []] =
     ([mk_event RUN_STARTED [], mk_event RUN_FINISHED []], Inr [])"
  using chunks_identity [of "[mk_event RUN_STARTED [], mk_event RUN_FINISHED []]"]
  by (simp add: is_chunk_type_def)

text \<open>
  C7. Nothing a producer sent is lost, duplicated or reordered: the non-empty deltas of the expanded
  stream are those of the input in order, and so are the values of \<^verbatim>\<open>rawEvent\<close> and of every
  property the chunk schemas and the synthesized events do not describe.
\<close>

theorem chunks_carry:
  assumes "transformChunks es = (os, Inr ls)" and "k \<notin> set synthesized_fields"
  shows "payload k os = payload k es \<and> deltas os = deltas es"
proof -
  from assms(1) obtain t where "run_stage chunk_step [] es = (os, Inr t)" by (rule transformChunks_Inr)
  then show ?thesis using assms(2) by (rule run_carries)
qed

theorem chunks_carry_witness:
  "\<exists>os ls. transformChunks demo_chunks = (os, Inr ls) \<and>
     payload ''future'' os = [JNum 1] \<and> deltas os = [JStr ''x'', JStr ''y'']"
proof -
  obtain os ls where acc: "transformChunks demo_chunks = (os, Inr ls)" using demo_chunks_ok by blast
  moreover have "payload ''future'' demo_chunks = [JNum 1]" "deltas demo_chunks = [JStr ''x'', JStr ''y'']"
    by code_simp+
  ultimately show ?thesis using chunks_carry [OF acc, of "''future''"] by (simp add: synthesized_fields_def)
qed

text \<open>
  C4. Lane discipline: at every point of a stream each lane assembles one stream, the lane is the owner
  its opener was tagged with, and no stream is assembled in two lanes.
\<close>

theorem chunks_lanes:
  assumes "run_stage chunk_step [] es = (os, Inr ls)"
  shows "lanes_inv ls"
  by (rule expander.run_inv [OF lanes_inv_Nil assms])

theorem chunks_lanes_witness:
  "\<exists>os ls. run_stage chunk_step [] (take 3 demo_chunks) = (os, Inr ls) \<and> lanes_inv ls"
proof -
  have "accepts chunk_step [] (take 3 demo_chunks)" by code_simp
  then obtain os ls where run: "run_stage chunk_step [] (take 3 demo_chunks) = (os, Inr ls)"
    unfolding accepts_iff by blast
  with chunks_lanes [OF run] show ?thesis by blast
qed

text \<open>
  Concurrent subagents do not disturb each other: a chunk tagged with a subagent leaves the stream
  every other lane is assembling as it was, and every event it expands into, also the end
  of the stream it replaces, carries that subagent's tag.
\<close>

theorem chunks_independent:
  assumes "run_stage chunk_step [] es = (os, Inr ls)"
    and "is_chunk_type (ev_type c)" "\<not> nullish (tag_of c)"
    and "chunk_step ls c = Inr (ls', out)"
  shows "list_all (\<lambda>e. tag_of e = tag_of c) out \<and> (\<forall>k. k \<noteq> tag_of c \<longrightarrow> map_of ls' k = map_of ls k)"
proof -
  have inv: "lanes_inv ls" by (rule expander.run_inv [OF lanes_inv_Nil assms(1)])
  obtain kind where "kind_of_type (ev_type c) = Some kind" using assms(2) kind_of_type_iff by blast
  with assms(4) have "on_chunk kind ls c = Inr (ls', out)" by (simp add: chunk_step_kind)
  from on_chunk_own_lane [OF inv this assms(3)] show ?thesis .
qed

theorem chunks_independent_witness:
  "\<exists>os ls ls' out. run_stage chunk_step [] (take 2 demo_chunks) = (os, Inr ls) \<and>
     chunk_step ls (demo_chunks ! 2) = Inr (ls', out) \<and> out \<noteq> [] \<and>
     list_all (\<lambda>e. tag_of e = JStr ''s'') out \<and> map_of ls' (JStr ''t'') = map_of ls (JStr ''t'')"
proof -
  have "case run_stage chunk_step [] (take 2 demo_chunks) of (_, Inr ls) \<Rightarrow>
      (case chunk_step ls (demo_chunks ! 2) of Inr (_, out) \<Rightarrow> out \<noteq> [] | Inl _ \<Rightarrow> False) | _ \<Rightarrow> False"
    by code_simp
  then obtain os ls ls' out where run: "run_stage chunk_step [] (take 2 demo_chunks) = (os, Inr ls)"
    and step: "chunk_step ls (demo_chunks ! 2) = Inr (ls', out)" "out \<noteq> []"
    by (auto split: prod.splits sum.splits)
  have "is_chunk_type (ev_type (demo_chunks ! 2))" "\<not> nullish (tag_of (demo_chunks ! 2))"
    "tag_of (demo_chunks ! 2) = JStr ''s''" by (simp_all add: demo_chunks_def is_chunk_type_def)
  with chunks_independent [OF run _ _ step(1)] run step show ?thesis by auto
qed

text \<open>
  A chunk's metadata reaches the message it belongs to and no other: when the chunk carries
  metadata it expands into at least one event of its own, all of them carry exactly that
  metadata, and the end of the stream it replaces carries none.
\<close>

theorem chunks_metadata:
  assumes "is_chunk_type (ev_type c)" "field c ''metadata'' \<noteq> JUndef" "chunk_step ls c = Inr (ls', out)"
  shows "\<exists>closing own. out = closing @ own \<and> own \<noteq> [] \<and>
    (\<forall>e \<in> set closing. \<exists>p. e = end_event p \<and> field e ''metadata'' = JUndef) \<and>
    (\<forall>e \<in> set own. field e ''metadata'' = field c ''metadata'')"
proof -
  obtain kind where "kind_of_type (ev_type c) = Some kind" using assms(1) kind_of_type_iff by blast
  with assms(3) have "on_chunk kind ls c = Inr (ls', out)" by (simp add: chunk_step_kind)
  then obtain closing own where "out = closing @ own"
    "closing = [] \<or> (\<exists>k q. map_of ls k = Some q \<and> closing = [end_event q])"
    "own \<noteq> [] \<and> (\<forall>e \<in> set own. field e ''metadata'' = field c ''metadata'')"
    by (rule on_chunk_expansion) (use assms(2) in blast)
  then show ?thesis
    by (intro exI [of _ closing] exI [of _ own]) (auto simp: end_event_bare)
qed

theorem chunks_metadata_witness:
  "\<exists>ls' out closing own. chunk_step [] (mk_event TEXT_MESSAGE_CHUNK [(''messageId'', JStr ''a''), (''metadata'', JObj [])])
       = Inr (ls', out) \<and> out = closing @ own \<and> own \<noteq> [] \<and> (\<forall>e \<in> set own. field e ''metadata'' = JObj [])"
proof -
  let ?c = "mk_event TEXT_MESSAGE_CHUNK [(''messageId'', JStr ''a''), (''metadata'', JObj [])]"
  have "case chunk_step [] ?c of Inr _ \<Rightarrow> True | Inl _ \<Rightarrow> False" by code_simp
  then obtain ls' out where step: "chunk_step [] ?c = Inr (ls', out)" by (auto split: sum.splits)
  show ?thesis
    using chunks_metadata [OF _ _ step] step by (auto simp: is_chunk_type_def)
qed

text \<open>
  A chunk that opens nothing cannot be placed: when no lane assembles a stream of the chunk's kind and the
  chunk carries no id, the stream fails naming the missing field.
\<close>

theorem chunks_first_needs_id:
  assumes "kind_of_type (ev_type c) = Some kind" "field c (missingIdFieldName kind) = JUndef"
    and "\<forall>(k, p) \<in> set ls. pending_kind p \<noteq> kind"
  shows "chunk_step ls c = Inl (FirstChunkMissing kind (missingIdFieldName kind))"
proof -
  have other: "map_of ls k = Some p \<Longrightarrow> pending_kind p \<noteq> kind" for k p
    using assms(3) by (auto dest!: map_of_SomeD)
  have none: "filter (\<lambda>(_, p). pending_kind p = kind) ls = []" using assms(3) by (auto simp: filter_empty_conv)
  have "\<exists>lane. resolveLane kind (field c (missingIdFieldName kind)) (or_undef (tag_of c)) ls = Inr lane"
    by (simp add: resolveLane_def assms(2) none)
  then obtain lane where
    "resolveLane kind (field c (missingIdFieldName kind)) (or_undef (tag_of c)) ls = Inr lane" by blast
  moreover have "assemble kind c lane ls = Inl (FirstChunkMissing kind (missingIdFieldName kind))" for lane
    using assms(2) other [of lane] by (cases kind)
      (auto simp: assemble_def Let_def continues_def split: option.splits prod.splits)
  ultimately show ?thesis by (simp add: chunk_step_kind [OF assms(1)] on_chunk_def)
qed

theorem chunks_first_needs_id_witness:
  "chunk_step [] (mk_event TOOL_CALL_CHUNK [(''delta'', JStr ''x'')]) = Inl (FirstChunkMissing KTool ''toolCallId'')"
  using chunks_first_needs_id [of "mk_event TOOL_CALL_CHUNK [(''delta'', JStr ''x'')]" KTool "[]"] by simp

text \<open>
  The timestamp of a chunk is dropped: it is a described field, so it is not part of the
  remainder, and no event the chunk expands into carries it.
\<close>

theorem chunks_timestamp_dropped:
  assumes "is_chunk_type (ev_type c)" "chunk_step ls c = Inr (ls', out)"
  shows "\<forall>e \<in> set out. field e ''timestamp'' = JUndef"
proof -
  obtain kind where "kind_of_type (ev_type c) = Some kind" using assms(1) kind_of_type_iff by blast
  with assms(2) have "on_chunk kind ls c = Inr (ls', out)" by (simp add: chunk_step_kind)
  then show ?thesis by (rule on_chunk_expansion) (auto simp: end_event_bare)
qed

theorem chunks_timestamp_dropped_witness:
  "\<exists>ls' out. chunk_step [] (mk_event TEXT_MESSAGE_CHUNK [(''messageId'', JStr ''a''), (''timestamp'', JNum 5)])
       = Inr (ls', out) \<and> out \<noteq> [] \<and> (\<forall>e \<in> set out. field e ''timestamp'' = JUndef)"
proof -
  let ?c = "mk_event TEXT_MESSAGE_CHUNK [(''messageId'', JStr ''a''), (''timestamp'', JNum 5)]"
  have "case chunk_step [] ?c of Inr (_, out) \<Rightarrow> out \<noteq> [] | Inl _ \<Rightarrow> False" by code_simp
  then obtain ls' out where step: "chunk_step [] ?c = Inr (ls', out)" "out \<noteq> []" by (auto split: sum.splits)
  with chunks_timestamp_dropped [OF _ step(1)] show ?thesis by (auto simp: is_chunk_type_def)
qed

end
