(* ===== verification/ToolResultsProps.thy ===== *)
theory ToolResultsProps
  imports ToolResults
begin

text \<open>
  Properties of \<open>keepToolResultsWithCalls\<close>: the invariants of its three passes, and that the repaired history is
  a permutation that only moves tool results, each one to a message that issued its call.
\<close>

subsection \<open>Bookkeeping\<close>

lemma map_of_map_append:
  "map_of (map_append k v m) j =
     (if j = k then Some ((case map_of m k of Some l \<Rightarrow> l | None \<Rightarrow> []) @ [v]) else map_of m j)"
  by (auto simp: map_append_def js_simps map_add_def split: option.splits)

lemma distinct_map_append: "distinct (map fst m) \<Longrightarrow> distinct (map fst (map_append k v m))"
  by (auto simp: map_append_def distinct_update map_of_eq_None_iff split: option.splits)

lemma mset_update_concat:
  "distinct (map fst m) \<Longrightarrow> map_of m k = Some l \<Longrightarrow>
     mset (concat (map snd (AList.update k (l @ [v]) m))) = mset (concat (map snd m)) + {#v#}"
  by (induction m) auto

lemma mset_map_append:
  "distinct (map fst m) \<Longrightarrow>
     mset (concat (map snd (map_append k v m))) = mset (concat (map snd m)) + {#v#}"
  by (auto simp: map_append_def mset_update_concat split: option.splits)

text \<open>A property of every value filed under its key.\<close>

definition filed :: "('k \<Rightarrow> 'v \<Rightarrow> bool) \<Rightarrow> ('k \<times> 'v list) list \<Rightarrow> bool" where
  "filed P m \<longleftrightarrow> distinct (map fst m) \<and>
     (\<forall>k l. map_of m k = Some l \<longrightarrow> l \<noteq> [] \<and> (\<forall>x \<in> set l. P k x))"

lemma filed_Nil [simp]: "filed P []"
  by (simp add: filed_def)

lemma filed_append: "filed P m \<Longrightarrow> P k v \<Longrightarrow> filed P (map_append k v m)"
  by (auto simp: filed_def map_of_map_append distinct_map_append split: option.splits)

lemma filed_mono: "filed P m \<Longrightarrow> (\<And>k x. P k x \<Longrightarrow> Q k x) \<Longrightarrow> filed Q m"
  by (auto simp: filed_def)

lemma filed_in: "filed P m \<Longrightarrow> (k, l) \<in> set m \<Longrightarrow> x \<in> set l \<Longrightarrow> P k x"
  by (auto simp: filed_def dest: map_of_is_SomeI)

lemma filed_concat: "filed P m \<Longrightarrow> x \<in> set (concat (map snd m)) \<Longrightarrow> \<exists>k. P k x"
  by (auto dest: filed_in)

lemma filed_mset: "filed P m \<Longrightarrow> mset (concat (map snd (map_append k v m))) = mset (concat (map snd m)) + {#v#}"
  by (simp add: mset_map_append filed_def)

definition issuers :: "pass_state \<Rightarrow> string \<Rightarrow> nat list" where
  "issuers st i = map fst (slots_of st i)"

lemma issuers_answer [simp]: "issuers (answer i s st) j = issuers st j"
proof (cases "s < length (slots_of st i)")
  case True
  then have "map fst ((slots_of st i)[s := (fst (slots_of st i ! s), True)]) = map fst (slots_of st i)"
    by (simp add: map_update list_update_same_conv)
  then show ?thesis by (auto simp: issuers_def slots_of_def answer_def js_simps)
qed (simp add: issuers_def slots_of_def answer_def js_simps list_update_beyond)

lemma issuers_open: "issuers (open_slot index i st) j = issuers st j @ (if j = i then [index] else [])"
  by (auto simp: issuers_def slots_of_def open_slot_def map_of_map_append split: option.splits)

lemma answer_fields [simp]:
  "detached (answer i s st) = detached st" "early (answer i s st) = early st" "anchor (answer i s st) = anchor st"
  by (simp_all add: answer_def)

lemma open_slot_fields [simp]:
  "detached (open_slot x i st) = detached st" "early (open_slot x i st) = early st"
  by (simp_all add: open_slot_def)

subsection \<open>What the first pass records\<close>

definition is_result :: "jsval list \<Rightarrow> string \<Rightarrow> nat \<Rightarrow> bool" where
  "is_result ms i x \<longleftrightarrow> x < length ms \<and> roleOf (ms ! x) = JStr ''tool'' \<and> jget (ms ! x) ''toolCallId'' = JStr i"

definition is_issuer :: "jsval list \<Rightarrow> string \<Rightarrow> nat \<Rightarrow> bool" where
  "is_issuer ms i x \<longleftrightarrow> x < length ms \<and> separates (ms ! x) \<and> i \<in> set (issuedCallIds (ms ! x))"

definition pass_inv :: "jsval list \<Rightarrow> nat \<Rightarrow> pass_state \<Rightarrow> bool" where
  "pass_inv ms n st \<longleftrightarrow>
     (\<forall>i x. x \<in> set (issuers st i) \<longrightarrow> is_issuer ms i x) \<and>
     filed (\<lambda>i x. is_result ms i x \<and> x < n) (detached st) \<and>
     filed (\<lambda>i x. is_result ms i x \<and> x < n) (early st) \<and>
     distinct (concat (map snd (detached st)) @ concat (map snd (early st)))"

lemma pass_inv_Suc: "pass_inv ms n st \<Longrightarrow> pass_inv ms (Suc n) st"
  unfolding pass_inv_def by (auto elim!: filed_mono)

lemma distinct_snoc_mset: "mset xs = mset ys + {#v#} \<Longrightarrow> distinct ys \<Longrightarrow> v \<notin> set ys \<Longrightarrow> distinct xs"
  by (metis add_mset_add_single distinct.simps(2) mset.simps(2) mset_eq_imp_distinct_iff)

lemma issuers_cong: "slots st' = slots st \<Longrightarrow> issuers st' = issuers st"
  by (simp add: issuers_def slots_of_def fun_eq_iff)

lemma pass_inv_record:
  assumes inv: "pass_inv ms n st" and new: "is_result ms i n"
  shows "pass_inv ms (Suc n) (st\<lparr>early := map_append i n (early st)\<rparr>)"
    "pass_inv ms (Suc n) (st\<lparr>detached := map_append i n (detached st)\<rparr>)"
proof -
  let ?d = "detached st" and ?e = "early st" and ?P = "\<lambda>i x. is_result ms i x \<and> x < Suc n"
  have old: "filed (\<lambda>i x. is_result ms i x \<and> x < n) ?d" "filed (\<lambda>i x. is_result ms i x \<and> x < n) ?e"
    and all: "distinct (concat (map snd ?d) @ concat (map snd ?e))"
    using inv by (simp_all add: pass_inv_def)
  have suc: "filed ?P ?d" "filed ?P ?e" using old by (auto elim!: filed_mono)
  have fresh: "n \<notin> set (concat (map snd ?d) @ concat (map snd ?e))"
    using filed_concat [OF old(1), of n] filed_concat [OF old(2), of n] by auto
  have "distinct (concat (map snd ?d) @ concat (map snd (map_append i n ?e)))"
    "distinct (concat (map snd (map_append i n ?d)) @ concat (map snd ?e))"
    by (rule distinct_snoc_mset [OF _ all fresh]; simp add: filed_mset [OF old(1)] filed_mset [OF old(2)])+
  moreover have "filed ?P (map_append i n ?d)" "filed ?P (map_append i n ?e)"
    using suc new by (auto intro: filed_append)
  moreover have "issuers (st\<lparr>early := e\<rparr>) = issuers st" "issuers (st\<lparr>detached := e\<rparr>) = issuers st" for e
    by (auto intro: issuers_cong)
  ultimately show "pass_inv ms (Suc n) (st\<lparr>early := map_append i n (early st)\<rparr>)"
    "pass_inv ms (Suc n) (st\<lparr>detached := map_append i n (detached st)\<rparr>)"
    using inv suc unfolding pass_inv_def by simp_all
qed

lemma pass_inv_answer: "pass_inv ms n st \<Longrightarrow> pass_inv ms n (answer i s st)"
  by (simp add: pass_inv_def)

lemma pass_inv_open:
  "pass_inv ms n st \<Longrightarrow> (\<forall>i \<in> set ids. is_issuer ms i x) \<Longrightarrow>
     pass_inv ms n (foldl (\<lambda>st i. open_slot x i st) st ids)"
proof (induction ids arbitrary: st)
  case (Cons i ids)
  have "is_issuer ms j y" if "y \<in> set (issuers (open_slot x i st) j)" for j y
  proof -
    from that have "y \<in> set (issuers st j) \<or> j = i \<and> y = x" by (cases "j = i") (auto simp: issuers_open)
    then show ?thesis using Cons.prems unfolding pass_inv_def by auto
  qed
  then have "pass_inv ms n (open_slot x i st)"
    using Cons.prems(1) unfolding pass_inv_def open_slot_fields by blast
  then show ?case using Cons.IH Cons.prems(2) by simp
qed simp

lemma pass_entry_inv:
  assumes inv: "pass_inv ms n st" and n: "n < length ms"
  shows "pass_inv ms (Suc n) (pass_entry n (ms ! n) st)"
proof (cases "roleOf (ms ! n) = JStr ''tool''")
  case True
  show ?thesis
  proof (cases "jget (ms ! n) ''toolCallId''")
    case (JStr i)
    with True n have "is_result ms i n" by (simp add: is_result_def)
    with pass_inv_record [OF inv this] inv JStr True show ?thesis
      by (auto simp: pass_entry_def place_result_def intro: pass_inv_Suc pass_inv_answer split: option.splits)
  qed (use inv in \<open>simp_all add: pass_entry_def pass_inv_Suc True\<close>)
next
  case False
  have "pass_inv ms (Suc n) (st\<lparr>anchor := int n\<rparr>)"
    using pass_inv_Suc [OF inv] issuers_cong [of "st\<lparr>anchor := int n\<rparr>" st] by (simp add: pass_inv_def)
  moreover have "is_issuer ms i n"
    if "is_object (ms ! n)" "roleOf (ms ! n) \<noteq> JStr ''activity''" "roleOf (ms ! n) \<noteq> JStr ''reasoning''"
      "i \<in> set (issuedCallIds (ms ! n))" for i
    using that False n by (simp add: is_issuer_def separates_def)
  ultimately show ?thesis
    using False pass_inv_Suc [OF inv] by (auto simp: pass_entry_def intro: pass_inv_open)
qed

lemma first_pass_inv:
  "pass_inv ms n st \<Longrightarrow> n + length rest = length ms \<Longrightarrow> rest = drop n ms \<Longrightarrow>
     pass_inv ms (length ms) (first_pass n rest st)"
proof (induction n rest st rule: first_pass.induct)
  case (2 n m rest st)
  have n: "n < length ms" using "2.prems"(2) by simp
  with Cons_nth_drop_Suc [OF n] "2.prems"(3) have eq: "m = ms ! n" "rest = drop (Suc n) ms"
    by (metis list.inject)+
  show ?case
    using "2.IH" [OF _ _ eq(2)] pass_entry_inv [OF "2.prems"(1) n] eq(1) "2.prems"(2) by simp
qed simp


subsection \<open>The moves\<close>

definition moves_inv :: "jsval list \<Rightarrow> moves \<Rightarrow> bool" where
  "moves_inv ms mv \<longleftrightarrow>
     (\<forall>i x. x \<in> set (issuers (mv_pass mv) i) \<longrightarrow> is_issuer ms i x) \<and>
     filed (\<lambda>issuer x. \<exists>i. is_issuer ms i issuer \<and> is_result ms i x) (owedTo mv) \<and>
     mset (concat (map snd (owedTo mv))) = mset (moved mv) \<and> distinct (moved mv)"

lemma move_pass: "issuers (mv_pass (move i x s mv)) = issuers (mv_pass mv)"
  "moved (move i x s mv) = moved mv @ [x]" "detached (mv_pass (move i x s mv)) = detached (mv_pass mv)"
  "early (mv_pass (move i x s mv)) = early (mv_pass mv)"
  by (auto simp: move_def)

lemma move_inv:
  assumes inv: "moves_inv ms mv" and res: "is_result ms i x" "x \<notin> set (moved mv)"
    and s: "s < length (issuers (mv_pass mv) i)"
  shows "moves_inv ms (move i x s mv)"
proof -
  let ?P = "\<lambda>issuer x. \<exists>i. is_issuer ms i issuer \<and> is_result ms i x"
  let ?iss = "fst (slots_of (mv_pass mv) i ! s)"
  have old: "filed ?P (owedTo mv)" "mset (concat (map snd (owedTo mv))) = mset (moved mv)" "distinct (moved mv)"
    using inv by (simp_all add: moves_inv_def)
  have "?iss \<in> set (issuers (mv_pass mv) i)" using s by (simp add: issuers_def)
  then have "is_issuer ms i ?iss" using inv by (simp add: moves_inv_def)
  then have "filed ?P (map_append ?iss x (owedTo mv))" using old(1) res(1) by (intro filed_append) blast+
  moreover have "mset (concat (map snd (map_append ?iss x (owedTo mv)))) = mset (moved mv @ [x])"
    using filed_mset [OF old(1)] old(2) by simp
  ultimately show ?thesis
    using inv old(3) res(2) unfolding moves_inv_def by (simp add: move_pass) (simp add: move_def)
qed

lemma seek_le: "seek sl x c \<le> c"
  by (induction sl x c rule: seek.induct) (auto intro: le_SucI)

lemma move_back_inv:
  "moves_inv ms mv \<Longrightarrow> distinct results \<Longrightarrow> set results \<inter> set (moved mv) = {} \<Longrightarrow>
   (\<forall>x \<in> set results. is_result ms i x) \<Longrightarrow> cursor \<le> length (issuers (mv_pass mv) i) \<Longrightarrow>
     moves_inv ms (move_back i results cursor mv) \<and>
     set (moved (move_back i results cursor mv)) \<subseteq> set (moved mv) \<union> set results \<and>
     issuers (mv_pass (move_back i results cursor mv)) = issuers (mv_pass mv) \<and>
     early (mv_pass (move_back i results cursor mv)) = early (mv_pass mv)"
proof (induction i results cursor mv rule: move_back.induct)
  case (2 i x results cursor mv)
  show ?case
  proof (cases "seek (slots_of (mv_pass mv) i) x cursor")
    case (Suc s)
    then have "s < length (issuers (mv_pass mv) i)"
      using seek_le [of "slots_of (mv_pass mv) i" x cursor] "2.prems"(5) by simp
    then have "moves_inv ms (move i x s mv)" using "2.prems" by (intro move_inv) auto
    with "2.IH" [OF Suc] "2.prems" \<open>s < _\<close> show ?thesis
      by (auto simp: Suc move_pass)
  qed (use "2.prems" in auto)
qed simp

lemma move_all_back_inv:
  assumes "moves_inv ms mv" "distinct (concat (map snd work))" "set (concat (map snd work)) \<inter> set (moved mv) = {}"
    and "\<And>i l x. (i, l) \<in> set work \<Longrightarrow> x \<in> set l \<Longrightarrow> is_result ms i x"
  shows "let mv' = foldl (\<lambda>mv (i, results). move_back i (rev results) (length (slots_of (mv_pass mv) i)) mv) mv work
    in moves_inv ms mv' \<and> set (moved mv') \<subseteq> set (moved mv) \<union> set (concat (map snd work)) \<and>
      early (mv_pass mv') = early (mv_pass mv)"
  using assms
proof (induction work arbitrary: mv)
  case (Cons w work)
  obtain i l where w: "w = (i, l)" by (cases w)
  let ?mv = "move_back i (rev l) (length (slots_of (mv_pass mv) i)) mv"
  have step: "moves_inv ms ?mv" "set (moved ?mv) \<subseteq> set (moved mv) \<union> set l" "early (mv_pass ?mv) = early (mv_pass mv)"
    using move_back_inv [OF Cons.prems(1), of "rev l" i "length (slots_of (mv_pass mv) i)"] Cons.prems(2-4)
    by (auto simp: w issuers_def)
  then have "set (concat (map snd work)) \<inter> set (moved ?mv) = {}"
    using Cons.prems(2,3) unfolding w by auto
  with Cons.IH [OF step(1)] Cons.prems(2,4) step show ?case by (fastforce simp: w Let_def)
qed simp

lemma move_forward_inv:
  assumes "moves_inv ms mv" "\<And>x. x \<in> set l \<Longrightarrow> is_result ms i x" "l \<noteq> []" "set l \<inter> set (moved mv) = {}"
  shows "moves_inv ms (move_forward mv (i, l)) \<and> set (moved (move_forward mv (i, l))) \<subseteq> set (moved mv) \<union> set l"
proof -
  have hd: "hd l \<in> set l" "hd l \<notin> set (moved mv)" using assms(3,4) hd_in_set by blast+
  have "moves_inv ms (move i (hd l) 0 mv)" if "slots_of (mv_pass mv) i = [sl]" for sl
    using assms(1,2) that hd by (intro move_inv) (simp_all add: issuers_def)
  then show ?thesis using assms by (auto simp: move_forward_def move_pass split: list.splits)
qed

lemma move_all_forward_inv:
  assumes "moves_inv ms mv" "distinct (concat (map snd work))" "set (concat (map snd work)) \<inter> set (moved mv) = {}"
    and "\<And>i l x. (i, l) \<in> set work \<Longrightarrow> x \<in> set l \<Longrightarrow> is_result ms i x"
    and "\<And>i l. (i, l) \<in> set work \<Longrightarrow> l \<noteq> []"
  shows "moves_inv ms (foldl move_forward mv work)"
  using assms
proof (induction work arbitrary: mv)
  case (Cons w work)
  obtain i l where w: "w = (i, l)" by (cases w)
  have step: "moves_inv ms (move_forward mv w) \<and> set (moved (move_forward mv w)) \<subseteq> set (moved mv) \<union> set l"
    unfolding w using Cons.prems(1,3) Cons.prems(4,5) [of i l] w by (intro move_forward_inv) auto
  moreover have "set (concat (map snd work)) \<inter> set (moved (move_forward mv w)) = {}"
    using step Cons.prems(2,3) unfolding w by auto
  moreover have "distinct (concat (map snd work))" using Cons.prems(2) by simp
  ultimately have "moves_inv ms (foldl move_forward (move_forward mv w) work)"
    using Cons.prems(4,5) by (intro Cons.IH) (blast intro: list.set_intros)+
  then show ?case by simp
qed simp


subsection \<open>Rebuilding\<close>

definition opt_list :: "'a list option \<Rightarrow> 'a list" where
  "opt_list xs = (case xs of Some l \<Rightarrow> l | None \<Rightarrow> [])"

lemma opt_list_simps [simp]: "opt_list None = []" "opt_list (Some l) = l"
  by (simp_all add: opt_list_def)

lemma flush_mset: "mset (flush ms rep owed) = mset rep + mset (opt_list owed)"
proof (cases owed)
  case (Some l)
  have "mset rep = mset (take a rep) + mset (drop a rep)" for a
    by (metis append_take_drop_id mset_append)
  with Some show ?thesis by (simp add: flush_def Let_def)
qed (simp add: flush_def)

lemma rebuild_mset:
  "(\<forall>k \<in> set idxs. map_of owes k \<noteq> None \<longrightarrow> k \<notin> set gone \<and> separates (ms ! k)) \<Longrightarrow>
     mset (rebuild ms owes gone idxs rep owed) =
       mset rep + mset (opt_list owed) + mset (filter (\<lambda>x. x \<notin> set gone) idxs) +
       mset (concat (map (\<lambda>k. opt_list (map_of owes k)) idxs))"
proof (induction idxs arbitrary: rep owed)
  case (Cons x idxs)
  show ?case
  proof (cases "x \<in> set gone")
    case True
    with Cons.prems have "map_of owes x = None" by auto
    with True Cons show ?thesis by simp
  next
    case False
    with Cons show ?thesis
      by (cases "map_of owes x") (auto simp: flush_mset)
  qed
qed (simp add: flush_mset)

lemma concat_owes:
  assumes "distinct xs" "distinct (map fst m)" "set (map fst m) \<subseteq> set xs"
  shows "mset (concat (map (\<lambda>k. opt_list (map_of m k)) xs)) = mset (concat (map snd m))"
proof -
  have conv: "mset (concat yss) = sum_list (map mset yss)" for yss :: "'b list list"
    by (induction yss) auto
  have "mset (concat (map (\<lambda>k. opt_list (map_of m k)) xs)) = (\<Sum>k \<in> set xs. mset (opt_list (map_of m k)))"
    using assms(1) by (simp add: conv comp_def sum_list_distinct_conv_sum_set)
  also have "\<dots> = (\<Sum>k \<in> set (map fst m). mset (opt_list (map_of m k)))"
  proof (rule sum.mono_neutral_right)
    have "opt_list (map_of m k) = []" if "k \<notin> set (map fst m)" for k
      using that by (metis map_of_eq_None_iff opt_list_simps(1) list.set_map)
    then show "\<forall>k \<in> set xs - set (map fst m). mset (opt_list (map_of m k)) = {#}" by simp
  qed (use assms(3) in simp_all)
  also have "\<dots> = sum_list (map (\<lambda>k. mset (opt_list (map_of m k))) (map fst m))"
    using assms(2) by (simp only: sum_list_distinct_conv_sum_set)
  also have "\<dots> = sum_list (map (mset \<circ> snd) m)"
    using assms(2) by (intro arg_cong [of _ _ sum_list]) (auto simp: map_of_is_SomeI)
  finally show ?thesis by (simp add: conv comp_def)
qed

text \<open>The entries that stay keep their order.\<close>

lemma flush_filter:
  "set (opt_list owed) \<subseteq> set gone \<Longrightarrow>
     filter (\<lambda>x. x \<notin> set gone) (flush ms rep owed) = filter (\<lambda>x. x \<notin> set gone) rep"
proof (cases owed)
  case (Some l)
  assume "set (opt_list owed) \<subseteq> set gone"
  with Some have "filter (\<lambda>x. x \<notin> set gone) l = []" by (auto simp: filter_empty_conv)
  moreover have "filter P rep = filter P (take a rep) @ filter P (drop a rep)" for P a
    by (metis append_take_drop_id filter_append)
  ultimately show ?thesis using Some by (simp add: flush_def Let_def)
qed (simp add: flush_def)

lemma rebuild_filter:
  "(\<forall>k l. map_of owes k = Some l \<longrightarrow> set l \<subseteq> set gone) \<Longrightarrow> set (opt_list owed) \<subseteq> set gone \<Longrightarrow>
     filter (\<lambda>x. x \<notin> set gone) (rebuild ms owes gone idxs rep owed) =
       filter (\<lambda>x. x \<notin> set gone) (rep @ idxs)"
proof (induction idxs arbitrary: rep owed)
  case (Cons x idxs)
  then show ?case by (cases "map_of owes x") (auto simp: flush_filter)
qed (simp add: flush_filter)

text \<open>A moved result sits behind its issuer: the last entry before it that separates is the message it is owed to.\<close>

definition anchor_of :: "jsval list \<Rightarrow> nat list \<Rightarrow> nat option" where
  "anchor_of ms pre = (case filter (\<lambda>x. separates (ms ! x)) (rev pre) of [] \<Rightarrow> None | k # _ \<Rightarrow> Some k)"

lemma anchor_snoc: "anchor_of ms (pre @ [x]) = (if separates (ms ! x) then Some x else anchor_of ms pre)"
  by (simp add: anchor_of_def)

lemma anchor_transparent:
  "\<forall>x \<in> set post. \<not> separates (ms ! x) \<Longrightarrow> anchor_of ms (pre @ post) = anchor_of ms pre"
proof -
  assume "\<forall>x \<in> set post. \<not> separates (ms ! x)"
  then have "filter (\<lambda>x. separates (ms ! x)) (rev post) = []" by (simp add: filter_empty_conv)
  then show ?thesis by (simp add: anchor_of_def)
qed

definition placed :: "jsval list \<Rightarrow> (nat \<times> nat list) list \<Rightarrow> nat list \<Rightarrow> nat list \<Rightarrow> bool" where
  "placed ms owes gone ord \<longleftrightarrow> (\<forall>pre x post. ord = pre @ x # post \<and> x \<in> set gone \<longrightarrow>
     (\<exists>k l. anchor_of ms pre = Some k \<and> map_of owes k = Some l \<and> x \<in> set l))"

lemma placed_snoc: "placed ms owes gone ord \<Longrightarrow> x \<notin> set gone \<Longrightarrow> placed ms owes gone (ord @ [x])"
  unfolding placed_def
proof (intro allI impI)
  fix pre y post
  assume old: "\<forall>pre x post. ord = pre @ x # post \<and> x \<in> set gone \<longrightarrow>
      (\<exists>k l. anchor_of ms pre = Some k \<and> map_of owes k = Some l \<and> x \<in> set l)"
    and x: "x \<notin> set gone" and eq: "ord @ [x] = pre @ y # post \<and> y \<in> set gone"
  with x have "post \<noteq> []" by auto
  then obtain post' where "post = post' @ [x]" using eq by (metis append_butlast_last_id last_ConsR last_appendR last_snoc list.distinct(1))
  with eq old show "\<exists>k l. anchor_of ms pre = Some k \<and> map_of owes k = Some l \<and> y \<in> set l" by auto
qed

lemma placed_append:
  assumes "placed ms owes gone ord"
    and "\<And>p x q. ext = p @ x # q \<Longrightarrow> x \<in> set gone \<Longrightarrow>
          \<exists>k l. anchor_of ms (ord @ p) = Some k \<and> map_of owes k = Some l \<and> x \<in> set l"
  shows "placed ms owes gone (ord @ ext)"
  unfolding placed_def
proof (intro allI impI)
  fix pre x post
  assume eq: "ord @ ext = pre @ x # post \<and> x \<in> set gone"
  then consider (left) us where "ord = pre @ x # us" | (right) p where "pre = ord @ p" "ext = p @ x # post"
    by (auto simp: append_eq_append_conv2 Cons_eq_append_conv append_eq_Cons_conv)
  then show "\<exists>k l. anchor_of ms pre = Some k \<and> map_of owes k = Some l \<and> x \<in> set l"
  proof cases
    case left
    with assms(1) eq show ?thesis unfolding placed_def by blast
  next
    case right
    with assms(2) eq show ?thesis by blast
  qed
qed

lemma placed_take: "placed ms owes gone ord \<Longrightarrow> placed ms owes gone (take a ord)"
  unfolding placed_def by (metis append.assoc append_Cons append_take_drop_id)


definition transparent :: "jsval \<Rightarrow> bool" where
  "transparent v \<longleftrightarrow> \<not> (is_object v \<and> roleOf v \<noteq> JStr ''activity'' \<and> roleOf v \<noteq> JStr ''reasoning'')"

lemma flush_at_transparent:
  "c \<le> a \<Longrightarrow> a \<le> length rep \<Longrightarrow> (\<forall>j. c \<le> j \<and> j < length rep \<longrightarrow> transparent (ms ! (rep ! j))) \<Longrightarrow>
     \<forall>j. flush_at ms rep c a \<le> j \<and> j < length rep \<longrightarrow> transparent (ms ! (rep ! j))"
proof (induction ms rep c a rule: flush_at.induct)
  case (2 ms rep c a)
  let ?e = "ms ! (rep ! c)"
  show ?case
  proof (cases "transparent ?e")
    case True
    then have "\<forall>j. c \<le> j \<and> j < length rep \<longrightarrow> transparent (ms ! (rep ! j))"
      using "2.prems"(3) by (auto simp: le_Suc_eq) (metis Suc_leI le_neq_implies_less)
    moreover have "\<not> (is_object ?e \<and> roleOf ?e \<noteq> JStr ''activity'' \<and> roleOf ?e \<noteq> JStr ''reasoning'')"
      using True by (simp add: transparent_def)
    moreover have "c \<le> (if roleOf ?e = JStr ''reasoning'' then c else a)"
      "(if roleOf ?e = JStr ''reasoning'' then c else a) \<le> length rep" using "2.prems"(1,2) by simp_all
    ultimately show ?thesis using "2.IH" [OF refl refl] by (auto simp: Let_def)
  next
    case False
    then have "is_object ?e \<and> roleOf ?e \<noteq> JStr ''activity'' \<and> roleOf ?e \<noteq> JStr ''reasoning''"
      by (simp add: transparent_def)
    then have "flush_at ms rep (Suc c) a = a" by (simp add: Let_def)
    with "2.prems" show ?thesis by auto
  qed
qed auto

lemma transparent_drop:
  "\<forall>x \<in> set (drop (flush_at ms rep (length rep) (length rep)) rep). transparent (ms ! x)"
proof
  fix x assume "x \<in> set (drop (flush_at ms rep (length rep) (length rep)) rep)"
  then obtain j where j: "j < length rep - flush_at ms rep (length rep) (length rep)"
    "x = rep ! (flush_at ms rep (length rep) (length rep) + j)"
    by (auto simp: in_set_conv_nth)
  have "\<forall>j. flush_at ms rep (length rep) (length rep) \<le> j \<and> j < length rep \<longrightarrow> transparent (ms ! (rep ! j))"
    by (rule flush_at_transparent) auto
  with j show "transparent (ms ! x)" by simp
qed

lemma flush_placed:
  assumes pl: "placed ms owes gone rep" and tool: "\<forall>x \<in> set gone. roleOf (ms ! x) = JStr ''tool''"
    and owed: "\<And>l. owed = Some l \<Longrightarrow> \<exists>k. anchor_of ms rep = Some k \<and> map_of owes k = Some l"
    and gone: "\<And>k l. map_of owes k = Some l \<Longrightarrow> set l \<subseteq> set gone"
  shows "placed ms owes gone (flush ms rep owed)"
proof (cases owed)
  case (Some l)
  let ?a = "flush_at ms rep (length rep) (length rep)"
  obtain k where k: "anchor_of ms rep = Some k" "map_of owes k = Some l" using owed [OF Some] by blast
  have tools: "\<not> separates (ms ! x)" "\<not> transparent (ms ! x)" if "x \<in> set gone" for x
    using tool that by (auto simp: separates_def transparent_def roleOf_def split: if_splits)
  have "\<not> separates v" if "transparent v" for v using that by (auto simp: separates_def transparent_def)
  then have "anchor_of ms (take ?a rep @ drop ?a rep) = anchor_of ms (take ?a rep)"
    using transparent_drop by (intro anchor_transparent) blast
  then have anchor: "anchor_of ms (take ?a rep) = Some k" using k(1) by simp
  have "placed ms owes gone (take ?a rep @ l)"
  proof (rule placed_append [OF placed_take [OF pl]])
    fix p x q assume "l = p @ x # q" "x \<in> set gone"
    moreover from this gone [OF k(2)] have "\<forall>y \<in> set p. \<not> separates (ms ! y)" using tools(1) by auto
    ultimately show "\<exists>k l. anchor_of ms (take ?a rep @ p) = Some k \<and> map_of owes k = Some l \<and> x \<in> set l"
      using anchor k(2) by (auto simp: anchor_transparent)
  qed
  then have "placed ms owes gone ((take ?a rep @ l) @ drop ?a rep)"
  proof (rule placed_append)
    fix p x q assume "drop ?a rep = p @ x # q" "x \<in> set gone"
    then show "\<exists>k la. anchor_of ms ((take ?a rep @ l) @ p) = Some k \<and> map_of owes k = Some la \<and> x \<in> set la"
      using transparent_drop [of ms rep] tools(2) by auto
  qed
  with Some show ?thesis by (simp add: flush_def Let_def)
qed (simp add: flush_def pl)

lemma rebuild_placed:
  assumes "\<forall>x \<in> set gone. roleOf (ms ! x) = JStr ''tool''" "\<And>k l. map_of owes k = Some l \<Longrightarrow> set l \<subseteq> set gone"
  shows "placed ms owes gone rep \<Longrightarrow>
    (\<forall>l. owed = Some l \<longrightarrow> (\<exists>k. anchor_of ms rep = Some k \<and> map_of owes k = Some l)) \<Longrightarrow>
    (\<forall>k \<in> set idxs. map_of owes k \<noteq> None \<longrightarrow> separates (ms ! k)) \<Longrightarrow>
    placed ms owes gone (rebuild ms owes gone idxs rep owed)"
proof (induction idxs arbitrary: rep owed)
  case Nil
  with assms show ?case by (simp add: flush_placed)
next
  case (Cons x idxs)
  show ?case
  proof (cases "x \<in> set gone")
    case False
    have fl: "placed ms owes gone (flush ms rep owed)" using Cons.prems assms by (intro flush_placed) auto
    show ?thesis
    proof (cases "separates (ms ! x)")
      case True
      with False Cons.prems fl show ?thesis
        by (auto simp: Let_def anchor_snoc intro!: Cons.IH placed_snoc split: option.splits)
    next
      case nosep: False
      with Cons.prems(3) have "map_of owes x = None" by auto
      with nosep False Cons.prems show ?thesis
        by (auto simp: Let_def anchor_snoc intro!: Cons.IH placed_snoc)
    qed
  qed (use Cons in simp)
qed


subsection \<open>The whole pass\<close>

definition final_moves :: "jsval list \<Rightarrow> moves" where
  "final_moves ms = move_all_forward
     (move_all_back \<lparr>mv_pass = first_pass 0 ms init_pass, owedTo = [], moved = []\<rparr>)"

lemma repair_order_eq:
  "repair_order ms = (if owedTo (final_moves ms) = [] then [0..<length ms]
     else rebuild ms (sort_owed (owedTo (final_moves ms))) (moved (final_moves ms)) [0..<length ms] [] None)"
  by (simp add: repair_order_def final_moves_def Let_def)

lemma final_moves_inv: "moves_inv ms (final_moves ms)"
proof -
  let ?pass = "first_pass 0 ms init_pass" and ?mv0 = "\<lparr>mv_pass = first_pass 0 ms init_pass, owedTo = [], moved = []\<rparr>"
  have "pass_inv ms 0 init_pass" by (simp add: pass_inv_def init_pass_def issuers_def slots_of_def)
  then have inv: "pass_inv ms (length ms) ?pass" by (intro first_pass_inv) auto
  then have d: "filed (\<lambda>i x. is_result ms i x \<and> x < length ms) (detached ?pass)"
    and e: "filed (\<lambda>i x. is_result ms i x \<and> x < length ms) (early ?pass)"
    and dist: "distinct (concat (map snd (detached ?pass)) @ concat (map snd (early ?pass)))"
    by (simp_all add: pass_inv_def)
  have init: "moves_inv ms ?mv0" using inv by (simp add: moves_inv_def pass_inv_def)
  have bk: "moves_inv ms (move_all_back ?mv0)"
    "set (moved (move_all_back ?mv0)) \<subseteq> set (concat (map snd (detached ?pass)))"
    "early (mv_pass (move_all_back ?mv0)) = early ?pass"
    using move_all_back_inv [OF init, of "detached ?pass"] dist filed_in [OF d]
    by (simp_all add: move_all_back_def Let_def)
  show ?thesis
    unfolding final_moves_def move_all_forward_def bk(3)
  proof (rule move_all_forward_inv [OF bk(1)])
    show "distinct (concat (map snd (early ?pass)))" using dist by simp
    show "set (concat (map snd (early ?pass))) \<inter> set (moved (move_all_back ?mv0)) = {}"
      using dist bk(2) by auto
    show "is_result ms i x" if "(i, l) \<in> set (early ?pass)" "x \<in> set l" for i l x
      using filed_in [OF e that] by simp
    show "l \<noteq> []" if "(i, l) \<in> set (early ?pass)" for i l
      using e that by (auto simp: filed_def dest: map_of_is_SomeI)
  qed
qed

lemma sort_owed_map: "map_of (sort_owed m) k = map_option sort (map_of m k)"
  by (induction m) (auto simp: sort_owed_def)

lemma sort_owed_keys: "map fst (sort_owed m) = map fst m"
  by (induction m) (auto simp: sort_owed_def)

lemma sort_owed_mset: "mset (concat (map snd (sort_owed m))) = mset (concat (map snd m))"
  by (induction m) (auto simp: sort_owed_def)

lemma owed_facts:
  assumes "map_of (sort_owed (owedTo (final_moves ms))) k = Some l"
  shows "k < length ms" "separates (ms ! k)" "k \<notin> set (moved (final_moves ms))" "set l \<subseteq> set (moved (final_moves ms))"
    "\<forall>x \<in> set l. \<exists>i. is_issuer ms i k \<and> is_result ms i x"
proof -
  let ?mv = "final_moves ms"
  obtain l0 where l0: "map_of (owedTo ?mv) k = Some l0" "l = sort l0" using assms by (auto simp: sort_owed_map)
  have f: "filed (\<lambda>issuer x. \<exists>i. is_issuer ms i issuer \<and> is_result ms i x) (owedTo ?mv)"
    and ms: "mset (concat (map snd (owedTo ?mv))) = mset (moved ?mv)"
    using final_moves_inv [of ms] by (simp_all add: moves_inv_def)
  show res: "\<forall>x \<in> set l. \<exists>i. is_issuer ms i k \<and> is_result ms i x"
    using f l0 by (auto simp: filed_def)
  have "l0 \<noteq> []" using f l0(1) unfolding filed_def by blast
  then have "l \<noteq> []" using l0(2) by (metis set_empty set_sort)
  with res show k: "k < length ms" "separates (ms ! k)" by (cases l; auto simp: is_issuer_def)+
  have sets: "set (concat (map snd (owedTo ?mv))) = set (moved ?mv)" using ms by (metis set_mset_mset)
  moreover have "(k, l0) \<in> set (owedTo ?mv)" using l0(1) by (rule map_of_SomeD)
  ultimately show "set l \<subseteq> set (moved ?mv)" using l0(2) by force
  show "k \<notin> set (moved ?mv)"
  proof
    assume "k \<in> set (moved ?mv)"
    with sets filed_concat [OF f, of k] obtain i where "is_result ms i k" by auto
    with k(2) show False by (auto simp: is_result_def separates_def)
  qed
qed

lemma moved_result: "x \<in> set (moved (final_moves ms)) \<Longrightarrow> x < length ms \<and> roleOf (ms ! x) = JStr ''tool''"
proof -
  assume "x \<in> set (moved (final_moves ms))"
  moreover have "filed (\<lambda>issuer x. \<exists>i. is_issuer ms i issuer \<and> is_result ms i x) (owedTo (final_moves ms))"
    "mset (concat (map snd (owedTo (final_moves ms)))) = mset (moved (final_moves ms))"
    using final_moves_inv [of ms] by (simp_all add: moves_inv_def)
  then have f: "filed (\<lambda>issuer x. \<exists>i. is_issuer ms i issuer \<and> is_result ms i x) (owedTo (final_moves ms))"
    and "set (concat (map snd (owedTo (final_moves ms)))) = set (moved (final_moves ms))"
    using mset_eq_setD by blast+
  ultimately have "x \<in> set (concat (map snd (owedTo (final_moves ms))))" by simp
  from filed_concat [OF f this] obtain i where "is_result ms i x" by blast
  then show ?thesis by (simp add: is_result_def)
qed

lemma mset_filter_split: "mset (filter P xs) + mset (filter (\<lambda>x. \<not> P x) xs) = mset xs"
  by (induction xs) auto

lemma repair_order_perm: "mset (repair_order ms) = mset [0..<length ms]"
proof (cases "owedTo (final_moves ms) = []")
  case False
  let ?mv = "final_moves ms"
  let ?owes = "sort_owed (owedTo ?mv)"
  have inv: "mset (concat (map snd (owedTo ?mv))) = mset (moved ?mv)" "distinct (moved ?mv)"
    "distinct (map fst (owedTo ?mv))"
    using final_moves_inv [of ms] by (simp_all add: moves_inv_def filed_def)
  have keys: "set (map fst ?owes) \<subseteq> set [0..<length ms]"
  proof
    fix k assume "k \<in> set (map fst ?owes)"
    then obtain l where "map_of ?owes k = Some l" by (metis list.set_map map_of_eq_None_iff not_None_eq)
    from owed_facts(1) [OF this] show "k \<in> set [0..<length ms]" by simp
  qed
  have "mset (rebuild ms ?owes (moved ?mv) [0..<length ms] [] None) =
      mset (filter (\<lambda>x. x \<notin> set (moved ?mv)) [0..<length ms]) + mset (concat (map snd ?owes))"
    using owed_facts keys inv(3)
    by (subst rebuild_mset) (auto simp: concat_owes sort_owed_keys)
  also have "mset (concat (map snd ?owes)) = mset (moved ?mv)" by (simp add: sort_owed_mset inv(1))
  also have "mset (moved ?mv) = mset (filter (\<lambda>x. x \<in> set (moved ?mv)) [0..<length ms])"
    using inv(2) moved_result [of _ ms] by (intro set_eq_iff_mset_eq_distinct [THEN iffD1]) auto
  finally show ?thesis using False
    using mset_filter_split [of "\<lambda>x. x \<in> set (moved ?mv)" "[0..<length ms]"]
    by (simp add: repair_order_eq add.commute)
qed (simp add: repair_order_eq)

lemma repair_order_stays:
  "filter (\<lambda>x. x \<notin> set (moved (final_moves ms))) (repair_order ms) =
   filter (\<lambda>x. x \<notin> set (moved (final_moves ms))) [0..<length ms]"
  using owed_facts(4) by (simp add: repair_order_eq rebuild_filter)

lemma repair_order_placed:
  "placed ms (sort_owed (owedTo (final_moves ms))) (moved (final_moves ms)) (repair_order ms)"
proof (cases "owedTo (final_moves ms) = []")
  case True
  then have "moved (final_moves ms) = []" using final_moves_inv [of ms] by (simp add: moves_inv_def)
  then show ?thesis by (simp add: placed_def)
next
  case False
  then show ?thesis
    unfolding repair_order_eq if_not_P [OF False]
  proof (intro rebuild_placed)
    show "placed ms (sort_owed (owedTo (final_moves ms))) (moved (final_moves ms)) []" by (simp add: placed_def)
  qed (auto simp: moved_result owed_facts dest: owed_facts(4))
qed

subsection \<open>A call and its only result\<close>

text \<open>What the first pass knows of one call id.\<close>

definition view :: "string \<Rightarrow> pass_state \<Rightarrow> slot list option \<times> int \<times> nat list option \<times> nat list option" where
  "view i st = (map_of (slots st) i, unanswered_of st i, map_of (detached st) i, map_of (early st) i)"

lemma view_answer: "j \<noteq> i \<Longrightarrow> view i (answer j s st) = view i st"
  by (simp add: view_def answer_def unanswered_of_def js_simps)

lemma view_open: "j \<noteq> i \<Longrightarrow> view i (open_slot x j st) = view i st"
  by (simp add: view_def open_slot_def unanswered_of_def js_simps map_of_map_append)

lemma view_place: "j \<noteq> i \<Longrightarrow> view i (place_result x j st) = view i st"
  by (auto simp: place_result_def view_answer view_def [of i "_\<lparr>early := _\<rparr>"] view_def [of i "_\<lparr>detached := _\<rparr>"]
      view_def [of i st] unanswered_of_def map_of_map_append split: option.splits)

lemma view_open_all:
  "view i (foldl (\<lambda>st j. open_slot x j st) st ids) =
     (if count_list ids i = 0 then view i st
      else (Some (opt_list (map_of (slots st) i) @ replicate (count_list ids i) (x, False)),
            unanswered_of st i + int (count_list ids i), map_of (detached st) i, map_of (early st) i))"
proof (induction ids arbitrary: st)
  case (Cons j ids)
  show ?case
  proof (cases "j = i")
    case True
    have "view i (open_slot x i st) = (Some (opt_list (map_of (slots st) i) @ [(x, False)]), unanswered_of st i + 1,
        map_of (detached st) i, map_of (early st) i)"
      by (simp add: view_def open_slot_def unanswered_of_def js_simps map_of_map_append opt_list_def)
    then show ?thesis using Cons [of "open_slot x i st"] True
      by (auto simp: view_def replicate_app_Cons_same)
  next
    case False
    then show ?thesis using Cons [of "open_slot x j st"] view_open [OF False, of x st] by (auto simp: view_def)
  qed
qed simp

lemma anchor_pass:
  "anchor (pass_entry x m st) = (if separates m then int x else anchor st)"
proof -
  have "anchor (foldl (\<lambda>st j. open_slot x j st) st ids) = anchor st" for st ids
    by (induction ids arbitrary: st) (simp_all add: open_slot_def)
  moreover have "anchor (place_result x j st) = anchor st" for j
    by (simp add: place_result_def split: option.split)
  ultimately show ?thesis by (auto simp: pass_entry_def separates_def split: jsval.splits)
qed

lemma view_other:
  assumes "\<not> (roleOf m = JStr ''tool'' \<and> jget m ''toolCallId'' = JStr i)" "i \<notin> set (issuedCallIds m)"
  shows "view i (pass_entry x m st) = view i st"
proof -
  have "view i (st\<lparr>anchor := a\<rparr>) = view i st" for a by (simp add: view_def unanswered_of_def)
  moreover have "count_list (issuedCallIds m) i = 0" using assms(2) by (simp add: count_list_0_iff)
  ultimately show ?thesis
    using assms(1) by (auto simp: pass_entry_def view_open_all view_place split: jsval.splits)
qed

text \<open>One issuer, one slot and one result.\<close>

definition sole_pair :: "jsval list \<Rightarrow> string \<Rightarrow> nat \<Rightarrow> nat \<Rightarrow> bool" where
  "sole_pair ms i k t \<longleftrightarrow> k < length ms \<and> t < length ms \<and> count_list (issuedCallIds (ms ! k)) i = 1 \<and>
     roleOf (ms ! t) = JStr ''tool'' \<and> jget (ms ! t) ''toolCallId'' = JStr i \<and>
     (\<forall>j < length ms. i \<in> set (issuedCallIds (ms ! j)) \<longrightarrow> j = k) \<and>
     (\<forall>j < length ms. roleOf (ms ! j) = JStr ''tool'' \<and> jget (ms ! j) ''toolCallId'' = JStr i \<longrightarrow> j = t)"

definition int_anchor :: "jsval list \<Rightarrow> nat \<Rightarrow> int" where
  "int_anchor ms n = (case anchor_of ms [0..<n] of Some k \<Rightarrow> int k | None \<Rightarrow> -1)"

lemma int_anchor_Suc: "int_anchor ms (Suc n) = (if separates (ms ! n) then int n else int_anchor ms n)"
  by (simp add: int_anchor_def anchor_snoc)

definition pair_view :: "jsval list \<Rightarrow> nat \<Rightarrow> nat \<Rightarrow> nat \<Rightarrow> slot list option \<times> int \<times> nat list option \<times> nat list option" where
  "pair_view ms k t n =
     (if n \<le> k then (None, 0, None, if t < n then Some [t] else None)
      else if t < k then (Some [(k, False)], 1, None, Some [t])
      else if n \<le> t then (Some [(k, False)], 1, None, None)
      else if int_anchor ms t = int k then (Some [(k, True)], 0, None, None)
      else (Some [(k, False)], 1, Some [t], None))"

lemma issuing: "i \<in> set (issuedCallIds m) \<Longrightarrow> separates m"
  by (auto simp: issuedCallIds_def separates_def roleOf_def split: if_splits)

lemma sole_pair_facts:
  assumes pair: "sole_pair ms i k t"
  shows "k \<noteq> t" "separates (ms ! k)" "is_object (ms ! t)" "is_object (ms ! k)"
proof -
  have "i \<in> set (issuedCallIds (ms ! k))" using pair
    unfolding sole_pair_def by (metis count_list_0_iff zero_neq_one)
  then show "separates (ms ! k)" "is_object (ms ! k)" using issuing by (auto simp: separates_def)
  moreover show "is_object (ms ! t)" using pair by (auto simp: sole_pair_def roleOf_def split: if_splits)
  ultimately show "k \<noteq> t" using pair by (auto simp: sole_pair_def separates_def)
qed

lemma pair_step:
  assumes pair: "sole_pair ms i k t" and n: "n < length ms"
    and v: "view i st = pair_view ms k t n" "anchor st = int_anchor ms n"
  shows "view i (pass_entry n (ms ! n) st) = pair_view ms k t (Suc n)"
proof -
  note kt = sole_pair_facts [OF pair]
  consider "n = k" | "n = t" | (other) "n \<noteq> k" "n \<noteq> t" by blast
  then show ?thesis
  proof cases
    case 1
    have none: "map_of (slots st) i = None" "unanswered_of st i = 0" "map_of (detached st) i = None"
      "map_of (early st) i = (if t < k then Some [t] else None)"
      using v(1) 1 by (auto simp: view_def pair_view_def)
    have "view i (pass_entry k (ms ! k) st) =
        (Some [(k, False)], 1, None, if t < k then Some [t] else None)"
      using kt pair none by (simp add: pass_entry_def separates_def sole_pair_def view_open_all unanswered_of_def)
    then show ?thesis using 1 kt(1) by (auto simp: pair_view_def)
  next
    case 2
    have ent: "pass_entry t (ms ! t) st = place_result t i st"
      using pair kt by (simp add: pass_entry_def sole_pair_def)
    show ?thesis
    proof (cases "t < k")
      case True
      then have "map_of (slots st) i = None" "unanswered_of st i = 0" "map_of (detached st) i = None" "map_of (early st) i = None"
        using v(1) 2 by (auto simp: view_def pair_view_def)
      then show ?thesis using True 2 ent
        by (simp add: place_result_def view_def unanswered_of_def map_of_map_append pair_view_def)
    next
      case False
      with kt(1) have "k < t" by simp
      then have sl: "map_of (slots st) i = Some [(k, False)]" "unanswered_of st i = 1" "map_of (detached st) i = None"
        "map_of (early st) i = None"
        using v(1) 2 by (auto simp: view_def pair_view_def)
      show ?thesis
      proof (cases "int_anchor ms t = int k")
        case True
        with sl v(2) 2 ent \<open>k < t\<close> show ?thesis
          by (simp add: place_result_def view_def answer_def slots_of_def unanswered_of_def js_simps pair_view_def)
      next
        case False
        with sl v(2) 2 ent \<open>k < t\<close> show ?thesis
          by (auto simp: place_result_def view_def unanswered_of_def map_of_map_append pair_view_def)
      qed
    qed
  next
    case other
    have "view i (pass_entry n (ms ! n) st) = view i st"
      using pair n other by (intro view_other) (auto simp: sole_pair_def)
    then show ?thesis using v(1) other by (auto simp: pair_view_def)
  qed
qed

lemma pair_pass:
  "sole_pair ms i k t \<Longrightarrow> view i st = pair_view ms k t n \<Longrightarrow> anchor st = int_anchor ms n \<Longrightarrow>
   n + length rest = length ms \<Longrightarrow> rest = drop n ms \<Longrightarrow>
     view i (first_pass n rest st) = pair_view ms k t (length ms)"
proof (induction n rest st rule: first_pass.induct)
  case (2 n m rest st)
  have n: "n < length ms" using "2.prems"(4) by simp
  have eq: "m = ms ! n" "rest = drop (Suc n) ms"
    using Cons_nth_drop_Suc [OF n] "2.prems"(5) by (metis list.inject)+
  have "anchor (pass_entry n (ms ! n) st) = int_anchor ms (Suc n)"
    using "2.prems"(3) by (simp add: anchor_pass int_anchor_Suc)
  moreover have "Suc n + length rest = length ms" using "2.prems"(4) by simp
  ultimately show ?case
    unfolding first_pass.simps
    using "2.IH" "2.prems"(1) pair_step [OF "2.prems"(1) n "2.prems"(2,3)] eq by metis
qed simp

lemma slots_of_answer: "j \<noteq> i \<Longrightarrow> slots_of (answer j s st) i = slots_of st i"
  by (simp add: slots_of_def answer_def js_simps)

definition keeps :: "string \<Rightarrow> moves \<Rightarrow> moves \<Rightarrow> bool" where
  "keeps i mv mv' \<longleftrightarrow> slots_of (mv_pass mv') i = slots_of (mv_pass mv) i \<and> set (moved mv) \<subseteq> set (moved mv')"

lemma keeps_move: "j \<noteq> i \<Longrightarrow> keeps i mv (move j x s mv)"
  by (auto simp: keeps_def move_def slots_of_answer)

lemma keeps_trans: "keeps i a b \<Longrightarrow> keeps i b c \<Longrightarrow> keeps i a c"
  by (auto simp: keeps_def)

lemma keeps_refl [simp]: "keeps i a a"
  by (simp add: keeps_def)

lemma keeps_back: "j \<noteq> i \<Longrightarrow> keeps i mv (move_back j rs c mv)"
  by (induction j rs c mv rule: move_back.induct) (auto split: nat.splits intro: keeps_trans keeps_move)

lemma keeps_forward: "j \<noteq> i \<Longrightarrow> keeps i mv (move_forward mv (j, rs))"
  by (auto simp: move_forward_def split: list.splits intro: keeps_move)

lemma keeps_fold:
  "(\<And>mv j rs. j \<noteq> i \<Longrightarrow> keeps i mv (f mv (j, rs))) \<Longrightarrow> i \<notin> fst ` set work \<Longrightarrow> keeps i mv (foldl f mv work)"
proof (induction work arbitrary: mv)
  case (Cons w work)
  obtain j rs where w: "w = (j, rs)" by (cases w)
  with Cons.prems have "keeps i mv (f mv w)" by auto
  moreover have "keeps i (f mv w) (foldl f (f mv w) work)" using Cons by auto
  ultimately show ?case by (auto intro: keeps_trans)
qed simp

lemma moved_mono:
  "set (moved mv) \<subseteq> set (moved (move_back j rs c mv))" "set (moved mv) \<subseteq> set (moved (move_forward mv (j, rs)))"
proof -
  show "set (moved mv) \<subseteq> set (moved (move_back j rs c mv))"
    by (induction j rs c mv rule: move_back.induct) (auto split: nat.splits simp: move_def)
  show "set (moved mv) \<subseteq> set (moved (move_forward mv (j, rs)))"
    by (auto simp: move_forward_def move_def split: list.splits)
qed

lemma fold_moved_mono:
  "(\<And>mv w. set (moved mv) \<subseteq> set (moved (f mv w))) \<Longrightarrow> set (moved mv) \<subseteq> set (moved (foldl f mv work))"
  by (induction work arbitrary: mv) (auto, blast)

text \<open>A fold that moves the result when it comes to its id has moved it at the end.\<close>

lemma fold_moves:
  assumes f: "\<And>mv j rs. j \<noteq> i \<Longrightarrow> keeps i mv (f mv (j, rs))" "\<And>mv w. set (moved mv) \<subseteq> set (moved (f mv w))"
    and work: "map_of work i = Some rs" "distinct (map fst work)"
    and at_i: "\<And>mv'. keeps i mv mv' \<Longrightarrow> x \<in> set (moved (f mv' (i, rs)))"
  shows "x \<in> set (moved (foldl f mv work))"
proof -
  obtain w1 w2 where w: "work = w1 @ (i, rs) # w2" using work(1) by (meson map_of_SomeD split_list)
  with work(2) have "i \<notin> fst ` set w1" by auto
  then have "keeps i mv (foldl f mv w1)" using f(1) by (rule keeps_fold [rotated])
  then have "x \<in> set (moved (f (foldl f mv w1) (i, rs)))" by (rule at_i)
  moreover have "set (moved a) \<subseteq> set (moved (foldl f a w2))" for a
    by (rule fold_moved_mono) (rule f(2))
  ultimately show ?thesis by (auto simp: w)
qed

lemma sole_pair_moved:
  assumes pair: "sole_pair ms i k t"
  shows "t \<in> set (moved (final_moves ms)) \<or> anchor_of ms [0..<t] = Some k"
proof -
  let ?pass = "first_pass 0 ms init_pass"
  let ?mv0 = "\<lparr>mv_pass = ?pass, owedTo = [], moved = []\<rparr>"
  let ?mv1 = "move_all_back ?mv0"
  have "view i init_pass = pair_view ms k t 0" "anchor init_pass = int_anchor ms 0"
    by (simp_all add: view_def pair_view_def init_pass_def unanswered_of_def int_anchor_def anchor_of_def)
  then have v: "view i ?pass = pair_view ms k t (length ms)" using pair by (intro pair_pass) auto
  have len: "k < length ms" "t < length ms" using pair by (simp_all add: sole_pair_def)
  have inv: "pass_inv ms (length ms) ?pass"
    by (intro first_pass_inv) (simp_all add: pass_inv_def init_pass_def issuers_def slots_of_def)
  then have dist: "distinct (map fst (detached ?pass))" "distinct (map fst (early ?pass))"
    by (simp_all add: pass_inv_def filed_def)
  let ?f = "\<lambda>mv (i, results). move_back i (rev results) (length (slots_of (mv_pass mv) i)) mv"
  have mono: "set (moved mv) \<subseteq> set (moved (?f mv w))" "set (moved mv) \<subseteq> set (moved (move_forward mv w))" for mv w
    by (cases w; simp add: moved_mono)+
  have keep: "keeps i mv (?f mv (j, rs))" if "j \<noteq> i" for mv j rs using keeps_back [OF that] by simp
  have early1: "early (mv_pass ?mv1) = early ?pass"
    using move_all_back_inv [of ms ?mv0 "detached ?pass"] inv
    by (auto simp: move_all_back_def Let_def pass_inv_def moves_inv_def dest: filed_in)
  have final: "final_moves ms = foldl move_forward ?mv1 (early ?pass)"
    by (simp add: final_moves_def move_all_forward_def early1)
  have slot: "slots_of ?pass i = [(k, False)]" if "t < k \<or> int_anchor ms t \<noteq> int k"
    using v that len by (auto simp: view_def pair_view_def slots_of_def split: if_splits)
  consider (ahead) "t < k" | (there) "\<not> t < k" "int_anchor ms t = int k"
    | (drifted) "\<not> t < k" "int_anchor ms t \<noteq> int k" by blast
  then show ?thesis
  proof cases
    case there
    then show ?thesis by (auto simp: int_anchor_def split: option.splits)
  next
    case ahead
    then have e: "map_of (early ?pass) i = Some [t]" "map_of (detached ?pass) i = None"
      using v len by (auto simp: view_def pair_view_def)
    then have "i \<notin> fst ` set (detached ?pass)" by (simp add: map_of_eq_None_iff)
    then have "keeps i ?mv0 ?mv1" using keep by (auto simp: move_all_back_def intro!: keeps_fold)
    then have s1: "slots_of (mv_pass ?mv1) i = [(k, False)]" using slot ahead by (simp add: keeps_def)
    have "t \<in> set (moved (foldl move_forward ?mv1 (early ?pass)))"
    proof (rule fold_moves [where i = i, OF _ _ e(1) dist(2)])
      show "t \<in> set (moved (move_forward mv' (i, [t])))" if "keeps i ?mv1 mv'" for mv'
        using that s1 by (simp add: keeps_def move_forward_def move_def)
    qed (rule keeps_forward mono(2); assumption?)+
    then show ?thesis by (simp add: final)
  next
    case drifted
    have d: "map_of (detached ?pass) i = Some [t]" "k < t"
    proof -
      have "k \<noteq> t" by (rule sole_pair_facts [OF pair])
      then show "k < t" using drifted by simp
      then show "map_of (detached ?pass) i = Some [t]" using v len drifted by (auto simp: view_def pair_view_def)
    qed
    have "t \<in> set (moved (foldl ?f ?mv0 (detached ?pass)))"
    proof (rule fold_moves [where i = i, OF _ _ d(1) dist(1)])
      show "t \<in> set (moved (?f mv' (i, [t])))" if "keeps i ?mv0 mv'" for mv'
        using that slot drifted d(2) by (simp add: keeps_def move_def)
    qed (rule keep mono(1); assumption?)+
    then have "t \<in> set (moved ?mv1)" by (simp add: move_all_back_def)
    then show ?thesis using fold_moved_mono [of move_forward ?mv1 "early ?pass"] mono(2) by (auto simp: final)
  qed
qed

lemma anchor_filter:
  assumes "\<forall>x \<in> gone. \<not> separates (ms ! x)"
  shows "anchor_of ms (filter (\<lambda>x. x \<notin> gone) xs) = anchor_of ms xs"
proof -
  have "filter (\<lambda>x. separates (ms ! x)) (rev (filter (\<lambda>x. x \<notin> gone) xs)) = filter (\<lambda>x. separates (ms ! x)) (rev xs)"
    unfolding rev_filter [symmetric] filter_filter using assms by (intro arg_cong [of _ _ rev] filter_cong) auto
  then show ?thesis by (simp add: anchor_of_def)
qed

lemma sole_pair_together:
  assumes pair: "sole_pair ms i k t"
  shows "\<exists>pre post. repair_order ms = pre @ t # post \<and> anchor_of ms pre = Some k"
proof -
  let ?gone = "set (moved (final_moves ms))"
  have len: "t < length ms" using pair by (simp add: sole_pair_def)
  have "set (repair_order ms) = {0..<length ms}" using repair_order_perm [of ms] by (metis mset_eq_setD set_upt)
  with len obtain pre post where ord: "repair_order ms = pre @ t # post" by (metis atLeastLessThan_iff split_list zero_le)
  have "anchor_of ms pre = Some k"
  proof (cases "t \<in> ?gone")
    case True
    with repair_order_placed [of ms] ord obtain k' l where
      k': "anchor_of ms pre = Some k'" "map_of (sort_owed (owedTo (final_moves ms))) k' = Some l" "t \<in> set l"
      unfolding placed_def by blast
    then obtain i' where "is_issuer ms i' k'" "is_result ms i' t" using owed_facts(5) by blast
    with pair have "k' = k" by (auto simp: is_issuer_def is_result_def sole_pair_def)
    with k'(1) show ?thesis by simp
  next
    case False
    have nosep: "\<forall>x \<in> ?gone. \<not> separates (ms ! x)" using moved_result by (auto simp: separates_def)
    have "[0..<length ms] = [0..<t] @ t # [Suc t..<length ms]"
      using upt_add_eq_append [of 0 t "length ms - t"] len by (simp add: upt_conv_Cons)
    with repair_order_stays [of ms] ord False have
      "filter (\<lambda>x. x \<notin> ?gone) pre @ t # filter (\<lambda>x. x \<notin> ?gone) post =
       filter (\<lambda>x. x \<notin> ?gone) [0..<t] @ t # filter (\<lambda>x. x \<notin> ?gone) [Suc t..<length ms]" by simp
    moreover have "distinct (repair_order ms)" using repair_order_perm [of ms] by (metis distinct_upt mset_eq_imp_distinct_iff)
    ultimately have "filter (\<lambda>x. x \<notin> ?gone) pre = filter (\<lambda>x. x \<notin> ?gone) [0..<t]"
      using ord by (subst (asm) append_Cons_eq_iff) auto
    then have "anchor_of ms pre = anchor_of ms [0..<t]" using anchor_filter [OF nosep] by metis
    with sole_pair_moved [OF pair] False show ?thesis by simp
  qed
  with ord show ?thesis by blast
qed

lemma keep_mset: "mset (keepToolResultsWithCalls ms) = mset ms"
proof -
  have "mset (keepToolResultsWithCalls ms) = image_mset (\<lambda>i. ms ! i) (mset (repair_order ms))"
    by (simp add: keepToolResultsWithCalls_def)
  also have "\<dots> = mset (map (\<lambda>i. ms ! i) [0..<length ms])" by (simp add: repair_order_perm)
  finally show ?thesis by (simp add: map_nth)
qed

lemma sole_pair_placed:
  assumes "sole_pair ms i k t"
  shows "\<exists>pre post. keepToolResultsWithCalls ms = pre @ ms ! t # post \<and> find separates (rev pre) = Some (ms ! k)"
proof -
  obtain pre post where ord: "repair_order ms = pre @ t # post" "anchor_of ms pre = Some k"
    using sole_pair_together [OF assms] by blast
  have find: "find separates (map (\<lambda>i. ms ! i) xs) =
      (case filter (\<lambda>x. separates (ms ! x)) xs of [] \<Rightarrow> None | x # _ \<Rightarrow> Some (ms ! x))" for xs
    by (induction xs) auto
  have "find separates (rev (map (\<lambda>i. ms ! i) pre)) = Some (ms ! k)"
    using ord(2) unfolding rev_map find anchor_of_def by (auto split: list.splits)
  with ord(1) show ?thesis by (auto simp: keepToolResultsWithCalls_def)
qed

subsection \<open>Theorems\<close>

text \<open>
  C10. Nothing is dropped, duplicated or invented: the repaired history has the same entries with the same
  multiplicities, and everything that is not a tool message keeps its place relative to the others.
\<close>

theorem tool_results_permute:
  "mset (keepToolResultsWithCalls ms) = mset ms \<and>
   filter (\<lambda>m. roleOf m \<noteq> JStr ''tool'') (keepToolResultsWithCalls ms) = filter (\<lambda>m. roleOf m \<noteq> JStr ''tool'') ms"
proof
  show "mset (keepToolResultsWithCalls ms) = mset ms" by (rule keep_mset)
  let ?gone = "set (moved (final_moves ms))" and ?nt = "\<lambda>i. roleOf (ms ! i) \<noteq> JStr ''tool''"
  have nt: "filter ?nt xs = filter ?nt (filter (\<lambda>x. x \<notin> ?gone) xs)" for xs
    using moved_result by (auto intro: filter_cong)
  have "filter ?nt (repair_order ms) = filter ?nt [0..<length ms]"
    using nt [of "repair_order ms"] nt [of "[0..<length ms]"] repair_order_stays [of ms] by simp
  then have "map (\<lambda>i. ms ! i) (filter ?nt (repair_order ms)) = map (\<lambda>i. ms ! i) (filter ?nt [0..<length ms])" by simp
  then show "filter (\<lambda>m. roleOf m \<noteq> JStr ''tool'') (keepToolResultsWithCalls ms) = filter (\<lambda>m. roleOf m \<noteq> JStr ''tool'') ms"
    using filter_map [of "\<lambda>m. roleOf m \<noteq> JStr ''tool''" "(!) ms" "[0..<length ms]"]
    by (simp add: keepToolResultsWithCalls_def filter_map comp_def map_nth)
qed

text \<open>
  C11. Every result that moves lands behind its own call: the repaired history is a reordering of the positions in which
  the ones that did not move keep their order, and the last entry before a moved result that is neither a
  tool, activity nor reasoning message is an assistant message that issued the result's call id.
\<close>

theorem tool_results_placed:
  "\<exists>ord gone. keepToolResultsWithCalls ms = map (\<lambda>i. ms ! i) ord \<and> mset ord = mset [0..<length ms] \<and>
     sorted (filter (\<lambda>x. x \<notin> gone) ord) \<and>
     (\<forall>pre x post. ord = pre @ x # post \<and> x \<in> gone \<longrightarrow>
        (\<exists>k i. anchor_of ms pre = Some k \<and> i \<in> set (issuedCallIds (ms ! k)) \<and>
           roleOf (ms ! x) = JStr ''tool'' \<and> jget (ms ! x) ''toolCallId'' = JStr i))"
proof (intro exI conjI)
  let ?gone = "set (moved (final_moves ms))"
  show "keepToolResultsWithCalls ms = map (\<lambda>i. ms ! i) (repair_order ms)" by (simp add: keepToolResultsWithCalls_def)
  show "mset (repair_order ms) = mset [0..<length ms]" by (rule repair_order_perm)
  show "sorted (filter (\<lambda>x. x \<notin> ?gone) (repair_order ms))"
    unfolding repair_order_stays by (rule sorted_filter [of "\<lambda>x. x", simplified]) simp
  show "\<forall>pre x post. repair_order ms = pre @ x # post \<and> x \<in> ?gone \<longrightarrow>
        (\<exists>k i. anchor_of ms pre = Some k \<and> i \<in> set (issuedCallIds (ms ! k)) \<and>
           roleOf (ms ! x) = JStr ''tool'' \<and> jget (ms ! x) ''toolCallId'' = JStr i)"
  proof (intro allI impI)
    fix pre x post assume "repair_order ms = pre @ x # post \<and> x \<in> ?gone"
    with repair_order_placed [of ms] obtain k l where
      k: "anchor_of ms pre = Some k" "map_of (sort_owed (owedTo (final_moves ms))) k = Some l" "x \<in> set l"
      unfolding placed_def by blast
    with owed_facts(5) obtain i where "is_issuer ms i k" "is_result ms i x" by blast
    with k(1) show "\<exists>k i. anchor_of ms pre = Some k \<and> i \<in> set (issuedCallIds (ms ! k)) \<and>
           roleOf (ms ! x) = JStr ''tool'' \<and> jget (ms ! x) ''toolCallId'' = JStr i"
      by (auto simp: is_issuer_def is_result_def)
  qed
qed

theorem tool_results_placed_witness:
  "\<exists>ord. keepToolResultsWithCalls
       [JObj [(''role'', JStr ''tool''), (''toolCallId'', JStr ''c'')],
        JObj [(''role'', JStr ''assistant''), (''toolCalls'', JArr [JObj [(''id'', JStr ''c'')]])]] =
     map (\<lambda>i. [JObj [(''role'', JStr ''tool''), (''toolCallId'', JStr ''c'')],
        JObj [(''role'', JStr ''assistant''), (''toolCalls'', JArr [JObj [(''id'', JStr ''c'')]])]] ! i) ord \<and>
     mset ord = {#0, 1#}"
proof -
  let ?ms = "[JObj [(''role'', JStr ''tool''), (''toolCallId'', JStr ''c'')],
        JObj [(''role'', JStr ''assistant''), (''toolCalls'', JArr [JObj [(''id'', JStr ''c'')]])]]"
  have "mset [0..<length ?ms] = {#0, 1#}" by (simp add: upt_rec)
  with tool_results_placed [of ?ms] show ?thesis by metis
qed

text \<open>
  C12. The repair succeeds where it is unambiguous: when a call id is issued once and has one result anywhere in the
  history, before or after the call, then in the repaired history that result stands behind its call, with nothing
  but tool, activity, reasoning and non-object entries between them.
\<close>

theorem tool_results_together:
  assumes "sole_pair ms i k t"
  shows "\<exists>pre post. keepToolResultsWithCalls ms = pre @ ms ! t # post \<and> find separates (rev pre) = Some (ms ! k)"
  by (rule sole_pair_placed [OF assms])

theorem tool_results_together_witness:
  "\<exists>pre post. keepToolResultsWithCalls
       [JObj [(''role'', JStr ''assistant''), (''toolCalls'', JArr [JObj [(''id'', JStr ''c'')]])],
        JObj [(''role'', JStr ''assistant''), (''content'', JStr ''text'')],
        JObj [(''role'', JStr ''tool''), (''toolCallId'', JStr ''c'')]] =
     pre @ JObj [(''role'', JStr ''tool''), (''toolCallId'', JStr ''c'')] # post \<and>
     find separates (rev pre) =
       Some (JObj [(''role'', JStr ''assistant''), (''toolCalls'', JArr [JObj [(''id'', JStr ''c'')]])])"
proof -
  let ?ms = "[JObj [(''role'', JStr ''assistant''), (''toolCalls'', JArr [JObj [(''id'', JStr ''c'')]])],
        JObj [(''role'', JStr ''assistant''), (''content'', JStr ''text'')],
        JObj [(''role'', JStr ''tool''), (''toolCallId'', JStr ''c'')]]"
  have "sole_pair ?ms ''c'' 0 2"
    by (auto simp: sole_pair_def issuedCallIds_def roleOf_def string_id_def less_Suc_eq numeral_2_eq_2)
  from tool_results_together [OF this] show ?thesis by simp
qed

end
