(* ===== verification/ApplyProps.thy ===== *)
theory ApplyProps
  imports Apply ToolResultsProps
begin

text \<open>
  Properties of the reducer (theory \<open>Apply\<close>): the emitted updates reproduce the message list, streamed text and metadata
  accumulate per message however the streams interleave, tool calls and results are placed and
  tallied, snapshots are merged, and no null attribution is ever stored.
\<close>

subsection \<open>Sequencing\<close>

lemmas apply_handlers = ap_hook_only_def ap_text_message_start_def ap_text_message_content_def ap_content_def
  ap_text_message_end_def ap_end_def ap_reasoning_message_start_def ap_reasoning_message_content_def
  ap_reasoning_message_end_def ap_tool_call_start_def ap_tool_call_args_def ap_tool_call_end_def
  ap_state_snapshot_def ap_state_delta_def ap_messages_snapshot_def
  ap_activity_snapshot_def ap_activity_delta_def ap_run_started_def ap_run_finished_def
  ap_reasoning_encrypted_value_def

subsection \<open>What is emitted\<close>

text \<open>A state in the middle of an event: nothing was announced and the messages are those of before, or the
  current messages are the ones to announce.\<close>

definition announced :: "jsval list \<Rightarrow> 'w rstate \<Rightarrow> bool" where
  "announced ms rs \<longleftrightarrow> curMessages rs = None \<and> messages rs = ms \<or> curMessages rs = Some (messages rs)"

lemma announced_start: "curMessages rs = None \<Longrightarrow> announced (messages rs) rs"
  by (simp add: announced_def)

lemma announced_mutation [simp]: "announced ms rs \<Longrightarrow> announced ms (applyMutation a b rs)"
  by (auto simp: announced_def applyMutation_def Let_def split: option.splits)

lemma announced_set [simp]: "announced ms (set_messages l rs)"
  by (simp add: announced_def set_messages_def applyMutation_def)

lemma announced_upd [simp]:
  "announced ms (rs\<lparr>world := w\<rparr>) = announced ms rs" "announced ms (rs\<lparr>runToolCallIds := a\<rparr>) = announced ms rs"
  "announced ms (rs\<lparr>answeredToolCallIds := a\<rparr>) = announced ms rs" "announced ms (rs\<lparr>state := v\<rparr>) = announced ms rs"
  "announced ms (rs\<lparr>pendingInterrupts := a\<rparr>) = announced ms rs"
  by (simp_all add: announced_def)

lemma announced_hook:
  "call_hook env h ev args rs = Inr (rs1, oc) \<Longrightarrow> announced ms rs \<Longrightarrow> announced ms rs1"
  by (auto simp: call_hook_def intro!: announced_mutation split: option.splits)

lemma announced_notify:
  "notify env h ev args rs = Inr rs1 \<Longrightarrow> announced ms rs \<Longrightarrow> announced ms rs1"
  by (auto simp: notify_def split: option.splits)

text \<open>The step ends by emitting some state, reached with everything announced.\<close>

definition emits_announced :: "jsval list \<Rightarrow> apply_error + 'w rstate \<times> update list \<Rightarrow> bool" where
  "emits_announced ms r \<longleftrightarrow> (case r of Inl _ \<Rightarrow> True | Inr y \<Rightarrow> \<exists>rs. y = emitUpdates rs \<and> announced ms rs)"

lemma emits_emit [simp]: "announced ms rs \<Longrightarrow> emits_announced ms (emit rs)"
  by (auto simp: emits_announced_def emit_def)

lemma emits_Inl [simp]: "emits_announced ms (Inl e)"
  by (simp add: emits_announced_def)

lemma emits_hook:
  assumes "announced ms rs" "\<And>rs1 oc. announced ms rs1 \<Longrightarrow> emits_announced ms (f (rs1, oc))"
  shows "emits_announced ms (andThen (call_hook env h ev args rs) f)"
  using assms by (cases "call_hook env h ev args rs") (auto intro: announced_hook)

lemma emits_notify:
  assumes "announced ms rs" "\<And>rs1. announced ms rs1 \<Longrightarrow> emits_announced ms (f rs1)"
  shows "emits_announced ms (andThen (notify env h ev args rs) f)"
  using assms by (cases "notify env h ev args rs") (auto intro: announced_notify)

lemma emits_result:
  assumes "announced ms rs"
  shows "emits_announced ms (ap_tool_call_result env rs ev)"
proof -
  have "emits_announced ms (andThen (notify env h ev args rs2) (\<lambda>rs3. emit (set_messages l rs3)))"
    for h args l and rs2 :: "'a rstate"
    by (cases "notify env h ev args rs2") (auto simp: emits_announced_def emit_def)
  with assms show ?thesis
    unfolding ap_tool_call_result_def
    by (intro emits_hook) (auto simp: Let_def split: option.splits)
qed

lemma dispatch_emits:
  assumes "announced ms rs"
  shows "emits_announced ms (apply_dispatch env rs ev)"
  using assms
  by (cases "ev_type ev")
    (auto simp: apply_dispatch_def emits_result apply_handlers Let_def
      intro!: emits_hook emits_notify announced_mutation split: option.splits prod.splits jsval.splits)


text \<open>What an observer that folds the updates into its own copy of the messages holds.\<close>

definition observe :: "jsval list \<Rightarrow> update list \<Rightarrow> jsval list" where
  "observe ms us = foldl (\<lambda>l u. case fst u of Some l' \<Rightarrow> l' | None \<Rightarrow> l) ms us"

lemma observe_append [simp]: "observe ms (us @ vs) = observe (observe ms us) vs"
  by (simp add: observe_def)

lemma apply_step_observed:
  assumes "apply_step env rs ev = Inr (rs', us)" "curMessages rs = None"
  shows "curMessages rs' = None" "messages rs' = observe (messages rs) us"
proof -
  have "emits_announced (messages rs) (apply_step env rs ev)"
    unfolding apply_step_def
    by (intro emits_hook) (auto simp: announced_start assms(2) dispatch_emits)
  with assms(1) obtain rs1 where "(rs', us) = emitUpdates rs1" "announced (messages rs) rs1"
    by (auto simp: emits_announced_def)
  then show "curMessages rs' = None" "messages rs' = observe (messages rs) us"
    by (auto simp: emitUpdates_def announced_def observe_def split: if_splits)
qed

lemma run_observed:
  "run_stage (apply_step env) rs es = (us, Inr rs') \<Longrightarrow> curMessages rs = None \<Longrightarrow>
     curMessages rs' = None \<and> messages rs' = observe (messages rs) us"
proof (induction es arbitrary: rs us)
  case (Cons e es)
  from Cons.prems(1) obtain rs1 us1 us2 where step: "apply_step env rs e = Inr (rs1, us1)"
    and rest: "run_stage (apply_step env) rs1 es = (us2, Inr rs')" "us = us1 @ us2" by (rule run_stage_Cons_Inr)
  from apply_step_observed [OF step Cons.prems(2)] Cons.IH [OF rest(1)] rest(2) show ?case by simp
qed (simp add: observe_def)

lemma reached_observed:
  "run_stage (apply_step env) rs es = (us, r) \<Longrightarrow> curMessages rs = None \<Longrightarrow>
     messages (reached (apply_step env) rs es) = observe (messages rs) us"
proof (induction es arbitrary: rs us r)
  case (Cons e es)
  show ?case
  proof (cases "apply_step env rs e")
    case (Inl x)
    with Cons.prems show ?thesis by (auto simp: observe_def)
  next
    case (Inr y)
    obtain rs1 us1 where y: "y = (rs1, us1)" by (cases y)
    obtain us2 r2 where rest: "run_stage (apply_step env) rs1 es = (us2, r2)" by (cases "run_stage (apply_step env) rs1 es")
    from apply_step_observed [OF Inr [unfolded y] Cons.prems(2)] Cons.IH [OF rest] Cons.prems(1) Inr y rest
    show ?thesis by auto
  qed
qed (simp add: observe_def)

subsection \<open>Without subscribers\<close>

lemma applyMutation_None [simp]: "applyMutation None None rs = rs"
  by (simp add: applyMutation_def)

lemma hook_plain [simp]:
  "subscribers env = [] \<Longrightarrow> call_hook env h ev args rs = Inr (rs, \<lparr>stopped = False, replaced = False\<rparr>)"
  by (simp add: call_hook_def runSubscribersWithMutation_def)

lemma notify_plain [simp]: "subscribers env = [] \<Longrightarrow> notify env h ev args rs = Inr rs"
  by (simp add: notify_def)

lemma apply_step_plain: "subscribers env = [] \<Longrightarrow> apply_step env rs ev = apply_dispatch env rs ev"
  by (simp add: apply_step_def)

lemma set_messages_fields [simp]:
  "messages (set_messages l rs) = l" "state (set_messages l rs) = state rs"
  "runToolCallIds (set_messages l rs) = runToolCallIds rs" "answeredToolCallIds (set_messages l rs) = answeredToolCallIds rs"
  "pendingInterrupts (set_messages l rs) = pendingInterrupts rs"
  by (simp_all add: set_messages_def applyMutation_def)

lemma emit_fields:
  "emit rs = Inr (rs', us) \<Longrightarrow> messages rs' = messages rs \<and> runToolCallIds rs' = runToolCallIds rs \<and>
     answeredToolCallIds rs' = answeredToolCallIds rs \<and> state rs' = state rs \<and> pendingInterrupts rs' = pendingInterrupts rs"
  by (auto simp: emit_def emitUpdates_def)

subsection \<open>Objects\<close>

lemma jget_jset: "jget (jset k v m) k' = (if k' = k \<and> (\<exists>ob. m = JObj ob) then v else jget m k')"
  by (cases m) (auto simp: jset_def)

lemma is_obj_jset [simp]: "(\<exists>ob. jset k v m = JObj ob) \<longleftrightarrow> (\<exists>ob. m = JObj ob)"
  by (cases m) (auto simp: jset_def)

lemma jget_jdel: "jget (jdel k m) k' = (if k' = k then JUndef else jget m k')"
  by (cases m) (auto simp: jdel_def)

lemma is_obj_jdel [simp]: "(\<exists>ob. jdel k m = JObj ob) \<longleftrightarrow> (\<exists>ob. m = JObj ob)"
  by (cases m) (auto simp: jdel_def)

lemma find_index_Some:
  "find_index P xs = Some n \<Longrightarrow> n < length xs \<and> P (xs ! n) \<and> (\<forall>j < n. \<not> P (xs ! j))"
proof (induction P xs arbitrary: n rule: find_index.induct)
  case (2 P x xs)
  then show ?case by (cases n) (auto split: if_splits simp: less_Suc_eq_0_disj)
qed simp

lemma find_index_None: "find_index P xs = None \<longleftrightarrow> (\<forall>x \<in> set xs. \<not> P x)"
  by (induction P xs rule: find_index.induct) auto

lemma find_index_cong: "(\<And>x. x \<in> set xs \<Longrightarrow> P x = Q x) \<Longrightarrow> find_index P xs = find_index Q xs"
  by (induction P xs rule: find_index.induct) auto

lemma find_index_map: "find_index P (map f xs) = find_index (\<lambda>x. P (f x)) xs"
  by (induction xs) auto

lemma applyEventMetadata_jget:
  "jget (fst (applyEventMetadata m ev)) k =
     (if k = ''metadata'' \<and> (\<exists>ob. m = JObj ob) then mergeMetadata (jget m k) (field ev k) else jget m k)"
  by (auto simp: applyEventMetadata_def jget_jset)

lemma is_obj_metadata [simp]: "(\<exists>ob. fst (applyEventMetadata m ev) = JObj ob) \<longleftrightarrow> (\<exists>ob. m = JObj ob)"
  by (simp add: applyEventMetadata_def)


subsection \<open>Streaming text\<close>

definition is_content :: "event \<Rightarrow> bool" where
  "is_content ev \<longleftrightarrow> ev_type ev \<in> {TEXT_MESSAGE_CONTENT, REASONING_MESSAGE_CONTENT}"

text \<open>A message list as the types have it: objects with distinct ids, here without activities.\<close>

definition text_messages :: "jsval list \<Rightarrow> bool" where
  "text_messages ms \<longleftrightarrow> distinct (map (\<lambda>m. jget m ''id'') ms) \<and>
     (\<forall>m \<in> set ms. (\<exists>ob. m = JObj ob) \<and> jget m ''role'' \<noteq> JStr ''activity'')"

definition addressed :: "jsval \<Rightarrow> event list \<Rightarrow> event list" where
  "addressed i es = filter (\<lambda>ev. field ev ''messageId'' = i) es"

definition delta_text :: "event list \<Rightarrow> string" where
  "delta_text es = concat (map (\<lambda>ev. js_string (field ev ''delta'')) es)"

text \<open>What a message becomes under the content events addressed to it.\<close>

definition streamed :: "event list \<Rightarrow> jsval \<Rightarrow> jsval \<Rightarrow> bool" where
  "streamed es m m' \<longleftrightarrow> (\<exists>ob. m' = JObj ob) \<and>
     content_text m' = content_text m @ delta_text es \<and>
     jget m' ''metadata'' = foldl mergeMetadata (jget m ''metadata'') (map (\<lambda>ev. field ev ''metadata'') es) \<and>
     (\<forall>k. k \<noteq> ''content'' \<and> k \<noteq> ''metadata'' \<longrightarrow> jget m' k = jget m k)"

lemma streamed_Nil: "(\<exists>ob. m = JObj ob) \<Longrightarrow> streamed [] m m"
  by (simp add: streamed_def delta_text_def)

lemma streamed_Cons: "\<exists>ob. m = JObj ob \<Longrightarrow> streamed es (append_content ev m) m' \<Longrightarrow> streamed (ev # es) m m'"
  by (auto simp: streamed_def append_content_def applyEventMetadata_jget jget_jset content_text_def delta_text_def)

lemma append_content_obj: "\<exists>ob. m = JObj ob \<Longrightarrow> \<exists>ob. append_content ev m = JObj ob"
  by (simp add: append_content_def)

lemma append_content_jget:
  "k \<noteq> ''content'' \<Longrightarrow> k \<noteq> ''metadata'' \<Longrightarrow> jget (append_content ev m) k = jget m k"
  by (simp add: append_content_def applyEventMetadata_jget jget_jset)

lemma content_step:
  assumes "subscribers env = []" "is_content ev" "text_messages (messages rs)"
  shows "\<exists>rs' us. apply_step env rs ev = Inr (rs', us) \<and>
    messages rs' = map (\<lambda>m. if jget m ''id'' = field ev ''messageId'' then append_content ev m else m) (messages rs)"
proof (cases "find_message (field ev ''messageId'') (messages rs)")
  case None
  then have "map (\<lambda>m. if jget m ''id'' = field ev ''messageId'' then append_content ev m else m) (messages rs) = messages rs"
    by (auto simp: find_index_None intro: map_idI)
  with None assms show ?thesis
    by (auto simp: apply_step_plain apply_dispatch_def is_content_def ap_text_message_content_def
        ap_reasoning_message_content_def ap_content_def emit_def emitUpdates_def)
next
  case (Some n)
  let ?ms = "messages rs"
  have n: "n < length ?ms" "jget (?ms ! n) ''id'' = field ev ''messageId''" using find_index_Some [OF Some] by auto
  have dist: "distinct (map (\<lambda>m. jget m ''id'') ?ms)" using assms(3) by (simp add: text_messages_def)
  have eq: "?ms[n := append_content ev (?ms ! n)] =
      map (\<lambda>m. if jget m ''id'' = field ev ''messageId'' then append_content ev m else m) ?ms"
  proof (rule nth_equalityI)
    fix j assume "j < length (?ms[n := append_content ev (?ms ! n)])"
    then have j: "j < length ?ms" by simp
    have "jget (?ms ! j) ''id'' = field ev ''messageId'' \<longleftrightarrow> j = n"
      using nth_eq_iff_index_eq [OF dist, of j n] j n by auto
    with j n show "?ms[n := append_content ev (?ms ! n)] ! j =
      map (\<lambda>m. if jget m ''id'' = field ev ''messageId'' then append_content ev m else m) ?ms ! j" by auto
  qed simp
  have "jget (?ms ! n) ''role'' \<noteq> JStr ''activity''" using assms(3) n(1) by (auto simp: text_messages_def)
  with Some assms eq show ?thesis
    by (auto simp: apply_step_plain apply_dispatch_def is_content_def ap_text_message_content_def
        ap_reasoning_message_content_def ap_content_def emit_def emitUpdates_def)
qed

lemma text_messages_step:
  assumes tm: "text_messages ms"
  shows "text_messages (map (\<lambda>m. if jget m ''id'' = i then append_content ev m else m) ms)" (is "text_messages (map ?f ms)")
proof -
  have "map (\<lambda>m. jget m ''id'') (map ?f ms) = map (\<lambda>m. jget m ''id'') ms"
    by (simp add: append_content_jget)
  moreover have "distinct (map (\<lambda>m. jget m ''id'') ms)" using tm by (simp add: text_messages_def)
  ultimately have "distinct (map (\<lambda>m. jget m ''id'') (map ?f ms))" by (simp only:)
  moreover have "(\<exists>ob. ?f m = JObj ob) \<and> jget (?f m) ''role'' \<noteq> JStr ''activity''" if "m \<in> set ms" for m
    using tm that append_content_obj [of m ev] by (auto simp: text_messages_def append_content_jget)
  ultimately show ?thesis unfolding text_messages_def set_map by blast
qed

lemma content_run:
  "subscribers env = [] \<Longrightarrow> list_all is_content es \<Longrightarrow> text_messages (messages rs) \<Longrightarrow>
     \<exists>us rs'. run_stage (apply_step env) rs es = (us, Inr rs') \<and>
       list_all2 (\<lambda>m m'. streamed (addressed (jget m ''id'') es) m m') (messages rs) (messages rs')"
proof (induction es arbitrary: rs)
  case Nil
  then show ?case by (auto simp: list_all2_same addressed_def text_messages_def intro: streamed_Nil)
next
  case (Cons ev es)
  let ?f = "\<lambda>m. if jget m ''id'' = field ev ''messageId'' then append_content ev m else m"
  from content_step [OF Cons.prems(1) _ Cons.prems(3), of ev] Cons.prems(2) obtain rs1 us1 where
    step: "apply_step env rs ev = Inr (rs1, us1)" "messages rs1 = map ?f (messages rs)" by auto
  from Cons.IH [OF Cons.prems(1), of rs1] Cons.prems text_messages_step step(2) obtain us2 rs' where
    rest: "run_stage (apply_step env) rs1 es = (us2, Inr rs')"
    "list_all2 (\<lambda>m m'. streamed (addressed (jget m ''id'') es) m m') (map ?f (messages rs)) (messages rs')" by auto
  have "streamed (addressed (jget m ''id'') (ev # es)) m m'"
    if "m \<in> set (messages rs)" "streamed (addressed (jget (?f m) ''id'') es) (?f m) m'" for m m'
    using that Cons.prems(3) streamed_Cons [of m "addressed (jget m ''id'') es" ev m']
    by (auto simp: addressed_def append_content_jget text_messages_def)
  then have "list_all2 (\<lambda>m m'. streamed (addressed (jget m ''id'') (ev # es)) m m') (messages rs) (messages rs')"
    using rest(2) unfolding list_all2_map1
    by (auto simp: list_all2_conv_all_nth)
  with step(1) rest(1) show ?case by auto
qed

subsection \<open>The tally of tool calls\<close>

lemma mutation_tally [simp]:
  "runToolCallIds (applyMutation a b rs) = runToolCallIds rs"
  "answeredToolCallIds (applyMutation a b rs) = answeredToolCallIds rs"
  by (simp_all add: applyMutation_def Let_def split: option.split)

lemma emit_tally:
  "emit rs = Inr (rs', us) \<Longrightarrow> runToolCallIds rs' = runToolCallIds rs"
  "emit rs = Inr (rs', us) \<Longrightarrow> answeredToolCallIds rs' = answeredToolCallIds rs"
  "emit rs = Inr (rs', us) \<Longrightarrow> messages rs' = messages rs"
  by (auto simp: emit_def emitUpdates_def)

definition tallies :: "jsval list \<Rightarrow> jsval list \<Rightarrow> 'e + 'w rstate \<times> update list \<Rightarrow> bool" where
  "tallies a b r \<longleftrightarrow> (case r of Inl _ \<Rightarrow> True
     | Inr y \<Rightarrow> runToolCallIds (fst y) = a \<and> answeredToolCallIds (fst y) = b)"

lemma tallies_emit [simp]: "tallies a b (emit rs) \<longleftrightarrow> runToolCallIds rs = a \<and> answeredToolCallIds rs = b"
  by (simp add: tallies_def emit_def emitUpdates_def)

lemma tallies_Inl [simp]: "tallies a b (Inl e)"
  by (simp add: tallies_def)

lemma dispatch_tallies:
  assumes "subscribers env = []"
  shows "tallies
     (if ev_type ev = RUN_STARTED then []
      else if ev_type ev = TOOL_CALL_START then set_add (field ev ''toolCallId'') (runToolCallIds rs)
      else runToolCallIds rs)
     (if ev_type ev = RUN_STARTED then []
      else if ev_type ev = TOOL_CALL_RESULT then set_add (field ev ''toolCallId'') (answeredToolCallIds rs)
      else answeredToolCallIds rs)
     (apply_dispatch env rs ev)"
  using assms
  by (cases "ev_type ev")
    (simp_all add: apply_dispatch_def apply_handlers ap_tool_call_result_def Let_def
      split: option.split prod.split jsval.split)

lemma apply_tally:
  assumes "subscribers env = []" "apply_step env rs ev = Inr (rs', us)"
  shows "runToolCallIds rs' = (if ev_type ev = RUN_STARTED then []
      else if ev_type ev = TOOL_CALL_START then set_add (field ev ''toolCallId'') (runToolCallIds rs)
      else runToolCallIds rs)"
    "answeredToolCallIds rs' = (if ev_type ev = RUN_STARTED then []
      else if ev_type ev = TOOL_CALL_RESULT then set_add (field ev ''toolCallId'') (answeredToolCallIds rs)
      else answeredToolCallIds rs)"
  using dispatch_tallies [OF assms(1), of ev rs] assms(2)
  by (simp_all add: apply_step_plain [OF assms(1)] tallies_def)

lemma run_tally:
  "subscribers env = [] \<Longrightarrow> run_stage (apply_step env) rs es = (us, Inr rs') \<Longrightarrow>
   list_all (\<lambda>ev. ev_type ev \<noteq> RUN_STARTED) es \<Longrightarrow>
     runToolCallIds rs' = foldl (\<lambda>l i. set_add i l) (runToolCallIds rs)
       (map (\<lambda>ev. field ev ''toolCallId'') (filter (\<lambda>ev. ev_type ev = TOOL_CALL_START) es)) \<and>
     set (answeredToolCallIds rs') = set (answeredToolCallIds rs) \<union>
       (\<lambda>ev. field ev ''toolCallId'') ` set (filter (\<lambda>ev. ev_type ev = TOOL_CALL_RESULT) es)"
proof (induction es arbitrary: rs us)
  case (Cons e es)
  from Cons.prems(2) obtain rs1 us1 us2 where step: "apply_step env rs e = Inr (rs1, us1)"
    and rest: "run_stage (apply_step env) rs1 es = (us2, Inr rs')" by (rule run_stage_Cons_Inr)
  from apply_tally [OF Cons.prems(1) step] Cons.IH [OF Cons.prems(1) rest] Cons.prems(3) show ?case by auto
qed simp

subsection \<open>Placing a tool result\<close>

definition issues :: "jsval \<Rightarrow> jsval \<Rightarrow> bool" where
  "issues i m \<longleftrightarrow> i \<in> JStr ` set (issuedCallIds m)"

definition answers :: "jsval \<Rightarrow> jsval \<Rightarrow> bool" where
  "answers i m \<longleftrightarrow> roleOf m = JStr ''tool'' \<and> jget m ''toolCallId'' = i"

lemma answers_not_issues: "answers i m \<Longrightarrow> \<not> issues i m"
  by (simp add: answers_def issues_def issuedCallIds_def)

lemma find_owner_Suc:
  "find_owner ms i (Suc n) newest answered =
     (if answers i (ms ! n) then find_owner ms i n newest True
      else if issues i (ms ! n)
      then (if \<not> answered then Some n
            else find_owner ms i n (if newest = None then Some n else newest) False)
      else find_owner ms i n newest answered)"
  by (simp only: find_owner.simps answers_def issues_def)

declare find_owner.simps(2) [simp del]

lemma find_owner_issues:
  assumes "find_owner ms i n newest answered = Some k" "n \<le> length ms"
    and "\<And>k. newest = Some k \<Longrightarrow> k < length ms \<and> issues i (ms ! k)"
  shows "k < length ms \<and> issues i (ms ! k)"
  using assms
proof (induction n arbitrary: newest answered)
  case (Suc n)
  show ?case
    using Suc.prems Suc.IH [of newest] Suc.IH [of "Some n" False]
    by (cases "answers i (ms ! n)"; cases "issues i (ms ! n)"; cases answered; cases newest)
      (simp_all add: find_owner_Suc)
qed auto

lemma find_owner_None:
  "find_owner ms i n newest answered = None \<Longrightarrow> newest = None \<and> (\<forall>k < n. \<not> issues i (ms ! k))"
proof (induction n arbitrary: newest answered)
  case (Suc n)
  show ?case
    using Suc.prems Suc.IH [of newest answered] Suc.IH [of newest True] Suc.IH [of "Some n" False]
      Suc.IH [of newest False] answers_not_issues [of i "ms ! n"]
    by (cases "answers i (ms ! n)"; cases "issues i (ms ! n)"; cases answered; cases newest)
      (simp_all add: find_owner_Suc less_Suc_eq)
qed simp

lemma insert_result_placed:
  "\<exists>p \<le> length ms. insert_result i tm ms = take p ms @ [tm] @ drop p ms \<and>
     (if \<exists>m \<in> set ms. issues i m
      then \<exists>k < p. issues i (ms ! k) \<and> (\<forall>j. k < j \<and> j < p \<longrightarrow> skipped (ms ! j)) \<and>
             (p < length ms \<longrightarrow> \<not> skipped (ms ! p))
      else p = length ms)"
proof (cases "find_owner ms i (length ms) None False")
  case None
  then have "\<not> (\<exists>m \<in> set ms. issues i m)" using find_owner_None [OF None] by (auto simp: in_set_conv_nth)
  with None show ?thesis by (intro exI [of _ "length ms"]) (simp add: insert_result_def)
next
  case (Some k)
  have k: "k < length ms" "issues i (ms ! k)"
    using find_owner_issues [OF Some] by auto
  let ?b = "drop (Suc k) ms" and ?p = "Suc k + length (takeWhile skipped (drop (Suc k) ms))"
  have len: "?p \<le> length ms" using length_takeWhile_le [of skipped ?b] k(1) by simp
  have tk: "take ?p ms = take (Suc k) ms @ takeWhile skipped ?b"
    unfolding take_add by (simp only: takeWhile_eq_take [of skipped, symmetric])
  have dp: "drop ?p ms = dropWhile skipped ?b"
    by (simp add: dropWhile_eq_drop add.commute)
  have between: "skipped (ms ! j)" if "k < j" "j < ?p" for j
  proof -
    have "j - Suc k < length (takeWhile skipped ?b)" using that by simp
    then have "skipped (takeWhile skipped ?b ! (j - Suc k))" using nth_mem set_takeWhileD by metis
    moreover have "takeWhile skipped ?b ! (j - Suc k) = ms ! j"
      using that k(1) \<open>j - Suc k < _\<close> by (simp add: takeWhile_nth)
    ultimately show ?thesis by simp
  qed
  have after: "\<not> skipped (ms ! ?p)" if "?p < length ms"
    using that nth_length_takeWhile [of skipped ?b] by simp
  have "insert_result i tm ms = take ?p ms @ [tm] @ drop ?p ms"
    unfolding tk dp by (simp add: insert_result_def Some Let_def)
  moreover have "\<exists>m \<in> set ms. issues i m" using k by auto
  moreover have "k < ?p" by simp
  ultimately show ?thesis using k(2) between after len by (intro exI [of _ ?p]) metis
qed

subsection \<open>Replaying a tool call start\<close>

lemma oset_same: "map_of m k = Some v \<Longrightarrow> oset k v m = m"
  by (induction m) (auto simp: oset_def split: if_splits)

lemma spread_again: "(\<And>k v. (k, v) \<in> set b \<Longrightarrow> map_of a k = Some v) \<Longrightarrow> spread a b = a"
  by (induction a b rule: spread.induct) (auto simp: oset_same)

lemma merge_again: "wf_metadata b \<Longrightarrow> mergeMetadata (mergeMetadata a b) b = mergeMetadata a b"
proof (cases "b = JUndef")
  case False
  assume wf: "wf_metadata b"
  then have d: "distinct (map fst (own_props b))" by (rule wf_own_props)
  have "spread (own_props (mergeMetadata a b)) (own_props b) = own_props (mergeMetadata a b)"
  proof (rule spread_again)
    fix k v assume "(k, v) \<in> set (own_props b)"
    with d have "map_of (own_props b) k = Some v" by simp
    with False d show "map_of (own_props (mergeMetadata a b)) k = Some v"
      by (simp add: mergeMetadata_def own_props_def [of "JObj _"] map_of_spread map_of_rev_distinct)
  qed
  with False show ?thesis by (auto simp: mergeMetadata_def own_props_def [of "JObj _"])
qed simp

lemma jset_jset [simp]: "jset k v (jset k v m) = jset k v m"
  by (cases m) (auto simp: jset_def oset_same oset_def js_simps)

lemma metadata_again:
  assumes "wf_metadata (field ev ''metadata'')"
  shows "fst (applyEventMetadata (fst (applyEventMetadata m ev)) ev) = fst (applyEventMetadata m ev)"
proof (cases "\<exists>ob. m = JObj ob")
  case True
  with assms show ?thesis by (simp add: applyEventMetadata_def jget_jset merge_again)
next
  case False
  then show ?thesis by (cases m) (simp_all add: applyEventMetadata_def jset_def)
qed

lemma function_metadata [simp]: "call_function (fst (applyEventMetadata m ev)) k = call_function m k"
  by (simp add: call_function_def applyEventMetadata_jget)

lemma id_metadata [simp]: "jget (fst (applyEventMetadata m ev)) ''id'' = jget m ''id''"
  by (simp add: applyEventMetadata_jget)

text \<open>The call as a start event leaves it, and that doing so twice changes nothing more.\<close>

definition restarted :: "event \<Rightarrow> jsval \<Rightarrow> jsval" where
  "restarted ev tc = fst (applyEventMetadata (fst (rename_call ev tc)) ev)"

definition typed_call :: "jsval \<Rightarrow> bool" where
  "typed_call tc \<longleftrightarrow> (\<exists>ob f. tc = JObj ob \<and> oget ob ''function'' = JObj f)"

lemma restarted_again:
  assumes "wf_metadata (field ev ''metadata'')" "typed_call tc"
  shows "restarted ev (restarted ev tc) = restarted ev tc"
proof -
  have "call_function (fst (rename_call ev tc)) ''name'' = field ev ''toolCallName''"
    using assms(2) by (auto simp: rename_call_def set_call_function_def call_function_def jget_jset typed_call_def)
  then have "fst (rename_call ev (restarted ev tc)) = restarted ev tc"
    by (simp add: restarted_def rename_call_def [of ev "fst (applyEventMetadata _ _)"])
  with metadata_again [OF assms(1)] show ?thesis by (simp add: restarted_def)
qed

lemma restarted_unchanged:
  "\<not> snd (applyEventMetadata (fst (rename_call ev tc)) ev) \<Longrightarrow> \<not> snd (rename_call ev tc) \<Longrightarrow> restarted ev tc = tc"
  by (auto simp: restarted_def applyEventMetadata_def rename_call_def split: if_splits)

text \<open>Where a call is found: the first message that holds it, the first entry there.\<close>

lemma find_call_Some:
  assumes "find_call i ms = Some (n, c)"
  shows "n < length ms" "find_index (holds_call i) ms = Some n"
    "c < length (arr_items (jget (ms ! n) ''toolCalls''))" "jget (call_at (ms ! n) c) ''id'' = i"
    "find_index (\<lambda>tc. jget tc ''id'' = i) (arr_items (jget (ms ! n) ''toolCalls'')) = Some c"
  using assms by (auto simp: find_call_def call_at_def dest: find_index_Some split: option.splits)

lemma find_call_None: "find_call i ms = None \<longleftrightarrow> (\<forall>m \<in> set ms. \<not> holds_call i m)"
proof
  assume None: "find_call i ms = None"
  show "\<forall>m \<in> set ms. \<not> holds_call i m"
  proof (cases "find_index (holds_call i) ms")
    case (Some n)
    then have "holds_call i (ms ! n)" using find_index_Some by blast
    then have "find_index (\<lambda>tc. jget tc ''id'' = i) (arr_items (jget (ms ! n) ''toolCalls'')) \<noteq> None"
      by (simp add: find_index_None holds_call_def list_ex_iff)
    with None Some show ?thesis by (auto simp: find_call_def split: option.splits)
  qed (simp add: find_index_None)
next
  assume "\<forall>m \<in> set ms. \<not> holds_call i m"
  then have "find_index (holds_call i) ms = None" by (simp add: find_index_None)
  then show "find_call i ms = None" by (simp add: find_call_def)
qed

lemma find_index_first:
  "n < length xs \<Longrightarrow> P (xs ! n) \<Longrightarrow> (\<And>j. j < n \<Longrightarrow> \<not> P (xs ! j)) \<Longrightarrow> find_index P xs = Some n"
proof (induction xs arbitrary: n)
  case (Cons x xs)
  show ?case
  proof (cases n)
    case (Suc m)
    have "\<not> P x" using Cons.prems(3) [of 0] Suc by simp
    moreover have "find_index P xs = Some m"
      using Cons.IH [of m] Cons.prems Suc by fastforce
    ultimately show ?thesis using Suc by simp
  qed (use Cons.prems in simp)
qed simp

lemma find_call_first:
  assumes "n < length ms" "c < length (arr_items (jget (ms ! n) ''toolCalls''))" "jget (call_at (ms ! n) c) ''id'' = i"
    "\<And>j. j < n \<Longrightarrow> \<not> holds_call i (ms ! j)" "\<And>d. d < c \<Longrightarrow> jget (call_at (ms ! n) d) ''id'' \<noteq> i"
  shows "find_call i ms = Some (n, c)"
proof -
  have "holds_call i (ms ! n)" using assms(2,3) by (auto simp: holds_call_def list_ex_iff call_at_def)
  then have "find_index (holds_call i) ms = Some n" using assms(1,4) by (intro find_index_first)
  moreover have "find_index (\<lambda>tc. jget tc ''id'' = i) (arr_items (jget (ms ! n) ''toolCalls'')) = Some c"
    using assms(2,3,5) by (intro find_index_first) (auto simp: call_at_def)
  ultimately show ?thesis by (simp add: find_call_def)
qed

lemma update_call_same:
  assumes "find_call i ms = Some (n, c)" "i \<noteq> JUndef"
  shows "update_call (n, c) (call_at (ms ! n) c) ms = ms"
proof -
  obtain ob where ob: "ms ! n = JObj ob" using find_call_Some(3) [OF assms(1)] by (cases "ms ! n") auto
  obtain vs where "oget ob ''toolCalls'' = JArr vs"
    using find_call_Some(3) [OF assms(1)] ob by (cases "oget ob ''toolCalls''") auto
  then have "map_of ob ''toolCalls'' = Some (JArr vs)" by (auto simp: oget_def split: option.splits)
  with ob have "set_call c (call_at (ms ! n) c) (ms ! n) = ms ! n"
    by (simp add: set_call_def call_at_def jset_def oget_def oset_same)
  then show ?thesis by (simp add: update_call_def)
qed

lemma call_at_update:
  assumes "find_call i ms = Some (n, c)"
  shows "call_at (update_call (n, c) tc ms ! n) d = (if d = c then tc else call_at (ms ! n) d)"
    "arr_items (jget (update_call (n, c) tc ms ! n) ''toolCalls'') = (arr_items (jget (ms ! n) ''toolCalls''))[c := tc]"
    "j \<noteq> n \<Longrightarrow> update_call (n, c) tc ms ! j = ms ! j"
proof -
  obtain ob where ob: "ms ! n = JObj ob" using find_call_Some(3) [OF assms] by (cases "ms ! n") auto
  with find_call_Some(1,3) [OF assms]
  show "arr_items (jget (update_call (n, c) tc ms ! n) ''toolCalls'') = (arr_items (jget (ms ! n) ''toolCalls''))[c := tc]"
    and "call_at (update_call (n, c) tc ms ! n) d = (if d = c then tc else call_at (ms ! n) d)"
    by (auto simp: update_call_def set_call_def jget_jset call_at_def nth_list_update)
qed (simp add: update_call_def)

lemma find_call_update:
  assumes f: "find_call i ms = Some (n, c)" and "jget tc ''id'' = i"
  shows "find_call i (update_call (n, c) tc ms) = Some (n, c)"
proof (rule find_call_first)
  show "n < length (update_call (n, c) tc ms)" using find_call_Some(1) [OF f] by (simp add: update_call_def)
  show "\<not> holds_call i (update_call (n, c) tc ms ! j)" if "j < n" for j
    using that find_index_Some [OF find_call_Some(2) [OF f]] call_at_update(3) [OF f] by simp
  show "jget (call_at (update_call (n, c) tc ms ! n) d) ''id'' \<noteq> i" if "d < c" for d
    using that find_index_Some [OF find_call_Some(5) [OF f]] call_at_update(1) [OF f]
    by (simp add: call_at_def)
qed (use assms call_at_update(1,2) [OF f] find_call_Some [OF f] in simp_all)


text \<open>What is in the list after a new call is attached.\<close>

lemma resolve_facts:
  assumes "resolveOrCreateAssistantMessage ms p t = (n, ms')"
  shows "n < length ms'" "\<exists>ob. ms' ! n = JObj ob" "length ms \<le> length ms'" "n \<le> length ms"
    "\<And>j. j < length ms \<Longrightarrow> ms' ! j = ms ! j" "n = length ms \<Longrightarrow> arr_items (jget (ms' ! n) ''toolCalls'') = []"
proof -
  have obj: "\<exists>ob. m = JObj ob" if "jget m ''role'' = JStr ''assistant''" for m using that by (cases m) auto
  have found: "k < length xs \<and> k \<le> length xs" if "find_message p xs = Some k" for k xs
    using find_index_Some [OF that] by simp
  from assms show "n < length ms'" "\<exists>ob. ms' ! n = JObj ob" "length ms \<le> length ms'" "n \<le> length ms"
    "\<And>j. j < length ms \<Longrightarrow> ms' ! j = ms ! j" "n = length ms \<Longrightarrow> arr_items (jget (ms' ! n) ''toolCalls'') = []"
    by (auto simp: resolveOrCreateAssistantMessage_def Let_def nth_append
        dest: found obj split: option.splits if_splits)
qed

lemma attach_call_found:
  assumes "find_call (field ev ''toolCallId'') ms = None" "field ev ''toolCallId'' \<noteq> JUndef"
  shows "\<exists>n c. find_call (field ev ''toolCallId'') (attach_call ev ms) = Some (n, c) \<and>
    call_at (attach_call ev ms ! n) c = new_tool_call ev"
proof -
  let ?i = "field ev ''toolCallId''"
  obtain n ms' where r: "resolveOrCreateAssistantMessage ms (field ev ''parentMessageId'') ?i = (n, ms')"
    by (cases "resolveOrCreateAssistantMessage ms (field ev ''parentMessageId'') ?i")
  note f = resolve_facts [OF r]
  define target1 where "target1 = (if jget (ms' ! n) ''id'' \<notin> set (map (\<lambda>m. jget m ''id'') ms) \<and>
      \<not> nullish (tag_of ev) \<and> jget (ms' ! n) ''subagentRunId'' = JUndef
      then jset ''subagentRunId'' (tag_of ev) (ms' ! n) else ms' ! n)"
  let ?calls = "arr_items (jget target1 ''toolCalls'')"
  have obj: "\<exists>ob. target1 = JObj ob" using f(2) by (auto simp: target1_def)
  have calls: "?calls = arr_items (jget (ms' ! n) ''toolCalls'')" by (simp add: target1_def jget_jset)
  have eq: "attach_call ev ms = ms'[n := jset ''toolCalls'' (JArr (?calls @ [new_tool_call ev])) target1]"
    by (simp add: attach_call_def r target1_def Let_def)
  have fresh: "jget tc ''id'' \<noteq> ?i" if "tc \<in> set ?calls" for tc
  proof (cases "n < length ms")
    case True
    then have "\<not> holds_call ?i (ms' ! n)" using assms(1) f(5) by (simp add: find_call_None)
    with that calls show ?thesis by (auto simp: holds_call_def list_ex_iff)
  next
    case False
    with that calls f(4,6) show ?thesis by simp
  qed
  have items: "arr_items (jget (attach_call ev ms ! n) ''toolCalls'') = ?calls @ [new_tool_call ev]"
    using obj f(1) by (simp add: eq jget_jset)
  have "find_call ?i (attach_call ev ms) = Some (n, length ?calls)"
  proof (rule find_call_first)
    show "\<not> holds_call ?i (attach_call ev ms ! j)" if "j < n" for j
      using that assms(1) f(4,5) by (simp add: eq find_call_None)
    show "jget (call_at (attach_call ev ms ! n) d) ''id'' \<noteq> ?i" if "d < length ?calls" for d
      using that fresh by (simp add: call_at_def items nth_append)
    show "n < length (attach_call ev ms)" by (simp add: eq f(1))
    show "length ?calls < length (arr_items (jget (attach_call ev ms ! n) ''toolCalls''))" by (simp add: items)
    show "jget (call_at (attach_call ev ms ! n) (length ?calls)) ''id'' = ?i"
      by (simp add: call_at_def items new_tool_call_def)
  qed
  moreover have "call_at (attach_call ev ms ! n) (length ?calls) = new_tool_call ev"
    by (simp add: call_at_def items)
  ultimately show ?thesis by blast
qed

lemma restarted_new:
  assumes "wf_metadata (field ev ''metadata'')"
  shows "restarted ev (new_tool_call ev) = new_tool_call ev"
proof -
  have "fst (rename_call ev (new_tool_call ev)) = new_tool_call ev"
    by (simp add: rename_call_def new_tool_call_def) (simp add: call_function_def)
  with metadata_again [OF assms] show ?thesis by (simp add: restarted_def new_tool_call_def)
qed

lemma set_add_again [simp]: "set_add x (set_add x xs) = set_add x xs"
  by (simp add: set_add_def)

text \<open>Once the call in place is what the start event makes of it, the start event changes nothing.\<close>

lemma start_settled:
  assumes "subscribers env = []" "ev_type ev = TOOL_CALL_START" "curMessages rs = None" "curState rs = None"
    "field ev ''toolCallId'' \<in> set (runToolCallIds rs)" "field ev ''toolCallId'' \<noteq> JUndef"
    "find_call (field ev ''toolCallId'') (messages rs) = Some (n, c)"
    "restarted ev (call_at (messages rs ! n) c) = call_at (messages rs ! n) c"
  shows "\<exists>us. apply_step env rs ev = Inr (rs, us)"
proof -
  let ?tc = "call_at (messages rs ! n) c"
  have r: "rs\<lparr>runToolCallIds := set_add (field ev ''toolCallId'') (runToolCallIds rs)\<rparr> = rs"
    using assms(5) by (simp add: set_add_def)
  have "update_call (n, c) (restarted ev ?tc) (messages rs) = messages rs"
    using update_call_same [OF assms(7,6)] assms(8) by simp
  moreover have "fst (emitUpdates rs) = rs" "fst (emitUpdates (set_messages (messages rs) rs)) = rs"
    using assms(3,4) by (simp_all add: emitUpdates_def set_messages_def applyMutation_def)
  ultimately show ?thesis using assms(1,2,7) r
    by (auto simp: apply_step_plain apply_dispatch_def ap_tool_call_start_def Let_def emit_def restarted_def
        split: prod.splits) (metis prod.collapse)+
qed


lemma start_replayed:
  assumes plain: "subscribers env = []" and ty: "ev_type ev = TOOL_CALL_START"
    and i: "field ev ''toolCallId'' \<noteq> JUndef" and wf: "wf_metadata (field ev ''metadata'')"
    and typed: "\<forall>m \<in> set (messages rs). \<forall>tc \<in> set (arr_items (jget m ''toolCalls'')). typed_call tc"
    and step: "apply_step env rs ev = Inr (rs1, us)"
  shows "\<exists>us2. apply_step env rs1 ev = Inr (rs1, us2)"
proof -
  let ?i = "field ev ''toolCallId''"
  have run: "?i \<in> set (runToolCallIds rs1)" using apply_tally(1) [OF plain step] ty by simp
  have cur: "curMessages rs1 = None" "curState rs1 = None"
    using step plain ty
    by (auto simp: apply_step_plain apply_dispatch_def ap_tool_call_start_def Let_def emit_def emitUpdates_def
        split: option.splits prod.splits)
  show ?thesis
  proof (cases "find_call ?i (messages rs)")
    case None
    then have "messages rs1 = attach_call ev (messages rs)" using step plain ty
      by (auto simp: apply_step_plain apply_dispatch_def ap_tool_call_start_def Let_def emit_def emitUpdates_def)
    with attach_call_found [OF None i] restarted_new [OF wf] start_settled [OF plain ty cur run i]
    show ?thesis by auto
  next
    case (Some nc)
    obtain n c where nc: "nc = (n, c)" by (cases nc)
    let ?tc = "call_at (messages rs ! n) c"
    have f: "find_call ?i (messages rs) = Some (n, c)" using Some nc by simp
    have ms: "messages rs1 = update_call (n, c) (restarted ev ?tc) (messages rs)"
      using step plain ty Some nc update_call_same [OF f i] restarted_unchanged [of ev ?tc]
      by (auto simp: apply_step_plain apply_dispatch_def ap_tool_call_start_def Let_def emit_def emitUpdates_def
          restarted_def split: prod.splits if_splits)
    have "typed_call ?tc" using typed find_call_Some(1,3) [OF f] nth_mem unfolding call_at_def by blast
    then have again: "restarted ev (restarted ev ?tc) = restarted ev ?tc" by (rule restarted_again [OF wf])
    have "jget (restarted ev ?tc) ''id'' = ?i"
      using find_call_Some(4) [OF f]
      by (simp add: restarted_def rename_call_def set_call_function_def jget_jset)
    from find_call_update [OF f this] call_at_update(1) [OF f, of "restarted ev ?tc" c] again
      start_settled [OF plain ty cur run i, of n c]
    show ?thesis by (simp add: ms)
  qed
qed

end
