(* ===== verification/ApplyTags.thy ===== *)
theory ApplyTags
  imports ApplyProps
begin

text \<open>
  Further lemmas on the reducer: no handler ever stores a null attribution, whatever the subscribers return as long as they
  do not put one in themselves, and what a message snapshot leaves in the list.
\<close>

subsection \<open>Attribution\<close>

text \<open>No stored message or interrupt carries an explicit null attribution.\<close>

definition untagged :: "jsval \<Rightarrow> bool" where
  "untagged m \<longleftrightarrow> jget m ''subagentRunId'' \<noteq> JNull"

definition clean :: "'w rstate \<Rightarrow> bool" where
  "clean rs \<longleftrightarrow> list_all untagged (messages rs) \<and> list_all untagged (pendingInterrupts rs) \<and>
     (\<forall>l. curMessages rs = Some l \<longrightarrow> list_all untagged l)"

definition clean_update :: "update \<Rightarrow> bool" where
  "clean_update u \<longleftrightarrow> (\<forall>l. fst u = Some l \<longrightarrow> list_all untagged l)"

text \<open>A subscriber that is shown clean messages hands back clean messages.\<close>

definition clean_subscriber :: "'w subscriber \<Rightarrow> bool" where
  "clean_subscriber s \<longleftrightarrow> (\<forall>call ms st w m l. list_all untagged ms \<longrightarrow> snd (s call ms st w) = Returned m \<longrightarrow>
     ret_messages m = Fresh l \<longrightarrow> list_all untagged l)"

lemma sub_iterate_clean:
  "sub_iterate test ss call w sl = Some (w', sl') \<Longrightarrow> list_all clean_subscriber ss \<Longrightarrow>
     list_all untagged (sl_messages sl) \<Longrightarrow> list_all untagged (sl_messages sl')"
proof (induction ss arbitrary: w sl)
  case (Cons s ss)
  obtain w1 r where s: "s call (sl_messages sl) (sl_state sl) w = (w1, r)" by (cases "s call (sl_messages sl) (sl_state sl) w")
  have "list_all untagged (sl_messages (take_mutation m sl))" if "r = Returned m" for m
  proof -
    have "list_all untagged l" if "ret_messages m = Fresh l" for l
    proof -
      have "clean_subscriber s" using Cons.prems(2) by simp
      moreover have "snd (s call (sl_messages sl) (sl_state sl) w) = Returned m" using s \<open>r = Returned m\<close> by simp
      ultimately show ?thesis using Cons.prems(3) that unfolding clean_subscriber_def by blast
    qed
    with Cons.prems(3) show ?thesis
      by (auto simp: take_mutation_def Let_def split: mut_field.split)
  qed
  with Cons s show ?case
    by (cases r) (auto simp: Let_def split: if_splits)
qed simp

lemma clean_mutation:
  "clean rs \<Longrightarrow> (\<And>l. ms = Some l \<Longrightarrow> list_all untagged l) \<Longrightarrow> clean (applyMutation ms st rs)"
  by (auto simp: clean_def applyMutation_def Let_def split: option.splits)

lemma clean_set: "clean rs \<Longrightarrow> list_all untagged l \<Longrightarrow> clean (set_messages l rs)"
  unfolding set_messages_def by (rule clean_mutation) auto

lemma clean_upd [simp]:
  "clean (rs\<lparr>world := w\<rparr>) = clean rs" "clean (rs\<lparr>runToolCallIds := a\<rparr>) = clean rs"
  "clean (rs\<lparr>answeredToolCallIds := a\<rparr>) = clean rs" "clean (rs\<lparr>state := v\<rparr>) = clean rs"
  by (simp_all add: clean_def)

lemma clean_interrupts: "clean rs \<Longrightarrow> list_all untagged l \<Longrightarrow> clean (rs\<lparr>pendingInterrupts := l\<rparr>)"
  by (simp add: clean_def)

lemma clean_hook:
  assumes "call_hook env h ev args rs = Inr (rs1, oc)" "list_all clean_subscriber (subscribers env)" "clean rs"
  shows "clean rs1"
proof -
  obtain w m where m: "runSubscribersWithMutation (test_env env) (subscribers env)
      \<lparr>hk = h, hk_event = ev, hk_args = args\<rparr> (world rs) (messages rs) (state rs) = Some (w, m)"
    "rs1 = applyMutation (mut_messages m) (mut_state m) (rs\<lparr>world := w\<rparr>)"
    using assms(1) by (auto simp: call_hook_def split: option.splits)
  have "list_all untagged l" if "mut_messages m = Some l" for l
    using m(1) that assms(2,3) sub_iterate_clean
    by (fastforce simp: runSubscribersWithMutation_def clean_def split: option.splits if_splits)
  with assms(3) show ?thesis unfolding m(2) by (intro clean_mutation) simp_all
qed

definition emits_clean :: "apply_error + 'w rstate \<times> update list \<Rightarrow> bool" where
  "emits_clean r \<longleftrightarrow> (case r of Inl _ \<Rightarrow> True | Inr y \<Rightarrow> clean (fst y) \<and> list_all clean_update (snd y))"

lemma emits_clean_emit [simp]: "clean rs \<Longrightarrow> emits_clean (emit rs)"
  by (auto simp: emits_clean_def emit_def emitUpdates_def clean_def clean_update_def)

lemma emits_clean_Inl [simp]: "emits_clean (Inl e)"
  by (simp add: emits_clean_def)

lemma clean_hook_then:
  assumes "clean rs" "list_all clean_subscriber (subscribers env)" "\<And>rs1 oc. clean rs1 \<Longrightarrow> emits_clean (f (rs1, oc))"
  shows "emits_clean (andThen (call_hook env h ev args rs) f)"
  using assms by (cases "call_hook env h ev args rs") (auto intro: clean_hook)

lemma clean_notify_then:
  assumes "\<And>rs1. clean rs1 \<Longrightarrow> emits_clean (f rs1)" "clean rs"
  shows "emits_clean (andThen (notify env h ev args rs) f)"
  using assms by (auto simp: notify_def split: option.split)

subsubsection \<open>What the handlers store\<close>

lemma untagged_strip [simp]: "untagged (strip_message_tag m)"
  by (simp add: strip_message_tag_def untagged_def jget_jdel)

lemma untagged_metadata [simp]: "untagged (fst (applyEventMetadata m ev)) = untagged m"
  by (simp add: untagged_def applyEventMetadata_jget)

lemma untagged_jset [simp]: "k \<noteq> ''subagentRunId'' \<Longrightarrow> untagged (jset k v m) = untagged m"
  by (simp add: untagged_def jget_jset)

lemma untagged_tag: "untagged m \<Longrightarrow> v \<noteq> JNull \<Longrightarrow> untagged (jset ''subagentRunId'' v m)"
  by (simp add: untagged_def jget_jset)

lemma present_prop_get [simp]: "oget (present_prop k v) k' = (if k' = k then or_undef v else JUndef)"
  by (simp add: present_prop_def or_undef_def)

lemma or_undef_not_null [simp]: "or_undef v \<noteq> JNull"
  by (simp add: or_undef_def nullish_def)

lemma untagged_fresh [simp]:
  "untagged (start_message i r (opt_prop ''name'' v) t)" "untagged (start_message i r [] t)" "untagged (activity_message ev)"
  "untagged (append_content ev m) = untagged m"
  by (simp_all add: start_message_def activity_message_def untagged_def append_content_def jget_jset applyEventMetadata_jget)

lemma has_own_present [simp]: "has_own (present_prop k v) k' \<longleftrightarrow> k' = k \<and> \<not> nullish v"
  by (simp add: present_prop_def)

lemma rev_present [simp]: "rev (present_prop k v) = present_prop k v"
  by (simp add: present_prop_def)

lemma untagged_tool_message [simp]: "untagged (tool_message ev base)"
  by (auto simp: tool_message_def untagged_def applyEventMetadata_jget Let_def oget_spread)

lemma untagged_replaced [simp]: "untagged (replaced_activity ev m)"
  by (auto simp: replaced_activity_def untagged_def Let_def oget_spread nullish_def)

lemma list_all_update: "list_all P xs \<Longrightarrow> (n < length xs \<Longrightarrow> P v) \<Longrightarrow> list_all P (xs[n := v])"
  by (cases "n < length xs") (auto simp: list_all_length nth_list_update)

lemma list_all_nth: "list_all P xs \<Longrightarrow> n < length xs \<Longrightarrow> P (xs ! n)"
  by (simp add: list_all_length)

lemma clean_open:
  "open_message fresh ev ms = Some l \<Longrightarrow> untagged fresh \<Longrightarrow> list_all untagged ms \<Longrightarrow> list_all untagged l"
  by (auto simp: open_message_def intro!: list_all_update dest: list_all_nth find_index_Some split: option.splits if_splits)

lemma clean_update_call:
  assumes "list_all untagged ms"
  shows "list_all untagged (update_call nc tc ms)"
  using assms by (auto simp: update_call_def set_call_def intro!: list_all_update dest: list_all_nth)

lemma clean_attach:
  assumes "list_all untagged ms"
  shows "list_all untagged (attach_call ev ms)"
proof -
  obtain n ms' where r: "resolveOrCreateAssistantMessage ms (field ev ''parentMessageId'') (field ev ''toolCallId'') = (n, ms')"
    by (cases "resolveOrCreateAssistantMessage ms (field ev ''parentMessageId'') (field ev ''toolCallId'')")
  have all: "list_all untagged ms'" using r assms
    by (auto simp: resolveOrCreateAssistantMessage_def Let_def untagged_def split: option.splits if_splits)
  moreover have "untagged (ms' ! n)" using all resolve_facts(1) [OF r] by (rule list_all_nth)
  ultimately show ?thesis
    by (auto simp: attach_call_def r Let_def nullish_def intro!: list_all_update untagged_tag)
qed

lemma clean_insert_result:
  "list_all untagged ms \<Longrightarrow> untagged tm \<Longrightarrow> list_all untagged (insert_result i tm ms)"
proof -
  assume ok: "list_all untagged ms" "untagged tm"
  obtain p where "insert_result i tm ms = take p ms @ [tm] @ drop p ms" using insert_result_placed by blast
  moreover have "x \<in> set ms" if "x \<in> set (take p ms) \<union> set (drop p ms)" for x
    using that set_take_subset [of p ms] set_drop_subset [of p ms] by blast
  ultimately show ?thesis using ok unfolding list_all_iff by auto
qed

lemma clean_set_at: "list_all untagged ms \<Longrightarrow> untagged v \<Longrightarrow> list_all untagged (set_at n v ms)"
  by (simp add: set_at_def list_all_update) (simp add: untagged_def list_all_iff)

lemma clean_put_activity:
  assumes "list_all untagged ms"
  shows "list_all untagged (fst (put_activity ev ex ms))"
  using assms
  by (auto simp: put_activity_def merge_at_def Let_def intro!: list_all_update clean_set_at dest: list_all_nth
      split: option.split) (simp add: clean_set_at list_all_nth)+

lemma clean_patched: "jget m ''role'' = JStr r \<Longrightarrow> untagged m \<Longrightarrow> untagged (patched_activity ev doc m)"
  by (cases m) (auto simp: patched_activity_def untagged_def own_props_def oget_spread)

lemma clean_missing: "list_all untagged ms \<Longrightarrow> list_all untagged (add_missing raws ms)"
  by (induction raws ms rule: add_missing.induct) (auto simp: Let_def)

lemma snapshot_get_in: "snapshot_get new i = Some m \<Longrightarrow> m \<in> set new"
  by (auto simp: snapshot_get_def dest!: map_of_SomeD)

lemma clean_merge:
  assumes "list_all untagged new" "list_all untagged ms"
  shows "list_all untagged (merge_snapshot ev new ms)"
proof -
  let ?f = "\<lambda>m. case snapshot_get new (jget m ''id'') of Some m' \<Rightarrow> m' | None \<Rightarrow> m"
  have "untagged (?f m)" if "m \<in> set ms" for m
    using assms that snapshot_get_in [of new] by (auto simp: list_all_iff split: option.split)
  then have "list_all untagged (map ?f (filter Q ms) @ filter R new)" for Q R
    using assms(1) by (auto simp: list_all_iff simp del: option.case_distrib)
  then show ?thesis
    unfolding merge_snapshot_def Let_def list_all_iff mset_eq_setD [OF keep_mset] by blast
qed

lemma clean_encrypted: "set_encrypted ev ms = Some l \<Longrightarrow> list_all untagged ms \<Longrightarrow> list_all untagged l"
  by (auto simp: set_encrypted_def Let_def clean_update_call intro!: list_all_update dest: list_all_nth
      split: option.splits if_splits)


subsubsection \<open>The handlers\<close>

lemma clean_messages: "clean rs \<Longrightarrow> list_all untagged (messages rs)"
  by (simp add: clean_def)

lemma clean_nth: "clean rs \<Longrightarrow> n < length (messages rs) \<Longrightarrow> untagged (messages rs ! n)"
  by (simp add: clean_def list_all_nth)

lemma clean_found: "clean rs \<Longrightarrow> find_message i (messages rs) = Some n \<Longrightarrow> untagged (messages rs ! n)"
  using find_index_Some [of _ "messages rs" n] by (auto intro: clean_nth)

lemma clean_at: "clean rs \<Longrightarrow> untagged v \<Longrightarrow> clean (set_messages ((messages rs)[n := v]) rs)"
  by (simp add: clean_set clean_messages list_all_update)

lemma clean_again: "clean rs \<Longrightarrow> clean (set_messages (messages rs) rs)"
  by (simp add: clean_set clean_messages)

lemma clean_state: "clean rs \<Longrightarrow> clean (applyMutation None st rs)"
  by (rule clean_mutation) auto

lemma clean_text_handlers:
  assumes "clean rs" "list_all clean_subscriber (subscribers env)"
  shows "emits_clean (ap_hook_only h env rs ev)" "emits_clean (ap_text_message_start env rs ev)"
    "emits_clean (ap_reasoning_message_start env rs ev)"
    "emits_clean (ap_state_snapshot env rs ev)" "emits_clean (ap_state_delta env rs ev)"
    "emits_clean (ap_messages_snapshot env rs ev)" "emits_clean (ap_run_started env rs ev)"
    "emits_clean (ap_run_finished env rs ev)" "emits_clean (ap_reasoning_encrypted_value env rs ev)"
  unfolding ap_hook_only_def ap_text_message_start_def ap_reasoning_message_start_def ap_state_snapshot_def
    ap_state_delta_def ap_messages_snapshot_def ap_run_started_def ap_run_finished_def ap_reasoning_encrypted_value_def
  by (rule clean_hook_then [OF assms],
      auto simp: Let_def list_all_iff [of _ "map _ _"] intro!: emits_clean_emit clean_set clean_interrupts clean_state clean_merge clean_missing
        intro: clean_messages clean_open clean_encrypted split: option.split jsval.split)+

lemma clean_content:
  assumes "clean rs" "list_all clean_subscriber (subscribers env)"
  shows "emits_clean (ap_content h env rs ev)"
proof (cases "find_message (field ev ''messageId'') (messages rs)")
  case (Some n)
  have content: "clean (set_messages ((messages rs1)[n := append_content ev (messages rs1 ! n)]) rs1)"
    if "clean rs1" for rs1 :: "'a rstate"
    using that by (intro clean_set list_all_update) (auto intro: clean_messages clean_nth)
  from Some assms(1) show ?thesis
    by (auto simp: ap_content_def intro!: clean_hook_then [OF assms] emits_clean_emit clean_again content)
qed (simp add: ap_content_def assms(1))

lemma clean_end:
  assumes "clean rs" "list_all clean_subscriber (subscribers env)"
  shows "emits_clean (ap_end h env rs ev)"
proof (cases "find_message (field ev ''messageId'') (messages rs)")
  case (Some n)
  with assms(1) show ?thesis
    by (auto simp: ap_end_def Let_def clean_found
        intro!: clean_hook_then [OF assms] clean_notify_then clean_again clean_at)
qed (simp add: ap_end_def assms(1))

lemma clean_calls:
  assumes "clean rs" "list_all clean_subscriber (subscribers env)"
  shows "emits_clean (ap_tool_call_start env rs ev)" "emits_clean (ap_tool_call_args env rs ev)"
    "emits_clean (ap_tool_call_end env rs ev)"
  using assms(1)
  by (auto simp: ap_tool_call_start_def ap_tool_call_args_def ap_tool_call_end_def Let_def clean_again
      intro!: clean_hook_then [OF assms] clean_notify_then emits_clean_emit clean_set clean_update_call clean_attach clean_messages
      split: option.split prod.split)

lemma clean_activities:
  assumes "clean rs" "list_all clean_subscriber (subscribers env)"
  shows "emits_clean (ap_activity_snapshot env rs ev)" "emits_clean (ap_activity_delta env rs ev)"
proof -
  let ?ex = "map_option (\<lambda>n. (n, messages rs ! n)) (find_message (field ev ''messageId'') (messages rs))"
  have "emits_clean (let (ms', created) = put_activity ev ?ex (messages rs1); rs2 = set_messages ms' rs1
      in case created of Some m \<Rightarrow> andThen (notify env OnNewMessage ev [m] rs2) emit | None \<Rightarrow> emit rs2)"
    if "clean rs1" for rs1
  proof -
    have "clean (set_messages (fst (put_activity ev ?ex (messages rs1))) rs1)"
      using that by (intro clean_set clean_put_activity clean_messages)
    then show ?thesis by (auto simp: Let_def intro!: clean_notify_then split: prod.split option.split)
  qed
  with assms(1) show "emits_clean (ap_activity_snapshot env rs ev)"
    unfolding ap_activity_snapshot_def Let_def [of ?ex]
    by (intro clean_hook_then [OF assms]) auto
  show "emits_clean (ap_activity_delta env rs ev)"
  proof (cases "find_message (field ev ''messageId'') (messages rs)")
    case (Some n)
    let ?m = "messages rs ! n"
    obtain merged changed where eq: "applyEventMetadata ?m ev = (merged, changed)" by (cases "applyEventMetadata ?m ev")
    have m: "untagged merged" using clean_found [OF assms(1) Some] untagged_metadata [of ?m ev] eq by simp
    have p: "untagged (patched_activity ev doc merged)" if "jget ?m ''role'' = JStr ''activity''" for doc
      using that m applyEventMetadata_jget [of ?m ev "''role''"] eq
      by (intro clean_patched [of _ "''activity''"]) simp_all
    have at: "clean (set_messages (set_at n v (messages rs2)) rs2)" if "clean rs2" "untagged v" for v and rs2 :: "'a rstate"
      using that by (intro clean_set clean_set_at clean_messages)
    have stored: "clean (if changed then set_messages (if b then messages rs1 else (messages rs1)[n := merged]) rs1 else rs1)"
      if "clean rs1" for b and rs1 :: "'a rstate"
      using that m by (simp add: clean_again clean_at)
    show ?thesis
    proof (cases "jget ?m ''role'' = JStr ''activity''")
      case True
      have "emits_clean (let rs2 = (if changed then set_messages (if replaced h then messages rs1 else (messages rs1)[n := merged]) rs1 else rs1)
          in case q of Some doc \<Rightarrow> emit (set_messages (set_at n (patched_activity ev doc merged) (messages rs2)) rs2) | None \<Rightarrow> emit rs2)"
        if "clean rs1" for rs1 :: "'a rstate" and h :: hook_outcome and q
        using at [OF stored [OF that] p [OF True]] stored [OF that] unfolding Let_def by (cases q) simp_all
      with Some True assms(1) show ?thesis
        by (auto simp: ap_activity_delta_def eq Let_def [of "messages rs ! n"] Let_def [of "jget _ _"] Let_def [of "field _ _"]
            intro!: clean_hook_then [OF assms])
    qed (use Some assms(1) in \<open>simp add: ap_activity_delta_def\<close>)
  qed (simp add: ap_activity_delta_def assms(1))
qed

lemma clean_result:
  assumes "clean rs" "list_all clean_subscriber (subscribers env)"
  shows "emits_clean (ap_tool_call_result env rs ev)"
proof -
  have "emits_clean (let rs2 = rs1\<lparr>answeredToolCallIds := a\<rparr>; ms = messages rs2
      in case find_index (is_tool_result ev) ms of
           Some n \<Rightarrow> emit (set_messages (ms[n := tool_message ev (own_props (ms ! n))]) rs2)
         | None \<Rightarrow>
             (let toolMessage = tool_message ev [];
                  ms' = insert_result (field ev ''toolCallId'') toolMessage ms
              in andThen (notify env OnNewMessage ev [toolMessage] (rs2\<lparr>messages := ms'\<rparr>))
                   (\<lambda>rs3. emit (set_messages ms' rs3))))" if "clean rs1" for rs1 a
  proof -
    let ?ms = "insert_result (field ev ''toolCallId'') (tool_message ev []) (messages rs1)"
    have ins: "list_all untagged ?ms" using that by (simp add: clean_insert_result clean_messages)
    then have "clean (rs1\<lparr>answeredToolCallIds := a, messages := ?ms\<rparr>)"
      using that by (simp add: clean_def)
    then show ?thesis using ins that
      by (auto simp: Let_def clean_set list_all_update clean_messages intro!: clean_notify_then emits_clean_emit clean_set list_all_update clean_messages split: option.split)
  qed
  with assms show ?thesis unfolding ap_tool_call_result_def
    by (intro clean_hook_then [OF assms]) auto
qed

lemma dispatch_clean:
  assumes "clean rs" "list_all clean_subscriber (subscribers env)"
  shows "emits_clean (apply_dispatch env rs ev)"
  using assms(1)
  by (simp add: apply_dispatch_def ap_text_message_content_def ap_text_message_end_def ap_reasoning_message_content_def
      ap_reasoning_message_end_def clean_text_handlers [OF assms] clean_content [OF assms] clean_end [OF assms]
      clean_calls [OF assms] clean_activities [OF assms] clean_result [OF assms] split: event_type.split)


text \<open>The reducer honours the stage contract with any clean subscribers.\<close>

lemma apply_contract:
  assumes "list_all clean_subscriber (subscribers env)"
  shows "stage_contract (apply_step env) clean clean_update"
proof
  fix rs ev rs' us assume "clean rs" and step: "apply_step env rs ev = Inr (rs', us)"
  then have "emits_clean (apply_step env rs ev)" unfolding apply_step_def
    by (intro clean_hook_then [OF _ assms]) (simp_all add: dispatch_clean assms)
  with step show "clean rs'" "list_all clean_update us" by (simp_all add: emits_clean_def)
qed

subsection \<open>Snapshots\<close>

lemma snapshot_get_iff: "distinct (map (\<lambda>m. jget m ''id'') new) \<Longrightarrow>
   snapshot_get new i = Some m \<longleftrightarrow> m \<in> set new \<and> jget m ''id'' = i"
proof -
  assume d: "distinct (map (\<lambda>m. jget m ''id'') new)"
  have "map_of (rev (map (\<lambda>m. (jget m ''id'', m)) new)) i = Some m \<longleftrightarrow> (i, m) \<in> set (map (\<lambda>m. (jget m ''id'', m)) new)"
    using d by (subst map_of_eq_Some_iff) (auto simp: rev_map [symmetric] comp_def)
  then show ?thesis by (auto simp: snapshot_get_def)
qed

lemma snapshot_get_None: "snapshot_get new i = None \<longleftrightarrow> i \<notin> (\<lambda>m. jget m ''id'') ` set new"
  by (simp add: snapshot_get_def map_of_eq_None_iff image_image)

lemma merge_snapshot_set:
  assumes d: "distinct (map (\<lambda>m. jget m ''id'') new)"
  shows "set (merge_snapshot ev new ms) = set new \<union>
    {m \<in> set ms. jget m ''id'' \<notin> (\<lambda>m. jget m ''id'') ` set new \<and> isPreservedClientOnly ev new m}"
proof -
  let ?id = "\<lambda>m. jget m ''id''"
  let ?f = "\<lambda>m. case snapshot_get new (?id m) of Some m' \<Rightarrow> m' | None \<Rightarrow> m"
  let ?keep = "\<lambda>m. snapshot_get new (?id m) \<noteq> None \<or> isPreservedClientOnly ev new m"
  have kept: "m \<in> set (map ?f (filter ?keep ms)) \<longleftrightarrow>
      m \<in> set new \<and> ?id m \<in> ?id ` set ms \<or>
      m \<in> set ms \<and> ?id m \<notin> ?id ` set new \<and> isPreservedClientOnly ev new m" for m
  proof
    assume "m \<in> set (map ?f (filter ?keep ms))"
    then obtain m0 where m0: "m0 \<in> set ms" "?keep m0" "m = ?f m0" by auto
    then show "m \<in> set new \<and> ?id m \<in> ?id ` set ms \<or>
        m \<in> set ms \<and> ?id m \<notin> ?id ` set new \<and> isPreservedClientOnly ev new m"
      by (cases "snapshot_get new (?id m0)") (auto simp: snapshot_get_None snapshot_get_iff [OF d])
  next
    assume "m \<in> set new \<and> ?id m \<in> ?id ` set ms \<or>
        m \<in> set ms \<and> ?id m \<notin> ?id ` set new \<and> isPreservedClientOnly ev new m"
    then obtain m0 where "m0 \<in> set ms" "?keep m0" "m = ?f m0"
    proof
      assume "m \<in> set new \<and> ?id m \<in> ?id ` set ms"
      then have m: "m \<in> set new" and "?id m \<in> ?id ` set ms" by blast+
      from this(2) obtain m0 where m0: "?id m = ?id m0" "m0 \<in> set ms" by (rule imageE)
      from m have "snapshot_get new (?id m) = Some m" by (simp add: snapshot_get_iff [OF d])
      then have "snapshot_get new (?id m0) = Some m" by (simp only: m0(1))
      with m0(2) show thesis by (intro that [of m0]) simp_all
    next
      assume m: "m \<in> set ms \<and> ?id m \<notin> ?id ` set new \<and> isPreservedClientOnly ev new m"
      then have "snapshot_get new (?id m) = None" by (simp add: snapshot_get_None)
      with m show thesis by (intro that [of m]) simp_all
    qed
    then show "m \<in> set (map ?f (filter ?keep ms))" by auto
  qed
  have "set (merge_snapshot ev new ms) = set (map ?f (filter ?keep ms)) \<union>
      {m \<in> set new. ?id m \<notin> ?id ` set (map ?f (filter ?keep ms))}"
    unfolding merge_snapshot_def Let_def mset_eq_setD [OF keep_mset] by auto
  also have "\<dots> = set new \<union> {m \<in> set ms. ?id m \<notin> ?id ` set new \<and> isPreservedClientOnly ev new m}"
    (is "?K \<union> ?N = _")
  proof -
    have "m \<in> ?K" if "m \<in> set new" "m \<notin> ?N" for m
    proof -
      from that have "?id m \<in> ?id ` ?K" by blast
      then obtain m1 where m1: "?id m = ?id m1" "m1 \<in> ?K" by (rule imageE)
      have "?id m1 \<in> ?id ` set new" using imageI [OF that(1), of ?id] m1(1) by simp
      with m1(2) have "m1 \<in> set new" "?id m1 \<in> ?id ` set ms" unfolding kept by auto
      with m1(1) kept that(1) show ?thesis by simp
    qed
    moreover have "m \<in> set new \<or> m \<in> set ms \<and> ?id m \<notin> ?id ` set new \<and> isPreservedClientOnly ev new m"
      if "m \<in> ?K" for m using that unfolding kept by blast
    moreover have "m \<in> ?K" if "m \<in> set ms \<and> ?id m \<notin> ?id ` set new \<and> isPreservedClientOnly ev new m" for m
      using that unfolding kept by blast
    ultimately show ?thesis by blast
  qed
  finally show ?thesis .
qed

end
