(* ===== verification/ApplySpec.thy ===== *)
theory ApplySpec
  imports ApplyTags
begin

text \<open>
  What the reducer promises its caller: the updates reproduce the messages, streams do not mix, replayed starts
  and late results do no harm, snapshots are authoritative, and the pending tool calls are counted right.
\<close>

lemma defaultApplyEvents_Inr:
  assumes "defaultApplyEvents env rs es = (us, Inr rs')"
  obtains os where "run_stage (apply_step env) rs es = (os, Inr rs')" "us = os \<or> us = [(None, None)] \<and> os = []"
  using assms by (auto simp: defaultApplyEvents_def split: prod.splits sum.splits if_splits)

lemma result_step:
  assumes "subscribers env = []" "ev_type ev = TOOL_CALL_RESULT"
  shows "\<exists>rs' us. apply_step env rs ev = Inr (rs', us) \<and>
    messages rs' = (case find_index (is_tool_result ev) (messages rs) of
        Some n \<Rightarrow> (messages rs)[n := tool_message ev (own_props (messages rs ! n))]
      | None \<Rightarrow> insert_result (field ev ''toolCallId'') (tool_message ev []) (messages rs))"
  using assms
  by (auto simp: apply_step_plain apply_dispatch_def ap_tool_call_result_def Let_def emit_def emitUpdates_def
      split: option.split)

lemma pending_filter:
  assumes "answeredToolCallIds rs = a" "runToolCallIds rs = r"
    "jget (field ev ''outcome'') ''type'' = JStr ''success'' \<Longrightarrow>
       arr_items (jget (field ev ''outcome'') ''pendingToolCallIds'') = []"
  shows "pendingToolCallIdsOf rs ev = filter (\<lambda>i. i \<notin> set a) r"
  using assms by (simp add: pendingToolCallIdsOf_def Let_def)

text \<open>An environment for concrete runs: no subscribers, and patches that always fail.\<close>

definition bare_env :: "unit renv" where
  "bare_env = \<lparr>test_env = False, subscribers = [], applyPatch = \<lambda>d p. None\<rparr>"

lemma bare_env_subscribers [simp]: "subscribers bare_env = []"
  by (simp add: bare_env_def)

subsection \<open>Theorems\<close>

text \<open>
  C13. The updates are a faithful change log. Whatever the events and whatever the subscribers return, an
  observer that starts from the initial messages and replaces its copy with each emitted message
  list holds, when the stream completes, exactly the reducer's messages.
\<close>

theorem apply_updates_reproduce:
  assumes "defaultApplyEvents env (init_rstate ms st interrupts w) es = (us, Inr rs')"
  shows "messages rs' = observe ms us"
proof -
  from assms obtain os where os: "run_stage (apply_step env) (init_rstate ms st interrupts w) es = (os, Inr rs')"
    "us = os \<or> us = [(None, None)] \<and> os = []" by (rule defaultApplyEvents_Inr)
  from run_observed [OF os(1)] have "messages rs' = observe ms os" by (simp add: init_rstate_def)
  with os(2) show ?thesis by (auto simp: observe_def)
qed

theorem apply_updates_reproduce_witness:
  "observe [] (fst (defaultApplyEvents \<lparr>test_env = False, subscribers = [\<lambda>call ms st w. (w, Nothing)], applyPatch = \<lambda>d p. None\<rparr>
      (init_rstate [] JUndef [] ())
      [mk_event TEXT_MESSAGE_START [(''messageId'', JStr ''m'')],
       mk_event TEXT_MESSAGE_CONTENT [(''messageId'', JStr ''m''), (''delta'', JStr ''hi'')]])) =
   [JObj [(''id'', JStr ''m''), (''role'', JStr ''assistant''), (''content'', JStr ''hi'')]]"
proof -
  let ?env = "\<lparr>test_env = False, subscribers = [\<lambda>call ms st w. (w, Nothing)], applyPatch = \<lambda>d p. None\<rparr> :: unit renv"
  let ?es = "[mk_event TEXT_MESSAGE_START [(''messageId'', JStr ''m'')],
       mk_event TEXT_MESSAGE_CONTENT [(''messageId'', JStr ''m''), (''delta'', JStr ''hi'')]]"
  let ?run = "defaultApplyEvents ?env (init_rstate [] JUndef [] ()) ?es"
  have "case snd ?run of Inl _ \<Rightarrow> False
    | Inr rs' \<Rightarrow> messages rs' = [JObj [(''id'', JStr ''m''), (''role'', JStr ''assistant''), (''content'', JStr ''hi'')]]"
    by code_simp
  then obtain rs' where r: "snd ?run = Inr rs'"
    "messages rs' = [JObj [(''id'', JStr ''m''), (''role'', JStr ''assistant''), (''content'', JStr ''hi'')]]"
    by (cases "snd ?run") auto
  have "?run = (fst ?run, Inr rs')" by (metis prod.collapse r(1))
  from apply_updates_reproduce [OF this] r(2) show ?thesis by simp
qed

text \<open>
  C14. Streams do not mix. Content events for any number of open messages, of text and of reasoning, interleaved
  in any order, are all applied, and each message ends with its own deltas appended in order, with the
  metadata of its own events merged in order, and with every other field as it was.
\<close>

theorem content_streams:
  assumes "subscribers env = []" "list_all is_content es" "text_messages ms"
  shows "\<exists>us rs'. defaultApplyEvents env (init_rstate ms st interrupts w) es = (us, Inr rs') \<and>
    list_all2 (\<lambda>m m'. streamed (addressed (jget m ''id'') es) m m') ms (messages rs')"
  using content_run [OF assms(1,2), of "init_rstate ms st interrupts w"] assms(3)
  by (auto simp: defaultApplyEvents_def init_rstate_def)

theorem content_streams_witness:
  "\<exists>us rs'. defaultApplyEvents bare_env
      (init_rstate [JObj [(''id'', JStr ''a''), (''content'', JStr [])], JObj [(''id'', JStr ''b'')]] JUndef [] ())
      [mk_event TEXT_MESSAGE_CONTENT [(''messageId'', JStr ''a''), (''delta'', JStr ''x'')],
       mk_event REASONING_MESSAGE_CONTENT [(''messageId'', JStr ''b''), (''delta'', JStr ''y'')],
       mk_event TEXT_MESSAGE_CONTENT [(''messageId'', JStr ''a''), (''delta'', JStr ''z'')]] = (us, Inr rs') \<and>
    map content_text (messages rs') = [''xz'', ''y'']"
proof -
  let ?ms = "[JObj [(''id'', JStr ''a''), (''content'', JStr [])], JObj [(''id'', JStr ''b'')]]"
  let ?es = "[mk_event TEXT_MESSAGE_CONTENT [(''messageId'', JStr ''a''), (''delta'', JStr ''x'')],
       mk_event REASONING_MESSAGE_CONTENT [(''messageId'', JStr ''b''), (''delta'', JStr ''y'')],
       mk_event TEXT_MESSAGE_CONTENT [(''messageId'', JStr ''a''), (''delta'', JStr ''z'')]]"
  obtain us rs' where r: "defaultApplyEvents bare_env
      (init_rstate ?ms JUndef [] ()) ?es = (us, Inr rs')"
    "list_all2 (\<lambda>m m'. streamed (addressed (jget m ''id'') ?es) m m') ?ms (messages rs')"
    using content_streams [of bare_env ?es ?ms JUndef "[]" "()"]
    by (auto simp: is_content_def text_messages_def)
  from r(2) obtain m1 m2 where m: "messages rs' = [m1, m2]" "streamed (addressed (JStr ''a'') ?es) (?ms ! 0) m1"
    "streamed (addressed (JStr ''b'') ?es) (?ms ! 1) m2" by (auto simp: list_all2_Cons1)
  have "content_text (?ms ! 0) @ delta_text (addressed (JStr ''a'') ?es) = ''xz''"
    "content_text (?ms ! 1) @ delta_text (addressed (JStr ''b'') ?es) = ''y''" by code_simp+
  with m have "map content_text (messages rs') = [''xz'', ''y'']" by (simp only: streamed_def list.map)
  with r(1) show ?thesis by (intro exI conjI)
qed

text \<open>
  Applying a tool call start is idempotent: after a start was applied, applying the same event again changes no
  field of the reducer's state. So a replayed start adds no second entry, no stray
  assistant message, and leaves the arguments streamed so far alone.
\<close>

theorem tool_call_start_idempotent:
  assumes "subscribers env = []" "ev_type ev = TOOL_CALL_START" "field ev ''toolCallId'' \<noteq> JUndef"
    "wf_metadata (field ev ''metadata'')"
    "\<forall>m \<in> set (messages rs). \<forall>tc \<in> set (arr_items (jget m ''toolCalls'')). typed_call tc"
    "apply_step env rs ev = Inr (rs1, us)"
  shows "\<exists>us2. apply_step env rs1 ev = Inr (rs1, us2)"
  using assms by (rule start_replayed)

theorem tool_call_start_idempotent_witness:
  "\<exists>rs1 us us2. apply_step bare_env (init_rstate [] JUndef [] ())
      (mk_event TOOL_CALL_START [(''toolCallId'', JStr ''c''), (''toolCallName'', JStr ''search'')]) = Inr (rs1, us) \<and>
    apply_step bare_env rs1
      (mk_event TOOL_CALL_START [(''toolCallId'', JStr ''c''), (''toolCallName'', JStr ''search'')]) = Inr (rs1, us2) \<and>
    length (messages rs1) = 1"
proof -
  let ?env = "bare_env"
  let ?ev = "mk_event TOOL_CALL_START [(''toolCallId'', JStr ''c''), (''toolCallName'', JStr ''search'')]"
  have "\<exists>rs1 us. apply_step ?env (init_rstate [] JUndef [] ()) ?ev = Inr (rs1, us) \<and> length (messages rs1) = 1"
    by (simp add: apply_step_plain apply_dispatch_def ap_tool_call_start_def Let_def find_call_def emit_def emitUpdates_def
        attach_call_def resolveOrCreateAssistantMessage_def init_rstate_def)
  then obtain rs1 us where r: "apply_step ?env (init_rstate [] JUndef [] ()) ?ev = Inr (rs1, us)" "length (messages rs1) = 1"
    by blast
  from tool_call_start_idempotent [OF _ _ _ _ _ r(1)] r show ?thesis by (auto simp: init_rstate_def)
qed

text \<open>
  C15. A tool result goes where a provider accepts it. A result that is in the list already (same message id and call id)
  is replaced in place. A new one is inserted: if some assistant message issued its call, behind such a
  message, with only tool, activity or non-object entries between and none directly behind; otherwise at the end.
\<close>

theorem tool_result_placement:
  assumes "subscribers env = []" "ev_type ev = TOOL_CALL_RESULT"
  shows "\<exists>rs' us. apply_step env rs ev = Inr (rs', us) \<and>
    (if \<exists>m \<in> set (messages rs). is_tool_result ev m
     then \<exists>n < length (messages rs). is_tool_result ev (messages rs ! n) \<and>
       messages rs' = (messages rs)[n := tool_message ev (own_props (messages rs ! n))]
     else \<exists>p \<le> length (messages rs). messages rs' = take p (messages rs) @ [tool_message ev []] @ drop p (messages rs) \<and>
       (if \<exists>m \<in> set (messages rs). issues (field ev ''toolCallId'') m
        then \<exists>k < p. issues (field ev ''toolCallId'') (messages rs ! k) \<and>
               (\<forall>j. k < j \<and> j < p \<longrightarrow> skipped (messages rs ! j)) \<and>
               (p < length (messages rs) \<longrightarrow> \<not> skipped (messages rs ! p))
        else p = length (messages rs)))"
proof -
  obtain rs' us where r: "apply_step env rs ev = Inr (rs', us)"
    "messages rs' = (case find_index (is_tool_result ev) (messages rs) of
        Some n \<Rightarrow> (messages rs)[n := tool_message ev (own_props (messages rs ! n))]
      | None \<Rightarrow> insert_result (field ev ''toolCallId'') (tool_message ev []) (messages rs))"
    using result_step [OF assms] by blast
  show ?thesis
  proof (cases "find_index (is_tool_result ev) (messages rs)")
    case None
    then have "\<not> (\<exists>m \<in> set (messages rs). is_tool_result ev m)" by (simp add: find_index_None)
    with r None insert_result_placed [of "messages rs" "field ev ''toolCallId''" "tool_message ev []"]
    show ?thesis by simp
  next
    case (Some n)
    then have n: "n < length (messages rs)" "is_tool_result ev (messages rs ! n)" using find_index_Some by blast+
    then have "\<exists>m \<in> set (messages rs). is_tool_result ev m" using nth_mem by blast
    with r Some n show ?thesis by auto
  qed
qed

theorem tool_result_placement_witness:
  "\<exists>rs' us. apply_step bare_env
      (init_rstate [JObj [(''id'', JStr ''a''), (''role'', JStr ''assistant'')]] JUndef [] ())
      (mk_event TOOL_CALL_RESULT [(''messageId'', JStr ''r''), (''toolCallId'', JStr ''c''), (''content'', JStr ''ok'')]) = Inr (rs', us) \<and>
    length (messages rs') = 2"
  using tool_result_placement [of bare_env
      "mk_event TOOL_CALL_RESULT [(''messageId'', JStr ''r''), (''toolCallId'', JStr ''c''), (''content'', JStr ''ok'')]"
      "init_rstate [JObj [(''id'', JStr ''a''), (''role'', JStr ''assistant'')]] JUndef [] ()"]
  by (auto simp: init_rstate_def is_tool_result_def issues_def issuedCallIds_def)


text \<open>
  C16. A snapshot of the messages is authoritative, except for what only the client holds. When the snapshot names its
  messages by distinct ids, the resulting list contains exactly the snapshot's messages and, of the earlier ones
  that it does not name, those activity and reasoning messages that the snapshot does not claim to cover.
\<close>

theorem messages_snapshot_contents:
  assumes "subscribers env = []" "ev_type ev = MESSAGES_SNAPSHOT" "field ev ''messages'' = JArr raw"
    "distinct (map (\<lambda>m. jget m ''id'') raw)"
  shows "\<exists>rs' us. apply_step env rs ev = Inr (rs', us) \<and>
    set (messages rs') = strip_message_tag ` set raw \<union>
      {m \<in> set (messages rs). jget m ''id'' \<notin> (\<lambda>m. jget m ''id'') ` set raw \<and>
         isPreservedClientOnly ev (map strip_message_tag raw) m}"
proof -
  have id: "jget (strip_message_tag m) ''id'' = jget m ''id''" for m
    by (simp add: strip_message_tag_def jget_jdel)
  from assms(4) have "distinct (map (\<lambda>m. jget m ''id'') (map strip_message_tag raw))" by (simp add: comp_def id)
  from merge_snapshot_set [OF this, of ev "messages rs"] assms(1-3) show ?thesis
    by (simp add: apply_step_plain apply_dispatch_def ap_messages_snapshot_def emit_def emitUpdates_def image_image id)
qed

theorem messages_snapshot_contents_witness:
  "\<exists>rs' us. apply_step bare_env
      (init_rstate [JObj [(''id'', JStr ''r''), (''role'', JStr ''reasoning'')], JObj [(''id'', JStr ''u''), (''role'', JStr ''user'')]] JUndef [] ())
      (mk_event MESSAGES_SNAPSHOT [(''messages'', JArr [JObj [(''id'', JStr ''s''), (''role'', JStr ''assistant'')]])]) = Inr (rs', us) \<and>
    set (messages rs') = {JObj [(''id'', JStr ''s''), (''role'', JStr ''assistant'')], JObj [(''id'', JStr ''r''), (''role'', JStr ''reasoning'')]}"
proof -
  let ?r = "JObj [(''id'', JStr ''r''), (''role'', JStr ''reasoning'')]" and ?u = "JObj [(''id'', JStr ''u''), (''role'', JStr ''user'')]"
    and ?s = "JObj [(''id'', JStr ''s''), (''role'', JStr ''assistant'')]"
  let ?ev = "mk_event MESSAGES_SNAPSHOT [(''messages'', JArr [?s])]"
  have "isPreservedClientOnly ?ev [?s] ?r" "\<not> isPreservedClientOnly ?ev [?s] ?u" "strip_message_tag ?s = ?s"
    by code_simp+
  then have "strip_message_tag ` set [?s] \<union> {m \<in> set [?r, ?u]. jget m ''id'' \<notin> (\<lambda>m. jget m ''id'') ` set [?s] \<and>
      isPreservedClientOnly ?ev (map strip_message_tag [?s]) m} = {?s, ?r}"
    by auto
  with messages_snapshot_contents [of bare_env ?ev "[?s]"
      "init_rstate [?r, ?u] JUndef [] ()"]
  show ?thesis by (simp only: init_rstate_def rstate.simps) simp
qed

text \<open>
  Unattributed is one thing, not two: an event may say \<^verbatim>\<open>null\<close> for the subagent, but with subscribers that do not write it
  themselves no message, no pending interrupt and no emitted message list ever carries a null attribution.
\<close>

theorem null_attribution_never_stored:
  assumes "list_all clean_subscriber (subscribers env)" "list_all untagged ms" "list_all untagged interrupts"
    "defaultApplyEvents env (init_rstate ms st interrupts w) es = (us, r)"
  shows "list_all clean_update us \<and>
    (\<forall>rs'. r = Inr rs' \<longrightarrow> list_all untagged (messages rs') \<and> list_all untagged (pendingInterrupts rs'))"
proof -
  let ?rs = "init_rstate ms st interrupts w"
  have init: "clean ?rs" using assms(2,3) by (simp add: clean_def init_rstate_def)
  obtain os r' where run: "run_stage (apply_step env) ?rs es = (os, r')" by (cases "run_stage (apply_step env) ?rs es")
  have "list_all clean_update os"
    using stage_contract.run_out [OF apply_contract [OF assms(1)] init, of es] run by simp
  moreover have "clean rs'" if "r' = Inr rs'" for rs'
    using stage_contract.run_inv [OF apply_contract [OF assms(1)] init] run that by blast
  ultimately show ?thesis using assms(4) run
    by (auto simp: defaultApplyEvents_def clean_def clean_update_def split: sum.splits if_splits)
qed

theorem null_attribution_never_stored_witness:
  "list_all clean_update (fst (defaultApplyEvents bare_env
      (init_rstate [] JUndef [] ())
      [mk_event TEXT_MESSAGE_START [(''messageId'', JStr ''m''), (''subagentRunId'', JNull)]]))"
  using null_attribution_never_stored [of bare_env "[]" "[]" JUndef "()"
      "[mk_event TEXT_MESSAGE_START [(''messageId'', JStr ''m''), (''subagentRunId'', JNull)]]"]
  by (cases "defaultApplyEvents bare_env (init_rstate [] JUndef [] ())
      [mk_event TEXT_MESSAGE_START [(''messageId'', JStr ''m''), (''subagentRunId'', JNull)]]") auto

text \<open>
  C18. The pending tool calls of a run are counted from the run alone: for a run that started with this event and whose
  outcome names none itself, the ids reported at the end are those started since, each once and in the order
  first started, less the ones that received a result.
\<close>

theorem pending_tool_calls:
  assumes "subscribers env = []" "ev_type start = RUN_STARTED" "list_all (\<lambda>ev. ev_type ev \<noteq> RUN_STARTED) es"
    "run_stage (apply_step env) rs (start # es) = (us, Inr rs')"
    "arr_items (jget (field fin ''outcome'') ''pendingToolCallIds'') = []"
  shows "pendingToolCallIdsOf rs' fin =
    filter (\<lambda>i. i \<notin> (\<lambda>ev. field ev ''toolCallId'') ` set (filter (\<lambda>ev. ev_type ev = TOOL_CALL_RESULT) es))
      (as_set (map (\<lambda>ev. field ev ''toolCallId'') (filter (\<lambda>ev. ev_type ev = TOOL_CALL_START) es)))"
proof -
  from assms(4) obtain rs1 us1 us2 where step: "apply_step env rs start = Inr (rs1, us1)"
    and rest: "run_stage (apply_step env) rs1 es = (us2, Inr rs')" by (rule run_stage_Cons_Inr)
  from apply_tally [OF assms(1) step] assms(2) have "runToolCallIds rs1 = []" "answeredToolCallIds rs1 = []" by simp_all
  with run_tally [OF assms(1) rest assms(3)] pending_filter [OF refl refl, of fin rs'] assms(5) show ?thesis
    by (simp add: as_set_def)
qed

theorem pending_tool_calls_witness:
  "\<exists>us rs'. run_stage (apply_step bare_env) (init_rstate [] JUndef [] ())
      [mk_event RUN_STARTED [], mk_event TOOL_CALL_START [(''toolCallId'', JStr ''a'')],
       mk_event TOOL_CALL_START [(''toolCallId'', JStr ''b'')],
       mk_event TOOL_CALL_RESULT [(''toolCallId'', JStr ''a'')]] = (us, Inr rs') \<and>
    pendingToolCallIdsOf rs' (mk_event RUN_FINISHED []) = [JStr ''b'']"
proof -
  let ?env = "bare_env"
  let ?es = "[mk_event TOOL_CALL_START [(''toolCallId'', JStr ''a'')],
       mk_event TOOL_CALL_START [(''toolCallId'', JStr ''b'')],
       mk_event TOOL_CALL_RESULT [(''toolCallId'', JStr ''a'')]]"
  let ?run = "run_stage (apply_step ?env) (init_rstate [] JUndef [] ()) (mk_event RUN_STARTED [] # ?es)"
  have "case snd ?run of Inl _ \<Rightarrow> False | Inr _ \<Rightarrow> True" by code_simp
  then obtain rs' where "snd ?run = Inr rs'" by (cases "snd ?run") auto
  then have run: "?run = (fst ?run, Inr rs')" by (metis prod.collapse)
  from pending_tool_calls [OF _ _ _ run, of "mk_event RUN_FINISHED []"]
  have "pendingToolCallIdsOf rs' (mk_event RUN_FINISHED []) = [JStr ''b'']" by (simp add: as_set_def set_add_def)
  with run show ?thesis by blast
qed

end
