(* ===== verification/Pipeline.thy ===== *)
theory Pipeline
  imports Agent VerifySpec ChunksProps ApplySpec
begin

text \<open>
  The stages composed: what chunk expansion emits for a stream of the parent agent is what the
  verifier accepts, what comes through both holds no chunk, and the agent's own messages follow the reducer's.
\<close>

subsection \<open>Synthesized events as the verifier sees them\<close>

fun kind_entity :: "stream_kind \<Rightarrow> jsval \<Rightarrow> entity" where
  "kind_entity KText i = TextMessage i"
| "kind_entity KTool i = ToolCall i"
| "kind_entity KReasoning i = ReasoningMessage i"

definition pending_entity :: "pending_stream \<Rightarrow> entity" where
  "pending_entity p = kind_entity (pending_kind p) (pendingEntityId p)"

lemma sym_start: "ev_type e = start_type kind \<Longrightarrow>
    entity_sym x e = (if x = kind_entity kind (field e (missingIdFieldName kind)) then BOpen else BOther)"
  by (cases kind; cases x) (auto simp: sym_of_def)

lemma sym_content: "ev_type e = content_type kind \<Longrightarrow>
    entity_sym x e = (if x = kind_entity kind (field e (missingIdFieldName kind)) then BPart else BOther)"
  by (cases kind; cases x) (auto simp: sym_of_def)

lemma sym_end: "ev_type e = end_type kind \<Longrightarrow>
    entity_sym x e = (if x = kind_entity kind (field e (missingIdFieldName kind)) then BClose else BOther)"
  by (cases kind; cases x) (auto simp: sym_of_def)

lemma plain_types: "nullish (tag_of e) \<Longrightarrow>
    ev_type e \<in> {start_type kind, content_type kind, end_type kind} \<Longrightarrow> plain_event e"
  by (cases kind) (auto simp: plain_event_def)

text \<open>The verifier in the middle of a run of the parent agent, with exactly the entities of \<open>opens\<close> open.\<close>

definition running :: "vstate \<Rightarrow> entity set \<Rightarrow> bool" where
  "running st opens \<longleftrightarrow> verify_inv st \<and> plain_state st \<and> phase_of st = Running \<and>
     (\<forall>x. entity_open st x \<longleftrightarrow> x \<in> opens)"

lemma running_emit:
  assumes run: "running st opens" and ev: "plain_event ev"
    "ev_type ev \<notin> {RUN_STARTED, RUN_FINISHED, RUN_ERROR}"
    and br: "\<And>x. bracket_step (x \<in> opens) (entity_sym x ev) = Some (x \<in> opens')"
  shows "\<exists>st'. verify_step st ev = Inr (st', [strip_null_tag ev]) \<and> running st' opens'"
proof -
  have st: "verify_inv st" "plain_state st" "phase_of st = Running" "\<And>x. entity_open st x \<longleftrightarrow> x \<in> opens"
    using run by (auto simp: running_def)
  have "\<exists>st'. verify_step st ev = Inr (st', [strip_null_tag ev])"
    by (rule verify_step_plain) (use st ev br in auto)
  then obtain st' where step: "verify_step st ev = Inr (st', [strip_null_tag ev])" by blast
  have "verify_inv st'" "plain_state st'" "phase_of st' = Running"
    using verify_step_inv [OF st(1) step] verify_step_plain_state [OF step ev(1) st(2)]
      verify_step_phase [OF st(1) step] st(3) ev(2) by auto
  moreover have "entity_open st' x \<longleftrightarrow> x \<in> opens'" for x
    using verify_step_bracket [OF st(1) step, of x] br [of x] st(4) by simp
  ultimately show ?thesis using step by (auto simp: running_def)
qed

lemma emit_start:
  assumes "running st {}" "ev_type e = start_type kind" "nullish (tag_of e)"
  shows "\<exists>st'. verify_step st e = Inr (st', [strip_null_tag e]) \<and>
    running st' {kind_entity kind (field e (missingIdFieldName kind))}"
proof (rule running_emit [OF assms(1)])
  show "plain_event e" using assms by (auto intro: plain_types)
  show "ev_type e \<notin> {RUN_STARTED, RUN_FINISHED, RUN_ERROR}" using assms(2) by (cases kind) simp_all
qed (simp add: sym_start [OF assms(2)])

lemma emit_content:
  assumes "running st {kind_entity kind (field e (missingIdFieldName kind))}" "ev_type e = content_type kind"
    "nullish (tag_of e)"
  shows "\<exists>st'. verify_step st e = Inr (st', [strip_null_tag e]) \<and>
    running st' {kind_entity kind (field e (missingIdFieldName kind))}"
proof (rule running_emit [OF assms(1)])
  show "plain_event e" using assms by (auto intro: plain_types)
  show "ev_type e \<notin> {RUN_STARTED, RUN_FINISHED, RUN_ERROR}" using assms(2) by (cases kind) simp_all
qed (simp add: sym_content [OF assms(2)])

lemma emit_end:
  assumes "running st {kind_entity kind (field e (missingIdFieldName kind))}" "ev_type e = end_type kind"
    "nullish (tag_of e)"
  shows "\<exists>st'. verify_step st e = Inr (st', [strip_null_tag e]) \<and> running st' {}"
proof (rule running_emit [OF assms(1)])
  show "plain_event e" using assms by (auto intro: plain_types)
  show "ev_type e \<notin> {RUN_STARTED, RUN_FINISHED, RUN_ERROR}" using assms(2) by (cases kind) simp_all
qed (simp add: sym_end [OF assms(2)])

text \<open>A run of the verifier over a list of events, from one running state to another.\<close>

definition verifies :: "vstate \<Rightarrow> event list \<Rightarrow> vstate \<Rightarrow> bool" where
  "verifies st es st' \<longleftrightarrow> (\<exists>os. run_stage verify_step st es = (os, Inr st'))"

lemma verifies_Nil [simp]: "verifies st [] st' \<longleftrightarrow> st' = st"
  by (auto simp: verifies_def)

lemma verifies_append: "verifies st es st1 \<Longrightarrow> verifies st1 es' st2 \<Longrightarrow> verifies st (es @ es') st2"
  by (auto simp: verifies_def run_stage_append)

lemma verifies_single: "verify_step st e = Inr (st', os) \<Longrightarrow> verifies st [e] st'"
  by (simp add: verifies_def)

subsection \<open>The parent lane\<close>

definition parent_lane :: "lanes \<Rightarrow> bool" where
  "parent_lane ls \<longleftrightarrow> lanes_inv ls \<and> set (map fst ls) \<subseteq> {JUndef}"

definition lane_entities :: "lanes \<Rightarrow> entity set" where
  "lane_entities ls = {x. \<exists>p. map_of ls JUndef = Some p \<and> x = pending_entity p}"

lemma parent_resolve:
  assumes "parent_lane ls" "nullish (tag_of c)"
    and "resolveLane kind i (or_undef (tag_of c)) ls = Inr lane"
  shows "lane = JUndef"
proof -
  have keys: "\<And>k p. (k, p) \<in> set ls \<Longrightarrow> k = JUndef" using assms(1) by (auto simp: parent_lane_def)
  have "laneHolding kind i ls = Some k \<Longrightarrow> k = JUndef" for k i
    using assms(1) by (elim laneHolding_Some) (auto simp: parent_lane_def lanes_inv_def dest!: map_of_SomeD)
  moreover have "filter P ls = (k, p) # qs \<Longrightarrow> k = JUndef" for k p P qs
    using keys by (metis filter_is_subset list.set_intros(1) subsetD)
  ultimately show ?thesis
    using assms(2,3) by (auto simp: resolveLane_def or_undef_def split: if_splits option.splits list.splits)
qed

lemma parent_owner: "parent_lane ls \<Longrightarrow> map_of ls JUndef = Some p \<Longrightarrow> nullish (pending_owner p)"
  by (auto simp: parent_lane_def lanes_inv_def or_undef_def split: if_splits) (metis nullish_simps(1))

lemma synth_fields [simp]:
  "field (end_event p) (missingIdFieldName (pending_kind p)) = pendingEntityId p"
  "field (content_event kind c r p) (missingIdFieldName kind) = pendingEntityId p"
  "field (bare_content_event kind c r p) (missingIdFieldName kind) = pendingEntityId p"
  "tag_of (end_event p) = pending_owner p"
proof -
  show "field (content_event kind c r p) (missingIdFieldName kind) = pendingEntityId p"
    by (cases kind) (simp_all add: content_event_def oget_spread)
  show "field (bare_content_event kind c r p) (missingIdFieldName kind) = pendingEntityId p"
    by (cases kind) (simp_all add: bare_content_event_def oget_spread)
qed (cases p; simp)+


lemma synth_owner_nullish:
  assumes "nullish (tag_of c)" "nullish (pending_owner p)"
  shows "nullish (tag_of (content_event kind c (unrecognisedChunkProperties c kind) p))"
    "nullish (tag_of (bare_content_event kind c (unrecognisedChunkProperties c kind) p))"
  using assms
  by (cases kind; simp add: content_event_def bare_content_event_def oget_spread oget_remainder chunk_owner_def)+

text \<open>The opener with the remainder on it is still the opener.\<close>

lemma carried_start:
  assumes "nullish (tag_of c)" "field c (missingIdFieldName kind) \<noteq> JUndef" "p = opened_stream kind c"
    and e: "e = (if unrecognisedChunkProperties c kind = [] then start_event kind c p
         else start_event kind c p\<lparr>ev_props := spread (unrecognisedChunkProperties c kind) (ev_props (start_event kind c p))\<rparr>)"
  shows "ev_type e = start_type kind" "field e (missingIdFieldName kind) = field c (missingIdFieldName kind)"
    "nullish (tag_of e)"
proof -
  show "ev_type e = start_type kind" using e by simp
  show "field e (missingIdFieldName kind) = field c (missingIdFieldName kind)"
    using e assms(2,3) start_event_own [of kind c p "missingIdFieldName kind"]
    by (auto simp: carried_start_field simp del: field_upd_props)
  have "oget (unrecognisedChunkProperties c kind) ''subagentRunId'' = JUndef"
    by (cases kind) (simp_all add: oget_remainder)
  then show "nullish (tag_of e)" using e assms(1,3) by (auto simp: carried_start_field simp del: field_upd_props)
qed

lemma closing_emit:
  assumes "running st (lane_entities ls)" "parent_lane ls"
  shows "\<exists>st'. verifies st (fst (closeLane JUndef ls)) st' \<and> running st' {}"
proof (cases "map_of ls JUndef")
  case None
  with assms(1) show ?thesis by (auto simp: closeLane_events lane_entities_def)
next
  case (Some p)
  with assms(1) have "running st {pending_entity p}" by (simp add: lane_entities_def)
  then obtain st' where "verify_step st (end_event p) = Inr (st', [strip_null_tag (end_event p)])" "running st' {}"
    using emit_end [of st "pending_kind p" "end_event p"] parent_owner [OF assms(2) Some]
    by (auto simp: pending_entity_def)
  with Some show ?thesis by (auto simp: closeLane_events intro: verifies_single)
qed

lemma parent_lane_update:
  assumes "parent_lane ls" "lanes_inv (AList.update JUndef p (AList.delete JUndef ls))"
  shows "parent_lane (AList.update JUndef p (AList.delete JUndef ls))"
proof -
  have "set (map fst (AList.delete JUndef ls)) \<subseteq> {JUndef}"
    using assms(1) by (auto simp: parent_lane_def delete_keys [unfolded fun_eq_iff comp_def] AList.delete_eq)
  then show ?thesis using assms(2) by (auto simp: parent_lane_def dom_update [unfolded dom_map_of_conv_image_fst])
qed

lemma chunk_verified:
  assumes run: "running st (lane_entities ls)" and pl: "parent_lane ls"
    and step: "on_chunk kind ls c = Inr (ls', os)" and tag: "nullish (tag_of c)"
  shows "\<exists>st'. verifies st os st' \<and> running st' (lane_entities ls') \<and> parent_lane ls'"
proof -
  let ?r = "unrecognisedChunkProperties c kind"
  from step obtain lane p ops where
    lane: "resolveLane kind (field c (missingIdFieldName kind)) (or_undef (tag_of c)) ls = Inr lane"
    and asm: "assemble kind c lane ls = Inr (ls', p, ops)"
    and os: "os = (if field c ''delta'' \<noteq> JUndef \<or> field c ''rawEvent'' \<noteq> JUndef
           then ops @ [content_event kind c ?r p]
           else if ops = [] \<and> (field c ''metadata'' \<noteq> JUndef \<or> tag_of c = JNull \<or> ?r \<noteq> [])
           then [bare_content_event kind c ?r p]
           else carryRemainderOnOpener ops ?r False)"
    by (rule on_chunk_cases)
  have l: "lane = JUndef" by (rule parent_resolve [OF pl tag lane])
  have content: "\<exists>st''. verifies st' [content_event kind c ?r p] st'' \<and> running st'' {pending_entity p}"
    "\<exists>st''. verifies st' [bare_content_event kind c ?r p] st'' \<and> running st'' {pending_entity p}"
    if "running st' {pending_entity p}" "pending_kind p = kind" "nullish (pending_owner p)" for st'
    using emit_content [of st' kind "content_event kind c ?r p"] emit_content [of st' kind "bare_content_event kind c ?r p"]
      that synth_owner_nullish [OF tag that(3), of kind] by (auto simp: pending_entity_def intro: verifies_single)
  from asm show ?thesis
  proof (cases rule: assemble_cases)
    case Continue
    then have p: "pending_kind p = kind" "lane_entities ls' = {pending_entity p}" "nullish (pending_owner p)"
      using parent_owner [OF pl] l by (auto simp: continues_def lane_entities_def)
    with run os Continue pl content [of st] show ?thesis
      by (auto simp: carryRemainderOnOpener_def)
  next
    case Open
    have id: "field c (missingIdFieldName kind) \<noteq> JUndef" by (rule opener_missing_None [OF Open(1)])
    have p: "pending_kind p = kind" "lane_entities ls' = {pending_entity p}" "nullish (pending_owner p)"
      "pending_entity p = kind_entity kind (field c (missingIdFieldName kind))"
      using Open tag l by (auto simp: lane_entities_def js_simps pending_entity_def)
    have pl': "parent_lane ls'"
      using parent_lane_update [OF pl] on_chunk_inv [OF _ step] Open(3) l pl by (simp add: parent_lane_def)
    obtain st1 where st1: "verifies st (fst (closeLane JUndef ls)) st1" "running st1 {}"
      using closing_emit [OF run pl] by blast
    have start: "\<exists>st2. verifies st1 [e] st2 \<and> running st2 {pending_entity p}"
      if "ev_type e = start_type kind" "field e (missingIdFieldName kind) = field c (missingIdFieldName kind)"
        "nullish (tag_of e)" for e
      using emit_start [OF st1(2) that(1,3)] that(2) p(4) by (auto intro: verifies_single)
    show ?thesis
    proof (cases "field c ''delta'' \<noteq> JUndef \<or> field c ''rawEvent'' \<noteq> JUndef")
      case True
      obtain st2 where st2: "verifies st1 [start_event kind c p] st2" "running st2 {pending_entity p}"
        using start [of "start_event kind c p"] tag Open(2) by auto
      obtain st3 where st3: "verifies st2 [content_event kind c ?r p] st3" "running st3 {pending_entity p}"
        using content(1) [OF st2(2) p(1,3)] by blast
      have "os = fst (closeLane JUndef ls) @ [start_event kind c p] @ [content_event kind c ?r p]"
        using True os Open(4) l by simp
      with verifies_append [OF st1(1) verifies_append [OF st2(1) st3(1)]] st3(2) p(2) pl'
      show ?thesis by auto
    next
      case False
      let ?e = "if ?r = [] then start_event kind c p
        else start_event kind c p\<lparr>ev_props := spread ?r (ev_props (start_event kind c p))\<rparr>"
      obtain st2 where st2: "verifies st1 [?e] st2" "running st2 {pending_entity p}"
        using start [of ?e] carried_start [OF tag id Open(2) refl] by blast
      have "os = fst (closeLane JUndef ls) @ [?e]" using os False Open(4) l by (simp add: carry_snoc)
      with verifies_append [OF st1(1) st2(1)] st2(2) p(2) pl' show ?thesis by auto
    qed
  qed
qed


subsection \<open>Streams of the parent agent\<close>

text \<open>What the parent agent sends between its run events: chunks, and events that speak of no stream.\<close>

definition parent_event :: "event \<Rightarrow> bool" where
  "parent_event ev \<longleftrightarrow> nullish (tag_of ev) \<and>
     (is_chunk_type (ev_type ev) \<or> ev_type ev \<in> {STATE_SNAPSHOT, STATE_DELTA, CUSTOM, RAW})"

lemma neutral_emit:
  assumes "running st opens" "nullish (tag_of ev)" "ev_type ev \<in> {STATE_SNAPSHOT, STATE_DELTA, CUSTOM, RAW}"
  shows "\<exists>st'. verifies st [ev] st' \<and> running st' opens"
proof -
  have "entity_sym x ev = BOther" for x using assms(3) by (cases x) (auto simp: sym_of_def)
  moreover have "plain_event ev" using assms(2,3) by (auto simp: plain_event_def)
  ultimately obtain st' where "verify_step st ev = Inr (st', [strip_null_tag ev])" "running st' opens"
    using running_emit [OF assms(1), of ev opens] assms(3) by auto
  then show ?thesis using verifies_single by blast
qed

lemma parent_lane_delete [simp]: "parent_lane ls \<Longrightarrow> AList.delete JUndef ls = []"
proof -
  assume "parent_lane ls"
  then have "\<forall>kp \<in> set ls. fst kp = JUndef" by (auto simp: parent_lane_def)
  then show ?thesis by (auto simp: AList.delete_eq filter_empty_conv)
qed

lemma parent_step:
  assumes run: "running st (lane_entities ls)" "parent_lane ls" and ev: "parent_event ev"
    and step: "chunk_step ls ev = Inr (ls', os)"
  shows "\<exists>st'. verifies st os st' \<and> running st' (lane_entities ls') \<and> parent_lane ls'"
  using step
proof (cases rule: chunk_step_cases)
  case (Chunk kind)
  with chunk_verified [OF run Chunk(2)] ev show ?thesis by (simp add: parent_event_def)
next
  case Pass
  with neutral_emit [OF run(1)] ev run(2) show ?thesis by (auto simp: parent_event_def)
next
  case Close
  have u: "or_undef (tag_of ev) = JUndef" using ev by (auto simp: parent_event_def or_undef_def)
  obtain st1 where st1: "verifies st (fst (closeLane JUndef ls)) st1" "running st1 {}"
    using closing_emit [OF run] by blast
  obtain st2 where "verifies st1 [ev] st2" "running st2 {}"
    using neutral_emit [OF st1(2)] ev Close(1) by (auto simp: parent_event_def)
  with st1(1) Close(2,3) u run(2) show ?thesis
    by (auto simp: lane_entities_def parent_lane_def [of "[]"] intro: verifies_append)
next
  case All
  with ev show ?thesis by (auto simp: parent_event_def closes_all_lanes_def)
qed

lemma parent_run:
  "running st (lane_entities ls) \<Longrightarrow> parent_lane ls \<Longrightarrow> list_all parent_event es \<Longrightarrow>
   run_stage chunk_step ls es = (os, Inr t) \<Longrightarrow>
     \<exists>st'. verifies st os st' \<and> running st' (lane_entities t) \<and> parent_lane t"
proof (induction es arbitrary: st ls os)
  case (Cons e es)
  from Cons.prems(4) obtain ls1 os1 os2 where step: "chunk_step ls e = Inr (ls1, os1)"
    and rest: "run_stage chunk_step ls1 es = (os2, Inr t)" "os = os1 @ os2" by (rule run_stage_Cons_Inr)
  from parent_step [OF Cons.prems(1,2) _ step] Cons.prems(3)
  obtain st1 where st1: "verifies st os1 st1" "running st1 (lane_entities ls1)" "parent_lane ls1" by auto
  from Cons.IH [OF st1(2,3) _ rest(1)] Cons.prems(3)
  obtain st2 where "verifies st1 os2 st2" "running st2 (lane_entities t)" "parent_lane t" by auto
  with verifies_append [OF st1(1)] rest(2) show ?case by blast
qed auto

lemma close_parent:
  assumes "parent_lane ls"
  shows "fst (closeAllLanes ls) = fst (closeLane JUndef ls)"
proof (cases ls)
  case (Cons kp ls0)
  obtain k p where kp: "kp = (k, p)" by (cases kp)
  from assms have "set (map fst ls) \<subseteq> {JUndef}" "distinct (map fst ls)"
    by (simp_all add: parent_lane_def lanes_inv_def)
  with Cons kp have "k = JUndef" "set (map fst ls0) \<subseteq> {JUndef}" "JUndef \<notin> set (map fst ls0)"
    by auto
  then have "ls0 = []" by (cases ls0) auto
  with Cons kp \<open>k = JUndef\<close> show ?thesis by (simp add: closeAllLanes_def split: prod.splits)
qed (simp add: closeAllLanes_def closeLane_def)

lemma parent_stream:
  assumes types: "ev_type start = RUN_STARTED" "ev_type fin = RUN_FINISHED"
    and plain: "plain_event start" "plain_event fin" and body: "list_all parent_event es"
    and exp: "transformChunks (start # es @ [fin]) = (os, Inr t)"
  shows "accepts verify_step init_vstate os"
proof -
  from exp obtain ls where run: "run_stage chunk_step [] (start # es @ [fin]) = (os, Inr ls)"
    by (rule transformChunks_Inr)
  have step0: "chunk_step [] start = Inr ([], [start])"
    using types(1) by (simp add: chunk_step_def closes_own_lane_def closes_all_lanes_def closeAllLanes_def)
  from run step0 obtain os1 ls1 os2 where mid: "run_stage chunk_step [] es = (os1, Inr ls1)"
    and last: "run_stage chunk_step ls1 [fin] = (os2, Inr ls)" and os: "os = start # os1 @ os2"
    by (auto split: prod.splits elim: run_stage_append_Inr)
  have "\<exists>st. verify_step init_vstate start = Inr (st, [strip_null_tag start]) \<and> running st {}"
  proof -
    have ph: "phase_of init_vstate = NotStarted" "plain_state init_vstate"
      by (simp_all add: phase_of_def plain_state_def init_vstate_def)
    have reset: "entity_sym x start = BReset" for x using types(1) by (cases x) (simp_all add: sym_of_def)
    obtain st where st: "verify_step init_vstate start = Inr (st, [strip_null_tag start])"
      using verify_step_plain [OF verify_inv_init ph(2) plain(1)] types(1) reset ph(1) by auto
    then show ?thesis
      using verify_step_inv [OF verify_inv_init st] verify_step_plain_state [OF st plain(1) ph(2)]
        verify_step_phase [OF verify_inv_init st] verify_step_bracket [OF verify_inv_init st] types(1) ph(1) reset
      by (auto simp: running_def)
  qed
  then obtain st0 where st0: "verifies init_vstate [start] st0" "running st0 {}"
    by (auto intro: verifies_single)
  have nil: "lane_entities [] = {}" "parent_lane []" by (simp_all add: lane_entities_def parent_lane_def)
  from parent_run [OF _ _ body mid, of st0] st0(2) nil
  obtain st1 where st1: "verifies st0 os1 st1" "running st1 (lane_entities ls1)" "parent_lane ls1" by auto
  have os2: "os2 = fst (closeLane JUndef ls1) @ [fin]"
    using last types(2) close_parent [OF st1(3)]
    by (auto simp: chunk_step_def closes_own_lane_def closes_all_lanes_def split: prod.splits)
  obtain st2 where st2: "verifies st1 (fst (closeLane JUndef ls1)) st2" "running st2 {}"
    using closing_emit [OF st1(2,3)] by blast
  have "entity_sym x fin = BOther" for x using types(2) by (cases x) (simp_all add: sym_of_def)
  with st2(2) types(2) plain(2) obtain st3 where "verifies st2 [fin] st3"
    using verify_step_plain [of st2 fin] by (auto simp: running_def intro: verifies_single)
  then have "verifies init_vstate ([start] @ os1 @ fst (closeLane JUndef ls1) @ [fin]) st3"
    using st0(1) st1(1) st2(1) by (blast intro: verifies_append)
  then show ?thesis unfolding os os2 by (auto simp: verifies_def accepts_iff)
qed

subsection \<open>The reducer refuses chunks only\<close>

definition admits :: "apply_error + 'a \<Rightarrow> bool" where
  "admits r \<longleftrightarrow> (\<forall>t. r \<noteq> Inl (MustBeTransformed t))"

lemma admits_simps [simp]: "admits (emit rs)" "admits (Inr x)" "admits (Inl (NotAnArray k v))"
  by (simp_all add: admits_def emit_def)

lemma admits_hook: "(\<And>rs1 h. admits (f (rs1, h))) \<Longrightarrow> admits (andThen (call_hook env hook ev args rs) f)"
  by (auto simp: admits_def call_hook_def andThen_def split: option.splits sum.splits)

lemma admits_notify: "(\<And>x. admits (f x)) \<Longrightarrow> admits (andThen (notify env h ev args rs) f)"
  by (auto simp: admits_def notify_def andThen_def split: option.splits sum.splits)

lemma dispatch_admits: "\<not> is_chunk_type (ev_type ev) \<Longrightarrow> admits (apply_dispatch env rs ev)"
  by (cases "ev_type ev")
    (auto simp: apply_dispatch_def apply_handlers ap_tool_call_result_def is_chunk_type_def Let_def
      intro!: admits_hook admits_notify split: option.split prod.split jsval.split)

lemma step_admits: "\<not> is_chunk_type (ev_type ev) \<Longrightarrow> admits (apply_step env rs ev)"
  unfolding apply_step_def by (rule admits_hook) (simp add: dispatch_admits)

lemma run_admits:
  "list_all (\<lambda>ev. \<not> is_chunk_type (ev_type ev)) es \<Longrightarrow> admits (snd (run_stage (apply_step env) rs es))"
proof (induction es arbitrary: rs)
  case (Cons e es)
  show ?case
  proof (cases "apply_step env rs e")
    case (Inl x)
    with Cons.prems step_admits [of e env rs] show ?thesis by (simp add: admits_def)
  next
    case (Inr y)
    obtain rs1 us where "y = (rs1, us)" by (cases y)
    with Inr Cons.IH [of rs1] Cons.prems show ?thesis by (simp add: Let_def case_prod_unfold)
  qed
qed simp

text \<open>What comes through expansion and verification holds no chunk.\<close>

lemma source_no_chunk: "list_all (\<lambda>ev. \<not> is_chunk_type (ev_type ev)) (fst (source_events es))"
proof -
  obtain os r where t: "transformChunks es = (os, r)" by (cases "transformChunks es")
  have os: "list_all (\<lambda>ev. \<not> is_chunk_type (ev_type ev)) os"
    using expander.run_out [OF lanes_inv_Nil, of es] t by (auto simp: transformChunks_def Let_def split: prod.splits)
  obtain n where "fst (verifyEvents os) = map strip_null_tag (take n os)"
    using run_pass_through [of init_vstate os] unfolding verifyEvents_def by (metis prod.collapse)
  with os have "list_all (\<lambda>ev. \<not> is_chunk_type (ev_type ev)) (fst (verifyEvents os))"
    using set_take_subset [of n os] by (auto simp: list_all_iff strip_null_tag_def)
  then show ?thesis by (simp add: source_events_def t Let_def case_prod_unfold)
qed

lemma source_error: "snd (source_events es) \<noteq> Some (ApplyFailure e)"
  by (auto simp: source_events_def Let_def split: prod.split sum.split)

lemma take_update_messages: "agent_messages (take_update a u) = (case fst u of Some l \<Rightarrow> l | None \<Rightarrow> agent_messages a)"
  by (auto simp: take_update_def Let_def split: option.split)

lemma view_observe: "agent_messages (processApplyEvents a us) = observe (agent_messages a) us"
  by (induction us arbitrary: a) (simp_all add: processApplyEvents_def observe_def take_update_messages)

end
