(* ===== verification/SubscribersProps.thy ===== *)
theory SubscribersProps
  imports Subscribers
begin

text \<open>
  Properties of the subscriber loop (theory \<open>Subscribers\<close>): how a chain of subscribers composes, and that stopping propagation cuts
  the rest of the chain off.
\<close>

subsection \<open>The loop\<close>

text \<open>A loop that stopped does not look at further subscribers; one that did not hands them its state.\<close>

lemma sub_iterate_append:
  "sl_stop sl \<noteq> Some True \<Longrightarrow> sub_iterate test (ss @ ts) call w sl =
     (case sub_iterate test ss call w sl of
        None \<Rightarrow> None
      | Some (w', sl') \<Rightarrow> (if sl_stop sl' = Some True then Some (w', sl') else sub_iterate test ts call w' sl'))"
proof (induction ss arbitrary: w sl)
  case (Cons s ss)
  obtain w1 r where "s call (sl_messages sl) (sl_state sl) w = (w1, r)" by (cases "s call (sl_messages sl) (sl_state sl) w")
  with Cons show ?case by (cases r) (auto simp: Let_def)
qed simp

text \<open>What two loops that start from the same messages and state, but with different flags, have in common.\<close>

definition same_loop :: "bool \<Rightarrow> bool \<Rightarrow> sub_loop \<Rightarrow> sub_loop \<Rightarrow> bool" where
  "same_loop a b x y \<longleftrightarrow> sl_messages x = sl_messages y \<and> sl_state x = sl_state y \<and>
     sl_messages_mutated x = (a \<or> sl_messages_mutated y) \<and> sl_state_mutated x = (b \<or> sl_state_mutated y) \<and>
     (sl_stop x = Some True \<longleftrightarrow> sl_stop y = Some True)"

lemma same_loop_mutation: "same_loop a b x y \<Longrightarrow> same_loop a b (take_mutation m x) (take_mutation m y)"
  by (cases "ret_messages m"; cases "ret_state m") (auto simp: same_loop_def take_mutation_def Let_def)

lemma sub_iterate_same:
  "same_loop a b x y \<Longrightarrow>
     rel_option (rel_prod (=) (same_loop a b)) (sub_iterate test ss call w x) (sub_iterate test ss call w y)"
proof (induction ss arbitrary: w x y)
  case (Cons s ss)
  have eq: "s call (sl_messages x) (sl_state x) w = s call (sl_messages y) (sl_state y) w"
    using Cons.prems by (simp add: same_loop_def)
  obtain w1 r where r: "s call (sl_messages y) (sl_state y) w = (w1, r)" by (cases "s call (sl_messages y) (sl_state y) w")
  have stop: "sl_stop (take_mutation m x) = Some True \<longleftrightarrow> sl_stop (take_mutation m y) = Some True" for m
    using same_loop_mutation [OF Cons.prems] by (simp add: same_loop_def)
  show ?case
    using Cons same_loop_mutation [OF Cons.prems] stop by (cases r) (simp_all add: eq r Let_def)
qed simp

definition start_loop :: "jsval list \<Rightarrow> jsval \<Rightarrow> sub_loop" where
  "start_loop ms st = \<lparr>sl_messages = ms, sl_state = st, sl_messages_mutated = False, sl_state_mutated = False, sl_stop = None\<rparr>"

definition report :: "sub_loop \<Rightarrow> mutation" where
  "report sl = \<lparr>mut_messages = (if sl_messages_mutated sl then Some (sl_messages sl) else None),
     mut_state = (if sl_state_mutated sl then Some (sl_state sl) else None), mut_stop = sl_stop sl\<rparr>"

text \<open>A flag that is not set says the value is the one the loop began with.\<close>

lemma sub_iterate_unmutated:
  "sub_iterate test ss call w sl = Some (w', sl') \<Longrightarrow>
     (\<not> sl_messages_mutated sl' \<longrightarrow> sl_messages sl' = sl_messages sl \<and> \<not> sl_messages_mutated sl) \<and>
     (\<not> sl_state_mutated sl' \<longrightarrow> sl_state sl' = sl_state sl \<and> \<not> sl_state_mutated sl)"
proof (induction ss arbitrary: w sl)
  case (Cons s ss)
  obtain w1 r where r: "s call (sl_messages sl) (sl_state sl) w = (w1, r)" by (cases "s call (sl_messages sl) (sl_state sl) w")
  have take: "(\<not> sl_messages_mutated (take_mutation m sl) \<longrightarrow> sl_messages (take_mutation m sl) = sl_messages sl \<and> \<not> sl_messages_mutated sl) \<and>
     (\<not> sl_state_mutated (take_mutation m sl) \<longrightarrow> sl_state (take_mutation m sl) = sl_state sl \<and> \<not> sl_state_mutated sl)" for m
    by (cases "ret_messages m"; cases "ret_state m") (auto simp: take_mutation_def Let_def)
  show ?case
  proof (cases r)
    case (Returned m)
    with Cons.prems r take [of m] Cons.IH [of w1 "take_mutation m sl"] show ?thesis
      by (simp add: Let_def split: if_splits)
  next
    case (Threw b)
    with Cons r show ?thesis by (auto split: if_splits)
  qed (use Cons r in auto)
qed simp

subsection \<open>Theorems\<close>

text \<open>
  Stopping cuts the rest off: once a chain of subscribers ends with propagation stopped, subscribers registered after it
  are not called, whatever they would do, and change neither the world nor the result.
\<close>

theorem subscribers_stop:
  assumes "runSubscribersWithMutation test ss call w ms st = Some (w', m)" "mut_stop m = Some True"
  shows "runSubscribersWithMutation test (ss @ ts) call w ms st = Some (w', m)"
  using assms
  by (auto simp: runSubscribersWithMutation_def sub_iterate_append split: option.splits)

theorem subscribers_stop_witness:
  "runSubscribersWithMutation True
     ([\<lambda>call ms st w. (w + 1, Returned \<lparr>ret_messages = Fresh [], ret_state = Absent, ret_stop = Some True\<rparr>)] @
      [\<lambda>call ms st w. (w + 10, Threw True)])
     \<lparr>hk = OnEvent, hk_event = mk_event RAW [], hk_args = []\<rparr> (0 :: nat) [JNull] JUndef =
   Some (1, \<lparr>mut_messages = Some [], mut_state = None, mut_stop = Some True\<rparr>)"
  by (rule subscribers_stop) (simp_all add: runSubscribersWithMutation_def take_mutation_def Let_def)

text \<open>
  A chain runs as its parts do: unless the first part stops propagation, the second sees exactly the messages and state the first
  left, and the whole reports the second's messages and state where it changed them and the first's otherwise.
  A failure of either part is a failure of the whole.
\<close>

theorem subscribers_compose:
  assumes "runSubscribersWithMutation test ss call w ms st = Some (w1, m1)" "mut_stop m1 \<noteq> Some True"
  shows "case runSubscribersWithMutation test ts call w1 (case mut_messages m1 of Some l \<Rightarrow> l | None \<Rightarrow> ms)
           (case mut_state m1 of Some s \<Rightarrow> s | None \<Rightarrow> st) of
      None \<Rightarrow> runSubscribersWithMutation test (ss @ ts) call w ms st = None
    | Some (w2, m2) \<Rightarrow> \<exists>m. runSubscribersWithMutation test (ss @ ts) call w ms st = Some (w2, m) \<and>
        mut_messages m = (case mut_messages m2 of Some l \<Rightarrow> Some l | None \<Rightarrow> mut_messages m1) \<and>
        mut_state m = (case mut_state m2 of Some s \<Rightarrow> Some s | None \<Rightarrow> mut_state m1) \<and>
        (mut_stop m = Some True \<longleftrightarrow> mut_stop m2 = Some True)"
proof -
  from assms(1) obtain sl1 where sl1: "sub_iterate test ss call w (start_loop ms st) = Some (w1, sl1)"
    "m1 = \<lparr>mut_messages = (if sl_messages_mutated sl1 then Some (sl_messages sl1) else None),
           mut_state = (if sl_state_mutated sl1 then Some (sl_state sl1) else None), mut_stop = sl_stop sl1\<rparr>"
    by (auto simp: runSubscribersWithMutation_def start_loop_def split: option.splits)
  let ?ms = "case mut_messages m1 of Some l \<Rightarrow> l | None \<Rightarrow> ms" and ?st = "case mut_state m1 of Some s \<Rightarrow> s | None \<Rightarrow> st"
  have seen: "?ms = sl_messages sl1" "?st = sl_state sl1"
    using sub_iterate_unmutated [OF sl1(1)] by (auto simp: sl1(2) start_loop_def)
  have whole: "sub_iterate test (ss @ ts) call w (start_loop ms st) = sub_iterate test ts call w1 sl1"
    using sl1 assms(2) by (simp add: sub_iterate_append start_loop_def)
  have same: "same_loop (sl_messages_mutated sl1) (sl_state_mutated sl1) sl1 (start_loop (sl_messages sl1) (sl_state sl1))"
    using assms(2) by (simp add: same_loop_def start_loop_def sl1(2))
  show ?thesis
  proof (cases "sub_iterate test ts call w1 (start_loop (sl_messages sl1) (sl_state sl1))")
    case None
    with sub_iterate_same [OF same, of test ts call w1] whole show ?thesis
      unfolding seen runSubscribersWithMutation_def start_loop_def [symmetric] by simp
  next
    case (Some r)
    obtain w2 y where y: "r = (w2, y)" by (cases r)
    with Some sub_iterate_same [OF same, of test ts call w1] obtain x where
      x: "sub_iterate test ts call w1 sl1 = Some (w2, x)"
      "same_loop (sl_messages_mutated sl1) (sl_state_mutated sl1) x y"
      by (auto simp: option_rel_Some2)
    have runs: "runSubscribersWithMutation test (ss @ ts) call w ms st = Some (w2, report x)"
      "runSubscribersWithMutation test ts call w1 (sl_messages sl1) (sl_state sl1) = Some (w2, report y)" "m1 = report sl1"
      using whole x(1) Some y sl1(2)
      by (simp_all add: runSubscribersWithMutation_def start_loop_def report_def)
    have "\<not> sl_messages_mutated y \<longrightarrow> sl_messages y = sl_messages sl1"
      "\<not> sl_state_mutated y \<longrightarrow> sl_state y = sl_state sl1"
      using sub_iterate_unmutated [OF Some [unfolded y]] by (simp_all add: start_loop_def)
    with x(2) show ?thesis unfolding seen runs(1,2) by (simp add: runs(3) report_def same_loop_def)
  qed
qed

theorem subscribers_compose_witness:
  "\<exists>m. runSubscribersWithMutation False
     ([\<lambda>call ms st w. (w, Returned \<lparr>ret_messages = Fresh [JNull], ret_state = Absent, ret_stop = None\<rparr>)] @
      [\<lambda>call ms st w. (w, Threw True), \<lambda>call ms st w. (length ms, Returned \<lparr>ret_messages = SameRef, ret_state = Fresh (JStr ''s''), ret_stop = None\<rparr>)])
     \<lparr>hk = OnEvent, hk_event = mk_event RAW [], hk_args = []\<rparr> 0 [] JUndef = Some (1, m) \<and>
     mut_messages m = Some [JNull] \<and> mut_state m = Some (JStr ''s'')"
proof -
  let ?a = "[\<lambda>call ms st w. (w, Returned \<lparr>ret_messages = Fresh [JNull], ret_state = Absent, ret_stop = None\<rparr>)] :: nat subscriber list"
  let ?b = "[\<lambda>call ms st w. (w, Threw True), \<lambda>call ms st w. (length ms, Returned \<lparr>ret_messages = SameRef, ret_state = Fresh (JStr ''s''), ret_stop = None\<rparr>)] :: nat subscriber list"
  have "runSubscribersWithMutation False ?a \<lparr>hk = OnEvent, hk_event = mk_event RAW [], hk_args = []\<rparr> 0 [] JUndef =
      Some (0, \<lparr>mut_messages = Some [JNull], mut_state = None, mut_stop = None\<rparr>)"
    by (simp add: runSubscribersWithMutation_def take_mutation_def Let_def)
  from subscribers_compose [OF this, of ?b] show ?thesis
    by (simp add: runSubscribersWithMutation_def take_mutation_def Let_def)
qed

end
