(* ===== verification/MetadataProps.thy ===== *)
theory MetadataProps
  imports Metadata
begin

text \<open>
  Properties of metadata merging and of the activity history declaration (theory \<open>Metadata\<close>).
\<close>

subsection \<open>The declaration read back\<close>

definition owns_all :: "event \<Rightarrow> bool" where
  "owns_all ev \<longleftrightarrow> authoritativeActivityTypes ev = AllTypes \<or>
     authoritativeActivityTypes ev = Undeclared \<and>
       list_ex (\<lambda>m. jget m ''role'' = JStr ''activity'') (arr_items (field ev ''messages''))"

fun owned_types :: "activity_scope \<Rightarrow> string list" where
  "owned_types (OwnTypes ts) = ts"
| "owned_types _ = []"

lemma field_with:
  "field (withAuthoritativeActivityTypes ev ts) k =
     (if k = ''metadata'' then
        JObj (oset ACTIVITY_HISTORY_METADATA
          (JObj (oset ''authoritativeActivityTypes''
            (if owns_all ev then JNull
             else JArr (map JStr (as_set (owned_types (authoritativeActivityTypes ev) @ ts))))
            (case jget (field ev ''metadata'') ACTIVITY_HISTORY_METADATA of JObj m \<Rightarrow> m | _ \<Rightarrow> [])))
          (own_props (field ev ''metadata'')))
      else field ev k)"
  by (cases "authoritativeActivityTypes ev")
    (simp_all add: withAuthoritativeActivityTypes_def Let_def owns_all_def field_def [of ev])

lemma declared_read:
  "authoritativeActivityTypes (withAuthoritativeActivityTypes ev ts) =
     (if owns_all ev then AllTypes else OwnTypes (as_set (owned_types (authoritativeActivityTypes ev) @ ts)))"
  by (simp add: authoritativeActivityTypes_def [of "withAuthoritativeActivityTypes ev ts"] field_with own_props_def [of "JObj _"]
      Let_def list_all_iff comp_def)

lemma foldl_set_add: "set (foldl (\<lambda>s x. set_add x s) a xs) = set a \<union> set xs"
  by (induction xs arbitrary: a) auto

lemma set_as_set [simp]: "set (as_set xs) = set xs"
  by (simp add: as_set_def foldl_set_add)

lemma distinct_as_set [simp]: "distinct (as_set xs)"
proof -
  have "distinct a \<Longrightarrow> distinct (foldl (\<lambda>s x. set_add x s) a xs)" for a
    by (induction xs arbitrary: a) auto
  then show ?thesis by (simp add: as_set_def)
qed

subsection \<open>Theorems\<close>

text \<open>
  The last write to a metadata key wins: after merging any number of well-formed contributions in order, a key
  holds the value of the last contribution that has it (a null value counts), and the initial value if none has it.
\<close>

theorem metadata_last_wins:
  assumes "wf_metadata a" "list_all wf_metadata bs"
  shows "meta_lookup (foldl mergeMetadata a bs) k =
    (case filter (\<lambda>v. v \<noteq> None) (map (\<lambda>b. meta_lookup b k) bs) of [] \<Rightarrow> meta_lookup a k | vs \<Rightarrow> last vs)"
  using assms by (rule metadata.fold_look)

theorem metadata_last_wins_witness:
  "meta_lookup (foldl mergeMetadata JUndef [JObj [(''a'', JNum 1), (''b'', JNum 2)], JUndef, JObj [(''a'', JNull)]]) ''a'' = Some JNull \<and>
   meta_lookup (foldl mergeMetadata JUndef [JObj [(''a'', JNum 1), (''b'', JNum 2)], JUndef, JObj [(''a'', JNull)]]) ''b'' = Some (JNum 2)"
  using metadata_last_wins [of JUndef "[JObj [(''a'', JNum 1), (''b'', JNum 2)], JUndef, JObj [(''a'', JNull)]]" "''a''"]
    metadata_last_wins [of JUndef "[JObj [(''a'', JNum 1), (''b'', JNum 2)], JUndef, JObj [(''a'', JNull)]]" "''b''"]
  by (simp add: meta_lookup_def own_props_def)

text \<open>
  What a producer declares is what the reducer reads: the declaration read from an event that was given activity types covers
  everything exactly when the event covered everything before (by declaration, or by containing activity messages without one), and otherwise names, without
  repetition, exactly the types declared before and the types given. No other field of the event changes, and no other metadata key does.
\<close>

theorem activity_declaration_roundtrip:
  "(case authoritativeActivityTypes (withAuthoritativeActivityTypes ev ts) of
      AllTypes \<Rightarrow> owns_all ev
    | OwnTypes us \<Rightarrow> \<not> owns_all ev \<and> distinct us \<and>
        set us = set (owned_types (authoritativeActivityTypes ev)) \<union> set ts
    | Undeclared \<Rightarrow> False) \<and>
   ev_type (withAuthoritativeActivityTypes ev ts) = ev_type ev \<and>
   (\<forall>k. k \<noteq> ''metadata'' \<longrightarrow> field (withAuthoritativeActivityTypes ev ts) k = field ev k) \<and>
   (\<forall>k. k \<noteq> ACTIVITY_HISTORY_METADATA \<longrightarrow>
      meta_lookup (field (withAuthoritativeActivityTypes ev ts) ''metadata'') k = meta_lookup (field ev ''metadata'') k)"
proof -
  have "ev_type (withAuthoritativeActivityTypes ev ts) = ev_type ev"
    by (simp add: withAuthoritativeActivityTypes_def Let_def)
  moreover have "meta_lookup (field (withAuthoritativeActivityTypes ev ts) ''metadata'') k = meta_lookup (field ev ''metadata'') k"
    if "k \<noteq> ACTIVITY_HISTORY_METADATA" for k
    using that by (simp add: field_with meta_lookup_def own_props_def [of "JObj _"] oset_def js_simps)
  ultimately show ?thesis by (simp add: declared_read field_with)
qed

theorem activity_declaration_roundtrip_witness:
  "\<exists>us. authoritativeActivityTypes (withAuthoritativeActivityTypes
       (mk_event MESSAGES_SNAPSHOT [(''messages'', JArr [])]) [''plan'', ''plan'']) = OwnTypes us \<and>
     distinct us \<and> set us = {''plan''}"
proof -
  let ?ev = "mk_event MESSAGES_SNAPSHOT [(''messages'', JArr [])]"
  have "\<not> owns_all ?ev" "owned_types (authoritativeActivityTypes ?ev) = []" by code_simp+
  with activity_declaration_roundtrip [of ?ev "[''plan'', ''plan'']"] show ?thesis
    by (auto split: activity_scope.splits)
qed

end
