(* ===== verification/Compact.thy ===== *)
theory Compact
  imports Metadata
begin

text \<open>
  Event compaction, \<^verbatim>\<open>client/src/compact/compact.ts\<close>: the deltas of a text message or a tool call become one event, the
  state events of a run become one snapshot, and events that arrive inside a stream are moved behind it. Text
  messages and tool calls are handled alike; \<open>ckind\<close> names which of the two maps is meant. JSON Patch is a
  parameter that fails with \<open>None\<close>; warnings are left out.
\<close>

subsection \<open>Metadata\<close>

definition carryStartMetadata :: "event option \<Rightarrow> event \<Rightarrow> event" where
  "carryStartMetadata previous next' =
     (case previous of
        None \<Rightarrow> next'
      | Some prev \<Rightarrow>
          (let metadata = mergeMetadata (field prev ''metadata'') (field next' ''metadata'') in
           if metadata = JUndef then next' else next'\<lparr>ev_props := oset ''metadata'' metadata (ev_props next')\<rparr>))"

definition replaceStartFields :: "event option \<Rightarrow> event \<Rightarrow> event" where
  "replaceStartFields previous next' =
     (let carried = (case previous of Some prev \<Rightarrow> field prev ''metadata'' | None \<Rightarrow> JUndef) in
      next'\<lparr>ev_props := odel ''metadata'' (ev_props next') @ opt_prop ''metadata'' carried\<rparr>)"

definition collapseMetadata :: "event list \<Rightarrow> jsval" where
  "collapseMetadata events = foldl (\<lambda>merged ev. mergeMetadata merged (field ev ''metadata'')) JUndef events"

subsection \<open>State\<close>

datatype ckind = CText | CTool

fun id_field :: "ckind \<Rightarrow> string" where
  "id_field CText = ''messageId''"
| "id_field CTool = ''toolCallId''"

fun delta_type :: "ckind \<Rightarrow> event_type" where
  "delta_type CText = TEXT_MESSAGE_CONTENT"
| "delta_type CTool = TOOL_CALL_ARGS"

record pending_events =
  p_start :: "event option"
  p_deltas :: "event list"
  p_end :: "event option"
  p_other :: "event list"
  p_meta :: jsval

definition no_pending :: pending_events where
  "no_pending = \<lparr>p_start = None, p_deltas = [], p_end = None, p_other = [], p_meta = JUndef\<rparr>"

type_synonym pending_map = "(jsval \<times> pending_events) list"

record cstate =
  compacted :: "event list"
  pendingTextMessages :: pending_map
  pendingToolCalls :: pending_map
  pendingStreamOrder :: "(ckind \<times> jsval) list"
  stateEvents :: "event list"

definition init_cstate :: cstate where
  "init_cstate = \<lparr>compacted = [], pendingTextMessages = [], pendingToolCalls = [], pendingStreamOrder = [], stateEvents = []\<rparr>"

fun pend :: "ckind \<Rightarrow> cstate \<Rightarrow> pending_map" where
  "pend CText st = pendingTextMessages st"
| "pend CTool st = pendingToolCalls st"

fun set_pend :: "ckind \<Rightarrow> pending_map \<Rightarrow> cstate \<Rightarrow> cstate" where
  "set_pend CText m st = st\<lparr>pendingTextMessages := m\<rparr>"
| "set_pend CTool m st = st\<lparr>pendingToolCalls := m\<rparr>"

definition push :: "event list \<Rightarrow> cstate \<Rightarrow> cstate" where
  "push es st = st\<lparr>compacted := compacted st @ es\<rparr>"

text \<open>The pending entry of an id, created and remembered if there is none.\<close>

definition ensure_pending :: "ckind \<Rightarrow> jsval \<Rightarrow> cstate \<Rightarrow> cstate" where
  "ensure_pending k i st =
     (if map_of (pend k st) i \<noteq> None then st
      else (set_pend k (AList.update i no_pending (pend k st)) st)
             \<lparr>pendingStreamOrder := pendingStreamOrder st @ [(k, i)]\<rparr>)"

definition get_pending :: "ckind \<Rightarrow> jsval \<Rightarrow> cstate \<Rightarrow> pending_events" where
  "get_pending k i st = (case map_of (pend k st) i of Some p \<Rightarrow> p | None \<Rightarrow> no_pending)"

definition put_pending :: "ckind \<Rightarrow> jsval \<Rightarrow> pending_events \<Rightarrow> cstate \<Rightarrow> cstate" where
  "put_pending k i p st = set_pend k (AList.update i p (pend k st)) st"

definition forgetPendingStream :: "ckind \<Rightarrow> jsval \<Rightarrow> cstate \<Rightarrow> cstate" where
  "forgetPendingStream k i st = st\<lparr>pendingStreamOrder := remove1 (k, i) (pendingStreamOrder st)\<rparr>"

subsection \<open>Flushing\<close>

text \<open>\<^verbatim>\<open>map((c) => c.delta).join("")\<close>\<close>

definition join_deltas :: "event list \<Rightarrow> string" where
  "join_deltas es = concat (map (\<lambda>ev. if nullish (field ev ''delta'') then [] else js_string (field ev ''delta'')) es)"

definition flush_stream :: "ckind \<Rightarrow> jsval \<Rightarrow> pending_events \<Rightarrow> event list" where
  "flush_stream k i p =
     (case p_start p of Some ev \<Rightarrow> [ev] | None \<Rightarrow> []) @
     (if p_deltas p = [] then []
      else [mk_event (delta_type k)
              ([(id_field k, i), (''delta'', JStr (join_deltas (p_deltas p)))] @ opt_prop ''metadata'' (p_meta p))]) @
     (case p_end p of Some ev \<Rightarrow> [ev] | None \<Rightarrow> []) @
     p_other p"

definition flushTextMessage :: "jsval \<Rightarrow> pending_events \<Rightarrow> event list" where
  "flushTextMessage = flush_stream CText"

definition flushToolCall :: "jsval \<Rightarrow> pending_events \<Rightarrow> event list" where
  "flushToolCall = flush_stream CTool"

definition flush_one :: "cstate \<Rightarrow> ckind \<times> jsval \<Rightarrow> cstate" where
  "flush_one st = (\<lambda>(k, i).
     (case map_of (pend k st) i of
        None \<Rightarrow> st
      | Some p \<Rightarrow>
          (let out = (case k of CText \<Rightarrow> flushTextMessage i p | CTool \<Rightarrow> flushToolCall i p) in
           set_pend k (AList.delete i (pend k st)) (push out st))))"

definition flushPendingStreams :: "cstate \<Rightarrow> cstate" where
  "flushPendingStreams st = (foldl flush_one st (pendingStreamOrder st))\<lparr>pendingStreamOrder := []\<rparr>"

text \<open>The state events from the last snapshot on, if there is one.\<close>

fun from_last_snapshot :: "event list \<Rightarrow> event list option" where
  "from_last_snapshot [] = None"
| "from_last_snapshot (ev # evs) =
     (case from_last_snapshot evs of
        Some window \<Rightarrow> Some window
      | None \<Rightarrow> (if ev_type ev = STATE_SNAPSHOT then Some (ev # evs) else None))"

definition fold_state :: "(jsval \<Rightarrow> jsval \<Rightarrow> jsval option) \<Rightarrow> jsval \<Rightarrow> event \<Rightarrow> jsval" where
  "fold_state patch s ev =
     (if ev_type ev = STATE_SNAPSHOT then field ev ''snapshot''
      else case patch s (field ev ''delta'') of Some doc \<Rightarrow> doc | None \<Rightarrow> s)"

definition flushState :: "(jsval \<Rightarrow> jsval \<Rightarrow> jsval option) \<Rightarrow> event list \<Rightarrow> event list" where
  "flushState patch evs =
     (case from_last_snapshot evs of
        None \<Rightarrow> evs
      | Some window \<Rightarrow>
          [mk_event STATE_SNAPSHOT
             ((''snapshot'', foldl (fold_state patch) (JObj []) window) # opt_prop ''metadata'' (collapseMetadata evs))])"

definition flush_state_events :: "(jsval \<Rightarrow> jsval \<Rightarrow> jsval option) \<Rightarrow> cstate \<Rightarrow> cstate" where
  "flush_state_events patch st = (push (flushState patch (stateEvents st)) st)\<lparr>stateEvents := []\<rparr>"

subsection \<open>The loop\<close>

definition on_start :: "ckind \<Rightarrow> event \<Rightarrow> cstate \<Rightarrow> cstate" where
  "on_start k ev st =
     (let i = field ev (id_field k); st1 = ensure_pending k i st; p = get_pending k i st1 in
      put_pending k i
        (if p_deltas p = [] then p\<lparr>p_start := Some (carryStartMetadata (p_start p) ev)\<rparr>
         else p\<lparr>p_start := Some (replaceStartFields (p_start p) ev),
                p_meta := mergeMetadata (p_meta p) (field ev ''metadata'')\<rparr>) st1)"

definition on_delta :: "ckind \<Rightarrow> event \<Rightarrow> cstate \<Rightarrow> cstate" where
  "on_delta k ev st =
     (let i = field ev (id_field k); st1 = ensure_pending k i st; p = get_pending k i st1 in
      put_pending k i (p\<lparr>p_deltas := p_deltas p @ [ev],
        p_meta := mergeMetadata (p_meta p) (field ev ''metadata'')\<rparr>) st1)"

definition on_end :: "ckind \<Rightarrow> event \<Rightarrow> cstate \<Rightarrow> cstate" where
  "on_end k ev st =
     (let i = field ev (id_field k); st1 = ensure_pending k i st;
          st2 = put_pending k i ((get_pending k i st1)\<lparr>p_end := Some ev\<rparr>) st1
      in forgetPendingStream k i (flush_one st2 (k, i)))"

text \<open>The first stream, text before tools, that has started and not ended takes the event.\<close>

fun buffer_other :: "event \<Rightarrow> pending_map \<Rightarrow> pending_map option" where
  "buffer_other ev [] = None"
| "buffer_other ev ((i, p) # m) =
     (if p_start p \<noteq> None \<and> p_end p = None then Some ((i, p\<lparr>p_other := p_other p @ [ev]\<rparr>) # m)
      else map_option (Cons (i, p)) (buffer_other ev m))"

definition on_other :: "event \<Rightarrow> cstate \<Rightarrow> cstate" where
  "on_other ev st =
     (case buffer_other ev (pend CText st) of
        Some m \<Rightarrow> set_pend CText m st
      | None \<Rightarrow>
          (case buffer_other ev (pend CTool st) of
             Some m \<Rightarrow> set_pend CTool m st
           | None \<Rightarrow> push [ev] st))"

definition compact_step :: "(jsval \<Rightarrow> jsval \<Rightarrow> jsval option) \<Rightarrow> cstate \<Rightarrow> event \<Rightarrow> cstate" where
  "compact_step patch st ev = (case ev_type ev of
     TEXT_MESSAGE_START \<Rightarrow> on_start CText ev st
   | TEXT_MESSAGE_CONTENT \<Rightarrow> on_delta CText ev st
   | TEXT_MESSAGE_END \<Rightarrow> on_end CText ev st
   | TOOL_CALL_START \<Rightarrow> on_start CTool ev st
   | TOOL_CALL_ARGS \<Rightarrow> on_delta CTool ev st
   | TOOL_CALL_END \<Rightarrow> on_end CTool ev st
   | RUN_STARTED \<Rightarrow> push [ev] (flush_state_events patch st)
   | RUN_FINISHED \<Rightarrow> push [ev] (flush_state_events patch (flushPendingStreams st))
   | RUN_ERROR \<Rightarrow> push [ev] (flush_state_events patch (flushPendingStreams st))
   | STATE_SNAPSHOT \<Rightarrow> st\<lparr>stateEvents := stateEvents st @ [ev]\<rparr>
   | STATE_DELTA \<Rightarrow> st\<lparr>stateEvents := stateEvents st @ [ev]\<rparr>
   | _ \<Rightarrow> on_other ev st)"

definition compactEvents :: "(jsval \<Rightarrow> jsval \<Rightarrow> jsval option) \<Rightarrow> event list \<Rightarrow> event list" where
  "compactEvents patch events =
     compacted (flush_state_events patch (flushPendingStreams (foldl (compact_step patch) init_cstate events)))"

end
