(* ===== verification/CompactProps.thy ===== *)
theory CompactProps
  imports Compact "HOL-Library.Multiset"
begin

text \<open>
  Compaction preserves three things, whatever the event list: the text of every stream, the multiset of the events it
  keeps as they are, and the state the state events lead to. Each is emitted output plus pending buffers, and every
  step adds to it exactly what the event contributes.
\<close>

subsection \<open>Kinds of events\<close>

fun cstart_type :: "ckind \<Rightarrow> event_type" where
  "cstart_type CText = TEXT_MESSAGE_START"
| "cstart_type CTool = TOOL_CALL_START"

fun cend_type :: "ckind \<Rightarrow> event_type" where
  "cend_type CText = TEXT_MESSAGE_END"
| "cend_type CTool = TOOL_CALL_END"

definition is_state :: "event \<Rightarrow> bool" where
  "is_state ev \<longleftrightarrow> ev_type ev \<in> {STATE_SNAPSHOT, STATE_DELTA}"

definition is_delta :: "ckind \<Rightarrow> jsval \<Rightarrow> event \<Rightarrow> bool" where
  "is_delta k i ev \<longleftrightarrow> ev_type ev = delta_type k \<and> field ev (id_field k) = i"

text \<open>Everything but the starts and deltas of streams and the state events.\<close>

definition is_kept :: "event \<Rightarrow> bool" where
  "is_kept ev \<longleftrightarrow> \<not> is_state ev \<and> (\<forall>k. ev_type ev \<noteq> cstart_type k \<and> ev_type ev \<noteq> delta_type k)"

lemma kinds_apart [simp]:
  "cstart_type k \<noteq> delta_type k'" "cend_type k \<noteq> delta_type k'" "cstart_type k \<noteq> cend_type k'"
  "delta_type k = delta_type k' \<longleftrightarrow> k = k'" "cstart_type k = cstart_type k' \<longleftrightarrow> k = k'" "cend_type k = cend_type k' \<longleftrightarrow> k = k'"
  "delta_type k \<noteq> STATE_SNAPSHOT" "delta_type k \<noteq> STATE_DELTA" "cstart_type k \<noteq> STATE_SNAPSHOT" "cstart_type k \<noteq> STATE_DELTA"
  "cend_type k \<noteq> STATE_SNAPSHOT" "cend_type k \<noteq> STATE_DELTA"
  "cend_type k \<noteq> cstart_type k'" "delta_type k \<noteq> cend_type k'"
  by (cases k; cases k'; simp)+

lemma kinds_apart_sym [simp]:
  "delta_type k' \<noteq> cstart_type k"
  "STATE_SNAPSHOT \<noteq> delta_type k" "STATE_DELTA \<noteq> delta_type k" "STATE_SNAPSHOT \<noteq> cstart_type k" "STATE_DELTA \<noteq> cstart_type k"
  by (cases k; cases k'; simp)+

lemma id_field_neq [simp]: "id_field k \<noteq> ''metadata''" "id_field k \<noteq> ''delta''" "''metadata'' \<noteq> id_field k" "''delta'' \<noteq> id_field k"
  by (cases k; simp)+

subsection \<open>The invariant\<close>

definition pending_wf :: "ckind \<Rightarrow> jsval \<Rightarrow> pending_events \<Rightarrow> bool" where
  "pending_wf k i p \<longleftrightarrow>
     (\<forall>ev. p_start p = Some ev \<longrightarrow> ev_type ev = cstart_type k) \<and>
     list_all (is_delta k i) (p_deltas p) \<and>
     (\<forall>ev. p_end p = Some ev \<longrightarrow> ev_type ev = cend_type k) \<and>
     list_all is_kept (p_other p)"

definition held :: "ckind \<Rightarrow> jsval \<Rightarrow> cstate \<Rightarrow> pending_events option" where
  "held k i st = map_of (pend k st) i"

definition compact_inv :: "cstate \<Rightarrow> bool" where
  "compact_inv st \<longleftrightarrow>
     (\<forall>k. distinct (map fst (pend k st))) \<and>
     (\<forall>k i p. held k i st = Some p \<longrightarrow> pending_wf k i p \<and> p_end p = None) \<and>
     (\<forall>k i. held k i st \<noteq> None \<longrightarrow> (k, i) \<in> set (pendingStreamOrder st)) \<and>
     list_all is_state (stateEvents st)"

lemma pend_set [simp]: "pend k (set_pend k' m st) = (if k = k' then m else pend k st)"
  by (cases k; cases k') simp_all

lemma set_pend_fields [simp]:
  "compacted (set_pend k m st) = compacted st" "stateEvents (set_pend k m st) = stateEvents st"
  "pendingStreamOrder (set_pend k m st) = pendingStreamOrder st"
  by (cases k; simp)+

lemma pend_upd [simp]:
  "pend k (st\<lparr>compacted := c\<rparr>) = pend k st" "pend k (st\<lparr>stateEvents := e\<rparr>) = pend k st"
  "pend k (st\<lparr>pendingStreamOrder := ord\<rparr>) = pend k st"
  by (cases k; simp)+

lemma push_fields [simp]:
  "compacted (push es st) = compacted st @ es" "pend k (push es st) = pend k st" "stateEvents (push es st) = stateEvents st"
  "pendingStreamOrder (push es st) = pendingStreamOrder st"
  by (simp_all add: push_def)

lemma no_pending_fields [simp]:
  "p_start no_pending = None" "p_deltas no_pending = []" "p_end no_pending = None" "p_other no_pending = []" "p_meta no_pending = JUndef"
  by (simp_all add: no_pending_def)

lemma pending_wf_none [simp]: "pending_wf k i no_pending"
  by (simp add: pending_wf_def)

lemma ensure_fields [simp]:
  "compacted (ensure_pending k i st) = compacted st" "stateEvents (ensure_pending k i st) = stateEvents st"
  by (simp_all add: ensure_pending_def)

lemma held_ensure:
  "held k' i' (ensure_pending k i st) =
     (if k' = k \<and> i' = i \<and> held k i st = None then Some no_pending else held k' i' st)"
  by (simp add: ensure_pending_def js_simps held_def)

lemma held_put: "held k' i' (put_pending k i p st) = (if k' = k \<and> i' = i then Some p else held k' i' st)"
  by (simp add: held_def put_pending_def js_simps)

lemma get_held: "get_pending k i st = (case held k i st of Some p \<Rightarrow> p | None \<Rightarrow> no_pending)"
  by (simp add: get_pending_def held_def)

lemma get_ensure [simp]: "get_pending k' i' (ensure_pending k i st) = get_pending k' i' st"
  by (auto simp: get_held held_ensure split: option.split)

lemma order_ensure: "set (pendingStreamOrder (ensure_pending k i st)) =
    set (pendingStreamOrder st) \<union> (if held k i st = None then {(k, i)} else {})"
  by (simp add: ensure_pending_def held_def)

lemma distinct_ensure: "distinct (map fst (pend k' st)) \<Longrightarrow> distinct (map fst (pend k' (ensure_pending k i st)))"
  by (auto simp: ensure_pending_def distinct_update)

lemma distinct_put: "distinct (map fst (pend k' st)) \<Longrightarrow> distinct (map fst (pend k' (put_pending k i p st)))"
  by (auto simp: put_pending_def distinct_update)

lemma get_put [simp]: "get_pending k' i' (put_pending k i p st) = (if k' = k \<and> i' = i then p else get_pending k' i' st)"
  by (simp add: get_held held_put)

lemma put_fields [simp]:
  "compacted (put_pending k i p st) = compacted st" "stateEvents (put_pending k i p st) = stateEvents st"
  "pendingStreamOrder (put_pending k i p st) = pendingStreamOrder st"
  by (simp_all add: put_pending_def)

lemma get_wf: "compact_inv st \<Longrightarrow> pending_wf k i (get_pending k i st) \<and> p_end (get_pending k i st) = None"
  by (auto simp: compact_inv_def get_held split: option.split)

lemma put_inv:
  assumes "compact_inv st" "pending_wf k i p" "p_end p = None"
  shows "compact_inv (put_pending k i p (ensure_pending k i st))"
  using assms unfolding compact_inv_def
  by (auto simp: held_put held_ensure order_ensure distinct_ensure distinct_put split: if_splits)

subsection \<open>What a flush emits\<close>

lemma flush_kind: "(case k of CText \<Rightarrow> flushTextMessage i p | CTool \<Rightarrow> flushToolCall i p) = flush_stream k i p"
  by (cases k) (simp_all add: flushTextMessage_def flushToolCall_def)

lemma kept_neither: "is_kept ev \<Longrightarrow> \<not> is_state ev \<and> \<not> is_delta k i ev"
  by (auto simp: is_kept_def is_delta_def)

lemma filter_none: "(\<And>x. x \<in> set xs \<Longrightarrow> \<not> P x) \<Longrightarrow> filter P xs = []"
  by (auto simp: filter_empty_conv)

lemma flush_stream_deltas:
  assumes "pending_wf k i p"
  shows "join_deltas (filter (is_delta k' i') (flush_stream k i p)) =
     (if k' = k \<and> i' = i then join_deltas (p_deltas p) else [])"
proof -
  have "filter (is_delta k' i') (p_other p) = []"
    using assms kept_neither by (intro filter_none) (auto simp: pending_wf_def list_all_iff)
  with assms show ?thesis
    by (auto simp: flush_stream_def pending_wf_def is_delta_def join_deltas_def split: option.split)
qed

lemma flush_stream_state:
  assumes "pending_wf k i p"
  shows "filter is_state (flush_stream k i p) = []"
  using assms kept_neither
  by (intro filter_none) (auto simp: flush_stream_def pending_wf_def is_state_def list_all_iff is_kept_def split: option.splits if_splits)

lemma kept_end: "ev_type ev = cend_type k \<Longrightarrow> is_kept ev"
  by (auto simp: is_kept_def is_state_def)

lemma flush_stream_kept:
  assumes "pending_wf k i p"
  shows "filter is_kept (flush_stream k i p) = (case p_end p of Some ev \<Rightarrow> [ev] | None \<Rightarrow> []) @ p_other p"
proof -
  have "filter is_kept (p_other p) = p_other p" using assms by (simp add: pending_wf_def list_all_iff)
  moreover have "\<not> is_kept ev" if "p_start p = Some ev" for ev using assms that by (auto simp: pending_wf_def is_kept_def)
  ultimately show ?thesis using assms
    by (auto simp: flush_stream_def pending_wf_def is_kept_def [of "mk_event _ _"] intro: kept_end split: option.split)
qed


subsection \<open>Flushing one stream\<close>

lemma flush_one_some:
  assumes "held k i st = Some p"
  shows "flush_one st (k, i) = set_pend k (AList.delete i (pend k st)) (push (flush_stream k i p) st)"
  using assms by (simp add: flush_one_def held_def Let_def flush_kind)

lemma flush_one_none: "held k i st = None \<Longrightarrow> flush_one st (k, i) = st"
  by (simp add: flush_one_def held_def)

lemma held_flush_one: "held k' i' (flush_one st (k, i)) = (if k' = k \<and> i' = i then None else held k' i' st)"
proof (cases "held k i st")
  case (Some p)
  then show ?thesis by (simp add: flush_one_some) (simp add: held_def js_simps)
qed (simp add: flush_one_none)

lemma flush_one_fields [simp]:
  "stateEvents (flush_one st (k, i)) = stateEvents st" "pendingStreamOrder (flush_one st (k, i)) = pendingStreamOrder st"
  by (cases "held k i st"; simp add: flush_one_some flush_one_none)+

lemma compacted_flush_one:
  "compacted (flush_one st (k, i)) = compacted st @ (case held k i st of Some p \<Rightarrow> flush_stream k i p | None \<Rightarrow> [])"
  by (cases "held k i st") (simp_all add: flush_one_some flush_one_none)

lemma distinct_flush_one: "distinct (map fst (pend k' st)) \<Longrightarrow> distinct (map fst (pend k' (flush_one st (k, i))))"
  by (cases "held k i st") (auto simp: flush_one_some flush_one_none distinct_delete)

lemma flush_one_inv: "compact_inv st \<Longrightarrow> compact_inv (flush_one st (k, i))"
  unfolding compact_inv_def by (auto simp: held_flush_one distinct_flush_one split: if_splits)

text \<open>A flush of everything leaves nothing pending.\<close>

lemma flush_fold:
  assumes "compact_inv st"
  shows "compact_inv (foldl flush_one st ord) \<and>
    (\<forall>k i. held k i (foldl flush_one st ord) = (if (k, i) \<in> set ord then None else held k i st)) \<and>
    pendingStreamOrder (foldl flush_one st ord) = pendingStreamOrder st"
  using assms
proof (induction ord arbitrary: st)
  case (Cons x ord)
  obtain k i where x: "x = (k, i)" by (cases x)
  from Cons.IH [OF flush_one_inv [OF Cons.prems], of k i] show ?case by (auto simp: x held_flush_one)
qed simp

lemma flushPendingStreams_inv:
  assumes "compact_inv st"
  shows "compact_inv (flushPendingStreams st)" "held k i (flushPendingStreams st) = None"
proof -
  note f = flush_fold [OF assms, of "pendingStreamOrder st"]
  have none: "held k i (foldl flush_one st (pendingStreamOrder st)) = None" for k i
    using f assms unfolding compact_inv_def by metis
  have held: "held k i (flushPendingStreams st) = held k i (foldl flush_one st (pendingStreamOrder st))" for k i
    by (simp add: flushPendingStreams_def held_def)
  show "held k i (flushPendingStreams st) = None" using none held by simp
  show "compact_inv (flushPendingStreams st)"
    using f none held unfolding compact_inv_def by (simp add: flushPendingStreams_def)
qed


subsection \<open>Three quantities\<close>

text \<open>The text of a stream, emitted and pending.\<close>

definition stream_text :: "ckind \<Rightarrow> jsval \<Rightarrow> event list \<Rightarrow> string" where
  "stream_text k i es = join_deltas (filter (is_delta k i) es)"

definition text_so_far :: "ckind \<Rightarrow> jsval \<Rightarrow> cstate \<Rightarrow> string" where
  "text_so_far k i st = stream_text k i (compacted st) @ join_deltas (p_deltas (get_pending k i st))"

text \<open>The events that are kept as they are, emitted and pending.\<close>

definition others :: "pending_map \<Rightarrow> event list" where
  "others m = concat (map (\<lambda>(i, p). p_other p) m)"

definition kept_so_far :: "cstate \<Rightarrow> event multiset" where
  "kept_so_far st = mset (filter is_kept (compacted st)) + mset (others (pend CText st)) + mset (others (pend CTool st))"

text \<open>The state events, emitted and collected.\<close>

definition state_so_far :: "cstate \<Rightarrow> event list" where
  "state_so_far st = filter is_state (compacted st) @ stateEvents st"

lemma join_append [simp]: "join_deltas (a @ b) = join_deltas a @ join_deltas b" "join_deltas [] = []"
  by (simp_all add: join_deltas_def)

lemma stream_text_append [simp]: "stream_text k i (a @ b) = stream_text k i a @ stream_text k i b" "stream_text k i [] = []"
  by (simp_all add: stream_text_def)

lemma others_append: "others (a @ b) = others a @ others b" "others ((i, p) # m) = p_other p @ others m" "others [] = []"
  by (simp_all add: others_def)

lemma others_update:
  assumes "distinct (map fst m)"
  shows "mset (others (AList.update i p m)) + mset (case map_of m i of Some q \<Rightarrow> p_other q | None \<Rightarrow> []) =
    mset (others m) + mset (p_other p)"
  using assms
proof (induction m)
  case (Cons x m)
  obtain j q where x: "x = (j, q)" by (cases x)
  from Cons show ?case by (cases "j = i") (simp_all add: x others_append)
qed (simp add: others_def)

lemma mset_chain:
  assumes "a + x = b + y" "y + z = x + w"
  shows "a + z = b + (w :: 'a multiset)"
proof -
  have "(a + z) + x = (a + x) + z" by (simp add: add_ac)
  also have "\<dots> = b + (y + z)" by (simp add: assms(1) add_ac)
  also have "\<dots> = (b + w) + x" by (simp add: assms(2) add_ac)
  finally show ?thesis by simp
qed

lemma others_delete:
  assumes "distinct (map fst m)"
  shows "mset (others (AList.delete i m)) + mset (case map_of m i of Some q \<Rightarrow> p_other q | None \<Rightarrow> []) = mset (others m)"
  using assms
proof (induction m)
  case (Cons x m)
  obtain j q where x: "x = (j, q)" by (cases x)
  show ?case
  proof (cases "j = i")
    case True
    with Cons.prems have "map_of m i = None" by (simp add: x map_of_eq_None_iff)
    with Cons True show ?thesis by (simp add: x others_append)
  next
    case False
    with Cons show ?thesis by (simp add: x others_append)
  qed
qed (simp add: others_def)

definition all_others :: "cstate \<Rightarrow> event multiset" where
  "all_others st = mset (others (pend CText st)) + mset (others (pend CTool st))"

lemma all_others_set:
  "all_others (set_pend k m st) + mset (others (pend k st)) = all_others st + mset (others m)"
  by (cases k) (simp_all add: all_others_def)

lemma all_others_put:
  assumes "\<And>k. distinct (map fst (pend k st))"
  shows "all_others (put_pending k i p st) + mset (p_other (get_pending k i st)) = all_others st + mset (p_other p)"
proof -
  have "all_others (put_pending k i p st) + mset (others (pend k st)) =
      all_others st + mset (others (AList.update i p (pend k st)))"
    unfolding put_pending_def by (rule all_others_set)
  moreover have "mset (others (AList.update i p (pend k st))) + mset (p_other (get_pending k i st)) =
      mset (others (pend k st)) + mset (p_other p)"
    using others_update [OF assms, of i p k] by (simp add: get_pending_def split: option.splits)
  ultimately show ?thesis by (rule mset_chain)
qed

lemma all_others_ensure:
  assumes "\<And>k. distinct (map fst (pend k st))"
  shows "all_others (ensure_pending k i st) = all_others st"
proof (cases "map_of (pend k st) i")
  case None
  with all_others_put [OF assms, of k i no_pending] show ?thesis
    by (simp add: ensure_pending_def put_pending_def get_pending_def all_others_def)
qed (simp add: ensure_pending_def)

lemma all_others_flush:
  assumes "\<And>k. distinct (map fst (pend k st))"
  shows "all_others (flush_one st (k, i)) + mset (p_other (get_pending k i st)) = all_others st"
proof (cases "held k i st")
  case (Some p)
  have "all_others (flush_one st (k, i)) + mset (others (pend k st)) =
      all_others st + mset (others (AList.delete i (pend k st)))"
    using all_others_set [of k "AList.delete i (pend k st)" "push (flush_stream k i p) st"]
    by (simp add: flush_one_some [OF Some]) (simp add: all_others_def)
  moreover have "mset (others (AList.delete i (pend k st))) + mset (p_other (get_pending k i st)) = mset (others (pend k st)) + {#}"
    using others_delete [OF assms, of i k] by (simp add: get_pending_def split: option.splits)
  ultimately have "all_others (flush_one st (k, i)) + mset (p_other (get_pending k i st)) = all_others st + {#}"
    by (rule mset_chain)
  then show ?thesis by simp
qed (simp add: flush_one_none get_held)

lemma kept_so_far_alt: "kept_so_far st = mset (filter is_kept (compacted st)) + all_others st"
  by (simp add: kept_so_far_def all_others_def add.assoc)

lemma inv_distinct: "compact_inv st \<Longrightarrow> distinct (map fst (pend k st))"
  by (simp add: compact_inv_def)

subsection \<open>Flushing changes none of them\<close>

lemma flush_one_text:
  assumes "pending_wf k i (get_pending k i st)"
  shows "text_so_far k' i' (flush_one st (k, i)) = text_so_far k' i' st"
  using assms flush_stream_deltas [of k i "get_pending k i st" k' i']
  by (auto simp: text_so_far_def stream_text_def compacted_flush_one get_held held_flush_one split: option.splits)

lemma flush_one_state:
  assumes "pending_wf k i (get_pending k i st)"
  shows "state_so_far (flush_one st (k, i)) = state_so_far st"
  using assms flush_stream_state [of k i "get_pending k i st"]
  by (auto simp: state_so_far_def compacted_flush_one get_held split: option.splits)

lemma flush_one_kept:
  assumes "pending_wf k i (get_pending k i st)" "\<And>k. distinct (map fst (pend k st))"
  shows "kept_so_far (flush_one st (k, i)) =
    kept_so_far st + mset (case p_end (get_pending k i st) of Some ev \<Rightarrow> [ev] | None \<Rightarrow> [])"
proof -
  have "filter is_kept (compacted (flush_one st (k, i))) = filter is_kept (compacted st) @
      (case p_end (get_pending k i st) of Some ev \<Rightarrow> [ev] | None \<Rightarrow> []) @ p_other (get_pending k i st)"
    using assms(1) flush_stream_kept [of k i "get_pending k i st"]
    by (auto simp: compacted_flush_one get_held split: option.splits)
  with all_others_flush [OF assms(2), of k i] show ?thesis
    by (simp add: kept_so_far_alt add_ac)
qed

lemma flush_fold_quantities:
  "compact_inv st \<Longrightarrow>
     text_so_far k i (foldl flush_one st ord) = text_so_far k i st \<and>
     state_so_far (foldl flush_one st ord) = state_so_far st \<and>
     kept_so_far (foldl flush_one st ord) = kept_so_far st"
proof (induction ord arbitrary: st)
  case (Cons x ord)
  obtain k' i' where x: "x = (k', i')" by (cases x)
  have wf: "pending_wf k' i' (get_pending k' i' st)" "p_end (get_pending k' i' st) = None"
    using get_wf [OF Cons.prems] by auto
  have d: "distinct (map fst (pend k st))" for k by (rule inv_distinct [OF Cons.prems])
  from Cons.IH [OF flush_one_inv [OF Cons.prems], of k' i'] wf(2)
    flush_one_text [OF wf(1)] flush_one_state [OF wf(1)] flush_one_kept [OF wf(1) d] show ?case
    by (simp add: x)
qed simp

lemma flushPendingStreams_quantities:
  assumes "compact_inv st"
  shows "text_so_far k i (flushPendingStreams st) = text_so_far k i st"
    "state_so_far (flushPendingStreams st) = state_so_far st" "kept_so_far (flushPendingStreams st) = kept_so_far st"
  using flush_fold_quantities [OF assms, of k i "pendingStreamOrder st"]
  by (simp_all add: flushPendingStreams_def text_so_far_def get_pending_def state_so_far_def kept_so_far_def)


subsection \<open>The steps\<close>

lemma start_type_carry [simp]: "ev_type (carryStartMetadata q ev) = ev_type ev" "ev_type (replaceStartFields q ev) = ev_type ev"
  by (simp_all add: carryStartMetadata_def replaceStartFields_def Let_def split: option.split)

text \<open>Replacing the pending entry of an id, its kept events unchanged.\<close>

lemma put_quantities:
  assumes inv: "compact_inv st" and wf: "pending_wf k i p"
    and same: "p_other p = p_other (get_pending k i st)"
  shows "state_so_far (put_pending k i p (ensure_pending k i st)) = state_so_far st"
    "kept_so_far (put_pending k i p (ensure_pending k i st)) = kept_so_far st"
    "text_so_far k' i' (put_pending k i p (ensure_pending k i st)) =
       (if k' = k \<and> i' = i then stream_text k i (compacted st) @ join_deltas (p_deltas p) else text_so_far k' i' st)"
proof -
  have d: "distinct (map fst (pend k st))" for k using inv by (rule inv_distinct)
  have "all_others (put_pending k i p (ensure_pending k i st)) = all_others st"
    using all_others_put [of "ensure_pending k i st" k i p] all_others_ensure [of st k i] d distinct_ensure same by simp
  then show "kept_so_far (put_pending k i p (ensure_pending k i st)) = kept_so_far st"
    by (simp add: kept_so_far_alt)
qed (auto simp: state_so_far_def text_so_far_def)

lemma on_start_step:
  assumes inv: "compact_inv st" and ty: "ev_type ev = cstart_type k"
  shows "compact_inv (on_start k ev st)" "state_so_far (on_start k ev st) = state_so_far st"
    "kept_so_far (on_start k ev st) = kept_so_far st" "text_so_far k' i' (on_start k ev st) = text_so_far k' i' st"
proof -
  let ?i = "field ev (id_field k)"
  let ?q = "get_pending k ?i st"
  let ?p = "if p_deltas ?q = [] then ?q\<lparr>p_start := Some (carryStartMetadata (p_start ?q) ev)\<rparr>
         else ?q\<lparr>p_start := Some (replaceStartFields (p_start ?q) ev),
                p_meta := mergeMetadata (p_meta ?q) (field ev ''metadata'')\<rparr>"
  have eq: "on_start k ev st = put_pending k ?i ?p (ensure_pending k ?i st)"
    by (simp add: on_start_def Let_def)
  have wf: "pending_wf k ?i ?p" "p_end ?p = None" using get_wf [OF inv, of k ?i] ty by (auto simp: pending_wf_def)
  have same: "p_other ?p = p_other ?q" "p_deltas ?p = p_deltas ?q" by auto
  note q = put_quantities [OF inv wf(1) same(1)]
  show "compact_inv (on_start k ev st)" unfolding eq by (rule put_inv [OF inv wf])
  show "state_so_far (on_start k ev st) = state_so_far st" "kept_so_far (on_start k ev st) = kept_so_far st"
    unfolding eq by (rule q)+
  show "text_so_far k' i' (on_start k ev st) = text_so_far k' i' st"
    unfolding eq q(3) same(2) by (simp add: text_so_far_def)
qed

lemma on_delta_step:
  assumes inv: "compact_inv st" and ty: "ev_type ev = delta_type k"
  shows "compact_inv (on_delta k ev st)" "state_so_far (on_delta k ev st) = state_so_far st"
    "kept_so_far (on_delta k ev st) = kept_so_far st"
    "text_so_far k' i' (on_delta k ev st) = text_so_far k' i' st @ stream_text k' i' [ev]"
proof -
  let ?i = "field ev (id_field k)"
  let ?q = "get_pending k ?i st"
  let ?p = "?q\<lparr>p_deltas := p_deltas ?q @ [ev], p_meta := mergeMetadata (p_meta ?q) (field ev ''metadata'')\<rparr>"
  have eq: "on_delta k ev st = put_pending k ?i ?p (ensure_pending k ?i st)"
    by (simp add: on_delta_def Let_def)
  have wf: "pending_wf k ?i ?p" "p_end ?p = None" using get_wf [OF inv, of k ?i] ty by (auto simp: pending_wf_def is_delta_def)
  have same: "p_other ?p = p_other ?q" by simp
  note q = put_quantities [OF inv wf(1) same]
  show "compact_inv (on_delta k ev st)" unfolding eq by (rule put_inv [OF inv wf])
  show "state_so_far (on_delta k ev st) = state_so_far st" "kept_so_far (on_delta k ev st) = kept_so_far st"
    unfolding eq by (rule q)+
  show "text_so_far k' i' (on_delta k ev st) = text_so_far k' i' st @ stream_text k' i' [ev]"
    unfolding eq q(3) using ty by (auto simp: text_so_far_def stream_text_def is_delta_def)
qed

lemma forget_quantities [simp]:
  "state_so_far (forgetPendingStream k i st) = state_so_far st" "kept_so_far (forgetPendingStream k i st) = kept_so_far st"
  "text_so_far k' i' (forgetPendingStream k i st) = text_so_far k' i' st"
  "held k' i' (forgetPendingStream k i st) = held k' i' st"
  by (simp_all add: forgetPendingStream_def state_so_far_def kept_so_far_def text_so_far_def get_pending_def held_def)

lemma on_end_step:
  assumes inv: "compact_inv st" and ty: "ev_type ev = cend_type k"
  shows "compact_inv (on_end k ev st)" "state_so_far (on_end k ev st) = state_so_far st"
    "kept_so_far (on_end k ev st) = kept_so_far st + {#ev#}"
    "text_so_far k' i' (on_end k ev st) = text_so_far k' i' st"
proof -
  let ?i = "field ev (id_field k)"
  let ?q = "get_pending k ?i st"
  let ?p = "?q\<lparr>p_end := Some ev\<rparr>"
  let ?st2 = "put_pending k ?i ?p (ensure_pending k ?i st)"
  have eq: "on_end k ev st = forgetPendingStream k ?i (flush_one ?st2 (k, ?i))"
    by (simp add: on_end_def Let_def)
  have wf: "pending_wf k ?i ?p" using get_wf [OF inv, of k ?i] ty by (auto simp: pending_wf_def)
  note q = put_quantities [OF inv wf, simplified]
  have g: "get_pending k ?i ?st2 = ?p" by simp
  have wf2: "pending_wf k ?i (get_pending k ?i ?st2)" unfolding g by (rule wf)
  have d: "distinct (map fst (pend k' ?st2))" for k' using inv by (simp add: inv_distinct distinct_ensure distinct_put)
  show "state_so_far (on_end k ev st) = state_so_far st"
    unfolding eq forget_quantities flush_one_state [OF wf2] by (rule q)
  show "kept_so_far (on_end k ev st) = kept_so_far st + {#ev#}"
    unfolding eq forget_quantities flush_one_kept [OF wf2 d] g using q(2) by simp
  show "text_so_far k' i' (on_end k ev st) = text_so_far k' i' st"
    unfolding eq forget_quantities flush_one_text [OF wf2] using q(3) by (simp add: text_so_far_def)
  have held: "held k' i' (on_end k ev st) = (if k' = k \<and> i' = ?i then None else held k' i' st)" for k' i'
    unfolding eq forget_quantities held_flush_one held_put held_ensure by simp
  have fields: "pendingStreamOrder (on_end k ev st) = remove1 (k, ?i) (pendingStreamOrder (ensure_pending k ?i st))"
    "pend k' (on_end k ev st) = pend k' (flush_one ?st2 (k, ?i))" "stateEvents (on_end k ev st) = stateEvents st" for k'
    unfolding eq by (simp_all add: forgetPendingStream_def)
  have ord: "(k', i') \<in> set (pendingStreamOrder (on_end k ev st))"
    if "(k', i') \<noteq> (k, ?i)" "(k', i') \<in> set (pendingStreamOrder st)" for k' i'
    using that unfolding fields by (simp add: order_ensure)
  show "compact_inv (on_end k ev st)"
    using inv d ord unfolding compact_inv_def held fields by (auto simp: distinct_flush_one)
qed

lemma buffer_other_Some:
  "buffer_other ev m = Some m' \<Longrightarrow>
     \<exists>a i p b. m = a @ (i, p) # b \<and> m' = a @ (i, p\<lparr>p_other := p_other p @ [ev]\<rparr>) # b"
proof (induction ev m arbitrary: m' rule: buffer_other.induct)
  case (2 ev i p m)
  show ?case
  proof (cases "p_start p \<noteq> None \<and> p_end p = None")
    case True
    with 2 show ?thesis by (intro exI [of _ "[]"]) auto
  next
    case False
    with "2.prems" obtain m0 where m0: "buffer_other ev m = Some m0" "m' = (i, p) # m0" by auto
    from "2.IH" [OF False m0(1)] obtain a j q b where
      "m = a @ (j, q) # b" "m0 = a @ (j, q\<lparr>p_other := p_other q @ [ev]\<rparr>) # b" by blast
    with m0(2) show ?thesis by (intro exI [of _ "(i, p) # a"] exI [of _ j] exI [of _ q] exI [of _ b]) simp
  qed
qed simp

lemma buffered_step:
  assumes inv: "compact_inv st" and kept: "is_kept ev" and m: "buffer_other ev (pend k st) = Some m"
  shows "compact_inv (set_pend k m st)" "state_so_far (set_pend k m st) = state_so_far st"
    "kept_so_far (set_pend k m st) = kept_so_far st + {#ev#}"
    "text_so_far k' i' (set_pend k m st) = text_so_far k' i' st"
proof -
  obtain a i p b where ab: "pend k st = a @ (i, p) # b" "m = a @ (i, p\<lparr>p_other := p_other p @ [ev]\<rparr>) # b"
    using buffer_other_Some [OF m] by blast
  have keys: "map fst m = map fst (pend k st)" by (simp add: ab)
  have d: "distinct (map fst (pend k st))" using inv by (rule inv_distinct)
  have at: "map_of (pend k st) i = Some p" by (rule map_of_is_SomeI [OF d]) (simp add: ab)
  have look: "map_of m j = (if j = i then Some (p\<lparr>p_other := p_other p @ [ev]\<rparr>) else map_of (pend k st) j)" for j
  proof -
    have "map_of a i = None" using d by (simp add: ab map_of_eq_None_iff)
    then show ?thesis by (simp add: ab map_add_def split: option.split)
  qed
  have held: "held k' j (set_pend k m st) =
      (if k' = k \<and> j = i then Some (p\<lparr>p_other := p_other p @ [ev]\<rparr>) else held k' j st)" for k' j
    by (simp add: held_def look)
  have wf: "pending_wf k i p \<and> p_end p = None" using inv at by (simp add: compact_inv_def held_def)
  show "compact_inv (set_pend k m st)"
    using inv wf kept at unfolding compact_inv_def held
    by (auto simp: keys pending_wf_def held_def [of k i st])
  show "state_so_far (set_pend k m st) = state_so_far st" by (simp add: state_so_far_def)
  have "mset (others m) = mset (others (pend k st)) + {#ev#}" by (simp add: ab others_append)
  then show "kept_so_far (set_pend k m st) = kept_so_far st + {#ev#}"
    using all_others_set [of k m st] by (simp add: kept_so_far_alt)
  show "text_so_far k' i' (set_pend k m st) = text_so_far k' i' st"
    using at by (simp add: text_so_far_def get_held held held_def [of k i st])
qed

lemma on_other_step:
  assumes inv: "compact_inv st" and kept: "is_kept ev"
  shows "compact_inv (on_other ev st)" "state_so_far (on_other ev st) = state_so_far st"
    "kept_so_far (on_other ev st) = kept_so_far st + {#ev#}"
    "text_so_far k' i' (on_other ev st) = text_so_far k' i' st"
proof -
  note b = buffered_step [OF inv kept]
  have direct: "compact_inv (push [ev] st)" "state_so_far (push [ev] st) = state_so_far st"
    "kept_so_far (push [ev] st) = kept_so_far st + {#ev#}" "text_so_far k' i' (push [ev] st) = text_so_far k' i' st"
    using inv kept kept_neither [OF kept, of k' i']
    by (auto simp: compact_inv_def held_def state_so_far_def kept_so_far_def text_so_far_def get_pending_def stream_text_def)
  consider m where "on_other ev st = set_pend CText m st" "buffer_other ev (pend CText st) = Some m"
    | m where "on_other ev st = set_pend CTool m st" "buffer_other ev (pend CTool st) = Some m"
    | "on_other ev st = push [ev] st"
    unfolding on_other_def by (cases "buffer_other ev (pend CText st)"; cases "buffer_other ev (pend CTool st)") auto
  then show "compact_inv (on_other ev st)" "state_so_far (on_other ev st) = state_so_far st"
    "kept_so_far (on_other ev st) = kept_so_far st + {#ev#}"
    "text_so_far k' i' (on_other ev st) = text_so_far k' i' st"
    by (cases; simp only: b direct)+
qed

subsection \<open>State events\<close>

definition state_after :: "(jsval \<Rightarrow> jsval \<Rightarrow> jsval option) \<Rightarrow> jsval \<Rightarrow> event list \<Rightarrow> jsval" where
  "state_after patch s es = foldl (fold_state patch) s (filter is_state es)"

lemma state_after_append [simp]: "state_after patch s (a @ b) = state_after patch (state_after patch s a) b"
  by (simp add: state_after_def)

lemma state_after_none: "filter is_state es = [] \<Longrightarrow> state_after patch s es = s"
  by (simp add: state_after_def)

lemma from_last_snapshot_Some:
  "from_last_snapshot evs = Some window \<Longrightarrow> \<exists>pre ev rest. evs = pre @ window \<and> window = ev # rest \<and> ev_type ev = STATE_SNAPSHOT"
proof (induction evs)
  case (Cons e evs)
  show ?case
  proof (cases "from_last_snapshot evs")
    case None
    with Cons.prems show ?thesis by (auto split: if_splits)
  next
    case (Some w)
    with Cons obtain pre ev rest where "evs = pre @ window" "window = ev # rest" "ev_type ev = STATE_SNAPSHOT" by auto
    then show ?thesis by (intro exI [of _ "e # pre"] exI [of _ ev] exI [of _ rest]) simp
  qed
qed simp

lemma flushState_after:
  assumes "list_all is_state evs"
  shows "state_after patch s (flushState patch evs) = state_after patch s evs"
proof (cases "from_last_snapshot evs")
  case None
  then show ?thesis by (simp add: flushState_def)
next
  case (Some window)
  obtain pre ev rest where w: "evs = pre @ window" "window = ev # rest" "ev_type ev = STATE_SNAPSHOT"
    using from_last_snapshot_Some [OF Some] by blast
  have "filter is_state window = window" using assms w(1) by (simp add: list_all_iff)
  then have "state_after patch s evs = foldl (fold_state patch) (state_after patch s pre) window"
    by (simp add: w(1) state_after_def)
  also have "\<dots> = foldl (fold_state patch) (JObj []) window" by (simp add: w(2,3) fold_state_def [of _ _ ev])
  finally show ?thesis using Some
    by (simp add: flushState_def state_after_def is_state_def fold_state_def [of _ _ "mk_event _ _"])
qed

lemma filter_states: "list_all is_state evs \<Longrightarrow> filter is_state evs = evs"
  by (simp add: list_all_iff)

lemma flushState_kinds:
  assumes "list_all is_state evs"
  shows "list_all is_state (flushState patch evs)"
  using assms by (simp add: flushState_def is_state_def split: option.split)

lemma states_neither: "list_all is_state es \<Longrightarrow> filter is_kept es = [] \<and> filter (is_delta k i) es = []"
  by (auto simp: list_all_iff filter_empty_conv is_kept_def is_delta_def is_state_def)

definition state_value :: "(jsval \<Rightarrow> jsval \<Rightarrow> jsval option) \<Rightarrow> jsval \<Rightarrow> cstate \<Rightarrow> jsval" where
  "state_value patch s st = foldl (fold_state patch) s (state_so_far st)"

lemma flush_state_step:
  assumes inv: "compact_inv st"
  shows "compact_inv (flush_state_events patch st)" "state_value patch s (flush_state_events patch st) = state_value patch s st"
    "kept_so_far (flush_state_events patch st) = kept_so_far st"
    "text_so_far k i (flush_state_events patch st) = text_so_far k i st"
proof -
  have states: "list_all is_state (stateEvents st)" using inv by (simp add: compact_inv_def)
  note out = flushState_kinds [OF states, of patch]
  have "compacted (flush_state_events patch st) = compacted st @ flushState patch (stateEvents st)"
    "stateEvents (flush_state_events patch st) = []" "pend k (flush_state_events patch st) = pend k st"
    "pendingStreamOrder (flush_state_events patch st) = pendingStreamOrder st" for k
    by (simp_all add: flush_state_events_def)
  note fields = this
  show "compact_inv (flush_state_events patch st)" using inv by (simp add: compact_inv_def fields held_def)
  show "state_value patch s (flush_state_events patch st) = state_value patch s st"
    using flushState_after [OF states, of patch "foldl (fold_state patch) s (filter is_state (compacted st))"]
    by (simp add: state_value_def state_so_far_def fields state_after_def filter_states [OF out] filter_states [OF states])
  show "kept_so_far (flush_state_events patch st) = kept_so_far st"
    "text_so_far k i (flush_state_events patch st) = text_so_far k i st"
    using states_neither [OF out, of k i]
    by (simp_all add: kept_so_far_def text_so_far_def fields get_pending_def stream_text_def)
qed


lemma push_kept_step:
  assumes "is_kept ev"
  shows "compact_inv st \<Longrightarrow> compact_inv (push [ev] st)" "state_value patch s (push [ev] st) = state_value patch s st"
    "kept_so_far (push [ev] st) = kept_so_far st + {#ev#}" "text_so_far k i (push [ev] st) = text_so_far k i st"
  using assms kept_neither [OF assms, of k i]
  by (auto simp: compact_inv_def held_def state_value_def state_so_far_def kept_so_far_def text_so_far_def
      get_pending_def stream_text_def)

subsection \<open>The whole\<close>

text \<open>One event: the invariant holds, and the three quantities grow by what the event contributes.\<close>

definition grows :: "(jsval \<Rightarrow> jsval \<Rightarrow> jsval option) \<Rightarrow> jsval \<Rightarrow> ckind \<Rightarrow> jsval \<Rightarrow> event \<Rightarrow> cstate \<Rightarrow> cstate \<Rightarrow> bool" where
  "grows patch s k i ev st st' \<longleftrightarrow> compact_inv st' \<and>
     state_value patch s st' = state_after patch (state_value patch s st) [ev] \<and>
     kept_so_far st' = kept_so_far st + mset (filter is_kept [ev]) \<and>
     text_so_far k i st' = text_so_far k i st @ stream_text k i [ev]"

lemma type_facts:
  "ev_type ev = cstart_type k' \<Longrightarrow> \<not> is_state ev \<and> \<not> is_kept ev \<and> \<not> is_delta k i ev"
  "ev_type ev = delta_type k' \<Longrightarrow> \<not> is_state ev \<and> \<not> is_kept ev"
  "ev_type ev = cend_type k' \<Longrightarrow> \<not> is_state ev \<and> is_kept ev \<and> \<not> is_delta k i ev"
  by (auto simp: is_state_def is_kept_def is_delta_def)

lemma state_value_cong: "state_so_far st' = state_so_far st \<Longrightarrow> state_value patch s st' = state_value patch s st"
  by (simp add: state_value_def)

lemma stream_grows:
  assumes inv: "compact_inv st"
  shows "ev_type ev = cstart_type k' \<Longrightarrow> grows patch s k i ev st (on_start k' ev st)"
    "ev_type ev = delta_type k' \<Longrightarrow> grows patch s k i ev st (on_delta k' ev st)"
    "ev_type ev = cend_type k' \<Longrightarrow> grows patch s k i ev st (on_end k' ev st)"
  using on_start_step [OF inv, of ev k'] on_delta_step [OF inv, of ev k'] on_end_step [OF inv, of ev k']
    type_facts(1,3) [of ev k' k i] type_facts(2) [of ev k']
  by (simp_all add: grows_def state_value_def state_after_def stream_text_def)

lemma kept_grows:
  assumes inv: "compact_inv st" and kept: "is_kept ev"
  shows "grows patch s k i ev st (on_other ev st)"
    "grows patch s k i ev st (push [ev] (flush_state_events patch st))"
    "grows patch s k i ev st (push [ev] (flush_state_events patch (flushPendingStreams st)))"
proof -
  have ev: "\<not> is_state ev" "\<not> is_delta k i ev" using kept_neither [OF kept] by auto
  note p = push_kept_step [OF kept]
  show "grows patch s k i ev st (on_other ev st)"
    using on_other_step [OF inv kept] kept ev by (simp add: grows_def state_value_def state_after_def stream_text_def)
  show "grows patch s k i ev st (push [ev] (flush_state_events patch st))"
    using flush_state_step [OF inv] kept ev by (simp add: grows_def p state_after_def stream_text_def)
  note f = flushPendingStreams_inv(1) [OF inv] flushPendingStreams_quantities(1) [OF inv, of k i] flushPendingStreams_quantities(2,3) [OF inv]
  show "grows patch s k i ev st (push [ev] (flush_state_events patch (flushPendingStreams st)))"
    using flush_state_step [OF f(1)] kept ev f state_value_cong [OF f(3), of patch s]
    by (simp add: grows_def p state_after_def stream_text_def)
qed

lemma state_grows:
  assumes inv: "compact_inv st" and st: "is_state ev"
  shows "grows patch s k i ev st (st\<lparr>stateEvents := stateEvents st @ [ev]\<rparr>)"
proof -
  have "\<not> is_kept ev" "\<not> is_delta k i ev" using st by (auto simp: is_kept_def is_delta_def is_state_def)
  with inv st show ?thesis
    by (simp add: grows_def compact_inv_def held_def state_value_def state_so_far_def kept_so_far_def text_so_far_def
        get_pending_def stream_text_def state_after_def)
qed

lemma compact_step_grows:
  assumes inv: "compact_inv st"
  shows "grows patch s k i ev st (compact_step patch st ev)"
proof -
  have kept: "is_kept ev" if "ev_type ev \<notin> {STATE_SNAPSHOT, STATE_DELTA}"
    "\<And>k. ev_type ev \<noteq> cstart_type k" "\<And>k. ev_type ev \<noteq> delta_type k"
    using that by (auto simp: is_kept_def is_state_def)
  have other: "is_kept ev" if "ev_type ev \<notin> {STATE_SNAPSHOT, STATE_DELTA, TEXT_MESSAGE_START, TOOL_CALL_START,
      TEXT_MESSAGE_CONTENT, TOOL_CALL_ARGS}"
  proof (rule kept)
    show "ev_type ev \<noteq> cstart_type k" "ev_type ev \<noteq> delta_type k" for k using that by (cases k; auto)+
  qed (use that in auto)
  show ?thesis
    using stream_grows [OF inv, of ev CText] stream_grows [OF inv, of ev CTool] kept_grows [OF inv other]
      state_grows [OF inv, of ev]
    by (cases "ev_type ev") (simp_all add: compact_step_def is_state_def)
qed

lemma compact_run:
  "compact_inv st \<Longrightarrow>
     compact_inv (foldl (compact_step patch) st es) \<and>
     state_value patch s (foldl (compact_step patch) st es) = state_after patch (state_value patch s st) es \<and>
     kept_so_far (foldl (compact_step patch) st es) = kept_so_far st + mset (filter is_kept es) \<and>
     text_so_far k i (foldl (compact_step patch) st es) = text_so_far k i st @ stream_text k i es"
proof (induction es arbitrary: st)
  case (Cons ev es)
  have g: "grows patch s k i ev st (compact_step patch st ev)" by (rule compact_step_grows [OF Cons.prems])
  then have inv: "compact_inv (compact_step patch st ev)" by (simp add: grows_def)
  have cons: "stream_text k i (ev # es) = stream_text k i [ev] @ stream_text k i es"
    "state_after patch t (ev # es) = state_after patch (state_after patch t [ev]) es" for t
    using stream_text_append(1) [of k i "[ev]" es] state_after_append [of patch t "[ev]" es] by simp_all
  from Cons.IH [OF inv] g show ?case by (simp add: grows_def cons)
qed (simp add: state_after_def stream_text_def)

lemma compact_inv_init: "compact_inv init_cstate"
proof -
  have "pend k init_cstate = []" for k by (cases k) (simp_all add: init_cstate_def)
  then show ?thesis by (simp add: compact_inv_def held_def) (simp add: init_cstate_def)
qed

lemma compacted_result:
  "state_after patch s (compactEvents patch es) = state_after patch s es"
  "mset (filter is_kept (compactEvents patch es)) = mset (filter is_kept es)"
  "stream_text k i (compactEvents patch es) = stream_text k i es"
proof -
  let ?st = "foldl (compact_step patch) init_cstate es"
  let ?fl = "flushPendingStreams ?st"
  let ?out = "flush_state_events patch ?fl"
  have pend: "pend k init_cstate = []" for k by (cases k) (simp_all add: init_cstate_def)
  note run = compact_run [OF compact_inv_init, of patch es s k i]
  have inv: "compact_inv ?st" using run by blast
  note f = flushPendingStreams_inv [OF inv] flushPendingStreams_quantities(1) [OF inv, of k i] flushPendingStreams_quantities(2,3) [OF inv]
  note g = flush_state_step [OF f(1)]
  have none: "held k i ?out = None" for k i
    using flushPendingStreams_inv(2) [OF inv] by (simp add: flush_state_events_def held_def)
  have empty: "pend k ?out = []" for k
  proof -
    have "map_of (pend k ?out) = Map.empty" using none unfolding held_def by (auto simp: fun_eq_iff)
    then show ?thesis by simp
  qed
  have se: "stateEvents ?out = []" by (simp add: flush_state_events_def)
  have init: "state_value patch s init_cstate = s" "kept_so_far init_cstate = {#}" "text_so_far k i init_cstate = []"
    by (simp_all add: state_value_def state_so_far_def kept_so_far_def text_so_far_def get_pending_def pend others_def)
      (simp_all add: init_cstate_def stream_text_def)
  have out: "compactEvents patch es = compacted ?out" by (simp add: compactEvents_def)
  show "state_after patch s (compactEvents patch es) = state_after patch s es"
  proof -
    have "state_value patch s ?out = state_after patch s es"
      using g(2) [of patch s] state_value_cong [OF f(4), of patch s] run init(1) by simp
    then show ?thesis unfolding out by (simp add: state_value_def state_so_far_def se state_after_def)
  qed
  show "mset (filter is_kept (compactEvents patch es)) = mset (filter is_kept es)"
    using g(3) [of patch] f run init unfolding out by (simp add: kept_so_far_def empty others_def)
  show "stream_text k i (compactEvents patch es) = stream_text k i es"
    using g(4) [of k i patch] f run init unfolding out by (simp add: text_so_far_def get_pending_def empty)
qed

end
