(* ===== verification/CompactSpec.thy ===== *)
theory CompactSpec
  imports CompactProps VerifySpec ApplySpec
begin

text \<open>
  What compaction promises, seen by the components that replay its output: the reducer and the verifier.
\<close>

subsection \<open>The state the reducer computes\<close>

definition state_is :: "jsval \<Rightarrow> 'e + 'w rstate \<times> update list \<Rightarrow> bool" where
  "state_is v r \<longleftrightarrow> (case r of Inl _ \<Rightarrow> True | Inr y \<Rightarrow> state (fst y) = v)"

lemma state_is_simps [simp]: "state_is v (emit rs) \<longleftrightarrow> state rs = v" "state_is v (Inl e)"
  by (simp_all add: state_is_def emit_def emitUpdates_def)

lemma mutation_state [simp]:
  "state (applyMutation ms None rs) = state rs"
  "state (applyMutation None (Some v) (rs\<lparr>state := v\<rparr>)) = v"
  by (simp_all add: applyMutation_def Let_def split: option.split)

lemma dispatch_state:
  assumes "subscribers env = []"
  shows "state_is (state_after (applyPatch env) (state rs) [ev]) (apply_dispatch env rs ev)"
  using assms
  by (cases "ev_type ev")
    (simp_all add: apply_dispatch_def apply_handlers ap_tool_call_result_def Let_def state_after_def is_state_def
      fold_state_def split: option.split prod.split jsval.split)

lemma run_state:
  "subscribers env = [] \<Longrightarrow> run_stage (apply_step env) rs es = (us, Inr rs') \<Longrightarrow>
     state rs' = state_after (applyPatch env) (state rs) es"
proof (induction es arbitrary: rs us)
  case (Cons e es)
  from Cons.prems(2) obtain rs1 us1 us2 where step: "apply_step env rs e = Inr (rs1, us1)"
    and rest: "run_stage (apply_step env) rs1 es = (us2, Inr rs')" by (rule run_stage_Cons_Inr)
  from dispatch_state [OF Cons.prems(1), of rs e] step have "state rs1 = state_after (applyPatch env) (state rs) [e]"
    by (simp add: apply_step_plain [OF Cons.prems(1)] state_is_def)
  with Cons.IH [OF Cons.prems(1) rest] show ?case using state_after_append [of "applyPatch env" "state rs" "[e]" es] by simp
qed (simp add: state_after_def)

text \<open>A run for the witnesses: state, a text message and a custom event in the middle of it.\<close>

definition demo_history :: "event list" where
  "demo_history =
     [mk_event RUN_STARTED [],
      mk_event STATE_SNAPSHOT [(''snapshot'', JNum 1)],
      mk_event TEXT_MESSAGE_START [(''messageId'', JStr ''m'')],
      mk_event TEXT_MESSAGE_CONTENT [(''messageId'', JStr ''m''), (''delta'', JStr ''a'')],
      mk_event CUSTOM [(''name'', JStr ''c'')],
      mk_event TEXT_MESSAGE_CONTENT [(''messageId'', JStr ''m''), (''delta'', JStr ''b'')],
      mk_event STATE_SNAPSHOT [(''snapshot'', JNum 2)],
      mk_event TEXT_MESSAGE_END [(''messageId'', JStr ''m'')],
      mk_event RUN_FINISHED []]"

text \<open>
  C21. Compaction does not change the state. For any event list, if the reducer completes on the original and on the compacted
  events, from the same state and with the same patch function, it ends with the same state. Windows without a snapshot,
  failing patches and several runs are included.
\<close>

theorem compact_same_state:
  assumes "subscribers env = []"
    "defaultApplyEvents env rs es = (us1, Inr rs1)"
    "defaultApplyEvents env rs (compactEvents (applyPatch env) es) = (us2, Inr rs2)"
  shows "state rs2 = state rs1"
proof -
  from assms(2) obtain os1 where r1: "run_stage (apply_step env) rs es = (os1, Inr rs1)" by (rule defaultApplyEvents_Inr)
  from assms(3) obtain os2 where r2: "run_stage (apply_step env) rs (compactEvents (applyPatch env) es) = (os2, Inr rs2)"
    by (rule defaultApplyEvents_Inr)
  from run_state [OF assms(1) r1] run_state [OF assms(1) r2] show ?thesis by (simp add: compacted_result)
qed

theorem compact_same_state_witness:
  "\<exists>us1 rs1 us2 rs2. defaultApplyEvents bare_env (init_rstate [] JUndef [] ()) demo_history = (us1, Inr rs1) \<and>
     defaultApplyEvents bare_env (init_rstate [] JUndef [] ()) (compactEvents (applyPatch bare_env) demo_history) = (us2, Inr rs2) \<and>
     state rs2 = state rs1"
proof -
  let ?a = "defaultApplyEvents bare_env (init_rstate [] JUndef [] ()) demo_history"
  let ?b = "defaultApplyEvents bare_env (init_rstate [] JUndef [] ()) (compactEvents (applyPatch bare_env) demo_history)"
  have "case snd ?a of Inl _ \<Rightarrow> False | Inr _ \<Rightarrow> True" "case snd ?b of Inl _ \<Rightarrow> False | Inr _ \<Rightarrow> True" by code_simp+
  then obtain r1 r2 where "snd ?a = Inr r1" "snd ?b = Inr r2" by (cases "snd ?a"; cases "snd ?b") auto
  then have r: "?a = (fst ?a, Inr r1)" "?b = (fst ?b, Inr r2)" by (metis prod.collapse)+
  from compact_same_state [OF bare_env_subscribers r] r show ?thesis by blast
qed

text \<open>
  Compaction loses no content: for every message and every tool call the concatenated deltas are the same before and after,
  and the events it does not merge (ends, run boundaries and everything that is not streaming text, tool arguments or state)
  are all there, each as often as before.
\<close>

theorem compact_contents:
  "stream_text k i (compactEvents patch es) = stream_text k i es \<and>
   mset (filter is_kept (compactEvents patch es)) = mset (filter is_kept es)"
  by (intro conjI compacted_result)

text \<open>
  Compaction can break a valid stream. Events that are not part of a stream are buffered with the first open text message, and only without
  one with an open tool call; so one that arrived while only a tool call was open can come out after one that arrived later. A step that
  starts inside a tool call and ends inside a text message is an accepted stream whose compacted form is
  rejected, because the step's end comes first.
\<close>

theorem compact_breaks_verification:
  "\<exists>es os st e. verifyEvents es = (os, Inr st) \<and> snd (verifyEvents (compactEvents patch es)) = Inl e"
proof -
  let ?es = "[mk_event RUN_STARTED [],
      mk_event TOOL_CALL_START [(''toolCallId'', JStr ''t'')],
      mk_event STEP_STARTED [(''stepName'', JStr ''s'')],
      mk_event TEXT_MESSAGE_START [(''messageId'', JStr ''m'')],
      mk_event STEP_FINISHED [(''stepName'', JStr ''s'')],
      mk_event TEXT_MESSAGE_END [(''messageId'', JStr ''m'')],
      mk_event TOOL_CALL_END [(''toolCallId'', JStr ''t'')],
      mk_event RUN_FINISHED []]"
  let ?out = "[mk_event RUN_STARTED [],
      mk_event TEXT_MESSAGE_START [(''messageId'', JStr ''m'')],
      mk_event TEXT_MESSAGE_END [(''messageId'', JStr ''m'')],
      mk_event STEP_FINISHED [(''stepName'', JStr ''s'')],
      mk_event TOOL_CALL_START [(''toolCallId'', JStr ''t'')],
      mk_event TOOL_CALL_END [(''toolCallId'', JStr ''t'')],
      mk_event STEP_STARTED [(''stepName'', JStr ''s'')],
      mk_event RUN_FINISHED []]"
  have "compactEvents patch ?es = ?out"
    by (simp add: compactEvents_def compact_step_def on_start_def on_end_def on_other_def ensure_pending_def get_pending_def
        put_pending_def flush_one_def flushTextMessage_def flushToolCall_def flush_stream_def push_def forgetPendingStream_def
        flush_state_events_def flushState_def flushPendingStreams_def init_cstate_def no_pending_def carryStartMetadata_def Let_def)
  moreover have "case snd (verifyEvents ?es) of Inl _ \<Rightarrow> False | Inr _ \<Rightarrow> True" by code_simp
  moreover have "case snd (verifyEvents ?out) of Inl _ \<Rightarrow> True | Inr _ \<Rightarrow> False" by code_simp
  ultimately show ?thesis
    by (cases "snd (verifyEvents ?es)"; cases "snd (verifyEvents ?out)") (auto, metis prod.collapse)
qed

end
