(* ===== verification/Framing.thy ===== *)
theory Framing
  imports JsValue "HOL-Library.Word"
begin

text \<open>
  The wire: \<^verbatim>\<open>EventEncoder\<close> of \<^verbatim>\<open>encoder/src/encoder.ts\<close> and the two stream readers \<^verbatim>\<open>parseProtoStream\<close> and
  \<^verbatim>\<open>parseSSEStream\<close> of \<^verbatim>\<open>client/src/transform\<close>. A reader is a state that HTTP events update; what its \<^verbatim>\<open>Subject\<close> has delivered is a list of
  events and, once it failed, an error after which nothing is delivered. The protobuf codec, the generated
  \<^verbatim>\<open>omitOptionalNulls\<close>, the JSON functions and the text decoder are parameters. Debug logging and warnings are left out.
\<close>

unbundle bit_operations_syntax

type_synonym bytes = "8 word list"

datatype http_event = HttpHeaders | HttpData "bytes option"

text \<open>What has come out of a \<^verbatim>\<open>Subject\<close>: it ignores everything after an error.\<close>

record ('e, 'err) sink =
  delivered :: "'e list"
  sink_error :: "'err option"

definition open_sink :: "('e, 'err) sink" where
  "open_sink = \<lparr>delivered = [], sink_error = None\<rparr>"

definition sink_next :: "'e \<Rightarrow> ('e, 'err) sink \<Rightarrow> ('e, 'err) sink" where
  "sink_next e s = (if sink_error s = None then s\<lparr>delivered := delivered s @ [e]\<rparr> else s)"

definition sink_fail :: "'err \<Rightarrow> ('e, 'err) sink \<Rightarrow> ('e, 'err) sink" where
  "sink_fail e s = (if sink_error s = None then s\<lparr>sink_error := Some e\<rparr> else s)"

definition MAX_BUFFER_SIZE :: nat where
  "MAX_BUFFER_SIZE = 10 * 1024 * 1024"

subsection \<open>Binary frames\<close>

text \<open>\<^verbatim>\<open>DataView.setUint32\<close> and \<^verbatim>\<open>getUint32\<close>, big-endian.\<close>

definition set_uint32 :: "32 word \<Rightarrow> bytes" where
  "set_uint32 n = [ucast (drop_bit 24 n), ucast (drop_bit 16 n), ucast (drop_bit 8 n), ucast n]"

fun get_uint32 :: "bytes \<Rightarrow> 32 word" where
  "get_uint32 (a # b # c # d # _) =
     push_bit 24 (ucast a) OR push_bit 16 (ucast b) OR push_bit 8 (ucast c) OR ucast d"
| "get_uint32 _ = 0"

definition encodeProtobuf :: "('e \<Rightarrow> bytes) \<Rightarrow> 'e \<Rightarrow> bytes" where
  "encodeProtobuf encode event =
     (let messageBytes = encode event in set_uint32 (word_of_nat (length messageBytes)) @ messageBytes)"

text \<open>The outcome of \<^verbatim>\<open>proto.decode\<close>: an event, the error for an unknown event type, or any other error.\<close>

datatype 'e decoded = Decoded 'e | UnknownEventType | DecodeError string

datatype proto_error =
    MessageTooLarge
  | DecodeFailed string
  | MidFrame nat
  | ProtoSourceFailed string

record 'e proto_state =
  proto_buffer :: bytes
  proto_failed :: bool
  proto_sink :: "('e, proto_error) sink"

definition init_proto :: "'e proto_state" where
  "init_proto = \<lparr>proto_buffer = [], proto_failed = False, proto_sink = open_sink\<rparr>"

text \<open>The framing loop: the bytes that are left, whether decoding failed, and the sink.\<close>

function proto_loop ::
  "(bytes \<Rightarrow> 'e decoded) \<Rightarrow> bytes \<Rightarrow> ('e, proto_error) sink \<Rightarrow> bytes \<times> bool \<times> ('e, proto_error) sink" where
  "proto_loop decode buffer s =
     (if length buffer < 4 then (buffer, False, s)
      else
        (let messageLength = unat (get_uint32 buffer); totalLength = 4 + messageLength in
         if totalLength > MAX_BUFFER_SIZE then (buffer, False, sink_fail MessageTooLarge s)
         else if length buffer < totalLength then (buffer, False, s)
         else case decode (take messageLength (drop 4 buffer)) of
           Decoded ev \<Rightarrow> proto_loop decode (drop totalLength buffer) (sink_next ev s)
         | UnknownEventType \<Rightarrow> proto_loop decode (drop totalLength buffer) s
         | DecodeError e \<Rightarrow> (buffer, True, sink_fail (DecodeFailed e) s)))"
  by pat_completeness auto
termination by (relation "measure (\<lambda>(decode, buffer, s). length buffer)") auto

declare proto_loop.simps [simp del]

definition processBuffer :: "(bytes \<Rightarrow> 'e decoded) \<Rightarrow> 'e proto_state \<Rightarrow> 'e proto_state" where
  "processBuffer decode st =
     (if proto_failed st then st
      else
        (let (b, f, s) = proto_loop decode (proto_buffer st) (proto_sink st) in
         \<lparr>proto_buffer = b, proto_failed = f, proto_sink = s\<rparr>))"

definition proto_next :: "(bytes \<Rightarrow> 'e decoded) \<Rightarrow> 'e proto_state \<Rightarrow> http_event \<Rightarrow> 'e proto_state" where
  "proto_next decode st event = (case event of
     HttpData (Some data) \<Rightarrow> processBuffer decode (st\<lparr>proto_buffer := proto_buffer st @ data\<rparr>)
   | _ \<Rightarrow> st)"

definition proto_complete :: "(bytes \<Rightarrow> 'e decoded) \<Rightarrow> 'e proto_state \<Rightarrow> 'e proto_state" where
  "proto_complete decode st =
     (let st1 = processBuffer decode st in
      if proto_failed st1 then st1
      else if proto_buffer st1 \<noteq> []
      then st1\<lparr>proto_sink := sink_fail (MidFrame (length (proto_buffer st1))) (proto_sink st1)\<rparr>
      else st1)"

definition proto_source_error :: "string \<Rightarrow> 'e proto_state \<Rightarrow> 'e proto_state" where
  "proto_source_error e st = st\<lparr>proto_sink := sink_fail (ProtoSourceFailed e) (proto_sink st)\<rparr>"

text \<open>A response that completes.\<close>

definition parseProtoStream :: "(bytes \<Rightarrow> 'e decoded) \<Rightarrow> http_event list \<Rightarrow> ('e, proto_error) sink" where
  "parseProtoStream decode events =
     proto_sink (proto_complete decode (foldl (proto_next decode) init_proto events))"

subsection \<open>Server-sent events\<close>

abbreviation nl :: char where "nl \<equiv> CHR 0x0A"

definition encodeSSE :: "('e \<Rightarrow> 'v) \<Rightarrow> ('v \<Rightarrow> string) \<Rightarrow> 'e \<Rightarrow> string" where
  "encodeSSE omitOptionalNulls stringify event = ''data: '' @ stringify (omitOptionalNulls event) @ [nl, nl]"

text \<open>\<^verbatim>\<open>split(/\n\n/)\<close>: leftmost, without overlap.\<close>

fun split_events :: "string \<Rightarrow> string list" where
  "split_events [] = [[]]"
| "split_events [c] = [[c]]"
| "split_events (c # d # cs) =
     (if c = nl \<and> d = nl then [] # split_events cs
      else case split_events (d # cs) of e # es \<Rightarrow> (c # e) # es | [] \<Rightarrow> [[c]])"

text \<open>\<^verbatim>\<open>split("\n")\<close>\<close>

fun split_lines :: "string \<Rightarrow> string list" where
  "split_lines [] = [[]]"
| "split_lines (c # cs) =
     (if c = nl then [] # split_lines cs
      else case split_lines cs of l # ls \<Rightarrow> (c # l) # ls | [] \<Rightarrow> [[c]])"

definition data_line :: "string \<Rightarrow> string option" where
  "data_line line =
     (if take 5 line = ''data:''
      then (let rest = drop 5 line in
            Some (case rest of c # cs \<Rightarrow> (if c = CHR '' '' then cs else rest) | [] \<Rightarrow> []))
      else None)"

datatype sse_error = BufferExceeded | BadJson string | SseSourceFailed string

definition processSSEEvent :: "(string \<Rightarrow> 'e option) \<Rightarrow> string \<Rightarrow> ('e, sse_error) sink \<Rightarrow> ('e, sse_error) sink" where
  "processSSEEvent parse eventText s =
     (let dataLines = List.map_filter data_line (split_lines eventText) in
      if dataLines = [] then s
      else let jsonStr = join [nl] dataLines in
        case parse jsonStr of Some v \<Rightarrow> sink_next v s | None \<Rightarrow> sink_fail (BadJson jsonStr) s)"

text \<open>The text decoder keeps the bytes of a split character in its state; its last call flushes them.\<close>

record 'd decoder =
  decode_more :: "'d \<Rightarrow> bytes \<Rightarrow> string \<times> 'd"
  decode_last :: "'d \<Rightarrow> string"

record ('d, 'e) sse_state =
  sse_buffer :: string
  sse_decoder :: 'd
  sse_sink :: "('e, sse_error) sink"

definition init_sse :: "'d \<Rightarrow> ('d, 'e) sse_state" where
  "init_sse d = \<lparr>sse_buffer = [], sse_decoder = d, sse_sink = open_sink\<rparr>"

definition sse_text :: "(string \<Rightarrow> 'e option) \<Rightarrow> string \<Rightarrow> ('d, 'e) sse_state \<Rightarrow> ('d, 'e) sse_state" where
  "sse_text parse text st =
     (let events = split_events (sse_buffer st @ text);
          buffer = last events;
          s = foldl (\<lambda>s e. processSSEEvent parse e s) (sse_sink st) (butlast events)
      in st\<lparr>sse_buffer := buffer,
            sse_sink := (if length buffer > MAX_BUFFER_SIZE then sink_fail BufferExceeded s else s)\<rparr>)"

definition sse_next ::
  "(string \<Rightarrow> 'e option) \<Rightarrow> 'd decoder \<Rightarrow> ('d, 'e) sse_state \<Rightarrow> http_event \<Rightarrow> ('d, 'e) sse_state" where
  "sse_next parse dec st event = (case event of
     HttpData (Some data) \<Rightarrow>
       (let (text, d) = decode_more dec (sse_decoder st) data in sse_text parse text (st\<lparr>sse_decoder := d\<rparr>))
   | _ \<Rightarrow> st)"

definition sse_complete :: "(string \<Rightarrow> 'e option) \<Rightarrow> 'd decoder \<Rightarrow> ('d, 'e) sse_state \<Rightarrow> ('d, 'e) sse_state" where
  "sse_complete parse dec st =
     (if sse_buffer st = [] then st
      else
        (let buffer = sse_buffer st @ decode_last dec (sse_decoder st) in
         st\<lparr>sse_buffer := buffer, sse_sink := processSSEEvent parse buffer (sse_sink st)\<rparr>))"

definition sse_source_error :: "string \<Rightarrow> ('d, 'e) sse_state \<Rightarrow> ('d, 'e) sse_state" where
  "sse_source_error e st = st\<lparr>sse_sink := sink_fail (SseSourceFailed e) (sse_sink st)\<rparr>"

definition parseSSEStream ::
  "(string \<Rightarrow> 'e option) \<Rightarrow> 'd decoder \<Rightarrow> 'd \<Rightarrow> http_event list \<Rightarrow> ('e, sse_error) sink" where
  "parseSSEStream parse dec d events =
     sse_sink (sse_complete parse dec (foldl (sse_next parse dec) (init_sse d) events))"

end
