(* ===== verification/FramingProps.thy ===== *)
theory FramingProps
  imports Framing "HOL-Library.Sublist"
begin

text \<open>
  Both transports are round trips, whatever way the bytes are cut into chunks. The binary reader's loop is shown to depend on
  the bytes only (\<^verbatim>\<open>proto_loop_append\<close>), the text reader's state on the text only (\<^verbatim>\<open>read_so_far\<close>).
\<close>

unbundle bit_operations_syntax

subsection \<open>The length prefix\<close>

lemma get_set_uint32 [simp]: "get_uint32 (set_uint32 n @ rest) = n"
proof (rule bit_word_eqI)
  fix i assume "i < LENGTH(32)"
  then show "bit (get_uint32 (set_uint32 n @ rest)) i = bit n i"
    by (cases "i < 8"; cases "i < 16"; cases "i < 24") (auto simp: set_uint32_def bit_simps)
qed

lemma set_uint32_length [simp]: "length (set_uint32 n) = 4"
  by (simp add: set_uint32_def)

lemma get_uint32_append: "4 \<le> length b \<Longrightarrow> get_uint32 (b @ c) = get_uint32 b"
  by (cases b rule: get_uint32.cases) auto

subsection \<open>Chunks of a binary stream\<close>

text \<open>Reading more bytes later is reading them at once: the loop picks up where it stopped, also after a failure.\<close>

lemma proto_loop_append:
  "proto_loop decode (b @ c) s =
     (let (b', f, s') = proto_loop decode b s in
      if f then (b' @ c, f, s') else proto_loop decode (b' @ c) s')"
proof (induction decode b s rule: proto_loop.induct)
  case (1 decode b s)
  let ?n = "unat (get_uint32 b)"
  show ?case
  proof (cases "length b < 4")
    case True
    then show ?thesis by (simp add: proto_loop.simps [of decode b])
  next
    case False
    then have pre: "get_uint32 (b @ c) = get_uint32 b" by (simp add: get_uint32_append)
    show ?thesis
    proof (cases "4 + ?n > MAX_BUFFER_SIZE")
      case True
      with False pre show ?thesis
        by (simp add: proto_loop.simps [of decode b] proto_loop.simps [of decode "b @ c"] sink_fail_def Let_def)
    next
      case small: False
      show ?thesis
      proof (cases "length b < 4 + ?n")
        case True
        with False small show ?thesis by (simp add: proto_loop.simps [of decode b] Let_def)
      next
        case whole: False
        then have "take ?n (drop 4 (b @ c)) = take ?n (drop 4 b)" "drop (4 + ?n) (b @ c) = drop (4 + ?n) b @ c" by auto
        note parts = this
        have loop: "proto_loop decode (b @ c) s = (case decode (take ?n (drop 4 b)) of
             Decoded ev \<Rightarrow> proto_loop decode (drop (4 + ?n) b @ c) (sink_next ev s)
           | UnknownEventType \<Rightarrow> proto_loop decode (drop (4 + ?n) b @ c) s
           | DecodeError e \<Rightarrow> (b @ c, True, sink_fail (DecodeFailed e) s))"
          unfolding proto_loop.simps [of decode "b @ c"] Let_def pre parts using False small whole by simp
        have loop': "proto_loop decode b s = (case decode (take ?n (drop 4 b)) of
             Decoded ev \<Rightarrow> proto_loop decode (drop (4 + ?n) b) (sink_next ev s)
           | UnknownEventType \<Rightarrow> proto_loop decode (drop (4 + ?n) b) s
           | DecodeError e \<Rightarrow> (b, True, sink_fail (DecodeFailed e) s))"
          using False small whole by (simp add: proto_loop.simps [of decode b] Let_def)
        note IH = 1 [OF False refl refl small whole]
        show ?thesis unfolding loop loop'
          by (cases "decode (take ?n (drop 4 b))") (simp_all add: IH)
      qed
    qed
  qed
qed

text \<open>What a reader has done after a list of HTTP events depends on their bytes only.\<close>

fun data_of :: "http_event \<Rightarrow> bytes" where
  "data_of (HttpData (Some d)) = d"
| "data_of _ = []"

lemma processBuffer_append:
  "processBuffer decode (st\<lparr>proto_buffer := proto_buffer st @ c\<rparr>) =
     processBuffer decode ((processBuffer decode st)\<lparr>proto_buffer := proto_buffer (processBuffer decode st) @ c\<rparr>)"
proof (cases "proto_failed st")
  case False
  obtain b f s where l: "proto_loop decode (proto_buffer st) (proto_sink st) = (b, f, s)"
    by (cases "proto_loop decode (proto_buffer st) (proto_sink st)")
  with False show ?thesis
    by (auto simp: processBuffer_def proto_loop_append split: prod.splits)
qed (simp add: processBuffer_def)

lemma processBuffer_again: "processBuffer decode (processBuffer decode st) = processBuffer decode st"
  using processBuffer_append [of decode st "[]"] by simp

lemma proto_fold:
  "processBuffer decode (foldl (proto_next decode) st es) =
     processBuffer decode (st\<lparr>proto_buffer := proto_buffer st @ concat (map data_of es)\<rparr>)"
proof (induction es arbitrary: st)
  case (Cons e es)
  show ?case
  proof (cases "\<exists>d. e = HttpData (Some d)")
    case True
    then obtain d where e: "e = HttpData (Some d)" by blast
    let ?st1 = "st\<lparr>proto_buffer := proto_buffer st @ d\<rparr>"
    have nxt: "proto_next decode st e = processBuffer decode ?st1" by (simp add: proto_next_def e)
    have "processBuffer decode (foldl (proto_next decode) st (e # es)) =
        processBuffer decode ((processBuffer decode ?st1)
          \<lparr>proto_buffer := proto_buffer (processBuffer decode ?st1) @ concat (map data_of es)\<rparr>)"
      using Cons.IH [of "processBuffer decode ?st1"] by (simp add: nxt)
    also have "\<dots> = processBuffer decode (?st1\<lparr>proto_buffer := proto_buffer ?st1 @ concat (map data_of es)\<rparr>)"
      by (rule processBuffer_append [symmetric])
    finally show ?thesis by (simp add: e)
  next
    case False
    then have "proto_next decode st e = st" "data_of e = []"
      by (cases e rule: data_of.cases; simp add: proto_next_def)+
    with Cons.IH [of st] show ?thesis by simp
  qed
qed simp

lemma parseProtoStream_bytes:
  "parseProtoStream decode es =
     (let (b, f, s) = proto_loop decode (concat (map data_of es)) open_sink in
      if \<not> f \<and> b \<noteq> [] then sink_fail (MidFrame (length b)) s else s)"
proof -
  have "processBuffer decode (foldl (proto_next decode) init_proto es) =
      processBuffer decode (init_proto\<lparr>proto_buffer := concat (map data_of es)\<rparr>)"
    using proto_fold [of decode init_proto es] by (simp add: init_proto_def)
  then show ?thesis
    unfolding parseProtoStream_def proto_complete_def
    by (auto simp: init_proto_def processBuffer_def [of decode "proto_state.make _ _ _"] proto_state.defs
        processBuffer_def [of decode "\<lparr>proto_buffer = _, proto_failed = _, proto_sink = _\<rparr>"] Let_def split: prod.splits)
qed

text \<open>Whole frames are consumed one by one; what follows a frame is not looked at.\<close>

lemma frame_loop:
  assumes "4 + length m \<le> MAX_BUFFER_SIZE"
  shows "proto_loop decode (set_uint32 (word_of_nat (length m)) @ m @ rest) s = (case decode m of
      Decoded ev \<Rightarrow> proto_loop decode rest (sink_next ev s)
    | UnknownEventType \<Rightarrow> proto_loop decode rest s
    | DecodeError e \<Rightarrow> (set_uint32 (word_of_nat (length m)) @ m @ rest, True, sink_fail (DecodeFailed e) s))"
proof -
  have "unat (word_of_nat (length m) :: 32 word) = length m"
    using assms by (simp add: unat_of_nat MAX_BUFFER_SIZE_def)
  then show ?thesis using assms
    by (cases "decode m") (simp_all add: proto_loop.simps [of decode "set_uint32 _ @ _"] Let_def)
qed

lemma frames_loop:
  assumes "\<And>ev. ev \<in> set evs \<Longrightarrow> decode (encode ev) = Decoded ev \<and> 4 + length (encode ev) \<le> MAX_BUFFER_SIZE"
    and "sink_error s = None"
  shows "proto_loop decode (concat (map (encodeProtobuf encode) evs) @ rest) s =
    proto_loop decode rest (s\<lparr>delivered := delivered s @ evs\<rparr>)"
  using assms
proof (induction evs arbitrary: s)
  case (Cons ev evs)
  then have "decode (encode ev) = Decoded ev" "4 + length (encode ev) \<le> MAX_BUFFER_SIZE" by auto
  with Cons.IH [of "s\<lparr>delivered := delivered s @ [ev]\<rparr>"] Cons.prems show ?case
    by (simp add: encodeProtobuf_def Let_def frame_loop sink_next_def)
qed simp

lemma partial_frame_loop:
  assumes "j < 4 + length m" "4 + length m \<le> MAX_BUFFER_SIZE"
  shows "proto_loop decode (take j (set_uint32 (word_of_nat (length m)) @ m)) s =
    (take j (set_uint32 (word_of_nat (length m)) @ m), False, s)"
proof (cases "j < 4")
  case True
  then show ?thesis by (simp add: proto_loop.simps)
next
  case False
  then have "take j (set_uint32 (word_of_nat (length m)) @ m) = set_uint32 (word_of_nat (length m)) @ take (j - 4) m"
    by simp
  moreover have "unat (word_of_nat (length m) :: 32 word) = length m"
    using assms by (simp add: unat_of_nat MAX_BUFFER_SIZE_def)
  ultimately show ?thesis using assms False
    by (simp add: proto_loop.simps [of decode "set_uint32 _ @ _"] Let_def)
qed


subsection \<open>Splitting text\<close>

lemma split_events_nonempty [simp]: "split_events t \<noteq> []"
  by (induction t rule: split_events.induct) (auto split: list.splits)

text \<open>Splitting again from the last, unfinished piece gives the same pieces.\<close>

lemma split_events_append:
  "split_events (x @ y) = butlast (split_events x) @ split_events (last (split_events x) @ y)"
proof (induction x rule: split_events.induct)
  case (3 c d cs)
  show ?case
  proof (cases "c = nl \<and> d = nl")
    case True
    with 3 show ?thesis by simp
  next
    case False
    obtain e es where e: "split_events (d # cs) = e # es" by (cases "split_events (d # cs)") auto
    have IH: "split_events (d # cs @ y) = butlast (e # es) @ split_events (last (e # es) @ y)"
      using "3.IH"(2) [OF False] e by simp
    show ?thesis
    proof (cases "es = []")
      case False
      with \<open>\<not> (c = nl \<and> d = nl)\<close> e IH show ?thesis by auto
    next
      case True
      then have s: "split_events (c # d # cs) = [c # e]" using \<open>\<not> (c = nl \<and> d = nl)\<close> e by simp
      have "\<exists>e'. e = d # e'" using e True
        by (cases cs) (auto split: if_splits list.splits)
      then obtain e' where e': "e = d # e'" by blast
      show ?thesis using \<open>\<not> (c = nl \<and> d = nl)\<close> IH True unfolding s by (auto simp: e')
    qed
  qed
qed simp_all

text \<open>A text without line feeds is one piece, also followed by one, and ends at two.\<close>

lemma split_events_piece: "nl \<notin> set t \<Longrightarrow> split_events t = [t]" "nl \<notin> set t \<Longrightarrow> split_events (t @ [nl]) = [t @ [nl]]"
proof (induction t)
  case (Cons c t)
  { case 1
    then have "c \<noteq> nl" "split_events t = [t]" using Cons.IH(1) by auto
    then show ?case by (cases t) simp_all }
  { case 2
    then have "c \<noteq> nl" "split_events (t @ [nl]) = [t @ [nl]]" using Cons.IH(2) by auto
    then show ?case by (cases t) simp_all }
qed simp_all

lemma split_events_frame: "nl \<notin> set t \<Longrightarrow> split_events (t @ nl # nl # rest) = t # split_events rest"
proof (induction t)
  case (Cons c t)
  then have IH: "split_events (t @ nl # nl # rest) = t # split_events rest" by simp
  from Cons.prems have "c \<noteq> nl" by auto
  with IH show ?case by (cases t) simp_all
qed simp

lemma split_lines_one: "nl \<notin> set t \<Longrightarrow> split_lines t = [t]"
  by (induction t) auto


subsection \<open>Chunks of a text stream\<close>

text \<open>The state of the reader after it has seen a text, as long as its buffer stayed within bounds: the last piece is pending, the
  others are processed.\<close>

definition pieces_sink :: "(string \<Rightarrow> 'e option) \<Rightarrow> string list \<Rightarrow> ('e, sse_error) sink" where
  "pieces_sink parse ps = foldl (\<lambda>s e. processSSEEvent parse e s) open_sink ps"

definition read_so_far :: "(string \<Rightarrow> 'e option) \<Rightarrow> string \<Rightarrow> ('d, 'e) sse_state \<Rightarrow> bool" where
  "read_so_far parse x st \<longleftrightarrow> sse_buffer st = last (split_events x) \<and>
     sse_sink st = pieces_sink parse (butlast (split_events x))"

lemma read_init: "read_so_far parse [] (init_sse d)"
  by (simp add: read_so_far_def init_sse_def pieces_sink_def)

lemma read_text:
  assumes "read_so_far parse x st" "length (last (split_events (x @ y))) \<le> MAX_BUFFER_SIZE"
  shows "read_so_far parse (x @ y) (sse_text parse y st)"
proof -
  have "last (split_events (x @ y)) = last (split_events (last (split_events x) @ y))"
    "butlast (split_events (x @ y)) = butlast (split_events x) @ butlast (split_events (last (split_events x) @ y))"
    unfolding split_events_append [of x y] by (simp_all add: butlast_append)
  with assms show ?thesis by (simp add: read_so_far_def sse_text_def Let_def pieces_sink_def)
qed

text \<open>The text a decoder produces for a list of HTTP events.\<close>

fun decoded_texts :: "'d decoder \<Rightarrow> 'd \<Rightarrow> http_event list \<Rightarrow> string" where
  "decoded_texts dec d [] = []"
| "decoded_texts dec d (HttpData (Some b) # es) = fst (decode_more dec d b) @ decoded_texts dec (snd (decode_more dec d b)) es"
| "decoded_texts dec d (_ # es) = decoded_texts dec d es"

lemma read_stream:
  assumes "read_so_far parse x st"
    and "\<And>y. prefix y (x @ decoded_texts dec (sse_decoder st) es) \<Longrightarrow> length (last (split_events y)) \<le> MAX_BUFFER_SIZE"
  shows "read_so_far parse (x @ decoded_texts dec (sse_decoder st) es) (foldl (sse_next parse dec) st es)"
  using assms
proof (induction dec "sse_decoder st" es arbitrary: x st rule: decoded_texts.induct)
  case (2 dec b es)
  let ?t = "fst (decode_more dec (sse_decoder st) b)" and ?d = "snd (decode_more dec (sse_decoder st) b)"
  let ?st1 = "sse_text parse ?t (st\<lparr>sse_decoder := ?d\<rparr>)"
  have st1: "sse_next parse dec st (HttpData (Some b)) = ?st1" by (simp add: sse_next_def case_prod_unfold Let_def)
  have d: "sse_decoder ?st1 = ?d" by (simp add: sse_text_def Let_def)
  have "length (last (split_events (x @ ?t))) \<le> MAX_BUFFER_SIZE" by (rule "2.prems"(2)) simp
  then have r1: "read_so_far parse (x @ ?t) ?st1"
    using "2.prems"(1) by (intro read_text) (simp_all add: read_so_far_def)
  have "read_so_far parse ((x @ ?t) @ decoded_texts dec (sse_decoder ?st1) es) (foldl (sse_next parse dec) ?st1 es)"
  proof (rule "2.hyps" [OF _ r1])
    show "?d = sse_decoder ?st1" by (simp only: d)
    show "length (last (split_events y)) \<le> MAX_BUFFER_SIZE" if "prefix y ((x @ ?t) @ decoded_texts dec (sse_decoder ?st1) es)" for y
      using that "2.prems"(2) [of y] by (simp add: d)
  qed
  then show ?case by (simp add: st1 d)
qed (simp_all add: sse_next_def)


subsection \<open>Frames of a text stream\<close>

definition sse_frame :: "string \<Rightarrow> string" where
  "sse_frame t = t @ [nl, nl]"

lemma frames_split:
  "list_all (\<lambda>t. nl \<notin> set t) ts \<Longrightarrow> split_events (concat (map sse_frame ts)) = ts @ [[]]"
  by (induction ts) (simp_all add: sse_frame_def split_events_frame)

lemma frames_bound:
  assumes "list_all (\<lambda>t. nl \<notin> set t \<and> length t < n) ts" "prefix y (concat (map sse_frame ts))" "0 < n"
  shows "length (last (split_events y)) \<le> n"
  using assms
proof (induction ts arbitrary: y)
  case (Cons t ts)
  have t: "nl \<notin> set t" "length t < n" using Cons.prems(1) by auto
  from Cons.prems(2) have p: "prefix y (t @ nl # nl # concat (map sse_frame ts))" by (simp add: sse_frame_def [of t])
  show ?case
  proof (cases "prefix y (t @ [nl])")
    case True
    then have "split_events y = [y]"
      using t(1) split_events_piece by (metis prefix_snoc set_mono_prefix subsetD)
    with True t(2) show ?thesis using prefix_length_le [OF True] by simp
  next
    case False
    with p obtain y' where y: "y = t @ nl # nl # y'" "prefix y' (concat (map sse_frame ts))"
      by (auto simp: prefix_append prefix_Cons)
    with Cons.IH [of y'] Cons.prems t(1) show ?thesis by (simp add: split_events_frame)
  qed
qed simp

lemma process_frame:
  assumes "nl \<notin> set t" "parse t = Some v" "sink_error s = None"
  shows "processSSEEvent parse (''data: '' @ t) s = s\<lparr>delivered := delivered s @ [v]\<rparr>"
proof -
  have "split_lines (''data: '' @ t) = [''data: '' @ t]" using assms(1) by (intro split_lines_one) auto
  moreover have "data_line (''data: '' @ t) = Some t" by (simp add: data_line_def)
  ultimately show ?thesis using assms(2,3) by (simp add: processSSEEvent_def List.map_filter_def sink_next_def)
qed

lemma process_frames:
  assumes "\<And>ev. ev \<in> set evs \<Longrightarrow> nl \<notin> set (txt ev) \<and> parse (txt ev) = Some (val ev)"
  shows "pieces_sink parse (map (\<lambda>ev. ''data: '' @ txt ev) evs) = \<lparr>delivered = map val evs, sink_error = None\<rparr>"
  using assms
proof (induction evs rule: rev_induct)
  case (snoc ev evs)
  have IH: "pieces_sink parse (map (\<lambda>ev. ''data: '' @ txt ev) evs) = \<lparr>delivered = map val evs, sink_error = None\<rparr>"
    using snoc by simp
  have "pieces_sink parse (map (\<lambda>ev. ''data: '' @ txt ev) (evs @ [ev])) =
      processSSEEvent parse (''data: '' @ txt ev) (pieces_sink parse (map (\<lambda>ev. ''data: '' @ txt ev) evs))"
    by (simp add: pieces_sink_def)
  also have "\<dots> = \<lparr>delivered = map val evs @ [val ev], sink_error = None\<rparr>"
    unfolding IH using snoc.prems [of ev] by (subst process_frame) simp_all
  finally show ?case by simp
qed (simp add: pieces_sink_def open_sink_def)

subsection \<open>Whole streams\<close>

lemma proto_frames:
  assumes "\<forall>ev \<in> set evs. decode (encode ev) = Decoded ev \<and> 4 + length (encode ev) \<le> MAX_BUFFER_SIZE"
    and "concat (map data_of es) = concat (map (encodeProtobuf encode) evs)"
  shows "parseProtoStream decode es = \<lparr>delivered = evs, sink_error = None\<rparr>"
proof -
  have "proto_loop decode (concat (map data_of es)) open_sink = proto_loop decode [] \<lparr>delivered = evs, sink_error = None\<rparr>"
    unfolding assms(2) using frames_loop [of evs decode encode open_sink "[]"] assms(1) by (simp add: open_sink_def)
  then show ?thesis by (simp add: parseProtoStream_bytes proto_loop.simps)
qed

lemma sse_frames:
  assumes "\<forall>ev \<in> set evs. nl \<notin> set (stringify (omit ev)) \<and> parse (stringify (omit ev)) = Some (omit ev) \<and>
      6 + length (stringify (omit ev)) < MAX_BUFFER_SIZE"
    and "decoded_texts dec d es = concat (map (encodeSSE omit stringify) evs)"
  shows "parseSSEStream parse dec d es = \<lparr>delivered = map omit evs, sink_error = None\<rparr>"
proof -
  let ?ts = "map (\<lambda>ev. ''data: '' @ stringify (omit ev)) evs"
  have strm: "decoded_texts dec d es = concat (map sse_frame ?ts)"
  proof -
    have "encodeSSE omit stringify = (\<lambda>ev. sse_frame (''data: '' @ stringify (omit ev)))"
      by (rule ext) (simp add: encodeSSE_def sse_frame_def)
    then show ?thesis by (simp add: assms(2) comp_def)
  qed
  have ts: "list_all (\<lambda>t. nl \<notin> set t \<and> length t < MAX_BUFFER_SIZE) ?ts" using assms(1) by (auto simp: list_all_iff)
  have d: "sse_decoder (init_sse d) = d" by (simp add: init_sse_def)
  have "read_so_far parse ([] @ decoded_texts dec d es) (foldl (sse_next parse dec) (init_sse d) es)"
    using read_stream [OF read_init, of dec d es parse] frames_bound [OF ts] strm
    by (simp add: d) (simp add: MAX_BUFFER_SIZE_def)
  moreover have "split_events (decoded_texts dec d es) = ?ts @ [[]]"
    unfolding strm by (rule frames_split) (use ts in \<open>auto simp: list_all_iff\<close>)
  ultimately have "sse_buffer (foldl (sse_next parse dec) (init_sse d) es) = []"
    "sse_sink (foldl (sse_next parse dec) (init_sse d) es) = pieces_sink parse ?ts"
    by (simp_all add: read_so_far_def)
  with process_frames [of evs "\<lambda>ev. stringify (omit ev)" parse omit] assms(1) show ?thesis
    by (simp add: parseSSEStream_def sse_complete_def)
qed

subsection \<open>Theorems\<close>

text \<open>
  C23. The binary transport is a round trip. Whatever events an encoder frames, and however the network cuts the bytes into chunks, the
  reader delivers exactly those events in order and completes; if the bytes stop inside a
  further frame, it delivers the same events and then reports how many bytes were left. Asked of the codec: decoding an encoded event gives
  it back, and no frame is larger than the reader's limit.
\<close>

theorem proto_roundtrip:
  assumes "\<forall>ev \<in> set (last' # evs). decode (encode ev) = Decoded ev \<and> 4 + length (encode ev) \<le> MAX_BUFFER_SIZE"
    and "j < length (encodeProtobuf encode last')"
    and "concat (map data_of es) = concat (map (encodeProtobuf encode) evs) @ take j (encodeProtobuf encode last')"
  shows "parseProtoStream decode es = \<lparr>delivered = evs, sink_error = (if j = 0 then None else Some (MidFrame j))\<rparr>"
proof -
  have fr: "encodeProtobuf encode last' = set_uint32 (word_of_nat (length (encode last'))) @ encode last'"
    by (simp add: encodeProtobuf_def Let_def)
  have "proto_loop decode (concat (map data_of es)) open_sink =
      proto_loop decode (take j (encodeProtobuf encode last')) \<lparr>delivered = evs, sink_error = None\<rparr>"
    unfolding assms(3) using frames_loop [of evs decode encode open_sink] assms(1) by (simp add: open_sink_def)
  also have "\<dots> = (take j (encodeProtobuf encode last'), False, \<lparr>delivered = evs, sink_error = None\<rparr>)"
    using partial_frame_loop [of j "encode last'" decode "\<lparr>delivered = evs, sink_error = None\<rparr>"] assms(1,2)
    by (simp add: fr open_sink_def)
  finally show ?thesis using assms(2)
    by (simp add: parseProtoStream_bytes sink_fail_def) (auto simp: fr set_uint32_def)
qed

theorem proto_roundtrip_witness:
  "parseProtoStream (\<lambda>m. case m of [w] \<Rightarrow> Decoded w | _ \<Rightarrow> DecodeError ''length'')
     [HttpHeaders, HttpData (Some [0, 0, 0, 1, 7, 0, 0]), HttpData None, HttpData (Some [0, 1, 9, 0, 0])] =
   \<lparr>delivered = [7 :: 8 word, 9], sink_error = Some (MidFrame 2)\<rparr>"
  using proto_roundtrip [of "11 :: 8 word" "[7, 9]" "\<lambda>m. case m of [w] \<Rightarrow> Decoded w | _ \<Rightarrow> DecodeError ''length''"
      "\<lambda>w. [w]" 2 "[HttpHeaders, HttpData (Some [0, 0, 0, 1, 7, 0, 0]), HttpData None, HttpData (Some [0, 1, 9, 0, 0])]"]
  by (simp add: MAX_BUFFER_SIZE_def encodeProtobuf_def set_uint32_def)

text \<open>
  C24. The text transport is a round trip. However the decoded text is cut into chunks, the reader delivers exactly the events that were encoded, in
  order, and no error. Asked of the JSON functions: the text of an event has no line feed and parses back.
\<close>

theorem sse_roundtrip:
  assumes "\<forall>ev \<in> set evs. nl \<notin> set (stringify (omit ev)) \<and> parse (stringify (omit ev)) = Some (omit ev) \<and>
      6 + length (stringify (omit ev)) < MAX_BUFFER_SIZE"
    and "decoded_texts dec d es = concat (map (encodeSSE omit stringify) evs)"
  shows "parseSSEStream parse dec d es = \<lparr>delivered = map omit evs, sink_error = None\<rparr>"
  by (rule sse_frames [OF assms])

theorem sse_roundtrip_witness:
  "parseSSEStream Some \<lparr>decode_more = \<lambda>d b. (map (\<lambda>w. char_of (unat w)) b, d), decode_last = \<lambda>d. []\<rparr> ()
     [HttpHeaders, HttpData (Some [100, 97, 116]), HttpData (Some [97, 58, 32, 49, 10]), HttpData None,
      HttpData (Some [10, 100, 97, 116, 97, 58, 32, 50, 10, 10])] =
   \<lparr>delivered = [''1'', ''2''], sink_error = None\<rparr>"
  using sse_roundtrip [of "[''1'', ''2'']" "\<lambda>s. s" "\<lambda>s. s" Some
      "\<lparr>decode_more = \<lambda>d b. (map (\<lambda>w. char_of (unat w)) b, d), decode_last = \<lambda>d. []\<rparr>" "()"
      "[HttpHeaders, HttpData (Some [100, 97, 116]), HttpData (Some [97, 58, 32, 49, 10]), HttpData None,
        HttpData (Some [10, 100, 97, 116, 97, 58, 32, 50, 10, 10])]"]
  by (simp add: MAX_BUFFER_SIZE_def encodeSSE_def char_of_def bit_iff_odd)

end
