(* ===== verification/EnforceProps.thy ===== *)
theory EnforceProps
  imports Enforce "HOL-Library.Sublist"
begin

text \<open>
  The stripper: by induction on what a schema unwraps to (\<^verbatim>\<open>schema_induct\<close>), a walk only adds to its report and its count, leaves what the
  schema describes (\<^verbatim>\<open>strip_sound\<close>), keeps what is already clean (\<^verbatim>\<open>clean_strip\<close>), and is only ever refused by its budget
  (\<^verbatim>\<open>strip_refuses\<close>). The generated validators are checked by evaluation.
\<close>

subsection \<open>Schemas by kind\<close>

fun leaf :: "zschema \<Rightarrow> bool" where
  "leaf (ZObject _ _) = False"
| "leaf (ZArray _) = False"
| "leaf (ZRecord _) = False"
| "leaf (ZUnion _ _) = False"
| "leaf _ = True"

text \<open>Induction on what a schema unwraps to.\<close>

lemma schema_induct [case_names Object Array Record Variants Options Leaf]:
  assumes "\<And>s shape specOpen. unwrap s = ZObject shape specOpen \<Longrightarrow> (\<And>k t. map_of shape k = Some t \<Longrightarrow> P t) \<Longrightarrow> P s"
    and "\<And>s e. unwrap s = ZArray e \<Longrightarrow> P e \<Longrightarrow> P s"
    and "\<And>s e. unwrap s = ZRecord e \<Longrightarrow> P e \<Longrightarrow> P s"
    and "\<And>s d options. unwrap s = ZUnion (Some d) options \<Longrightarrow> (\<And>t. t \<in> set options \<Longrightarrow> P t) \<Longrightarrow> P s"
    and "\<And>s options. unwrap s = ZUnion None options \<Longrightarrow> (\<And>t. t \<in> set options \<Longrightarrow> P t) \<Longrightarrow> P s"
    and "\<And>s. leaf (unwrap s) \<Longrightarrow> P s"
  shows "P s"
proof (induction s rule: measure_induct_rule [of size])
  case (less s)
  have opt: "P t" if "unwrap s = ZUnion d options" "t \<in> set options" for d options t
    using less.IH option_size [OF that(2), of d] unwrap_size [of s] that(1) by simp
  show ?case
  proof (cases "unwrap s")
    case (ZObject shape specOpen)
    with assms(1) less.IH unwrap_sizes(1) show ?thesis by blast
  next
    case (ZArray e)
    with assms(2) less.IH unwrap_sizes(2) show ?thesis by blast
  next
    case (ZRecord e)
    with assms(3) less.IH unwrap_sizes(3) show ?thesis by blast
  next
    case (ZUnion d options)
    with assms(4,5) opt show ?thesis by (cases d) blast+
  qed (simp_all add: assms(6))
qed

definition ambiguous :: "zschema list \<Rightarrow> jsval \<Rightarrow> bool" where
  "ambiguous options v \<longleftrightarrow> 1 < length (filter (\<lambda>s. is_object_schema (unwrap s)) options) \<and> is_plain_object v"

lemma strip_Object:
  "unwrap s = ZObject shape specOpen \<Longrightarrow> stripAgainst opt mx s (JObj m) path w =
     (case charge mx (length m) path w of
        Inl e \<Rightarrow> Inl e
      | Inr w1 \<Rightarrow> build JObj (strip_each (\<lambda>(key, x) w.
          (case map_of shape key of
             None \<Rightarrow> (if specOpen then Inr (Some [(key, x)], w) else Inr (Some [], report (child_path path key) w))
           | Some s \<Rightarrow> keep_child (Pair key) (opt s) (child_path path key) w (stripAgainst opt mx s x (child_path path key) w))) m w1))"
  "unwrap s = ZObject shape specOpen \<Longrightarrow> \<not> is_plain_object v \<Longrightarrow> stripAgainst opt mx s v path w = Inr (Some v, w)"
  by (simp add: stripAgainst.simps [of _ _ s], cases v) (simp_all add: stripAgainst.simps [of _ _ s])

lemma strip_Array:
  "unwrap s = ZArray e \<Longrightarrow> stripAgainst opt mx s (JArr vs) path w =
     (case charge mx (length vs) path w of
        Inl e \<Rightarrow> Inl e
      | Inr w1 \<Rightarrow> build JArr (strip_each (\<lambda>(index, x) w. keep_child id True (child_path path (nat_str index)) w
          (stripAgainst opt mx e x (child_path path (nat_str index)) w)) (enumerate 0 vs) w1))"
  "unwrap s = ZArray e \<Longrightarrow> \<not> is_arr v \<Longrightarrow> stripAgainst opt mx s v path w = Inr (Some v, w)"
  by (simp add: stripAgainst.simps [of _ _ s], cases v) (simp_all add: stripAgainst.simps [of _ _ s])

lemma strip_Record:
  "unwrap s = ZRecord e \<Longrightarrow> stripAgainst opt mx s (JObj m) path w =
     (case charge mx (length m) path w of
        Inl e \<Rightarrow> Inl e
      | Inr w1 \<Rightarrow> build JObj (strip_each (\<lambda>(key, x) w. keep_child (Pair key) True (child_path path key) w
          (stripAgainst opt mx e x (child_path path key) w)) m w1))"
  "unwrap s = ZRecord e \<Longrightarrow> \<not> is_plain_object v \<Longrightarrow> stripAgainst opt mx s v path w = Inr (Some v, w)"
  by (simp add: stripAgainst.simps [of _ _ s], cases v) (simp_all add: stripAgainst.simps [of _ _ s])

lemma strip_Variants:
  "unwrap s = ZUnion (Some d) options \<Longrightarrow> stripAgainst opt mx s (JObj m) path w =
     (case find_variant d (oget m d) options of
        Some t \<Rightarrow> stripAgainst opt mx t (JObj m) path w
      | None \<Rightarrow> Inr (None, w))"
  "unwrap s = ZUnion (Some d) options \<Longrightarrow> \<not> is_plain_object v \<Longrightarrow> stripAgainst opt mx s v path w = Inr (Some v, w)"
  by (simp add: stripAgainst.simps [of _ _ s], cases v) (simp_all add: stripAgainst.simps [of _ _ s])

lemma strip_Options:
  "unwrap s = ZUnion None options \<Longrightarrow> stripAgainst opt mx s v path w =
     (if ambiguous options v then Inr (Some v, w)
      else case find_kind v options of Some t \<Rightarrow> stripAgainst opt mx t v path w | None \<Rightarrow> Inr (Some v, w))"
  by (simp add: stripAgainst.simps [of _ _ s] ambiguous_def)

lemma strip_Leaf: "leaf (unwrap s) \<Longrightarrow> stripAgainst opt mx s v path w = Inr (Some v, w)"
  by (simp add: stripAgainst.simps [of _ _ s] split: zschema.split option.split) auto

lemmas strip_unfold = strip_Object strip_Array strip_Record strip_Variants strip_Options strip_Leaf

lemma visited_cases [case_names Error Dropped Kept]:
  obtains e where "(r :: 'a visited) = Inl e" | w where "r = Inr (None, w)" | y w where "r = Inr (Some y, w)"
proof (cases r)
  case (Inr p)
  with that show ?thesis by (cases p; cases "fst p") auto
qed (use that in auto)

lemma visited_simps [simp]:
  "build f (Inl e) = Inl e" "build f (Inr (None, w)) = Inr (None, w)" "build f (Inr (Some y, w)) = Inr (Some (f y), w)"
  "keep_child g b p mark (Inl e) = Inl e" "keep_child g b p mark (Inr (Some c, w)) = Inr (Some [g c], w)"
  "keep_child g b p mark (Inr (None, w)) =
     (if b then Inr (Some [], report p (rewind mark w)) else Inr (None, rewind mark w))"
  by (simp_all add: build_def keep_child_def)

subsection \<open>Walks grow\<close>

lemma charge_Inr: "charge mx n p w = Inr w1 \<Longrightarrow> w1 = (fst w, snd w + n)"
  by (auto simp: charge_def Let_def split: option.splits if_splits)

lemma charge_None [simp]: "charge None n p w = Inr (fst w, snd w + n)"
  by (simp add: charge_def)

lemma report_sel [simp]: "fst (report p w) = fst w @ [p]" "snd (report p w) = snd w"
  by (simp_all add: report_def)

lemma rewind_sel [simp]: "snd (rewind w w1) = snd w1" "prefix (fst w) (fst w1) \<Longrightarrow> fst (rewind w w1) = fst w"
  by (auto simp: rewind_def prefix_def)

definition extends :: "walk \<Rightarrow> walk \<Rightarrow> bool" where
  "extends w w' \<longleftrightarrow> prefix (fst w) (fst w') \<and> snd w \<le> snd w'"

lemma extends_refl [simp]: "extends w w"
  by (simp add: extends_def)

lemma extends_trans [trans]: "extends w w1 \<Longrightarrow> extends w1 w2 \<Longrightarrow> extends w w2"
  by (auto simp: extends_def dest: prefix_order.trans)

lemma extends_simps [simp]:
  "extends w (report p w)"
  "extends w (fst w, snd w + n)"
  "extends w w1 \<Longrightarrow> extends w (rewind w w1)"
  "extends w w1 \<Longrightarrow> extends w (report p (rewind w w1))"
  by (auto simp: extends_def)

definition grows :: "walk \<Rightarrow> 'a visited \<Rightarrow> bool" where
  "grows w r \<longleftrightarrow> (case r of Inl _ \<Rightarrow> True | Inr (_, w') \<Rightarrow> extends w w')"

lemma grows_simps [simp]: "grows w (Inl e)" "grows w (Inr (x, w')) \<longleftrightarrow> extends w w'"
  by (simp_all add: grows_def)

lemma grows_build [simp]: "grows w (build f r) \<longleftrightarrow> grows w r"
  by (cases r rule: visited_cases) simp_all

lemma grows_keep_child: "grows w r \<Longrightarrow> grows w (keep_child f b p w r)"
  by (cases r rule: visited_cases) simp_all

lemma grows_trans: "extends w w1 \<Longrightarrow> grows w1 r \<Longrightarrow> grows w r"
  by (cases r rule: visited_cases) (auto intro: extends_trans)

lemma grows_strip_each: "(\<And>x w. x \<in> set xs \<Longrightarrow> grows w (body x w)) \<Longrightarrow> grows w (strip_each body xs w)"
proof (induction xs arbitrary: w)
  case (Cons x xs)
  have x: "grows w (body x w)" by (rule Cons.prems) simp
  have xs: "grows w1 (strip_each body xs w1)" for w1 by (rule Cons.IH) (simp add: Cons.prems)
  show ?case
  proof (cases "body x w" rule: visited_cases)
    case (Kept y w1)
    with x xs [of w1] show ?thesis
      by (cases "strip_each body xs w1" rule: visited_cases) (auto intro: extends_trans)
  qed (use x in simp_all)
qed simp

lemma grows_charge: "(\<And>w1. grows w1 (f w1)) \<Longrightarrow> grows w (case charge mx n p w of Inl e \<Rightarrow> Inl e | Inr w1 \<Rightarrow> f w1)"
  using grows_trans [of w "(fst w, snd w + n)"] by (auto dest!: charge_Inr split: sum.split)

lemma strip_grows: "grows w (stripAgainst opt mx s v path w)"
proof (induction s arbitrary: v path w rule: schema_induct)
  case (Object s shape specOpen)
  then have "grows w (case map_of shape k of
      None \<Rightarrow> (if specOpen then Inr (Some [(k, x)], w) else Inr (Some [], report (child_path path k) w))
    | Some t \<Rightarrow> keep_child (Pair k) (opt t) (child_path path k) w (stripAgainst opt mx t x (child_path path k) w))" for k x w
    by (simp add: grows_keep_child split: option.split)
  then have "grows w (stripAgainst opt mx s (JObj m) path w)" for m
    unfolding strip_Object(1) [OF Object(1)] by (intro grows_charge) (auto intro!: grows_strip_each)
  then show ?case by (cases v) (simp_all add: strip_Object(2) [OF Object(1)])
next
  case (Array s e)
  then have "grows w (stripAgainst opt mx s (JArr vs) path w)" for vs
    unfolding strip_Array(1) [OF Array(1)] by (intro grows_charge) (auto intro!: grows_strip_each grows_keep_child)
  then show ?case by (cases v) (simp_all add: strip_Array(2) [OF Array(1)])
next
  case (Record s e)
  then have "grows w (stripAgainst opt mx s (JObj m) path w)" for m
    unfolding strip_Record(1) [OF Record(1)] by (intro grows_charge) (auto intro!: grows_strip_each grows_keep_child)
  then show ?case by (cases v) (simp_all add: strip_Record(2) [OF Record(1)])
next
  case (Variants s d options)
  then show ?case by (cases v) (simp_all add: strip_Variants split: option.split, blast dest: find_variant_mem)
next
  case (Options s options)
  then show ?case by (simp add: strip_Options split: option.split) (blast dest: find_kind_mem)
qed (simp add: strip_Leaf)

subsection \<open>What a clean value is\<close>

text \<open>A value that a schema describes entirely: no unknown key where the schema is closed, no unknown member of a discriminated union.\<close>

function clean :: "zschema \<Rightarrow> jsval \<Rightarrow> bool" where
  "clean s v = (case unwrap s of
     ZObject shape specOpen \<Rightarrow>
       (case v of
          JObj m \<Rightarrow> list_all (\<lambda>(k, x). case map_of shape k of None \<Rightarrow> specOpen | Some t \<Rightarrow> clean t x) m
        | _ \<Rightarrow> True)
   | ZArray e \<Rightarrow> (case v of JArr vs \<Rightarrow> list_all (clean e) vs | _ \<Rightarrow> True)
   | ZRecord e \<Rightarrow> (case v of JObj m \<Rightarrow> list_all (\<lambda>(k, x). clean e x) m | _ \<Rightarrow> True)
   | ZUnion (Some d) options \<Rightarrow>
       (case v of
          JObj m \<Rightarrow> (case find_variant d (oget m d) options of Some t \<Rightarrow> clean t v | None \<Rightarrow> False)
        | _ \<Rightarrow> True)
   | ZUnion None options \<Rightarrow>
       (if ambiguous options v then True
        else case find_kind v options of Some t \<Rightarrow> clean t v | None \<Rightarrow> True)
   | _ \<Rightarrow> True)"
  by pat_completeness auto
termination by (relation "measure (size \<circ> fst)") (auto dest: unwrap_sizes union_sizes)

text \<open>The entries a walk of a value charges where nothing is dropped.\<close>

function entries :: "zschema \<Rightarrow> jsval \<Rightarrow> nat" where
  "entries s v = (case unwrap s of
     ZObject shape specOpen \<Rightarrow>
       (case v of
          JObj m \<Rightarrow> length m + sum_list (map (\<lambda>(k, x). case map_of shape k of None \<Rightarrow> 0 | Some t \<Rightarrow> entries t x) m)
        | _ \<Rightarrow> 0)
   | ZArray e \<Rightarrow> (case v of JArr vs \<Rightarrow> length vs + sum_list (map (entries e) vs) | _ \<Rightarrow> 0)
   | ZRecord e \<Rightarrow> (case v of JObj m \<Rightarrow> length m + sum_list (map (\<lambda>(k, x). entries e x) m) | _ \<Rightarrow> 0)
   | ZUnion (Some d) options \<Rightarrow>
       (case v of
          JObj m \<Rightarrow> (case find_variant d (oget m d) options of Some t \<Rightarrow> entries t v | None \<Rightarrow> 0)
        | _ \<Rightarrow> 0)
   | ZUnion None options \<Rightarrow>
       (if ambiguous options v then 0
        else case find_kind v options of Some t \<Rightarrow> entries t v | None \<Rightarrow> 0)
   | _ \<Rightarrow> 0)"
  by pat_completeness auto
termination by (relation "measure (size \<circ> fst)") (auto dest: unwrap_sizes union_sizes)

declare clean.simps [simp del] entries.simps [simp del]

text \<open>A walk over a clean value keeps it, reports nothing and charges its entries.\<close>

lemma strip_each_all:
  "(\<And>x w. x \<in> set xs \<Longrightarrow> body x w = Inr (Some [h x], (fst w, snd w + c x))) \<Longrightarrow>
     strip_each body xs w = Inr (Some (map h xs), (fst w, snd w + sum_list (map c xs)))"
  by (induction xs arbitrary: w) (simp_all add: add.assoc)

lemma map_snd_enumerate_comp [simp]: "map (\<lambda>p. f (snd p)) (enumerate n xs) = map f xs"
  by (induction xs arbitrary: n) simp_all

lemma clean_strip:
  "clean s v \<Longrightarrow> stripAgainst opt None s v path w = Inr (Some v, (fst w, snd w + entries s v))"
proof (induction s arbitrary: v path w rule: schema_induct)
  case (Object s shape specOpen)
  show ?case
  proof (cases v)
    case (JObj m)
    let ?c = "\<lambda>(k, x). case map_of shape k of None \<Rightarrow> 0 | Some t \<Rightarrow> entries t x"
    let ?body = "\<lambda>(key, x) w. (case map_of shape key of
        None \<Rightarrow> (if specOpen then Inr (Some [(key, x)], w) else Inr (Some [], report (child_path path key) w))
      | Some s \<Rightarrow> keep_child (Pair key) (opt s) (child_path path key) w (stripAgainst opt None s x (child_path path key) w))"
    have "?body e w = Inr (Some [e], (fst w, snd w + ?c e))" if "e \<in> set m" for e w
    proof (cases e)
      case (Pair k x)
      with Object.prems that JObj have "case map_of shape k of None \<Rightarrow> specOpen | Some t \<Rightarrow> clean t x"
        by (auto simp: clean.simps [of s] Object.hyps list_all_iff)
      with Pair Object.IH show ?thesis by (cases "map_of shape k") simp_all
    qed
    from strip_each_all [of m ?body "\<lambda>e. e" ?c, OF this] show ?thesis
      by (simp add: JObj strip_Object(1) [OF Object.hyps] entries.simps [of s] Object.hyps add.assoc)
  qed (simp_all add: strip_Object(2) [OF Object.hyps] entries.simps [of s] Object.hyps)
next
  case (Array s e)
  show ?case
  proof (cases v)
    case (JArr vs)
    let ?body = "\<lambda>(index, x) w. keep_child id True (child_path path (nat_str index)) w
          (stripAgainst opt None e x (child_path path (nat_str index)) w)"
    have "?body p w = Inr (Some [snd p], (fst w, snd w + entries e (snd p)))" if "p \<in> set (enumerate 0 vs)" for p w
    proof (cases p)
      case (Pair i x)
      with that have "x \<in> set vs" by (auto simp: in_set_enumerate_eq)
      with Array.prems JArr have "clean e x" by (auto simp: clean.simps [of s] Array.hyps list_all_iff)
      with Array.IH Pair show ?thesis by simp
    qed
    from strip_each_all [of "enumerate 0 vs" ?body snd "\<lambda>p. entries e (snd p)", OF this] show ?thesis
      by (simp add: JArr strip_Array(1) [OF Array.hyps] entries.simps [of s] Array.hyps add.assoc)
  qed (simp_all add: strip_Array(2) [OF Array.hyps] entries.simps [of s] Array.hyps)
next
  case (Record s e)
  show ?case
  proof (cases v)
    case (JObj m)
    let ?body = "\<lambda>(key, x) w. keep_child (Pair key) True (child_path path key) w (stripAgainst opt None e x (child_path path key) w)"
    have "?body p w = Inr (Some [p], (fst w, snd w + (\<lambda>(k, x). entries e x) p))" if "p \<in> set m" for p w
    proof (cases p)
      case (Pair k x)
      with that Record.prems JObj have "clean e x" by (auto simp: clean.simps [of s] Record.hyps list_all_iff)
      with Record.IH Pair show ?thesis by simp
    qed
    from strip_each_all [of m ?body "\<lambda>p. p" "\<lambda>(k, x). entries e x", OF this] show ?thesis
      by (simp add: JObj strip_Record(1) [OF Record.hyps] entries.simps [of s] Record.hyps add.assoc)
  qed (simp_all add: strip_Record(2) [OF Record.hyps] entries.simps [of s] Record.hyps)
next
  case (Variants s d options)
  then show ?case
    by (cases v) (simp_all add: strip_Variants clean.simps [of s] entries.simps [of s] split: option.splits, blast dest: find_variant_mem)
next
  case (Options s options)
  then show ?case
    by (simp add: strip_Options clean.simps [of s] entries.simps [of s] split: option.splits if_splits) (blast dest: find_kind_mem)
next
  case (Leaf s)
  then show ?case by (cases "unwrap s") (simp_all add: strip_Leaf entries.simps [of s])
qed

subsection \<open>What a walk leaves\<close>

lemma strip_each_Kept [consumes 1, case_names Nil Cons]:
  assumes "strip_each body xs w = Inr (Some ys, w')"
    and "\<And>w. P [] w [] w"
    and "\<And>x xs w y w1 zs w2. body x w = Inr (Some y, w1) \<Longrightarrow> P xs w1 zs w2 \<Longrightarrow> P (x # xs) w (y @ zs) w2"
  shows "P xs w ys w'"
  using assms(1)
proof (induction xs arbitrary: w ys)
  case (Cons x xs)
  then show ?case
    by (cases "body x w" rule: visited_cases)
      (auto split: sum.splits option.splits intro!: assms(3))
qed (use assms(2) in simp)

text \<open>What one visit must keep for a loop to keep it: at most one entry, of the given quality, paid for, and unchanged where nothing is
  reported.\<close>

definition leaves :: "('y \<Rightarrow> bool) \<Rightarrow> ('y \<Rightarrow> nat) \<Rightarrow> 'y list \<Rightarrow> walk \<Rightarrow> 'y list \<Rightarrow> walk \<Rightarrow> bool" where
  "leaves q c old w new w' \<longleftrightarrow> length new \<le> length old \<and> list_all q new \<and> snd w + sum_list (map c new) \<le> snd w' \<and>
     extends w w' \<and> (fst w' = fst w \<longrightarrow> new = old)"

lemma leaves_append:
  assumes "leaves q c old w new w1" "leaves q c old' w1 new' w2"
  shows "leaves q c (old @ old') w (new @ new') w2"
  using assms extends_trans [of w w1 w2] by (auto simp: leaves_def extends_def dest: prefix_order.antisym)

lemma strip_each_leaves:
  assumes "strip_each body xs w = Inr (Some ys, w')"
    and "\<And>x w y w1. body x w = Inr (Some y, w1) \<Longrightarrow> leaves q c [h x] w y w1"
  shows "leaves q c (map h xs) w ys w'"
  using assms(1)
proof (induction rule: strip_each_Kept)
  case (Nil w)
  then show ?case by (simp add: leaves_def)
next
  case (Cons x xs w y w1 zs w2)
  from leaves_append [OF assms(2) [OF Cons(1)] Cons(2)] show ?case by simp
qed

lemma keep_child_leaves:
  assumes "keep_child f b p w r = Inr (Some y, w1)" "grows w r"
    and "\<And>x' w'. r = Inr (Some x', w') \<Longrightarrow> q (f x') \<and> snd w + c (f x') \<le> snd w' \<and> (fst w' = fst w \<longrightarrow> f x' = old)"
  shows "leaves q c [old] w y w1"
  using assms by (cases r rule: visited_cases) (auto simp: leaves_def extends_def split: if_splits)

text \<open>The discriminator that selected a variant is still there.\<close>

lemma literal_kept: "stripAgainst opt mx t (literalValue (unwrap t)) path w = Inr (Some (literalValue (unwrap t)), w)"
proof (cases "\<exists>a. unwrap t = ZLiteral [a]")
  case False
  then have "literalValue (unwrap t) = JUndef" by (cases "unwrap t" rule: literalValue.cases) auto
  moreover have "find_kind JUndef options = None" for options by (induction options) auto
  moreover have "stripAgainst opt mx t JUndef path w = Inr (Some JUndef, w)" if "unwrap t = ZUnion d options" for d options
    using that calculation by (cases d) (simp_all add: strip_unfold ambiguous_def)
  ultimately show ?thesis by (cases "unwrap t") (simp_all add: strip_unfold)
qed (auto simp: strip_Leaf)

lemma field_step:
  assumes "(case map_of shape k of
        None \<Rightarrow> (if specOpen then Inr (Some [(k, x)], w) else Inr (Some [], report (child_path path k) w))
      | Some t \<Rightarrow> keep_child (Pair k) (opt t) (child_path path k) w (stripAgainst opt mx t x (child_path path k) w)) = Inr (Some y, w1)"
  shows "y = [] \<or> (\<exists>x'. y = [(k, x')])"
    "map_of shape k = None \<and> \<not> specOpen \<Longrightarrow> y = []"
    "literalValueOf (map_of shape k) = x \<Longrightarrow> y = [(k, x)] \<or> y = [] \<and> map_of shape k = None \<and> \<not> specOpen \<and> x = JUndef"
proof -
  show "y = [] \<or> (\<exists>x'. y = [(k, x')])" using assms
    by (cases "map_of shape k") (auto simp: keep_child_def split: if_splits sum.splits option.splits)
  show "y = []" if "map_of shape k = None \<and> \<not> specOpen" using assms that by auto
  assume x: "literalValueOf (map_of shape k) = x"
  show "y = [(k, x)] \<or> y = [] \<and> map_of shape k = None \<and> \<not> specOpen \<and> x = JUndef"
  proof (cases "map_of shape k")
    case None
    with assms x show ?thesis by (auto simp: literalValueOf_def split: if_splits)
  next
    case (Some t)
    with x have "x = literalValue (unwrap t)" by (simp add: literalValueOf_def)
    with assms Some show ?thesis by (auto simp: literal_kept)
  qed
qed

lemma tag_kept:
  assumes "unwrap s = ZObject shape specOpen" "stripAgainst opt mx s (JObj m) path w = Inr (Some v', w')"
    "literalValueOf (map_of shape d) = oget m d"
  obtains m' where "v' = JObj m'" "oget m' d = oget m d"
proof -
  let ?body = "\<lambda>(key, x) w. (case map_of shape key of
      None \<Rightarrow> (if specOpen then Inr (Some [(key, x)], w) else Inr (Some [], report (child_path path key) w))
    | Some s \<Rightarrow> keep_child (Pair key) (opt s) (child_path path key) w (stripAgainst opt mx s x (child_path path key) w))"
  from assms(2) obtain w1 m' where m': "strip_each ?body m w1 = Inr (Some m', w')" "v' = JObj m'"
    unfolding strip_Object(1) [OF assms(1)]
    by (auto simp: build_def split: sum.splits option.splits)
  have "(literalValueOf (map_of shape d) = oget m d \<longrightarrow> oget m' d = oget m d) \<and>
      (map_of shape d = None \<and> \<not> specOpen \<longrightarrow> oget m' d = JUndef)" using m'(1)
  proof (induction rule: strip_each_Kept)
    case (Cons e es w y w1 zs w2)
    obtain k x where e: "e = (k, x)" by (cases e)
    from Cons(1) have "y = [] \<or> (\<exists>x'. y = [(k, x')])"
      "map_of shape k = None \<and> \<not> specOpen \<longrightarrow> y = []"
      "literalValueOf (map_of shape k) = x \<longrightarrow> y = [(k, x)] \<or> y = [] \<and> map_of shape k = None \<and> \<not> specOpen \<and> x = JUndef"
      unfolding e prod.case by (blast dest: field_step)+
    then show ?case using Cons(2) by (auto simp: e)
  qed simp
  with that m' assms(3) show thesis by blast
qed

lemma build_Some: "build f r = Inr (Some v, w) \<longleftrightarrow> (\<exists>ys. v = f ys \<and> r = Inr (Some ys, w))"
  by (cases r rule: visited_cases) auto

lemma charged_Some:
  "(case charge mx n p w of Inl e \<Rightarrow> Inl e | Inr w1 \<Rightarrow> build f (g w1)) = Inr (Some v, w') \<Longrightarrow>
     \<exists>ys. v = f ys \<and> g (fst w, snd w + n) = Inr (Some ys, w')"
  by (auto simp: build_Some split: sum.splits dest!: charge_Inr)

lemma variant_shape:
  "find_variant d tag options = Some t \<Longrightarrow>
     \<exists>shape specOpen. unwrap t = ZObject shape specOpen \<and> literalValueOf (map_of shape d) = tag"
proof (induction options)
  case (Cons s options)
  then show ?case by (cases "unwrap s") (auto split: if_splits)
qed simp

lemma strip_VariantsE:
  assumes "unwrap s = ZUnion (Some d) options" "stripAgainst opt mx s (JObj m) path w = Inr (Some v', w')"
  obtains t where "find_variant d (oget m d) options = Some t" "t \<in> set options"
    "stripAgainst opt mx t (JObj m) path w = Inr (Some v', w')"
  using assms(2) that find_variant_mem [of d "oget m d" options]
  by (simp add: strip_Variants(1) [OF assms(1)] split: option.splits)

lemma strip_same_kind:
  "stripAgainst opt mx s v path w = Inr (Some v', w') \<Longrightarrow> is_arr v' = is_arr v \<and> is_plain_object v' = is_plain_object v"
proof (induction s arbitrary: v path w v' w' rule: schema_induct)
  case (Object s shape specOpen)
  then show ?case by (cases v) (auto simp: strip_Object dest!: charged_Some)
next
  case (Array s e)
  then show ?case by (cases v) (auto simp: strip_Array dest!: charged_Some)
next
  case (Record s e)
  then show ?case by (cases v) (auto simp: strip_Record dest!: charged_Some)
next
  case (Variants s d options)
  show ?case
  proof (cases v)
    case (JObj m)
    with strip_VariantsE [OF Variants.hyps Variants.prems [unfolded JObj]] Variants.IH show ?thesis by metis
  qed (use Variants.prems in \<open>auto simp: strip_Variants(2) [OF Variants.hyps]\<close>)
next
  case (Options s options)
  from Options.prems Options.IH show ?case
    by (simp add: strip_Options [OF Options.hyps] split: option.splits if_splits) (blast dest: find_kind_mem)
qed (auto simp: strip_Leaf)

lemma find_kind_cong:
  "is_arr v' = is_arr v \<Longrightarrow> is_plain_object v' = is_plain_object v \<Longrightarrow> find_kind v' options = find_kind v options"
  by (induction options) auto

definition sound :: "zschema \<Rightarrow> jsval \<Rightarrow> walk \<Rightarrow> jsval \<Rightarrow> walk \<Rightarrow> bool" where
  "sound s v w v' w' \<longleftrightarrow> clean s v' \<and> snd w + entries s v' \<le> snd w' \<and> (fst w' = fst w \<longrightarrow> v' = v)"

lemma object_sound:
  assumes s: "unwrap s = ZObject shape specOpen"
    and IH: "\<And>k t x p w x' w'. map_of shape k = Some t \<Longrightarrow> stripAgainst opt mx t x p w = Inr (Some x', w') \<Longrightarrow> sound t x w x' w'"
    and "stripAgainst opt mx s (JObj m) path w = Inr (Some v', w')"
  shows "sound s (JObj m) w v' w'"
proof -
  let ?q = "\<lambda>(k, x). case map_of shape k of None \<Rightarrow> specOpen | Some t \<Rightarrow> clean t x"
  let ?c = "\<lambda>(k, x). case map_of shape k of None \<Rightarrow> 0 | Some t \<Rightarrow> entries t x"
  let ?body = "\<lambda>(key, x) w. (case map_of shape key of
      None \<Rightarrow> (if specOpen then Inr (Some [(key, x)], w) else Inr (Some [], report (child_path path key) w))
    | Some s \<Rightarrow> keep_child (Pair key) (opt s) (child_path path key) w (stripAgainst opt mx s x (child_path path key) w))"
  obtain m' where m': "v' = JObj m'" "strip_each ?body m (fst w, snd w + length m) = Inr (Some m', w')"
    using charged_Some [OF assms(3) [unfolded strip_Object(1) [OF s]]] by blast
  have "leaves ?q ?c [e] w y w1" if "?body e w = Inr (Some y, w1)" for e w y w1
  proof (cases e)
    case (Pair k x)
    show ?thesis
    proof (cases "map_of shape k")
      case None
      with that Pair show ?thesis by (auto simp: leaves_def split: if_splits)
    next
      case (Some t)
      with that Pair show ?thesis
        using keep_child_leaves [OF _ strip_grows, of "Pair k" _ _ _ opt mx t x "child_path path k" y w1 ?q ?c "(k, x)"]
          IH [OF Some] by (simp add: sound_def)
    qed
  qed
  from strip_each_leaves [OF m'(2), of ?q ?c "\<lambda>e. e", OF this] show ?thesis
    by (auto simp: m'(1) leaves_def sound_def clean.simps [of s] entries.simps [of s] s)
qed

lemma array_sound:
  assumes s: "unwrap s = ZArray e"
    and IH: "\<And>x p w x' w'. stripAgainst opt mx e x p w = Inr (Some x', w') \<Longrightarrow> sound e x w x' w'"
    and "stripAgainst opt mx s (JArr vs) path w = Inr (Some v', w')"
  shows "sound s (JArr vs) w v' w'"
proof -
  let ?body = "\<lambda>(index, x) w. keep_child id True (child_path path (nat_str index)) w
        (stripAgainst opt mx e x (child_path path (nat_str index)) w)"
  obtain vs' where vs': "v' = JArr vs'" "strip_each ?body (enumerate 0 vs) (fst w, snd w + length vs) = Inr (Some vs', w')"
    using charged_Some [OF assms(3) [unfolded strip_Array(1) [OF s]]] by blast
  have "leaves (clean e) (entries e) [snd p] w y w1" if "?body p w = Inr (Some y, w1)" for p w y w1
    using keep_child_leaves [OF _ strip_grows, of id True _ w opt mx e "snd p" "child_path path (nat_str (fst p))" y w1
        "clean e" "entries e" "snd p"] IH that by (cases p) (simp add: sound_def)
  from strip_each_leaves [OF vs'(2), of "clean e" "entries e" snd, OF this] show ?thesis
    by (auto simp: vs'(1) leaves_def sound_def clean.simps [of s] entries.simps [of s] s)
qed

lemma record_sound:
  assumes s: "unwrap s = ZRecord e"
    and IH: "\<And>x p w x' w'. stripAgainst opt mx e x p w = Inr (Some x', w') \<Longrightarrow> sound e x w x' w'"
    and "stripAgainst opt mx s (JObj m) path w = Inr (Some v', w')"
  shows "sound s (JObj m) w v' w'"
proof -
  let ?q = "\<lambda>(k, x). clean e x" and ?c = "\<lambda>(k, x). entries e x"
  let ?body = "\<lambda>(key, x) w. keep_child (Pair key) True (child_path path key) w (stripAgainst opt mx e x (child_path path key) w)"
  obtain m' where m': "v' = JObj m'" "strip_each ?body m (fst w, snd w + length m) = Inr (Some m', w')"
    using charged_Some [OF assms(3) [unfolded strip_Record(1) [OF s]]] by blast
  have "leaves ?q ?c [p] w y w1" if "?body p w = Inr (Some y, w1)" for p w y w1
    using keep_child_leaves [OF _ strip_grows, of "Pair (fst p)" True _ w opt mx e "snd p" "child_path path (fst p)" y w1
        ?q ?c p] IH that by (cases p) (simp add: sound_def)
  from strip_each_leaves [OF m'(2), of ?q ?c "\<lambda>e. e", OF this] show ?thesis
    by (auto simp: m'(1) leaves_def sound_def clean.simps [of s] entries.simps [of s] s)
qed

lemma variants_sound:
  assumes s: "unwrap s = ZUnion (Some d) options"
    and IH: "\<And>t p w x' w'. t \<in> set options \<Longrightarrow> stripAgainst opt mx t (JObj m) p w = Inr (Some x', w') \<Longrightarrow> sound t (JObj m) w x' w'"
    and "stripAgainst opt mx s (JObj m) path w = Inr (Some v', w')"
  shows "sound s (JObj m) w v' w'"
proof -
  from strip_VariantsE [OF s assms(3)] obtain t where t: "find_variant d (oget m d) options = Some t" "t \<in> set options"
    "stripAgainst opt mx t (JObj m) path w = Inr (Some v', w')" .
  from variant_shape [OF t(1)] tag_kept t(3) obtain m' where m': "v' = JObj m'" "oget m' d = oget m d" by metis
  with IH [OF t(2,3)] t(1) show ?thesis
    by (simp add: sound_def clean.simps [of s] entries.simps [of s] s)
qed

lemma strip_sound: "stripAgainst opt mx s v path w = Inr (Some v', w') \<Longrightarrow> sound s v w v' w'"
proof (induction s arbitrary: v path w v' w' rule: schema_induct)
  case (Object s shape specOpen)
  show ?case
  proof (cases "is_plain_object v")
    case True
    then obtain m where "v = JObj m" by (cases v) auto
    with Object show ?thesis by (blast intro: object_sound)
  next
    case False
    with Object.prems have "v' = v" "w' = w" by (simp_all add: strip_Object(2) [OF Object.hyps])
    with False show ?thesis by (cases v) (simp_all add: sound_def clean.simps [of s] entries.simps [of s] Object.hyps)
  qed
next
  case (Array s e)
  show ?case
  proof (cases "is_arr v")
    case True
    then obtain vs where "v = JArr vs" by (cases v) auto
    with Array show ?thesis by (blast intro: array_sound)
  next
    case False
    with Array.prems have "v' = v" "w' = w" by (simp_all add: strip_Array(2) [OF Array.hyps])
    with False show ?thesis by (cases v) (simp_all add: sound_def clean.simps [of s] entries.simps [of s] Array.hyps)
  qed
next
  case (Record s e)
  show ?case
  proof (cases "is_plain_object v")
    case True
    then obtain m where "v = JObj m" by (cases v) auto
    with Record show ?thesis by (blast intro: record_sound)
  next
    case False
    with Record.prems have "v' = v" "w' = w" by (simp_all add: strip_Record(2) [OF Record.hyps])
    with False show ?thesis by (cases v) (simp_all add: sound_def clean.simps [of s] entries.simps [of s] Record.hyps)
  qed
next
  case (Variants s d options)
  show ?case
  proof (cases "is_plain_object v")
    case True
    then obtain m where "v = JObj m" by (cases v) auto
    with Variants show ?thesis by (blast intro: variants_sound)
  next
    case False
    with Variants.prems have "v' = v" "w' = w" by (simp_all add: strip_Variants(2) [OF Variants.hyps])
    with False show ?thesis by (cases v) (simp_all add: sound_def clean.simps [of s] entries.simps [of s] Variants.hyps)
  qed
next
  case (Options s options)
  from strip_same_kind [OF Options.prems] have kind: "find_kind v' options = find_kind v options" "ambiguous options v' = ambiguous options v"
    by (auto simp: ambiguous_def intro: find_kind_cong)
  show ?case
  proof (cases "ambiguous options v \<or> find_kind v options = None")
    case True
    with Options.prems have "v' = v" "w' = w" by (auto simp: strip_Options [OF Options.hyps] split: if_splits)
    with True show ?thesis by (auto simp: sound_def clean.simps [of s] entries.simps [of s] Options.hyps)
  next
    case False
    then obtain t where t: "find_kind v options = Some t" "\<not> ambiguous options v" by auto
    with Options.prems have "stripAgainst opt mx t v path w = Inr (Some v', w')" by (simp add: strip_Options [OF Options.hyps])
    from Options.IH [OF find_kind_mem [OF t(1)] this] t kind show ?thesis
      by (simp add: sound_def clean.simps [of s] entries.simps [of s] Options.hyps)
  qed
next
  case (Leaf s)
  then show ?case by (cases "unwrap s") (simp_all add: strip_Leaf sound_def clean.simps [of s] entries.simps [of s])
qed

subsection \<open>The budget only refuses\<close>

definition refuses :: "nat \<Rightarrow> 'a visited \<Rightarrow> 'a visited \<Rightarrow> bool" where
  "refuses n r r' \<longleftrightarrow> (case r of
     Inl _ \<Rightarrow> False
   | Inr (x, w') \<Rightarrow> (if snd w' \<le> n then r' = r else \<exists>p. r' = Inl (LimitExceeded n p)))"

lemma refuses_simps [simp]:
  "\<not> refuses n (Inl e) r'"
  "refuses n (Inr (x, w)) r' \<longleftrightarrow> (if snd w \<le> n then r' = Inr (x, w) else \<exists>p. r' = Inl (LimitExceeded n p))"
  by (simp_all add: refuses_def)

lemma refuses_build: "refuses n r r' \<Longrightarrow> refuses n (build f r) (build f r')"
  by (cases r rule: visited_cases) (auto split: if_splits)

lemma refuses_keep_child: "refuses n r r' \<Longrightarrow> refuses n (keep_child f b p w r) (keep_child f b p w r')"
  by (cases r rule: visited_cases) (auto split: if_splits)

lemma refuses_charge:
  assumes "\<And>w. snd w \<le> n \<Longrightarrow> refuses n (f w) (f' w)" "\<And>w. grows w (f w)" "\<And>w e. f w \<noteq> Inl e"
  shows "refuses n (case charge None k p w of Inl e \<Rightarrow> Inl e | Inr w1 \<Rightarrow> f w1) (case charge (Some n) k p w of Inl e \<Rightarrow> Inl e | Inr w1 \<Rightarrow> f' w1)"
proof (cases "snd w + k \<le> n")
  case True
  with assms(1) show ?thesis by (simp add: charge_def)
next
  case False
  with assms(2,3) [of "(fst w, snd w + k)"] show ?thesis
    by (cases "f (fst w, snd w + k)" rule: visited_cases) (auto simp: charge_def extends_def)
qed

lemma strip_each_total: "(\<And>x w e. body x w \<noteq> Inl e) \<Longrightarrow> strip_each body xs w \<noteq> Inl e"
  by (induction xs arbitrary: w) (auto split: sum.split option.split)

lemma refuses_strip_each:
  assumes "\<And>x w. snd w \<le> n \<Longrightarrow> refuses n (body x w) (body' x w)"
    and "\<And>x w. grows w (body x w)" "\<And>x w e. body x w \<noteq> Inl e"
  shows "snd w \<le> n \<Longrightarrow> refuses n (strip_each body xs w) (strip_each body' xs w)"
proof (induction xs arbitrary: w)
  case (Cons x xs)
  note x = assms(1) [OF Cons.prems, of x]
  show ?case
  proof (cases "body x w" rule: visited_cases)
    case (Kept y w1)
    note kept = this
    have g: "grows w1 (strip_each body xs w1)" by (intro grows_strip_each assms(2))
    show ?thesis
    proof (cases "snd w1 \<le> n")
      case True
      with x kept Cons.IH [OF True] show ?thesis
        by (cases "strip_each body xs w1" rule: visited_cases) (auto split: if_splits)
    next
      case False
      with x kept g strip_each_total [of body xs w1, OF assms(3)] show ?thesis
        by (cases "strip_each body xs w1" rule: visited_cases) (auto simp: extends_def split: if_splits)
    qed
  qed (use x in \<open>auto split: if_splits\<close>)
qed simp

lemma visited_Inl [simp]: "keep_child f b p w r = Inl e \<longleftrightarrow> r = Inl e" "build g r' = Inl e \<longleftrightarrow> r' = Inl e"
  by (cases r rule: visited_cases; simp) (cases r' rule: visited_cases; simp)

lemma strip_total: "stripAgainst opt None s v path w \<noteq> Inl err"
proof (induction s arbitrary: v path w err rule: schema_induct)
  case (Object s shape specOpen)
  have "(\<lambda>(key, x) w. (case map_of shape key of
        None \<Rightarrow> (if specOpen then Inr (Some [(key, x)], w) else Inr (Some [], report (child_path path key) w))
      | Some s \<Rightarrow> keep_child (Pair key) (opt s) (child_path path key) w (stripAgainst opt None s x (child_path path key) w)))
      p w \<noteq> Inl e" for p w e
    using Object.IH by (cases p; cases "map_of shape (fst p)") simp_all
  from strip_each_total [OF this] show ?case by (cases v) (simp_all add: strip_Object [OF Object.hyps])
next
  case (Array s e)
  from strip_each_total [of "\<lambda>(index, x) w. keep_child id True (child_path path (nat_str index)) w
      (stripAgainst opt None e x (child_path path (nat_str index)) w)"] Array.IH
  show ?case by (cases v) (simp_all add: strip_Array [OF Array.hyps] case_prod_unfold)
next
  case (Record s e)
  from strip_each_total [of "\<lambda>(key, x) w. keep_child (Pair key) True (child_path path key) w
      (stripAgainst opt None e x (child_path path key) w)"] Record.IH
  show ?case by (cases v) (simp_all add: strip_Record [OF Record.hyps] case_prod_unfold)
next
  case (Variants s d options)
  then show ?case by (cases v) (simp_all add: strip_Variants [OF Variants.hyps] find_variant_mem split: option.split)
next
  case (Options s options)
  then show ?case by (simp add: strip_Options [OF Options.hyps] find_kind_mem split: option.split)
qed (simp add: strip_Leaf)

lemma strip_refuses:
  "snd w \<le> n \<Longrightarrow> refuses n (stripAgainst opt None s v path w) (stripAgainst opt (Some n) s v path w)"
proof (induction s arbitrary: v path w rule: schema_induct)
  case (Object s shape specOpen)
  let ?body = "\<lambda>mx. \<lambda>(key, x) w. (case map_of shape key of
        None \<Rightarrow> (if specOpen then Inr (Some [(key, x)], w) else Inr (Some [], report (child_path path key) w))
      | Some s \<Rightarrow> keep_child (Pair key) (opt s) (child_path path key) w (stripAgainst opt mx s x (child_path path key) w))"
  have "refuses n (?body None p w) (?body (Some n) p w)" if "snd w \<le> n" for p w
    using that Object.IH by (cases p; cases "map_of shape (fst p)") (simp_all add: refuses_keep_child)
  moreover have "grows w (?body None p w)" for p w
    by (cases p; cases "map_of shape (fst p)") (simp_all add: grows_keep_child strip_grows)
  moreover have "?body None p w \<noteq> Inl e" for p w e
    by (cases p; cases "map_of shape (fst p)") (simp_all add: strip_total)
  ultimately have "refuses n (stripAgainst opt None s (JObj m) path w) (stripAgainst opt (Some n) s (JObj m) path w)" for m
    unfolding strip_Object(1) [OF Object.hyps]
    by (intro refuses_charge refuses_build refuses_strip_each) (simp_all add: grows_strip_each strip_each_total)
  then show ?case using Object.prems by (cases v) (simp_all add: strip_Object(2) [OF Object.hyps])
next
  case (Array s e)
  let ?body = "\<lambda>mx. \<lambda>(index, x) w. keep_child id True (child_path path (nat_str index)) w
      (stripAgainst opt mx e x (child_path path (nat_str index)) w)"
  have "refuses n (?body None p w) (?body (Some n) p w)" if "snd w \<le> n" for p w
    using that Array.IH by (cases p) (simp add: refuses_keep_child)
  moreover have "grows w (?body None p w)" "?body None p w \<noteq> Inl e'" for p w e'
    by (cases p; simp add: grows_keep_child strip_grows strip_total)+
  ultimately have "refuses n (stripAgainst opt None s (JArr vs) path w) (stripAgainst opt (Some n) s (JArr vs) path w)" for vs
    unfolding strip_Array(1) [OF Array.hyps]
    by (intro refuses_charge refuses_build refuses_strip_each) (simp_all add: grows_strip_each strip_each_total)
  then show ?case using Array.prems by (cases v) (simp_all add: strip_Array(2) [OF Array.hyps])
next
  case (Record s e)
  let ?body = "\<lambda>mx. \<lambda>(key, x) w. keep_child (Pair key) True (child_path path key) w (stripAgainst opt mx e x (child_path path key) w)"
  have "refuses n (?body None p w) (?body (Some n) p w)" if "snd w \<le> n" for p w
    using that Record.IH by (cases p) (simp add: refuses_keep_child)
  moreover have "grows w (?body None p w)" "?body None p w \<noteq> Inl e'" for p w e'
    by (cases p; simp add: grows_keep_child strip_grows strip_total)+
  ultimately have "refuses n (stripAgainst opt None s (JObj m) path w) (stripAgainst opt (Some n) s (JObj m) path w)" for m
    unfolding strip_Record(1) [OF Record.hyps]
    by (intro refuses_charge refuses_build refuses_strip_each) (simp_all add: grows_strip_each strip_each_total)
  then show ?case using Record.prems by (cases v) (simp_all add: strip_Record(2) [OF Record.hyps])
next
  case (Variants s d options)
  then show ?case by (cases v) (simp_all add: strip_Variants [OF Variants.hyps] find_variant_mem split: option.split)
next
  case (Options s options)
  then show ?case by (simp add: strip_Options [OF Options.hyps] find_kind_mem split: option.split)
qed (simp add: strip_Leaf)

subsection \<open>Where a walk cannot drop its root\<close>

text \<open>A schema whose discriminated unions are all inside arrays, records or optional fields.\<close>

lemma union_size: "unwrap s = ZUnion d options \<Longrightarrow> t \<in> set options \<Longrightarrow> size t < size s"
  using option_size [of t options d] unwrap_size [of s] by simp

function solid :: "(zschema \<Rightarrow> bool) \<Rightarrow> zschema \<Rightarrow> bool" where
  "solid opt s = (case unwrap s of
     ZObject shape specOpen \<Rightarrow>
       list_all (\<lambda>k. case map_of shape k of Some t \<Rightarrow> opt t \<or> solid opt t | None \<Rightarrow> True) (map fst shape)
   | ZUnion (Some d) options \<Rightarrow> False
   | ZUnion None options \<Rightarrow> list_all (solid opt) options
   | _ \<Rightarrow> True)"
  by pat_completeness auto
termination
  by (relation "measure (size \<circ> snd)") (auto dest: unwrap_sizes union_size)

declare solid.simps [simp del]

lemma solid_Object:
  "unwrap s = ZObject shape specOpen \<Longrightarrow> solid opt s \<longleftrightarrow> (\<forall>k t. map_of shape k = Some t \<longrightarrow> opt t \<or> solid opt t)"
  by (subst solid.simps) (simp add: list_all_iff split: option.split, metis map_of_SomeD fst_conv)

lemma strip_each_kept: "(\<And>x w w'. x \<in> set xs \<Longrightarrow> body x w \<noteq> Inr (None, w')) \<Longrightarrow> strip_each body xs w \<noteq> Inr (None, w')"
  by (induction xs arbitrary: w) (auto split: sum.split option.split)

lemma visited_None [simp]:
  "keep_child f b p w r = Inr (None, w') \<longleftrightarrow> \<not> b \<and> (\<exists>w1. r = Inr (None, w1) \<and> w' = rewind w w1)"
  "build g r' = Inr (None, w') \<longleftrightarrow> r' = Inr (None, w')"
  by (cases r rule: visited_cases; auto) (cases r' rule: visited_cases; simp)

lemma solid_kept: "solid opt s \<Longrightarrow> stripAgainst opt mx s v path w \<noteq> Inr (None, w')"
proof (induction s arbitrary: v path w w' rule: schema_induct)
  case (Object s shape specOpen)
  let ?body = "\<lambda>(key, x) w. (case map_of shape key of
        None \<Rightarrow> (if specOpen then Inr (Some [(key, x)], w) else Inr (Some [], report (child_path path key) w))
      | Some s \<Rightarrow> keep_child (Pair key) (opt s) (child_path path key) w (stripAgainst opt mx s x (child_path path key) w))"
  have "?body p w \<noteq> Inr (None, w')" for p w w'
  proof (cases "map_of shape (fst p)")
    case (Some t)
    with Object.prems have "opt t \<or> solid opt t" by (auto simp: solid_Object [OF Object.hyps])
    with Some Object.IH [OF Some] show ?thesis by (cases p) (simp, blast)
  qed (cases p, simp)
  from strip_each_kept [of _ ?body, OF this] show ?case
    by (cases v) (simp_all add: strip_Object [OF Object.hyps] split: sum.split)
next
  case (Array s e)
  from strip_each_kept [of _ "\<lambda>(index, x) w. keep_child id True (child_path path (nat_str index)) w
      (stripAgainst opt mx e x (child_path path (nat_str index)) w)"]
  show ?case by (cases v) (simp_all add: strip_Array [OF Array.hyps] case_prod_unfold split: sum.split)
next
  case (Record s e)
  from strip_each_kept [of _ "\<lambda>(key, x) w. keep_child (Pair key) True (child_path path key) w
      (stripAgainst opt mx e x (child_path path key) w)"]
  show ?case by (cases v) (simp_all add: strip_Record [OF Record.hyps] case_prod_unfold split: sum.split)
next
  case (Variants s d options)
  then show ?case by (simp add: solid.simps [of opt s])
next
  case (Options s options)
  then show ?case
    by (simp add: strip_Options [OF Options.hyps] solid.simps [of opt s] list_all_iff find_kind_mem split: option.split)
qed (simp add: strip_Leaf)

lemma solid_mono: "(\<And>t. opt t \<Longrightarrow> opt' t) \<Longrightarrow> solid opt s \<Longrightarrow> solid opt' s"
proof (induction s rule: schema_induct)
  case (Object s shape specOpen)
  then show ?case by (simp add: solid_Object) blast
next
  case (Options s options)
  then show ?case by (auto simp: solid.simps [of _ s] list_all_iff)
next
  case (Leaf s)
  then show ?case by (cases "unwrap s") (simp_all add: solid.simps [of _ s])
qed (simp_all add: solid.simps)

subsection \<open>The whole stripper\<close>

definition strip_cost :: "(zschema \<Rightarrow> bool) \<Rightarrow> zschema \<Rightarrow> jsval \<Rightarrow> nat" where
  "strip_cost opt s v = (case stripAgainst opt None s v [] ([], 0) of Inr (_, w) \<Rightarrow> snd w | Inl _ \<Rightarrow> 0)"

lemma resolved_budget [simp]: "resolveMaxEntries Infinite = Inr None"
  "0 < n \<Longrightarrow> n \<le> 9007199254740991 \<Longrightarrow> resolveMaxEntries (BudgetValue (JNum (int n))) = Inr (Some n)"
  by (simp_all add: resolveMaxEntries_def)

lemma stripUnknown_Inr:
  "stripUnknown opt b v s = Inr (v', ps) \<longleftrightarrow>
     (\<exists>mx n. resolveMaxEntries b = Inr mx \<and> stripAgainst opt mx s v [] ([], 0) = Inr (Some v', (ps, n)))"
  by (auto simp: stripUnknown_def split: sum.splits option.splits)

lemma strip_unlimited:
  "stripAgainst opt (Some n) s v path w = Inr r \<Longrightarrow> snd w \<le> n \<Longrightarrow> stripAgainst opt None s v path w = Inr r \<and> snd (snd r) \<le> n"
  using strip_refuses [of w n opt s v path]
  by (cases "stripAgainst opt None s v path w" rule: visited_cases) (auto split: if_splits)

lemma strip_again:
  assumes "stripAgainst opt mx s v [] ([], 0) = Inr (Some v', (ps, n))"
  shows "clean s v'" "ps = [] \<longleftrightarrow> v' = v" "stripAgainst opt mx s v' [] ([], 0) = Inr (Some v', ([], entries s v'))"
proof -
  from strip_sound [OF assms] have v': "clean s v'" "entries s v' \<le> n" "ps = [] \<Longrightarrow> v' = v" by (simp_all add: sound_def)
  then show "clean s v'" by blast
  have again: "stripAgainst opt None s v' [] ([], 0) = Inr (Some v', ([], entries s v'))" by (simp add: clean_strip [OF v'(1)])
  show "stripAgainst opt mx s v' [] ([], 0) = Inr (Some v', ([], entries s v'))"
  proof (cases mx)
    case (Some k)
    with strip_unlimited assms have "n \<le> k" by fastforce
    with Some again v'(2) strip_refuses [of "([], 0)" k opt s v' "[]"] show ?thesis by simp
  qed (simp add: again)
  then show "ps = [] \<longleftrightarrow> v' = v" using assms v'(3) by auto
qed

fun declared_optional :: "zschema \<Rightarrow> bool" where
  "declared_optional (ZOptional s) = True"
| "declared_optional _ = False"



text \<open>
  The budget only refuses. A payload has a cost that does not depend on the budget; a budget of at least that cost gives the
  result of an unlimited walk, a smaller one the limit error, and what is handed on to the validator has no more
  entries than the cost. No result depends on the budget otherwise.
\<close>

theorem budget_refuses:
  assumes "0 < n" "n \<le> 9007199254740991"
  shows "(strip_cost opt s v \<le> n \<longrightarrow> stripUnknown opt (BudgetValue (JNum (int n))) v s = stripUnknown opt Infinite v s) \<and>
    (n < strip_cost opt s v \<longrightarrow> (\<exists>path. stripUnknown opt (BudgetValue (JNum (int n))) v s = Inl (LimitExceeded n path))) \<and>
    (\<forall>v' paths. stripUnknown opt Infinite v s = Inr (v', paths) \<longrightarrow> entries s v' \<le> strip_cost opt s v)"
  using strip_refuses [of "([], 0)" n opt s v "[]"] assms strip_total [of opt s v "[]" "([], 0)"]
     strip_sound [of opt None s v "[]" "([], 0)"]
  by (cases "stripAgainst opt None s v [] ([], 0)" rule: visited_cases; auto simp: stripUnknown_def strip_cost_def sound_def)

theorem budget_refuses_witness:
  "\<exists>path. stripUnknown declared_optional (BudgetValue (JNum (int 3)))
     (JArr [JObj [(''description'', JStr ''d''), (''value'', JStr ''v'')], JObj [(''colour'', JNull)]]) (ZArray ContextSchema) =
     Inl (LimitExceeded 3 path)"
proof -
  have n: "0 < (3 :: nat)" "(3 :: nat) \<le> 9007199254740991" by simp_all
  have "3 < strip_cost declared_optional (ZArray ContextSchema)
     (JArr [JObj [(''description'', JStr ''d''), (''value'', JStr ''v'')], JObj [(''colour'', JNull)]])" by code_simp
  with budget_refuses [OF n] show ?thesis by blast
qed

subsection \<open>The generated validators\<close>

lemma generated_solid:
  "list_all (\<lambda>e. solid declared_optional (snd e)) EVENT_SCHEMA_BY_TYPE"
  "solid declared_optional RunAgentInputSchema"
  "map fst EVENT_SCHEMA_BY_TYPE = event_type_names"
  by code_simp+

end
