(* ===== verification/SerializeProps.thy ===== *)
theory SerializeProps
  imports EnforceProps
begin

text \<open>
  Serialization: the generated table is closed, so the walk returns and clears exactly the optional nulls; and the table
  agrees with the generated validators, which is checked by evaluation on the two tables and carried over to values by
  rule induction.
\<close>

subsection \<open>The table\<close>

text \<open>The table knows every name it uses, its entries are objects and unions, and the members of a union are objects.\<close>

type_synonym shape_table = "string \<Rightarrow> shape option"

fun is_object_shape :: "shape \<Rightarrow> bool" where
  "is_object_shape (SObject _ _) = True"
| "is_object_shape _ = False"

fun is_entry :: "shape \<Rightarrow> bool" where
  "is_entry (SObject _ _) = True"
| "is_entry (SVariants _ _) = True"
| "is_entry _ = False"

fun shape_known :: "shape_table \<Rightarrow> shape \<Rightarrow> bool" where
  "shape_known table (SName n) = (table n \<noteq> None)"
| "shape_known table (SArray s) = shape_known table s"
| "shape_known table (SObject optional children) =
     (distinct (map fst children) \<and> list_all (\<lambda>(k, s). shape_known table s) children)"
| "shape_known table (SVariants d variants) =
     list_all (\<lambda>(tag, n). case table n of Some s \<Rightarrow> is_object_shape s | None \<Rightarrow> False) variants"

definition entry_closed :: "shape_table \<Rightarrow> string \<Rightarrow> bool" where
  "entry_closed table n = (case table n of Some s \<Rightarrow> is_entry s \<and> shape_known table s | None \<Rightarrow> True)"

definition table_closed :: "shape_table \<Rightarrow> bool" where
  "table_closed table \<longleftrightarrow> (\<forall>n. entry_closed table n)"

definition shape_names :: "string list" where
  "shape_names =
     [''TextMessageStartEvent'', ''TextMessageContentEvent'', ''TextMessageEndEvent'', ''TextMessageChunkEvent'',
      ''ToolCallStartEvent'', ''ToolCallArgsEvent'', ''ToolCallEndEvent'', ''ToolCallChunkEvent'', ''TextPart'', ''DataSource'',
      ''UrlSource'', ''FileSource'', ''PartSource'', ''ImagePart'', ''AudioPart'', ''VideoPart'', ''DocumentPart'', ''ContentPart'',
      ''ToolCallResultEvent'', ''StateSnapshotEvent'', ''AddOperation'', ''RemoveOperation'', ''ReplaceOperation'', ''MoveOperation'',
      ''CopyOperation'', ''TestOperation'', ''JsonPatchOperation'', ''StateDeltaEvent'', ''DeveloperMessage'', ''SystemMessage'',
      ''FunctionCall'', ''ToolCall'', ''AssistantMessage'', ''UserMessage'', ''ToolMessage'', ''ActivityMessage'', ''ReasoningMessage'',
      ''Message'', ''MessagesSnapshotEvent'', ''ActivitySnapshotEvent'', ''ActivityDeltaEvent'', ''RawEvent'', ''CustomEvent'',
      ''Tool'', ''Context'', ''ResumeEntry'', ''RunAgentInput'', ''RunStartedEvent'', ''RunFinishedSuccessOutcome'', ''Interrupt'',
      ''RunFinishedInterruptOutcome'', ''RunFinishedCancelledOutcome'', ''RunFinishedOutcome'', ''TokenUsage'', ''RunFinishedEvent'',
      ''RunErrorEvent'', ''StepStartedEvent'', ''StepFinishedEvent'', ''ReasoningStartEvent'', ''ReasoningMessageStartEvent'',
      ''ReasoningMessageContentEvent'', ''ReasoningMessageEndEvent'', ''ReasoningMessageChunkEvent'', ''ReasoningEndEvent'',
      ''ReasoningEncryptedValueEvent'', ''SubagentStartedEvent'', ''SubagentFinishedSuccessOutcome'',
      ''SubagentFinishedSuspendedOutcome'', ''SubagentFinishedOutcome'', ''SubagentFinishedEvent'', ''SubagentErrorEvent'', ''Event'',
      ''SubagentInfo'', ''IdentityCapabilities'', ''TransportCapabilities'', ''ToolsCapabilities'', ''OutputCapabilities'',
      ''StateCapabilities'', ''MultiAgentCapabilities'', ''ReasoningCapabilities'', ''MultimodalInputCapabilities'',
      ''MultimodalOutputCapabilities'', ''MultimodalCapabilities'', ''ExecutionCapabilities'', ''HumanInTheLoopCapabilities'',
      ''AgentCapabilities'']"

lemma shapes_dom: "shapes n \<noteq> None \<Longrightarrow> n \<in> set shape_names"
  by (rule ccontr) (simp add: shapes_def shape_names_def)

lemma shapes_entries: "list_all (entry_closed shapes) shape_names"
  by code_simp

lemma shapes_closed: "table_closed shapes"
  unfolding table_closed_def
proof
  fix n
  show "entry_closed shapes n"
    using shapes_entries shapes_dom [of n] by (cases "shapes n = None") (simp_all add: entry_closed_def list_all_iff)
qed

lemma shapes_roots: "shape_known shapes (SName ''Event'')" "shape_known shapes (SName ''RunAgentInput'')"
  by code_simp+

lemma object_shape_iff: "is_object_shape s \<longleftrightarrow> (\<exists>optional children. s = SObject optional children)"
  by (cases s) auto

lemma closed_entry: "table_closed table \<Longrightarrow> table n = Some s \<Longrightarrow> is_entry s \<and> shape_known table s"
  by (force simp: table_closed_def entry_closed_def split: option.splits)

lemma closed_variant:
  assumes "shape_known table (SVariants d variants)" "map_of variants tag = Some n"
  obtains optional children where "table n = Some (SObject optional children)"
  using assms(1) map_of_SomeD [OF assms(2)] that by (fastforce simp: list_all_iff object_shape_iff split: option.splits)

subsection \<open>Sizes\<close>

text \<open>Omitting makes no value larger.\<close>

lemma size_arr: "x \<in> set vs \<Longrightarrow> size x < size (JArr vs)"
  by (induction vs) auto

definition osize :: "jsobj \<Rightarrow> nat" where
  "osize m = size_list (size_prod (\<lambda>_. 0) size) m"

lemma size_obj: "size (JObj m) = osize m + 1"
  by (simp add: osize_def)

lemma osize_simps [simp]: "osize [] = 0" "osize ((k, v) # m) = size v + osize m + 2"
  by (simp_all add: osize_def)

lemma osize_delete: "osize (odel k m) \<le> osize m"
  by (induction m) (auto simp: odel_def)

lemma osize_oget: "has_own m k \<Longrightarrow> size (oget m k) < osize m"
  by (induction m) (auto simp: has_own_def split: if_splits)

lemma osize_oset: "has_own m k \<Longrightarrow> size x \<le> size (oget m k) \<Longrightarrow> osize (oset k x m) \<le> osize m"
  by (induction m) (auto simp: oset_def has_own_def split: if_splits)

lemma osize_drop_nulls: "osize (drop_nulls ks m) \<le> osize m"
  by (induction ks m rule: drop_nulls.induct) (auto intro: order_trans osize_delete)

lemma those_Some: "those xs = Some ys \<longleftrightarrow> xs = map Some ys"
  by (induction xs arbitrary: ys) (auto split: option.splits)

lemma size_list_mono: "list_all2 (\<lambda>x y. size y \<le> size x) vs ws \<Longrightarrow> size_list size ws \<le> size_list size vs"
  by (induction rule: list_all2_induct) auto

lemma map_eq_imp_list_all2: "map f xs = map Some ys \<Longrightarrow> list_all2 (\<lambda>x y. f x = Some y) xs ys"
  by (auto simp: list_all2_conv_all_nth list_eq_iff_nth_eq)

lemma omit_size:
  "omit table n v s = Some y \<Longrightarrow> size y \<le> size v"
  "omit_fields table n children m = Some m' \<Longrightarrow> osize m' \<le> osize m"
proof (induction table n v s and table n children m arbitrary: y and m' rule: omit_omit_fields.induct)
  case (3 table n v s)
  show ?case
  proof (cases v)
    case (JArr vs)
    with "3.prems" obtain ws where ws: "y = JArr ws" "list_all2 (\<lambda>x y. omit table n x s = Some y) vs ws"
      by (auto simp: those_Some dest!: map_eq_imp_list_all2)
    then have "list_all2 (\<lambda>x y. size y \<le> size x) vs ws"
      by (auto elim!: list.rel_mono_strong intro: "3.IH" [OF JArr])
    with size_list_mono ws(1) JArr show ?thesis by simp
  qed (use "3.prems" in auto)
next
  case (5 table n v optional children)
  show ?case
  proof (cases v)
    case (JObj m)
    with "5.prems" obtain m' where m': "omit_fields table n children (drop_nulls optional m) = Some m'" "y = JObj m'" by auto
    from order_trans [OF "5.IH" [OF JObj m'(1)] osize_drop_nulls] show ?thesis by (simp add: JObj m'(2) flip: osize_def)
  qed (use "5.prems" in auto)
next
  case (7 table n key child children m)
  show ?case
  proof (cases "has_own m key")
    case True
    with "7.prems" obtain x where x: "omit table n (oget m key) child = Some x"
      "omit_fields table n children (oset key x m) = Some m'" by (auto split: option.splits)
    from True have h: "\<not> \<not> has_own m key" by simp
    from order_trans [OF "7.IH"(3) [OF h x] osize_oset [OF True "7.IH"(2) [OF h x(1)]]] show ?thesis .
  qed (use "7.IH"(1) "7.prems" in simp)
qed (auto split: option.splits jsval.splits)

subsection \<open>The walk ends\<close>

definition rank :: "shape_table \<Rightarrow> shape \<Rightarrow> nat" where
  "rank table s = (case s of
     SName n \<Rightarrow> (case table n of Some (SObject _ _) \<Rightarrow> 2 | _ \<Rightarrow> 4)
   | SVariants _ _ \<Rightarrow> 3
   | _ \<Rightarrow> 1)"

lemma rank_le: "rank table s \<le> 4"
  by (simp add: rank_def split: shape.split option.split)

lemma omit_total:
  "table_closed table \<Longrightarrow> shape_known table s \<Longrightarrow> 4 * size v + rank table s \<le> n \<Longrightarrow> \<exists>y. omit table n v s = Some y"
  "table_closed table \<Longrightarrow> list_all (\<lambda>(k, s). shape_known table s) children \<Longrightarrow> 4 * osize m \<le> n \<Longrightarrow>
     \<exists>m'. omit_fields table n children m = Some m'"
proof (induction table n v s and table n children m rule: omit_omit_fields.induct)
  case (1 table v s)
  then show ?case by (simp add: rank_def split: shape.splits option.splits)
next
  case (2 table n v name)
  then obtain s where s: "table name = Some s" by auto
  with closed_entry "2.prems"(1) have k: "is_entry s" "shape_known table s" by auto
  then have "4 * size v + rank table s \<le> n" using "2.prems"(3) s
    by (cases s) (simp_all add: rank_def)
  with "2.IH" [OF s] "2.prems"(1) k s show ?case by simp
next
  case (3 table n v s)
  show ?case
  proof (cases v)
    case (JArr vs)
    have "\<exists>y. omit table n x s = Some y" if "x \<in> set vs" for x
      using "3.IH" [OF JArr that] "3.prems" size_arr [OF that] rank_le [of table s] by (simp add: JArr rank_def)
    then obtain f where "\<forall>x \<in> set vs. omit table n x s = Some (f x)" by metis
    then have "those (map (\<lambda>x. omit table n x s) vs) = Some (map f vs)" by (simp add: those_Some)
    with JArr show ?thesis by simp
  qed simp_all
next
  case (4 table n v d variants)
  show ?case
  proof (cases v)
    case (JObj m)
    show ?thesis
    proof (cases "\<exists>tag name. oget m d = JStr tag \<and> map_of variants tag = Some name")
      case True
      then obtain tag name where t: "oget m d = JStr tag" "map_of variants tag = Some name" by blast
      from closed_variant [OF "4.prems"(2) t(2)] obtain optional children where o: "table name = Some (SObject optional children)" .
      have "4 * size v + rank table (SName name) \<le> n" using "4.prems"(3) o by (simp add: rank_def)
      with "4.IH" [OF JObj t] "4.prems"(1) o JObj t show ?thesis by simp
    qed (auto simp: JObj split: jsval.split option.split)
  qed simp_all
next
  case (5 table n v optional children)
  show ?case
  proof (cases v)
    case (JObj m)
    have "4 * osize (drop_nulls optional m) \<le> n"
      using osize_drop_nulls [of optional m] "5.prems"(3) by (simp add: JObj rank_def flip: osize_def)
    with "5.IH" [OF JObj] "5.prems"(1,2) JObj show ?thesis by auto
  qed simp_all
next
  case (7 table n key child children m)
  show ?case
  proof (cases "has_own m key")
    case True
    have "4 * size (oget m key) + rank table child \<le> n"
      using osize_oget [OF True] rank_le [of table child] "7.prems"(3) by simp
    with "7.IH"(2) "7.prems" True obtain x where x: "omit table n (oget m key) child = Some x" by auto
    with osize_oset [OF True omit_size(1) [OF x]] "7.IH"(3) [of x] "7.prems" True show ?thesis by simp
  qed (use "7.IH"(1) "7.prems" in simp)
qed simp_all

lemma omitOptionalNulls_total:
  "root \<in> {''Event'', ''RunAgentInput''} \<Longrightarrow> \<exists>y. omitOptionalNulls v root = Some y"
  using omit_total(1) [OF shapes_closed, of "SName root" v] shapes_roots rank_le [of shapes "SName root"]
  by (auto simp: omitOptionalNulls_def)

subsection \<open>What is left\<close>

text \<open>An optional \<^verbatim>\<open>null\<close> somewhere along a shape.\<close>

inductive null_at :: "shape_table \<Rightarrow> shape \<Rightarrow> jsval \<Rightarrow> bool" for table where
  name: "table n = Some s \<Longrightarrow> null_at table s v \<Longrightarrow> null_at table (SName n) v"
| item: "x \<in> set vs \<Longrightarrow> null_at table s x \<Longrightarrow> null_at table (SArray s) (JArr vs)"
| variant: "oget m d = JStr tag \<Longrightarrow> map_of variants tag = Some n \<Longrightarrow> null_at table (SName n) (JObj m) \<Longrightarrow>
    null_at table (SVariants d variants) (JObj m)"
| here: "k \<in> set optional \<Longrightarrow> has_own m k \<Longrightarrow> oget m k = JNull \<Longrightarrow> null_at table (SObject optional children) (JObj m)"
| field: "(k, s) \<in> set children \<Longrightarrow> has_own m k \<Longrightarrow> null_at table s (oget m k) \<Longrightarrow>
    null_at table (SObject optional children) (JObj m)"

inductive_simps null_at_simps [simp]:
  "null_at table (SName n) v" "null_at table (SArray s) v" "null_at table (SVariants d variants) v"
  "null_at table (SObject optional children) v"

text \<open>Without one, nothing is changed.\<close>

lemma odel_not_own: "\<not> has_own m k \<Longrightarrow> odel k m = m"
  by (simp add: odel_def has_own_def delete_id map_of_eq_None_iff)

lemma drop_nulls_id: "(\<And>k. k \<in> set ks \<Longrightarrow> has_own m k \<Longrightarrow> oget m k \<noteq> JNull) \<Longrightarrow> drop_nulls ks m = m"
  by (induction ks) auto

lemma omit_none:
  "omit table n v s = Some y \<Longrightarrow> \<not> null_at table s v \<Longrightarrow> y = v"
  "omit_fields table n children m = Some m' \<Longrightarrow> (\<And>k s. (k, s) \<in> set children \<Longrightarrow> has_own m k \<Longrightarrow> \<not> null_at table s (oget m k)) \<Longrightarrow> m' = m"
proof (induction table n v s and table n children m arbitrary: y and m' rule: omit_omit_fields.induct)
  case (3 table n v s)
  show ?case
  proof (cases v)
    case (JArr vs)
    with "3.prems" obtain ws where ws: "y = JArr ws" "list_all2 (\<lambda>x y. omit table n x s = Some y) vs ws"
      by (auto simp: those_Some dest!: map_eq_imp_list_all2)
    then have "list_all2 (=) vs ws"
      using "3.IH" [OF JArr] "3.prems"(2) by (auto simp: JArr elim!: list.rel_mono_strong)
    with ws(1) JArr show ?thesis by (simp add: list.rel_eq)
  qed (use "3.prems" in auto)
next
  case (5 table n v optional children)
  show ?case
  proof (cases v)
    case (JObj m)
    with "5.prems" have d: "drop_nulls optional m = m" by (intro drop_nulls_id) auto
    with "5.prems" "5.IH" [OF JObj] JObj show ?thesis by auto
  qed (use "5.prems" in auto)
next
  case (7 table n key child children m)
  show ?case
  proof (cases "has_own m key")
    case True
    with "7.prems" obtain x where x: "omit table n (oget m key) child = Some x" by (auto split: option.splits)
    with "7.IH"(2) True "7.prems"(2) have "x = oget m key" by simp
    with x "7.IH"(3) [of x] True "7.prems" show ?thesis by (simp add: oset_oget)
  qed (use "7.IH"(1) "7.prems" in simp)
qed (auto split: option.splits jsval.splits)

text \<open>Scalars stay, and an object keeps its strings, so its discriminator.\<close>

lemma omit_scalar: "omit table n v s = Some y \<Longrightarrow> \<not> is_arr v \<Longrightarrow> \<not> is_plain_object v \<Longrightarrow> y = v"
proof (induction n arbitrary: s)
  case (Suc n)
  then show ?case by (cases s; cases v) (auto split: option.splits)
qed simp

lemma oget_drop_nulls:
  "has_own (drop_nulls ks m) k \<longleftrightarrow> has_own m k \<and> \<not> (k \<in> set ks \<and> oget m k = JNull)"
  "oget m k \<noteq> JNull \<or> k \<notin> set ks \<Longrightarrow> oget (drop_nulls ks m) k = oget m k"
  by (induction ks arbitrary: m) auto

lemma omit_fields_strings:
  "omit_fields table n children m = Some m' \<Longrightarrow> oget m k = JStr t \<Longrightarrow> oget m' k = JStr t"
proof (induction children arbitrary: m)
  case (Cons c children)
  obtain key child where c: "c = (key, child)" by (cases c)
  show ?case
  proof (cases "has_own m key")
    case True
    with Cons.prems(1) c obtain x where x: "omit table n (oget m key) child = Some x"
      "omit_fields table n children (oset key x m) = Some m'" by (auto split: option.splits)
    then have "k = key \<Longrightarrow> x = JStr t" using omit_scalar [OF x(1)] Cons.prems(2) by auto
    with Cons.IH [OF x(2)] Cons.prems(2) show ?thesis by auto
  qed (use Cons c in auto)
qed simp

lemma omit_object:
  "omit table n (JObj m) s = Some y \<Longrightarrow> \<exists>m'. y = JObj m' \<and> (\<forall>k t. oget m k = JStr t \<longrightarrow> oget m' k = JStr t)"
proof (induction n arbitrary: s)
  case (Suc n)
  then show ?case
    by (cases s) (auto split: option.splits jsval.splits intro!: omit_fields_strings oget_drop_nulls(2) [THEN trans])
qed simp

text \<open>The loop over the children sets each of them once.\<close>

lemma omit_fields_values:
  "omit_fields table n children m = Some m' \<Longrightarrow> distinct (map fst children) \<Longrightarrow>
     has_own m' k = has_own m k \<and>
     (case map_of children k of
        None \<Rightarrow> oget m' k = oget m k
      | Some s \<Rightarrow> has_own m k \<longrightarrow> omit table n (oget m k) s = Some (oget m' k))"
proof (induction children arbitrary: m)
  case (Cons c children)
  obtain key child where c: "c = (key, child)" by (cases c)
  have key: "map_of children key = None" using Cons.prems(2) c by (simp add: map_of_eq_None_iff)
  show ?case
  proof (cases "has_own m key")
    case True
    with Cons.prems(1) c obtain x where x: "omit table n (oget m key) child = Some x"
      "omit_fields table n children (oset key x m) = Some m'" by (auto split: option.splits)
    from Cons.IH [OF x(2)] Cons.prems(2) c key x(1) True show ?thesis
      by (cases "k = key"; cases "map_of children k") auto
  next
    case False
    with Cons.prems c have "omit_fields table n children m = Some m'" by simp
    from Cons.IH [OF this] Cons.prems(2) c key False show ?thesis
      by (cases "k = key"; cases "map_of children k") auto
  qed
qed simp

lemma omit_array: "omit table n (JArr vs) s = Some y \<Longrightarrow> is_arr y"
proof (induction n arbitrary: s)
  case (Suc n)
  then show ?case by (cases s) (auto split: option.splits)
qed simp

lemma omit_null: "omit table n v s = Some JNull \<Longrightarrow> v = JNull"
  using omit_array [of table n _ s JNull] omit_object [of table n _ s JNull] omit_scalar [of table n v s JNull]
  by (cases v) auto

lemma omit_clears: "table_closed table \<Longrightarrow> shape_known table s \<Longrightarrow> omit table n v s = Some y \<Longrightarrow> \<not> null_at table s y"
proof (induction n arbitrary: v s y)
  case (Suc n)
  show ?case
  proof (cases s)
    case (SName name)
    with Suc.prems(3) obtain t where t: "table name = Some t" "omit table n v t = Some y" by (auto split: option.splits)
    with closed_entry [OF Suc.prems(1)] Suc.IH [OF Suc.prems(1) _ t(2)] SName show ?thesis by auto
  next
    case (SArray e)
    have IH: "\<not> null_at table e y" if "omit table n x e = Some y" for x y using Suc.IH [OF Suc.prems(1) _ that] Suc.prems(2) SArray by simp
    show ?thesis
    proof (cases v)
      case (JArr vs)
      with Suc.prems(3) SArray obtain ws where "y = JArr ws" "list_all2 (\<lambda>x y. omit table n x e = Some y) vs ws"
        by (auto simp: those_Some dest!: map_eq_imp_list_all2)
      with IH show ?thesis by (auto simp: SArray list_all2_conv_all_nth in_set_conv_nth)
    qed (use Suc.prems(3) SArray in auto)
  next
    case (SVariants d variants)
    show ?thesis
    proof (cases "\<exists>m tag name. v = JObj m \<and> oget m d = JStr tag \<and> map_of variants tag = Some name")
      case True
      then obtain m tag name where t: "v = JObj m" "oget m d = JStr tag" "map_of variants tag = Some name" by blast
      with Suc.prems(3) SVariants have o: "omit table n v (SName name) = Some y" by simp
      from closed_variant [OF Suc.prems(2) [unfolded SVariants] t(3)] have "shape_known table (SName name)" by auto
      with Suc.IH [OF Suc.prems(1) _ o] omit_object [of table n m "SName name" y] o t show ?thesis by (auto simp: SVariants)
    next
      case False
      with Suc.prems(3) SVariants have "y = v" by (auto split: jsval.splits option.splits)
      with False SVariants show ?thesis by auto
    qed
  next
    case (SObject optional children)
    show ?thesis
    proof (cases v)
      case (JObj m)
      with Suc.prems(3) SObject obtain m' where m': "omit_fields table n children (drop_nulls optional m) = Some m'" "y = JObj m'" by auto
      from Suc.prems(2) SObject have d: "distinct (map fst children)" by simp
      note val = omit_fields_values [OF m'(1) d]
      have "oget m' k \<noteq> JNull" if "k \<in> set optional" "has_own m' k" for k
        using val [of k] that oget_drop_nulls [where ks = optional and m = m and k = k] omit_null [of table n "oget (drop_nulls optional m) k" _]
        by (auto split: option.splits)
      moreover have "\<not> null_at table c (oget m' k)" if "(k, c) \<in> set children" "has_own m' k" for k c
        using val [of k] that d Suc.IH [OF Suc.prems(1), of c] Suc.prems(2) by (auto simp: SObject list_all_iff)
      ultimately show ?thesis by (auto simp: SObject m'(2))
    qed (use Suc.prems(3) SObject in auto)
  qed
qed simp



subsection \<open>The table and the validators\<close>

fun may_be_absent :: "zschema \<Rightarrow> bool" where
  "may_be_absent (ZOptional _) = True"
| "may_be_absent (ZDefault _ _) = True"
| "may_be_absent _ = False"

text \<open>Schemas with objects inside, whose fields the walk has to reach.\<close>

function structured :: "zschema \<Rightarrow> bool" where
  "structured s = (case unwrap s of
     ZObject _ _ \<Rightarrow> True
   | ZArray e \<Rightarrow> structured e
   | ZUnion _ options \<Rightarrow> list_ex structured options
   | _ \<Rightarrow> False)"
  by pat_completeness auto
termination by (relation "measure size") (auto dest: unwrap_sizes union_size)

definition resolve :: "shape_table \<Rightarrow> shape \<Rightarrow> shape option" where
  "resolve table s = (case s of SName n \<Rightarrow> table n | _ \<Rightarrow> Some s)"

text \<open>A shape says of an object the same optional keys as its validator, in order, follows exactly the structured fields, and maps the
  discriminator of every option of a union to a shape that agrees with it.\<close>

function agrees :: "shape_table \<Rightarrow> zschema \<Rightarrow> shape \<Rightarrow> bool" where
  "agrees table z s = (case (unwrap z, resolve table s) of
     (ZObject flds _, Some (SObject optional children)) \<Rightarrow>
       optional = map fst (filter (\<lambda>(k, t). may_be_absent t) flds) \<and>
       list_all (\<lambda>(k, c). k \<in> fst ` set flds) children \<and>
       list_all (\<lambda>k. case map_of flds k of None \<Rightarrow> False | Some t \<Rightarrow>
         (case map_of children k of None \<Rightarrow> \<not> structured t | Some c \<Rightarrow> agrees table t c)) (map fst flds)
   | (ZArray e, Some (SArray c)) \<Rightarrow> agrees table e c
   | (ZUnion (Some d) options, Some (SVariants d' variants)) \<Rightarrow>
       d = d' \<and> length options = length variants \<and>
       list_all (\<lambda>t. case object_shape (unwrap t) of
           Some sh \<Rightarrow> (case literalValueOf (map_of sh d) of
              JStr tag \<Rightarrow> (case map_of variants tag of Some n \<Rightarrow> agrees table t (SName n) | None \<Rightarrow> False)
            | _ \<Rightarrow> False)
         | None \<Rightarrow> False) options
   | (ZUnion None options, Some (SArray c)) \<Rightarrow> list_all (\<lambda>t. structured t \<longrightarrow> agrees table t (SArray c)) options
   | _ \<Rightarrow> False)"
  by pat_completeness auto
termination
  by (relation "measure (size \<circ> fst \<circ> snd)") (auto dest: unwrap_sizes [OF sym] union_size [OF sym])

declare structured.simps [simp del] agrees.simps [simp del]

lemma generated_agree:
  "agrees shapes EventSchema (SName ''Event'')"
  "agrees shapes RunAgentInputSchema (SName ''RunAgentInput'')"
  by code_simp+

text \<open>A \<^verbatim>\<open>null\<close> where a validator has an optional field.\<close>

inductive optional_null :: "zschema \<Rightarrow> jsval \<Rightarrow> bool" where
  here: "unwrap z = ZObject flds specOpen \<Longrightarrow> map_of flds k = Some t \<Longrightarrow> may_be_absent t \<Longrightarrow> has_own m k \<Longrightarrow> oget m k = JNull \<Longrightarrow>
    optional_null z (JObj m)"
| field: "unwrap z = ZObject flds specOpen \<Longrightarrow> map_of flds k = Some t \<Longrightarrow> has_own m k \<Longrightarrow> optional_null t (oget m k) \<Longrightarrow>
    optional_null z (JObj m)"
| item: "unwrap z = ZArray e \<Longrightarrow> x \<in> set vs \<Longrightarrow> optional_null e x \<Longrightarrow> optional_null z (JArr vs)"
| variant: "unwrap z = ZUnion (Some d) options \<Longrightarrow> find_variant d (oget m d) options = Some t \<Longrightarrow> optional_null t (JObj m) \<Longrightarrow>
    optional_null z (JObj m)"
| option: "unwrap z = ZUnion None options \<Longrightarrow> t \<in> set options \<Longrightarrow> optional_null t v \<Longrightarrow> optional_null z v"

lemma optional_null_structured: "optional_null z v \<Longrightarrow> structured z"
  by (induction rule: optional_null.induct) (auto simp: structured.simps list_ex_iff dest: find_variant_mem)

lemma null_resolve: "resolve table s = Some s' \<Longrightarrow> null_at table s' v \<Longrightarrow> null_at table s v"
  by (cases s) (auto simp: resolve_def)

lemma agrees_ObjectE:
  assumes "agrees table z s" "unwrap z = ZObject flds specOpen"
  obtains optional children where "resolve table s = Some (SObject optional children)"
    "optional = map fst (filter (\<lambda>(k, t). may_be_absent t) flds)"
    "\<And>k t. map_of flds k = Some t \<Longrightarrow> (case map_of children k of None \<Rightarrow> \<not> structured t | Some c \<Rightarrow> agrees table t c)"
proof (cases "resolve table s")
  case (Some sh)
  with assms obtain optional children where sh: "sh = SObject optional children"
    by (cases sh) (simp_all add: agrees.simps [of table z])
  have "(case map_of children k of None \<Rightarrow> \<not> structured t | Some c \<Rightarrow> agrees table t c)" if "map_of flds k = Some t" for k t
    using assms that map_of_SomeD [OF that] by (fastforce simp: agrees.simps [of table z] Some sh list_all_iff)
  with assms sh Some that show thesis by (simp add: agrees.simps [of table z])
qed (use assms in \<open>simp add: agrees.simps [of table z]\<close>)

lemma agrees_VariantsE:
  assumes "agrees table z s" "unwrap z = ZUnion (Some d) options"
  obtains variants where "resolve table s = Some (SVariants d variants)"
    "\<And>t sh specOpen. t \<in> set options \<Longrightarrow> unwrap t = ZObject sh specOpen \<Longrightarrow>
       \<exists>tag n. literalValueOf (map_of sh d) = JStr tag \<and> map_of variants tag = Some n \<and> agrees table t (SName n)"
proof (cases "resolve table s")
  case (Some r)
  with assms obtain variants where r: "r = SVariants d variants"
    by (cases r) (simp_all add: agrees.simps [of table z])
  have "\<exists>tag n. literalValueOf (map_of sh d) = JStr tag \<and> map_of variants tag = Some n \<and> agrees table t (SName n)"
    if "t \<in> set options" "unwrap t = ZObject sh specOpen" for t sh specOpen
    using assms that
    by (cases "literalValueOf (map_of sh d)"; fastforce simp: agrees.simps [of table z] Some r list_all_iff split: option.splits)
  with Some r that show thesis by blast
qed (use assms in \<open>simp add: agrees.simps [of table z]\<close>)

lemma agrees_null: "optional_null z v \<Longrightarrow> agrees table z s \<Longrightarrow> null_at table s v"
proof (induction arbitrary: s rule: optional_null.induct)
  case (here z flds specOpen k t m)
  from agrees_ObjectE [OF here.prems here.hyps(1)] obtain optional children where
    s: "resolve table s = Some (SObject optional children)" "optional = map fst (filter (\<lambda>(k, t). may_be_absent t) flds)" .
  have "k \<in> set optional" using map_of_SomeD [OF here.hyps(2)] here.hyps(3) by (force simp: s(2))
  with here.hyps null_resolve [OF s(1)] show ?case by auto
next
  case (field z flds specOpen k t m)
  from agrees_ObjectE [OF field.prems field.hyps(1)] obtain optional children where
    s: "resolve table s = Some (SObject optional children)"
    "case map_of children k of None \<Rightarrow> \<not> structured t | Some c \<Rightarrow> agrees table t c" using field.hyps(2) by metis
  with optional_null_structured [OF field.hyps(4)] obtain c where
    c: "map_of children k = Some c" "agrees table t c" by (auto split: option.splits)
  from null_at.field [OF map_of_SomeD [OF c(1)] field.hyps(3) field.IH [OF c(2)]] null_resolve [OF s(1)] show ?case by blast
next
  case (item z e x vs)
  from item.prems item.hyps(1) obtain c where "resolve table s = Some (SArray c)" "agrees table e c"
    by (auto simp: agrees.simps [of table z] split: option.splits shape.splits)
  with item.IH item.hyps(2) null_resolve show ?case by (metis null_at.item)
next
  case (variant z d options m t)
  from variant_shape [OF variant.hyps(2)] obtain sh specOpen where
    sh: "unwrap t = ZObject sh specOpen" "literalValueOf (map_of sh d) = oget m d" by blast
  with agrees_VariantsE [OF variant.prems variant.hyps(1)] find_variant_mem [OF variant.hyps(2)] obtain variants tag n where
    s: "resolve table s = Some (SVariants d variants)" and
    n: "oget m d = JStr tag" "map_of variants tag = Some n" "agrees table t (SName n)" by metis
  from null_at.variant [OF n(1,2) variant.IH [OF n(3)]] null_resolve [OF s(1)] show ?case by blast
next
  case (option z options t v)
  from option.prems option.hyps(1) obtain c where c: "resolve table s = Some (SArray c)"
    "\<forall>t \<in> set options. structured t \<longrightarrow> agrees table t (SArray c)"
    by (auto simp: agrees.simps [of table z] list_all_iff split: option.splits shape.splits)
  with option.IH [of "SArray c"] option.hyps(2) optional_null_structured [OF option.hyps(3)] null_resolve [OF c(1)]
  show ?case by blast
qed

text \<open>
  What is sent has no null where the receiver's validator has an optional field. The generated serialization table and the generated
  validators, two files that have to agree, do agree: after serialization no event and no run input holds a null in
  a field that its validator declares optional, at any depth.
\<close>

theorem serialized_no_optional_null:
  "(\<exists>y. omitOptionalNulls v ''Event'' = Some y \<and> \<not> optional_null EventSchema y) \<and>
   (\<exists>y. omitOptionalNulls v ''RunAgentInput'' = Some y \<and> \<not> optional_null RunAgentInputSchema y)"
proof -
  have "\<exists>y. omitOptionalNulls v root = Some y \<and> \<not> optional_null z y"
    if "root \<in> {''Event'', ''RunAgentInput''}" "shape_known shapes (SName root)" "agrees shapes z (SName root)" for root z
  proof -
    from omitOptionalNulls_total [OF that(1)] obtain y where y: "omitOptionalNulls v root = Some y" by blast
    then have "\<not> null_at shapes (SName root) y" unfolding omitOptionalNulls_def by (rule omit_clears [OF shapes_closed that(2)])
    with agrees_null [OF _ that(3)] y show ?thesis by blast
  qed
  from this [OF _ shapes_roots(1) generated_agree(1)] this [OF _ shapes_roots(2) generated_agree(2)] show ?thesis by simp
qed

end
