(* ===== verification/EnforceSpec.thy ===== *)
theory EnforceSpec
  imports SerializeProps
begin

text \<open>
  What the enforcement stage promises the stages behind it, for the generated validators: which errors it can raise, and what every
  event it lets through is like. The two hypotheses on parsing are documented behaviour of the validator library.
\<close>

text \<open>Documented behaviour of the validator library: \<^verbatim>\<open>undefined\<close> satisfies an optional schema.\<close>

definition optional_accepts :: "(zschema \<Rightarrow> jsval \<Rightarrow> string + jsval) \<Rightarrow> bool" where
  "optional_accepts parse \<longleftrightarrow> (\<forall>t. \<exists>v. parse (ZOptional t) JUndef = Inr v)"

lemma accepts_optional: "optional_accepts parse \<Longrightarrow> declared_optional t \<Longrightarrow> accepts_undefined parse t"
  by (cases t) (simp_all add: accepts_undefined_def optional_accepts_def split: sum.split, metis Inr_Inl_False)

lemma solid_accepts: "optional_accepts parse \<Longrightarrow> solid declared_optional s \<Longrightarrow> solid (accepts_undefined parse) s"
  by (rule solid_mono [OF accepts_optional])

lemma stripUnknown_errors:
  assumes "solid opt s" "resolveMaxEntries b = Inr mx" "stripUnknown opt b v s = Inl e"
  shows "\<exists>n path. e = LimitExceeded n path"
proof (cases "stripAgainst opt mx s v [] ([], 0)" rule: visited_cases)
  case (Error e')
  then obtain n where n: "mx = Some n" using strip_total by (cases mx) blast+
  with Error strip_refuses [of "([], 0)" n opt s v "[]"] strip_total [of opt s v "[]" "([], 0)"]
  have "\<exists>p. e' = LimitExceeded n p"
    by (cases "stripAgainst opt None s v [] ([], 0)" rule: visited_cases) (auto split: if_splits)
  with assms(2,3) Error show ?thesis by (auto simp: stripUnknown_def)
next
  case (Dropped w)
  with solid_kept [OF assms(1)] show ?thesis by blast
next
  case (Kept v' w)
  with assms(2,3) show ?thesis by (simp add: stripUnknown_def split: prod.splits)
qed

lemma recognized_schema:
  assumes "isRecognizedEvent ev"
  obtains schema where "map_of EVENT_SCHEMA_BY_TYPE (type_string (ev_type ev)) = Some schema" "solid declared_optional schema"
proof -
  have "type_string (ev_type ev) \<in> fst ` set EVENT_SCHEMA_BY_TYPE"
    using assms generated_solid(3) unfolding isRecognizedEvent_def by (metis set_map)
  then obtain schema where s: "map_of EVENT_SCHEMA_BY_TYPE (type_string (ev_type ev)) = Some schema"
    by (metis map_of_eq_None_iff not_Some_eq)
  with generated_solid(1) have "solid declared_optional schema" by (auto simp: list_all_iff dest!: map_of_SomeD)
  with s that show thesis by blast
qed

lemma resolved_valid:
  "resolveMaxEntries b = Inr mx \<Longrightarrow> resolveMaxEntries (resolved mx) = Inr mx"
  by (auto simp: resolveMaxEntries_def resolved_def DEFAULT_MAX_ENFORCED_ENTRIES_def split: budget_option.splits jsval.splits if_splits)

lemma enforce_event_errors:
  assumes "optional_accepts parse" "resolveMaxEntries b = Inr mx" "enforce_event parse b st ev = Inl e"
  shows "(\<exists>n path. e = LimitExceeded n path) \<or> (\<exists>msg. e = ParseFailed msg)"
proof -
  from assms(3) have r: "isRecognizedEvent ev" by (auto simp: enforce_event_def split: if_splits)
  from recognized_schema [OF r] obtain schema where
    s: "map_of EVENT_SCHEMA_BY_TYPE (type_string (ev_type ev)) = Some schema" "solid declared_optional schema" .
  show ?thesis
  proof (cases "stripUnknown (accepts_undefined parse) b (event_object ev) schema")
    case (Inl e')
    with stripUnknown_errors [OF solid_accepts [OF assms(1) s(2)] assms(2) Inl] assms(3) r s(1) show ?thesis
      by (simp add: enforce_event_def)
  next
    case (Inr p)
    with assms(3) r s(1) show ?thesis by (auto simp: enforce_event_def split: sum.splits prod.splits)
  qed
qed

lemma run_enforce_errors:
  assumes "optional_accepts parse" "resolveMaxEntries b = Inr mx" "run_stage (enforce_event parse b) st es = (os, Inl e)"
  shows "(\<exists>n path. e = LimitExceeded n path) \<or> (\<exists>msg. e = ParseFailed msg)"
  using assms(3)
proof (induction es arbitrary: st os)
  case (Cons ev es)
  then show ?case
    by (cases "enforce_event parse b st ev")
      (auto simp: enforce_event_errors [OF assms(1,2)] split: prod.splits)
qed simp

text \<open>
  Enforcement fails for the documented reasons only. Whatever the events, the event stage ends with a limit or a parse error
  if it ends with an error at all, and the outgoing input is refused only for an invalid budget, a limit or a parse error: a known event
  always has a validator, and the internal error for a value that is unrecognisable as a whole cannot be reached with the generated
  validators. Asked of the library: undefined satisfies an optional schema.
\<close>

theorem enforcement_errors:
  assumes "optional_accepts parse"
  shows "(enforceEvents parse b es = Inr (os, Inl e) \<longrightarrow> (\<exists>n path. e = LimitExceeded n path) \<or> (\<exists>msg. e = ParseFailed msg)) \<and>
    (enforceOutgoingInput parse b v = Inl e' \<longrightarrow>
       (\<exists>w. e' = InvalidBudget w) \<or> (\<exists>n path. e' = LimitExceeded n path) \<or> (\<exists>msg. e' = ParseFailed msg))"
proof (intro conjI impI)
  assume e: "enforceEvents parse b es = Inr (os, Inl e)"
  then obtain mx where mx: "resolveMaxEntries b = Inr mx" "run_stage (enforce_event parse (resolved mx)) () es = (os, Inl e)"
    by (auto simp: enforceEvents_def split: sum.splits)
  from run_enforce_errors [OF assms resolved_valid [OF mx(1)] mx(2)]
  show "(\<exists>n path. e = LimitExceeded n path) \<or> (\<exists>msg. e = ParseFailed msg)" .
next
  assume e: "enforceOutgoingInput parse b v = Inl e'"
  show "(\<exists>w. e' = InvalidBudget w) \<or> (\<exists>n path. e' = LimitExceeded n path) \<or> (\<exists>msg. e' = ParseFailed msg)"
  proof (cases "resolveMaxEntries b")
    case (Inl x)
    with e show ?thesis by (auto simp: enforceOutgoingInput_def resolveMaxEntries_def split: budget_option.splits jsval.splits if_splits)
  next
    case (Inr mx)
    from omitOptionalNulls_total obtain y where y: "omitOptionalNulls v ''RunAgentInput'' = Some y" by blast
    show ?thesis
    proof (cases "stripUnknown (accepts_undefined parse) (resolved mx) y RunAgentInputSchema")
      case (Inl x)
      from stripUnknown_errors [OF solid_accepts [OF assms generated_solid(2)] resolved_valid [OF Inr] Inl] e Inr y Inl show ?thesis
        by (simp add: enforceOutgoingInput_def)
    next
      case (Inr p)
      with e y \<open>resolveMaxEntries b = Inr mx\<close> show ?thesis
        by (auto simp: enforceOutgoingInput_def split: sum.splits prod.splits)
    qed
  qed
qed

theorem enforcement_errors_witness:
  "\<exists>e. enforceOutgoingInput (\<lambda>s v. Inr v) (BudgetValue (JNum 1)) (JObj [(''threadId'', JStr ''t''), (''runId'', JStr ''r'')]) = Inl e \<and>
     ((\<exists>w. e = InvalidBudget w) \<or> (\<exists>n path. e = LimitExceeded n path) \<or> (\<exists>msg. e = ParseFailed msg))"
proof -
  have parse: "optional_accepts (\<lambda>s v. Inr v)" by (simp add: optional_accepts_def)
  have "enforceOutgoingInput (\<lambda>s v. Inr v) (BudgetValue (JNum 1)) (JObj [(''threadId'', JStr ''t''), (''runId'', JStr ''r'')]) =
     Inl (LimitExceeded 1 [])" by code_simp
  with enforcement_errors [OF parse] show ?thesis by blast
qed

subsection \<open>What gets through\<close>

text \<open>Documented behaviour of parsing an event: it adds nothing its schema does not describe, and keeps the literal \<^verbatim>\<open>type\<close>.\<close>

definition event_parser :: "(zschema \<Rightarrow> jsval \<Rightarrow> string + jsval) \<Rightarrow> bool" where
  "event_parser parse \<longleftrightarrow> (\<forall>(n, s) \<in> set EVENT_SCHEMA_BY_TYPE. \<forall>v v'. parse s v = Inr v' \<longrightarrow> clean s v \<longrightarrow>
     clean s v' \<and> jget v' ''type'' = jget v ''type'')"

text \<open>The strings of the event types are read back.\<close>

lemma type_string_known: "list_all (\<lambda>s. type_string (type_of_string s) = s \<and> (case type_of_string s of OtherType _ \<Rightarrow> False | _ \<Rightarrow> True)) event_type_names"
  by code_simp

lemma event_schemas: "list_all (\<lambda>(n, s). case s of
    ZObject shape _ \<Rightarrow> map_of shape ''type'' = Some (ZLiteral [JStr n])
  | _ \<Rightarrow> False) EVENT_SCHEMA_BY_TYPE"
  by code_simp

lemma event_schema:
  assumes "map_of EVENT_SCHEMA_BY_TYPE n = Some s"
  obtains shape specOpen where "s = ZObject shape specOpen" "map_of shape ''type'' = Some (ZLiteral [JStr n])"
proof -
  have "case s of ZObject shape _ \<Rightarrow> map_of shape ''type'' = Some (ZLiteral [JStr n]) | _ \<Rightarrow> False"
    using bspec [OF event_schemas [unfolded list_all_iff] map_of_SomeD [OF assms]] by (simp only: prod.case)
  with that show thesis by (cases s) simp_all
qed

lemma clean_object:
  "clean (ZObject shape specOpen) (JObj m) \<longleftrightarrow>
     (\<forall>(k, x) \<in> set m. case map_of shape k of None \<Rightarrow> specOpen | Some t \<Rightarrow> clean t x)"
  by (simp add: clean.simps [of "ZObject _ _"] list_all_iff)

lemma clean_literal [simp]: "clean (ZLiteral vs) v"
  by (simp add: clean.simps)

lemma strip_event_type:
  assumes "stripUnknown opt b (event_object ev) (ZObject shape specOpen) = Inr (v, ps)"
    "map_of shape ''type'' = Some (ZLiteral [JStr (type_string (ev_type ev))])"
  shows "jget v ''type'' = JStr (type_string (ev_type ev))"
proof -
  from assms(1) obtain mx n where
    "stripAgainst opt mx (ZObject shape specOpen) (JObj ((''type'', JStr (type_string (ev_type ev))) # ev_props ev)) [] ([], 0) =
       Inr (Some v, (ps, n))"
    unfolding event_object_def stripUnknown_Inr by blast
  from tag_kept [OF unwrap.simps(16) this, of "''type''"] assms(2) obtain m' where "v = JObj m'"
    "oget m' ''type'' = JStr (type_string (ev_type ev))"
    by (auto simp: literalValueOf_def)
  then show ?thesis by simp
qed

text \<open>An event of a known type whose object the schema of that type describes.\<close>

definition enforced :: "event \<Rightarrow> bool" where
  "enforced ev \<longleftrightarrow> (\<forall>s. ev_type ev \<noteq> OtherType s) \<and>
     (\<exists>schema. map_of EVENT_SCHEMA_BY_TYPE (type_string (ev_type ev)) = Some schema \<and> clean schema (event_object ev))"

lemma enforce_event_enforced:
  assumes "event_parser parse" "enforce_event parse b st ev = Inr (st', os)"
  shows "list_all enforced os \<and> map (type_string \<circ> ev_type) os = (if isRecognizedEvent ev then [type_string (ev_type ev)] else [])"
proof (cases "isRecognizedEvent ev")
  case True
  let ?n = "type_string (ev_type ev)"
  from recognized_schema [OF True] obtain schema where s: "map_of EVENT_SCHEMA_BY_TYPE ?n = Some schema" .
  from event_schema [OF s] obtain shape specOpen where
    z: "schema = ZObject shape specOpen" "map_of shape ''type'' = Some (ZLiteral [JStr ?n])" .
  from assms(2) True s obtain v ps v' where v: "stripUnknown (accepts_undefined parse) b (event_object ev) schema = Inr (v, ps)"
    "parse schema v = Inr v'" "os = [object_event v']"
    by (auto simp: enforce_event_def split: sum.splits prod.splits)
  from v(1) have c: "clean schema v" using strip_again(1) by (auto simp: stripUnknown_Inr)
  from assms(1) map_of_SomeD [OF s] v(2) c have c': "clean schema v'" "jget v' ''type'' = jget v ''type''"
    by (auto simp: event_parser_def)
  from strip_event_type [OF v(1) [unfolded z(1)] z(2)] c'(2) have t: "jget v' ''type'' = JStr ?n" by simp
  then obtain m where m: "v' = JObj m" by (cases v') auto
  from True type_string_known have n: "type_string (type_of_string ?n) = ?n" "\<forall>s. type_of_string ?n \<noteq> OtherType s"
    by (auto simp: isRecognizedEvent_def list_all_iff split: event_type.splits)
  have "clean schema (event_object (object_event v'))"
    using c'(1) t n(1) z(2) unfolding m z(1) event_object_def object_event_def clean_object
    by (auto simp: odel_def AList.delete_eq)
  with t n s v(3) True show ?thesis by (auto simp: enforced_def object_event_def)
qed (use assms(2) in \<open>simp add: enforce_event_def\<close>)

lemma run_enforced:
  assumes "event_parser parse"
  shows "run_stage (enforce_event parse b) st es = (os, r) \<Longrightarrow> list_all enforced os \<and>
    (\<exists>rest. map (type_string \<circ> ev_type) (filter isRecognizedEvent es) = map (type_string \<circ> ev_type) os @ rest \<and>
       ((\<exists>st'. r = Inr st') \<longrightarrow> rest = []))"
proof (induction es arbitrary: st os)
  case (Cons ev es)
  show ?case
  proof (cases "enforce_event parse b st ev")
    case (Inl e)
    with Cons.prems show ?thesis by auto
  next
    case (Inr p)
    obtain st1 os1 where p: "p = (st1, os1)" by (cases p)
    obtain os2 r2 where rest: "run_stage (enforce_event parse b) st1 es = (os2, r2)" by (cases "run_stage (enforce_event parse b) st1 es")
    with Cons.prems Inr p have o: "os = os1 @ os2" "r = r2" by auto
    from enforce_event_enforced [OF assms, of b st ev st1 os1] Inr p Cons.IH [of st1 os2] rest o show ?thesis by auto
  qed
qed simp

text \<open>
  C29. Nothing unrecognised gets through. Every event the enforcement stage emits, also before an error, has a known type and is described by the
  validator of that type down to its last field; and the stage neither invents, reorders nor loses known events: the types it emits are those
  of the known events of the stream, in order, all of them if it completes. Asked of the library: parsing an event
  adds nothing undescribed and keeps its type.
\<close>

theorem enforced_stream:
  assumes "event_parser parse" "enforceEvents parse b es = Inr (os, r)"
  shows "list_all enforced os \<and>
    (\<exists>rest. map (type_string \<circ> ev_type) (filter isRecognizedEvent es) = map (type_string \<circ> ev_type) os @ rest \<and>
       ((\<exists>st'. r = Inr st') \<longrightarrow> rest = []))"
proof -
  from assms(2) obtain mx where "run_stage (enforce_event parse (resolved mx)) () es = (os, r)"
    by (auto simp: enforceEvents_def split: sum.splits)
  with run_enforced [OF assms(1)] show ?thesis by blast
qed


theorem enforced_stream_witness:
  "\<exists>os r. enforceEvents (\<lambda>s v. Inr v) Infinite
       [mk_event (OtherType ''THINKING_START'') [], mk_event STEP_STARTED [(''stepName'', JStr ''s''), (''colour'', JNull)]] = Inr (os, r) \<and>
     os = [mk_event STEP_STARTED [(''stepName'', JStr ''s'')]] \<and> list_all enforced os"
proof -
  let ?r = "enforceEvents (\<lambda>s v. Inr v) Infinite
       [mk_event (OtherType ''THINKING_START'') [], mk_event STEP_STARTED [(''stepName'', JStr ''s''), (''colour'', JNull)]]"
  have r: "?r = Inr ([mk_event STEP_STARTED [(''stepName'', JStr ''s'')]], Inr ())" by code_simp
  have "event_parser (\<lambda>s v. Inr v)" by (auto simp: event_parser_def)
  from enforced_stream [OF this r] r show ?thesis by blast
qed

end
