(* ===== verification/Throttle.thy ===== *)
theory Throttle
  imports Metadata
begin

text \<open>
  The event throttle, \<^verbatim>\<open>middlewares/event-throttle-middleware/src/index.ts\<close>. The record \<open>tstate\<close> holds the closure variables of
  one subscription; one definition per callback (\<^verbatim>\<open>next\<close>, \<^verbatim>\<open>error\<close>, \<^verbatim>\<open>complete\<close>, the timer, the teardown). A callback reads the clock as one
  number of milliseconds, \<open>now\<close>, and a pending \<^verbatim>\<open>setTimeout\<close> is the time from which it may fire. \<open>loop_step\<close> is the
  event loop around the callbacks: time does not run backwards, a timer fires when it is due and at most \<open>lag\<close> later, and nothing
  is delivered to a subscription that is closed. The callbacks throw nothing of their own, so the \<^verbatim>\<open>catch\<close> branches are not reached:
  RxJS reports what a downstream observer throws asynchronously. Events carry what their TypeScript types say: ids and deltas are strings or absent.
\<close>

subsection \<open>Configuration\<close>

datatype js_number = Finite int | Infinite bool | NotANumber

record throttle =
  intervalMs :: int
  minChunkSize :: int
  isNoop :: bool

datatype throttle_error =
    BadIntervalMs js_number
  | BadMinChunkSize js_number

fun non_negative_finite :: "js_number \<Rightarrow> bool" where
  "non_negative_finite (Finite n) = (0 \<le> n)"
| "non_negative_finite _ = False"

fun finite_value :: "js_number \<Rightarrow> int" where
  "finite_value (Finite n) = n"
| "finite_value _ = 0"

definition mk_throttle :: "js_number \<Rightarrow> js_number option \<Rightarrow> throttle_error + throttle" where
  "mk_throttle interval minSize =
     (if \<not> non_negative_finite interval then Inl (BadIntervalMs interval)
      else case minSize of
        Some n \<Rightarrow>
          (if \<not> non_negative_finite n then Inl (BadMinChunkSize n)
           else Inr \<lparr>intervalMs = finite_value interval, minChunkSize = finite_value n,
             isNoop = finite_value interval \<le> 0 \<and> finite_value n \<le> 0\<rparr>)
      | None \<Rightarrow> Inr \<lparr>intervalMs = finite_value interval, minChunkSize = 0, isNoop = finite_value interval \<le> 0\<rparr>)"

subsection \<open>Chunks\<close>

definition BUFFERABLE_EVENT_TYPES :: "event_type list" where
  "BUFFERABLE_EVENT_TYPES =
     [TEXT_MESSAGE_CHUNK, TEXT_MESSAGE_CONTENT, TOOL_CALL_CHUNK, STATE_SNAPSHOT, STATE_DELTA, MESSAGES_SNAPSHOT,
      ACTIVITY_SNAPSHOT, ACTIVITY_DELTA, REASONING_MESSAGE_CONTENT, REASONING_MESSAGE_CHUNK, RAW]"

definition isTextChunk :: "event \<Rightarrow> bool" where
  "isTextChunk ev = (ev_type ev = TEXT_MESSAGE_CHUNK)"

definition isToolCallChunk :: "event \<Rightarrow> bool" where
  "isToolCallChunk ev = (ev_type ev = TOOL_CALL_CHUNK)"

definition isReasoningChunk :: "event \<Rightarrow> bool" where
  "isReasoningChunk ev = (ev_type ev = REASONING_MESSAGE_CHUNK)"

text \<open>\<^verbatim>\<open>v ?? w\<close>\<close>

definition coalesce_nullish :: "jsval \<Rightarrow> jsval \<Rightarrow> jsval" where
  "coalesce_nullish v w = (if nullish v then w else v)"

text \<open>\<^verbatim>\<open>JSON.stringify\<close> of an array of strings and \<^verbatim>\<open>null\<close> determines the array, so a key is the array itself.\<close>

type_synonym chunk_key = "string \<times> jsval \<times> jsval"

definition chunkKey :: "event \<Rightarrow> chunk_key option" where
  "chunkKey ev =
     (let owner = coalesce_nullish (tag_of ev) JNull;
          messageId = field ev ''messageId''; toolCallId = field ev ''toolCallId'' in
      if isTextChunk ev then (if truthy messageId then Some (''text'', owner, messageId) else None)
      else if isToolCallChunk ev then (if truthy toolCallId then Some (''tool'', owner, toolCallId) else None)
      else if isReasoningChunk ev then (if truthy messageId then Some (''reasoning'', owner, messageId) else None)
      else None)"

definition chunkDelta :: "event \<Rightarrow> jsval" where
  "chunkDelta ev =
     (if isTextChunk ev then coalesce_nullish (field ev ''delta'') JNull
      else if isToolCallChunk ev then coalesce_nullish (field ev ''delta'') JNull
      else if isReasoningChunk ev then coalesce_nullish (field ev ''delta'') JNull
      else JNull)"

definition mergeChunkMetadata :: "jsval \<Rightarrow> jsval \<Rightarrow> jsval" where
  "mergeChunkMetadata previous incoming =
     (if incoming = JUndef then previous
      else if previous = JUndef then JObj (own_props incoming)
      else JObj (spread (own_props previous) (own_props incoming)))"

subsection \<open>Coalescing a batch\<close>

text \<open>The branch that folds an event into the chunk before it; \<^verbatim>\<open>+\<close> joins the two deltas, which are strings.\<close>

definition merge_chunk :: "event \<Rightarrow> event \<Rightarrow> event" where
  "merge_chunk prev ev =
     (let prevDelta = coalesce_nullish (chunkDelta prev) (JStr []);
          curDelta = coalesce_nullish (chunkDelta ev) (JStr []);
          merged = JStr (js_string prevDelta @ js_string curDelta);
          prev' = (if isTextChunk prev \<or> isToolCallChunk prev \<or> isReasoningChunk prev
                   then prev\<lparr>ev_props := oset ''delta'' merged (ev_props prev)\<rparr> else prev);
          mergedMetadata = mergeChunkMetadata (field prev' ''metadata'') (field ev ''metadata'')
      in if mergedMetadata \<noteq> JUndef
         then prev'\<lparr>ev_props := oset ''metadata'' mergedMetadata (ev_props prev')\<rparr> else prev')"

definition coalesce_step :: "event list \<Rightarrow> event \<Rightarrow> event list" where
  "coalesce_step coalesced ev =
     (case chunkKey ev of
        Some key \<Rightarrow>
          (if coalesced \<noteq> [] \<and> chunkKey (last coalesced) = Some key
           then butlast coalesced @ [merge_chunk (last coalesced) ev]
           else coalesced @ [ev])
      | None \<Rightarrow> coalesced @ [ev])"

definition coalesce :: "event list \<Rightarrow> event list" where
  "coalesce batch = foldl coalesce_step [] batch"

subsection \<open>The subscription\<close>

datatype delivery = Emit event | Failed jsval | Completed

record tstate =
  buffer :: "event list"
  lastFlushTime :: int
  charsSinceFlush :: int
  lastTrackedMessageId :: jsval
  timerId :: "int option"

definition init_tstate :: tstate where
  "init_tstate = \<lparr>buffer = [], lastFlushTime = 0, charsSinceFlush = 0, lastTrackedMessageId = JNull, timerId = None\<rparr>"

definition clear_timer :: "tstate \<Rightarrow> tstate" where
  "clear_timer st = st\<lparr>timerId := None\<rparr>"

definition flush_buffer :: "int \<Rightarrow> tstate \<Rightarrow> tstate \<times> delivery list" where
  "flush_buffer now st =
     (let st = clear_timer st in
      if buffer st = [] then (st, [])
      else (st\<lparr>buffer := [], charsSinceFlush := 0, lastFlushTime := now\<rparr>, map Emit (coalesce (buffer st))))"

definition scheduleTrailing :: "throttle \<Rightarrow> int \<Rightarrow> tstate \<Rightarrow> tstate" where
  "scheduleTrailing cfg now st =
     (if timerId st \<noteq> None then st
      else if intervalMs cfg \<le> 0 then st
      else let elapsed = now - lastFlushTime st;
               remaining = max 0 (intervalMs cfg - elapsed)
           in st\<lparr>timerId := Some (now + remaining)\<rparr>)"

definition on_timer :: "int \<Rightarrow> tstate \<Rightarrow> tstate \<times> delivery list" where
  "on_timer now st = flush_buffer now (clear_timer st)"

text \<open>The characters counted towards \<^verbatim>\<open>minChunkSize\<close>.\<close>

definition track_chars :: "throttle \<Rightarrow> event \<Rightarrow> tstate \<Rightarrow> tstate" where
  "track_chars cfg ev st =
     (if isTextChunk ev \<and> minChunkSize cfg > 0
      then let messageId = coalesce_nullish (field ev ''messageId'') JNull;
               st = (if messageId \<noteq> lastTrackedMessageId st
                     then st\<lparr>lastTrackedMessageId := messageId, charsSinceFlush := 0\<rparr> else st)
           in st\<lparr>charsSinceFlush := charsSinceFlush st
                  + int (length (js_string (coalesce_nullish (field ev ''delta'') (JStr []))))\<rparr>
      else st)"

definition on_next :: "throttle \<Rightarrow> int \<Rightarrow> event \<Rightarrow> tstate \<Rightarrow> tstate \<times> delivery list" where
  "on_next cfg now ev st =
     (if ev_type ev \<notin> set BUFFERABLE_EVENT_TYPES
      then let (st, outs) = flush_buffer now st in (st\<lparr>lastFlushTime := now\<rparr>, outs @ [Emit ev])
      else let st = track_chars cfg ev (st\<lparr>buffer := buffer st @ [ev]\<rparr>);
               isLeading = (lastFlushTime st = 0);
               timeThresholdMet = (intervalMs cfg > 0 \<and> now - lastFlushTime st \<ge> intervalMs cfg);
               chunkThresholdMet = (minChunkSize cfg > 0 \<and> charsSinceFlush st \<ge> minChunkSize cfg)
           in if isLeading \<or> timeThresholdMet \<or> chunkThresholdMet then flush_buffer now st
              else (scheduleTrailing cfg now st, []))"

definition on_error :: "jsval \<Rightarrow> tstate \<Rightarrow> tstate \<times> delivery list" where
  "on_error err st = (clear_timer (st\<lparr>buffer := []\<rparr>), [Failed err])"

definition on_complete :: "int \<Rightarrow> tstate \<Rightarrow> tstate \<times> delivery list" where
  "on_complete now st = (let (st, outs) = flush_buffer now st in (st, outs @ [Completed]))"

definition teardown :: "tstate \<Rightarrow> tstate" where
  "teardown st = clear_timer st"

subsection \<open>The event loop\<close>

datatype signal = NextEvent event | SourceError jsval | SourceComplete | Unsubscribe | TimerFires

text \<open>\<^verbatim>\<open>run\<close>: without a threshold the source itself is returned.\<close>

definition on_signal :: "throttle \<Rightarrow> int \<Rightarrow> signal \<Rightarrow> tstate \<Rightarrow> tstate \<times> delivery list" where
  "on_signal cfg now sig st =
     (case sig of
        NextEvent ev \<Rightarrow> (if isNoop cfg then (st, [Emit ev]) else on_next cfg now ev st)
      | SourceError err \<Rightarrow> (if isNoop cfg then (st, [Failed err]) else on_error err st)
      | SourceComplete \<Rightarrow> (if isNoop cfg then (st, [Completed]) else on_complete now st)
      | Unsubscribe \<Rightarrow> (teardown st, [])
      | TimerFires \<Rightarrow> on_timer now st)"

fun ends :: "signal \<Rightarrow> bool" where
  "ends (SourceError _) = True"
| "ends SourceComplete = True"
| "ends Unsubscribe = True"
| "ends _ = False"

record loop_state =
  clock :: int
  closed :: bool
  sub :: tstate

definition init_loop :: "int \<Rightarrow> loop_state" where
  "init_loop now = \<lparr>clock = now, closed = False, sub = init_tstate\<rparr>"

text \<open>A timer that is due by \<open>lag\<close> has fired before anything else happens.\<close>

definition in_time :: "int \<Rightarrow> int \<Rightarrow> tstate \<Rightarrow> bool" where
  "in_time lag now st = (case timerId st of None \<Rightarrow> True | Some due \<Rightarrow> now \<le> due + lag)"

definition fires :: "int \<Rightarrow> signal \<Rightarrow> tstate \<Rightarrow> bool" where
  "fires now sig st = (sig = TimerFires \<longrightarrow> (case timerId st of None \<Rightarrow> False | Some due \<Rightarrow> due \<le> now))"

type_synonym entry = "int \<times> signal \<times> delivery list"

inductive loop_step :: "throttle \<Rightarrow> int \<Rightarrow> loop_state \<Rightarrow> entry \<Rightarrow> loop_state \<Rightarrow> bool" for cfg lag where
  loop_step: "\<not> closed l \<Longrightarrow> clock l \<le> now \<Longrightarrow> in_time lag now (sub l) \<Longrightarrow> fires now sig (sub l) \<Longrightarrow>
    on_signal cfg now sig (sub l) = (st, outs) \<Longrightarrow>
    loop_step cfg lag l (now, sig, outs) \<lparr>clock = now, closed = ends sig, sub = st\<rparr>"

inductive loop_run :: "throttle \<Rightarrow> int \<Rightarrow> loop_state \<Rightarrow> entry list \<Rightarrow> loop_state \<Rightarrow> bool" for cfg lag where
  loop_start: "loop_run cfg lag l [] l"
| loop_more: "loop_run cfg lag l tr l' \<Longrightarrow> loop_step cfg lag l' e l'' \<Longrightarrow> loop_run cfg lag l (tr @ [e]) l''"

inductive_cases loop_stepE: "loop_step cfg lag l e l'"
inductive_simps loop_step_iff: "loop_step cfg lag l (now, sig, outs) l'"

text \<open>What a trace received and emitted.\<close>

fun signal_events :: "signal \<Rightarrow> event list" where
  "signal_events (NextEvent ev) = [ev]"
| "signal_events _ = []"

fun output_events :: "delivery \<Rightarrow> event list" where
  "output_events (Emit ev) = [ev]"
| "output_events _ = []"

definition received :: "entry list \<Rightarrow> event list" where
  "received tr = concat (map (\<lambda>(now, sig, outs). signal_events sig) tr)"

definition emitted :: "entry list \<Rightarrow> event list" where
  "emitted tr = concat (map (\<lambda>(now, sig, outs). concat (map output_events outs)) tr)"

end
