(* ===== verification/ThrottleProps.thy ===== *)
theory ThrottleProps
  imports Throttle
begin

text \<open>
  Facts about coalescing: it is a normal form (\<open>separated\<close>), merging is associative, and so coalescing batch by batch amounts to
  coalescing the whole stream; then the invariants of the event loop. The properties of the throttle are in \<open>ThrottleSpec\<close>.
\<close>

subsection \<open>The normal form\<close>


lemma mergeChunkMetadata_core: "mergeChunkMetadata = mergeMetadata"
  by (simp add: fun_eq_iff mergeChunkMetadata_def mergeMetadata_def)

lemma chunkKey_merge [simp]: "chunkKey (merge_chunk a b) = chunkKey a"
  by (simp add: chunkKey_def merge_chunk_def Let_def isTextChunk_def isToolCallChunk_def isReasoningChunk_def field_def)

fun separated :: "event list \<Rightarrow> bool" where
  "separated [] = True"
| "separated [e] = True"
| "separated (a # b # es) = ((chunkKey b = None \<or> chunkKey a \<noteq> chunkKey b) \<and> separated (b # es))"

lemma separated_append:
  "separated (xs @ [a, b]) \<longleftrightarrow> separated (xs @ [a]) \<and> (chunkKey b = None \<or> chunkKey a \<noteq> chunkKey b)"
  by (induction xs rule: separated.induct) (auto)

lemma separated_last:
  assumes "chunkKey a = chunkKey b"
  shows "separated (xs @ [a]) = separated (xs @ [b])"
  using assms by (induction xs rule: separated.induct) auto

lemma coalesce_step_cases:
  obtains (merge) xs a k where "acc = xs @ [a]" "chunkKey a = Some k" "chunkKey ev = Some k"
      "coalesce_step acc ev = xs @ [merge_chunk a ev]"
  | (push) "coalesce_step acc ev = acc @ [ev]" "acc = [] \<or> chunkKey ev = None \<or> chunkKey (last acc) \<noteq> chunkKey ev"
proof (cases "acc \<noteq> [] \<and> chunkKey ev \<noteq> None \<and> chunkKey (last acc) = chunkKey ev")
  case True
  then obtain k where k: "chunkKey ev = Some k" "chunkKey (last acc) = Some k" "acc \<noteq> []" by auto
  with merge [of "butlast acc" "last acc" k] show ?thesis by (simp add: coalesce_step_def)
next
  case False
  then have "coalesce_step acc ev = acc @ [ev]" by (cases "chunkKey ev") (auto simp: coalesce_step_def)
  with push False show ?thesis by blast
qed

lemma separated_step: "separated acc \<Longrightarrow> separated (coalesce_step acc ev)"
proof (cases acc ev rule: coalesce_step_cases)
  case (merge xs a k)
  assume "separated acc"
  with merge separated_last [of "merge_chunk a ev" a xs] show ?thesis by simp
next
  case push
  assume s: "separated acc"
  show ?thesis
  proof (cases acc rule: rev_cases)
    case (snoc xs a)
    with push s show ?thesis by (auto simp: separated_append)
  qed (use push in simp)
qed

lemma separated_coalesce: "separated (coalesce es)"
  unfolding coalesce_def by (induction es rule: rev_induct) (simp_all add: separated_step)

lemma coalesce_snoc: "coalesce (es @ [e]) = coalesce_step (coalesce es) e"
  by (simp add: coalesce_def)

lemma separated_butlast: "separated (xs @ [a]) \<Longrightarrow> separated xs"
  by (cases xs rule: rev_cases) (simp_all add: separated_append)

lemma separated_push: "separated (xs @ [a]) \<Longrightarrow> coalesce_step xs a = xs @ [a]"
  by (cases xs rule: rev_cases; cases "chunkKey a") (auto simp: coalesce_step_def separated_append)

lemma coalesce_separated: "separated es \<Longrightarrow> coalesce es = es"
proof (induction es rule: rev_induct)
  case (snoc e es)
  then have "coalesce es = es" using separated_butlast by blast
  with snoc.prems show ?case by (simp add: coalesce_snoc separated_push)
qed (simp add: coalesce_def)

lemma coalesce_append: "coalesce (coalesce xs @ ys) = coalesce (xs @ ys)"
  using coalesce_separated [OF separated_coalesce, of xs] by (simp add: coalesce_def)

subsection \<open>Merging is associative\<close>

lemma update_comm:
  assumes "k \<noteq> k'"
  shows "k \<in> fst ` set m \<Longrightarrow> AList.update k v (AList.update k' u m) = AList.update k' u (AList.update k v m)"
proof (induction m)
  case (Cons p m)
  obtain a b where p: "p = (a, b)" by (cases p)
  show ?case
  proof (cases "a = k \<or> a = k'")
    case False
    with Cons.prems p have "k \<in> fst ` set m" by auto
    with Cons.IH p False show ?thesis by simp
  qed (use assms p in auto)
qed simp

lemma oset_oset: "oset k v (oset k w m) = oset k v m"
  unfolding oset_def by (induction m) auto

lemma oset_comm: "k \<noteq> k' \<Longrightarrow> has_own m k \<Longrightarrow> oset k v (oset k' u m) = oset k' u (oset k v m)"
  unfolding oset_def has_own_iff by (rule update_comm)

lemma spread_oset:
  "has_own m k \<Longrightarrow> k \<notin> fst ` set b \<Longrightarrow> spread (oset k v m) b = oset k v (spread m b)"
proof (induction m b rule: spread.induct)
  case (2 a k' w b)
  then have "k \<noteq> k'" by auto
  with 2 show ?case using oset_comm [of k k' a v w] by simp
qed simp

lemma oset_Cons: "oset k v ((k', w) # m) = (if k = k' then (k', v) # m else (k', w) # oset k v m)"
  by (simp add: oset_def)

lemma spread_oset_right: "distinct (map fst b) \<Longrightarrow> spread a (oset k v b) = oset k v (spread a b)"
proof (induction a b rule: spread.induct)
  case (2 a k' w b)
  show ?case
  proof (cases "k = k'")
    case True
    with 2 have "k \<notin> fst ` set b" by simp
    with True spread_oset [of "oset k w a" k b v] show ?thesis by (simp add: oset_Cons oset_oset)
  qed (use 2 in \<open>simp add: oset_Cons\<close>)
qed (simp add: oset_def)

lemma spread_assoc: "distinct (map fst b) \<Longrightarrow> spread a (spread b c) = spread (spread a b) c"
  by (induction b c rule: spread.induct) (simp_all add: distinct_oset spread_oset_right)

lemma merge_assoc:
  "wf_metadata a \<Longrightarrow> wf_metadata b \<Longrightarrow> wf_metadata c \<Longrightarrow>
     mergeMetadata (mergeMetadata a b) c = mergeMetadata a (mergeMetadata b c)"
  by (cases a; cases b; cases c) (simp_all add: mergeMetadata_def own_props_def spread_assoc)

definition wf_event :: "event \<Rightarrow> bool" where
  "wf_event ev = wf_metadata (field ev ''metadata'')"

definition delta_text :: "event \<Rightarrow> string" where
  "delta_text ev = js_string (coalesce_nullish (chunkDelta ev) (JStr []))"

definition put_delta :: "string \<Rightarrow> event \<Rightarrow> event" where
  "put_delta s ev = ev\<lparr>ev_props := oset ''delta'' (JStr s) (ev_props ev)\<rparr>"

definition put_metadata :: "jsval \<Rightarrow> event \<Rightarrow> event" where
  "put_metadata v ev = (if v = JUndef then ev else ev\<lparr>ev_props := oset ''metadata'' v (ev_props ev)\<rparr>)"

lemma chunkKey_chunk: "chunkKey ev = Some k \<Longrightarrow> isTextChunk ev \<or> isToolCallChunk ev \<or> isReasoningChunk ev"
  by (auto simp: chunkKey_def Let_def split: if_splits)

lemma field_put_delta [simp]: "k \<noteq> ''delta'' \<Longrightarrow> field (put_delta s ev) k = field ev k"
  by (simp add: put_delta_def field_def)

lemma field_put_metadata [simp]: "k \<noteq> ''metadata'' \<Longrightarrow> field (put_metadata v ev) k = field ev k"
  by (simp add: put_metadata_def field_def)

lemma metadata_put [simp]: "v = JUndef \<longrightarrow> field ev ''metadata'' = JUndef \<Longrightarrow> field (put_metadata v ev) ''metadata'' = v"
  by (simp add: put_metadata_def field_def)

lemma merge_chunk_alt:
  "chunkKey a = Some k \<Longrightarrow> merge_chunk a b =
     put_metadata (mergeMetadata (field a ''metadata'') (field b ''metadata'')) (put_delta (delta_text a @ delta_text b) a)"
  using chunkKey_chunk [of a k] field_put_delta [of "''metadata''" "delta_text a @ delta_text b" a]
  by (auto simp: merge_chunk_def Let_def put_metadata_def put_delta_def delta_text_def mergeChunkMetadata_core simp del: field_upd_props)

lemma put_type [simp]: "ev_type (put_delta s ev) = ev_type ev" "ev_type (put_metadata v ev) = ev_type ev"
  by (simp_all add: put_delta_def put_metadata_def)

lemma put_metadata_key [simp]: "chunkKey (put_metadata v ev) = chunkKey ev"
  unfolding chunkKey_def isTextChunk_def isToolCallChunk_def isReasoningChunk_def by (simp cong: if_cong)

lemma delta_merge:
  assumes "chunkKey a = Some k"
  shows "delta_text (merge_chunk a b) = delta_text a @ delta_text b"
proof -
  have "field (merge_chunk a b) ''delta'' = JStr (delta_text a @ delta_text b)"
    using assms by (simp add: merge_chunk_alt, simp add: put_delta_def)
  moreover have "isTextChunk (merge_chunk a b) \<or> isToolCallChunk (merge_chunk a b) \<or> isReasoningChunk (merge_chunk a b)"
    using assms by (intro chunkKey_chunk [of _ k]) simp
  ultimately show ?thesis by (auto simp: delta_text_def chunkDelta_def coalesce_nullish_def)
qed

lemma merge_undef_iff: "mergeMetadata a b = JUndef \<longleftrightarrow> a = JUndef \<and> b = JUndef"
  by (auto simp: mergeMetadata_def)

lemma metadata_merge:
  "chunkKey a = Some k \<Longrightarrow>
     field (merge_chunk a b) ''metadata'' = mergeMetadata (field a ''metadata'') (field b ''metadata'')"
  by (simp add: merge_chunk_alt merge_undef_iff)

lemma put_put:
  "put_metadata v (put_delta s (put_metadata w (put_delta t ev))) =
     put_metadata (if v = JUndef then w else v) (put_delta s ev)"
  by (simp add: put_metadata_def put_delta_def oset_oset oset_comm [of "''delta''" "''metadata''"])

lemma merge_chunk_assoc:
  assumes "chunkKey a = Some k" "chunkKey b = Some k" "wf_event a" "wf_event b" "wf_event c"
  shows "merge_chunk (merge_chunk a b) c = merge_chunk a (merge_chunk b c)"
proof -
  have "merge_chunk (merge_chunk a b) c =
     put_metadata (mergeMetadata (mergeMetadata (field a ''metadata'') (field b ''metadata'')) (field c ''metadata''))
       (put_delta ((delta_text a @ delta_text b) @ delta_text c) (merge_chunk a b))"
    using assms by (simp add: merge_chunk_alt [of "merge_chunk a b"] metadata_merge delta_merge)
  also have "\<dots> = put_metadata (mergeMetadata (mergeMetadata (field a ''metadata'') (field b ''metadata'')) (field c ''metadata''))
       (put_delta ((delta_text a @ delta_text b) @ delta_text c) a)"
    using assms(1) by (simp add: merge_chunk_alt put_put merge_undef_iff)
  also have "\<dots> = merge_chunk a (merge_chunk b c)"
    using assms by (simp add: merge_chunk_alt [of a] metadata_merge delta_merge merge_assoc wf_event_def)
  finally show ?thesis .
qed

lemma wf_merge: "chunkKey a = Some k \<Longrightarrow> wf_event a \<Longrightarrow> wf_event b \<Longrightarrow> wf_event (merge_chunk a b)"
  by (simp add: wf_event_def metadata_merge metadata.merge_wf)

lemma wf_coalesce_step: "list_all wf_event acc \<Longrightarrow> wf_event ev \<Longrightarrow> list_all wf_event (coalesce_step acc ev)"
  by (cases acc ev rule: coalesce_step_cases) (auto simp: wf_merge)

lemma wf_coalesce_from: "list_all wf_event acc \<Longrightarrow> list_all wf_event es \<Longrightarrow> list_all wf_event (foldl coalesce_step acc es)"
  by (induction es arbitrary: acc) (auto simp: wf_coalesce_step)

lemma wf_coalesce: "list_all wf_event es \<Longrightarrow> list_all wf_event (coalesce es)"
  by (simp add: coalesce_def wf_coalesce_from)

lemma coalesce_step_twice:
  assumes "chunkKey a = Some k" "chunkKey e = Some k" "list_all wf_event acc" "wf_event a" "wf_event e"
  shows "coalesce_step (coalesce_step acc a) e = coalesce_step acc (merge_chunk a e)"
  using assms merge_chunk_assoc [of "last acc" k a e]
  by (cases "acc = []") (auto simp: coalesce_step_def list_all_iff)

lemma coalesce_from:
  assumes "list_all wf_event acc" "list_all wf_event es"
  shows "foldl coalesce_step acc (coalesce es) = foldl coalesce_step acc es"
  using assms(2)
proof (induction es rule: rev_induct)
  case (snoc e es)
  then have IH: "foldl coalesce_step acc (coalesce es) = foldl coalesce_step acc es" by simp
  show ?case
  proof (cases "coalesce es" e rule: coalesce_step_cases)
    case (merge xs a k)
    from merge(1) wf_coalesce [of es] snoc.prems have "wf_event a" "list_all wf_event (foldl coalesce_step acc xs)"
      by (simp_all add: wf_coalesce_from assms(1))
    with snoc.prems merge IH [symmetric] show ?thesis
      by (simp add: coalesce_snoc) (metis coalesce_step_twice)
  qed (use IH in \<open>simp add: coalesce_snoc\<close>)
qed (simp add: coalesce_def)

text \<open>Coalescing batch by batch and coalescing what has been emitted comes to the same.\<close>

lemma coalesce_batch: "list_all wf_event (xs @ ys) \<Longrightarrow> coalesce (xs @ coalesce ys) = coalesce (xs @ ys)"
  using coalesce_from [of "coalesce xs" ys] wf_coalesce [of xs] by (simp add: coalesce_def)

subsection \<open>What coalescing keeps\<close>

definition key_text :: "chunk_key \<Rightarrow> event list \<Rightarrow> string" where
  "key_text k es = concat (map delta_text (filter (\<lambda>ev. chunkKey ev = Some k) es))"

definition key_metadata :: "chunk_key \<Rightarrow> event list \<Rightarrow> jsval" where
  "key_metadata k es = foldl mergeMetadata JUndef (map (\<lambda>ev. field ev ''metadata'') (filter (\<lambda>ev. chunkKey ev = Some k) es))"

definition keyless :: "event list \<Rightarrow> event list" where
  "keyless es = filter (\<lambda>ev. chunkKey ev = None) es"

lemma key_text_append [simp]: "key_text k (xs @ ys) = key_text k xs @ key_text k ys"
  by (simp add: key_text_def)

lemma coalesce_text: "key_text k (coalesce es) = key_text k es"
proof (induction es rule: rev_induct)
  case (snoc e es)
  then show ?case
    by (cases "coalesce es" e rule: coalesce_step_cases) (simp_all add: coalesce_snoc, auto simp: key_text_def delta_merge)
qed (simp add: coalesce_def)

lemma coalesce_keyless: "keyless (coalesce es) = keyless es"
proof (induction es rule: rev_induct)
  case (snoc e es)
  then show ?case
    by (cases "coalesce es" e rule: coalesce_step_cases) (auto simp: coalesce_snoc keyless_def)
qed (simp add: coalesce_def)

lemma fold_merge_wf: "list_all wf_event es \<Longrightarrow> wf_metadata (foldl mergeMetadata JUndef (map (\<lambda>ev. field ev ''metadata'') es))"
  by (intro metadata.fold_wf) (auto simp: list_all_iff wf_event_def)

lemma key_metadata_snoc:
  "key_metadata k (es @ [e]) =
     (if chunkKey e = Some k then mergeMetadata (key_metadata k es) (field e ''metadata'') else key_metadata k es)"
  by (simp add: key_metadata_def)

lemma wf_key_metadata: "list_all wf_event es \<Longrightarrow> wf_metadata (key_metadata k es)"
  unfolding key_metadata_def by (intro fold_merge_wf) (simp add: list_all_iff)

lemma coalesce_metadata: "list_all wf_event es \<Longrightarrow> key_metadata k (coalesce es) = key_metadata k es"
proof (induction es rule: rev_induct)
  case (snoc e es)
  then have IH: "key_metadata k (coalesce es) = key_metadata k es" by simp
  show ?case
  proof (cases "coalesce es" e rule: coalesce_step_cases)
    case (merge xs a k')
    with snoc.prems wf_coalesce [of es] have "wf_event a" "list_all wf_event xs" "wf_event e" by simp_all
    with merge IH [symmetric] show ?thesis
      by (simp add: coalesce_snoc key_metadata_snoc metadata_merge merge_assoc wf_key_metadata wf_event_def)
  qed (use IH in \<open>simp add: coalesce_snoc key_metadata_snoc\<close>)
qed (simp add: coalesce_def)

text \<open>Every other property of a coalesced chunk is that of one chunk received.\<close>

definition same_but :: "event \<Rightarrow> event \<Rightarrow> bool" where
  "same_but a b = (ev_type a = ev_type b \<and> chunkKey a = chunkKey b \<and>
     (\<forall>k. k \<noteq> ''delta'' \<and> k \<noteq> ''metadata'' \<longrightarrow> field a k = field b k))"

lemma same_but_refl [simp]: "same_but a a"
  by (simp add: same_but_def)

lemma same_but_merge: "chunkKey a = Some k \<Longrightarrow> same_but (merge_chunk a b) a"
  unfolding same_but_def by (simp, simp add: merge_chunk_alt)

lemma same_but_trans: "same_but a b \<Longrightarrow> same_but b c \<Longrightarrow> same_but a c"
  by (simp add: same_but_def)

lemma coalesce_origin: "e \<in> set (coalesce es) \<Longrightarrow> \<exists>e0 \<in> set es. same_but e e0"
proof (induction es arbitrary: e rule: rev_induct)
  case (snoc x es)
  show ?case
  proof (cases "coalesce es" x rule: coalesce_step_cases)
    case (merge xs a k)
    with snoc.prems have "e \<in> set xs \<or> e = merge_chunk a x" by (auto simp: coalesce_snoc)
    then obtain e' where "e' \<in> set (coalesce es)" "same_but e e'"
      using merge same_but_merge [of a k x] by (metis in_set_conv_decomp Un_iff set_append same_but_refl)
    with snoc.IH show ?thesis by (auto dest: same_but_trans)
  qed (use snoc in \<open>auto simp: coalesce_snoc\<close>)
qed (simp add: coalesce_def)

subsection \<open>One callback\<close>

lemma clear_timer_sel [simp]:
  "buffer (clear_timer st) = buffer st" "lastFlushTime (clear_timer st) = lastFlushTime st" "timerId (clear_timer st) = None"
  by (simp_all add: clear_timer_def)

lemma flush_buffer_sel:
  "buffer (fst (flush_buffer now st)) = []" "timerId (fst (flush_buffer now st)) = None"
  "lastFlushTime (fst (flush_buffer now st)) = (if buffer st = [] then lastFlushTime st else now)"
  "snd (flush_buffer now st) = map Emit (coalesce (buffer st))"
  by (simp_all add: flush_buffer_def Let_def coalesce_def)

lemma track_chars_sel [simp]:
  "buffer (track_chars cfg ev st) = buffer st" "lastFlushTime (track_chars cfg ev st) = lastFlushTime st"
  "timerId (track_chars cfg ev st) = timerId st"
  by (simp_all add: track_chars_def Let_def)

lemma scheduleTrailing_sel [simp]:
  "buffer (scheduleTrailing cfg now st) = buffer st" "lastFlushTime (scheduleTrailing cfg now st) = lastFlushTime st"
  by (simp_all add: scheduleTrailing_def Let_def)

lemma on_timer_flush: "on_timer now st = flush_buffer now st"
  by (simp add: on_timer_def flush_buffer_def clear_timer_def)

lemma keyless_not_bufferable: "ev_type ev \<notin> set BUFFERABLE_EVENT_TYPES \<Longrightarrow> chunkKey ev = None"
  by (auto simp: BUFFERABLE_EVENT_TYPES_def chunkKey_def isTextChunk_def isToolCallChunk_def isReasoningChunk_def Let_def)

text \<open>The three ways an event is taken: at once, with a flush, or into the buffer with a timer armed.\<close>

lemma on_next_cases:
  obtains (immediate) "ev_type ev \<notin> set BUFFERABLE_EVENT_TYPES" "buffer (fst (on_next cfg now ev st)) = []"
      "timerId (fst (on_next cfg now ev st)) = None" "lastFlushTime (fst (on_next cfg now ev st)) = now"
      "snd (on_next cfg now ev st) = map Emit (coalesce (buffer st)) @ [Emit ev]"
  | (flushed) "ev_type ev \<in> set BUFFERABLE_EVENT_TYPES" "buffer (fst (on_next cfg now ev st)) = []"
      "timerId (fst (on_next cfg now ev st)) = None" "lastFlushTime (fst (on_next cfg now ev st)) = now"
      "snd (on_next cfg now ev st) = map Emit (coalesce (buffer st @ [ev]))"
      "minChunkSize cfg > 0 \<or> lastFlushTime st = 0 \<or> now - lastFlushTime st \<ge> intervalMs cfg"
  | (held) "ev_type ev \<in> set BUFFERABLE_EVENT_TYPES" "buffer (fst (on_next cfg now ev st)) = buffer st @ [ev]"
      "lastFlushTime (fst (on_next cfg now ev st)) = lastFlushTime st" "lastFlushTime st \<noteq> 0"
      "snd (on_next cfg now ev st) = []"
      "timerId (fst (on_next cfg now ev st)) =
         (if timerId st \<noteq> None \<or> intervalMs cfg \<le> 0 then timerId st else Some (lastFlushTime st + intervalMs cfg))"
      "intervalMs cfg > 0 \<longrightarrow> now - lastFlushTime st < intervalMs cfg"
proof (cases "ev_type ev \<in> set BUFFERABLE_EVENT_TYPES")
  case False
  with immediate show ?thesis by (simp add: on_next_def flush_buffer_sel case_prod_unfold Let_def)
next
  case True
  let ?st = "track_chars cfg ev (st\<lparr>buffer := buffer st @ [ev]\<rparr>)"
  let ?go = "lastFlushTime st = 0 \<or> intervalMs cfg > 0 \<and> now - lastFlushTime st \<ge> intervalMs cfg \<or>
    minChunkSize cfg > 0 \<and> charsSinceFlush ?st \<ge> minChunkSize cfg"
  have "on_next cfg now ev st = (if ?go then flush_buffer now ?st else (scheduleTrailing cfg now ?st, []))"
    using True by (simp add: on_next_def Let_def)
  then show ?thesis
    using True flushed held
    by (cases ?go) (auto simp: flush_buffer_sel, auto simp: scheduleTrailing_def Let_def)
qed

subsection \<open>Runs of the loop\<close>

inductive_cases loop_run_NilE: "loop_run cfg lag l [] l'"

lemma loop_run_Nil [simp]: "loop_run cfg lag l [] l' \<longleftrightarrow> l' = l"
  by (auto elim: loop_run_NilE intro: loop_start)

lemma loop_run_snoc:
  "loop_run cfg lag l (tr @ [e]) l'' \<longleftrightarrow> (\<exists>l'. loop_run cfg lag l tr l' \<and> loop_step cfg lag l' e l'')"
  by (auto intro: loop_more elim: loop_run.cases)

lemma loop_run_append:
  "loop_run cfg lag l (tr @ tr') l'' \<longleftrightarrow> (\<exists>l'. loop_run cfg lag l tr l' \<and> loop_run cfg lag l' tr' l'')"
proof (induction tr' arbitrary: l'' rule: rev_induct)
  case (snoc e tr')
  show ?case using snoc.IH loop_run_snoc [of cfg lag l "tr @ tr'" e l''] by (auto simp: loop_run_snoc)
qed simp

lemma loop_run_Cons:
  "loop_run cfg lag l (e # tr) l'' \<longleftrightarrow> (\<exists>l'. loop_step cfg lag l e l' \<and> loop_run cfg lag l' tr l'')"
  using loop_run_append [of cfg lag l "[e]" tr l''] loop_run_snoc [of cfg lag l "[]" e] by simp

lemma received_simps [simp]:
  "received [] = []" "received (e # tr) = signal_events (fst (snd e)) @ received tr"
  "received (tr @ tr') = received tr @ received tr'"
  by (simp_all add: received_def case_prod_unfold)

lemma emitted_simps [simp]:
  "emitted [] = []" "emitted (e # tr) = concat (map output_events (snd (snd e))) @ emitted tr"
  "emitted (tr @ tr') = emitted tr @ emitted tr'"
  by (simp_all add: emitted_def case_prod_unfold)

lemma output_events_Emit [simp]: "concat (map output_events (map Emit es)) = es"
  "concat (map (output_events \<circ> Emit) es) = es"
  by (induction es) simp_all

text \<open>The timer is armed exactly while something is buffered, and runs out one interval after the last delivery.\<close>

definition timer_inv :: "throttle \<Rightarrow> loop_state \<Rightarrow> bool" where
  "timer_inv cfg l =
     (let st = sub l in
      lastFlushTime st \<le> clock l \<and>
      (isNoop cfg \<longrightarrow> buffer st = [] \<and> timerId st = None) \<and>
      (\<not> closed l \<longrightarrow>
         (timerId st = None \<longleftrightarrow> intervalMs cfg \<le> 0 \<or> buffer st = []) \<and>
         (\<forall>due. timerId st = Some due \<longrightarrow> due = lastFlushTime st + intervalMs cfg)))"

lemma timer_inv_init: "0 \<le> t \<Longrightarrow> timer_inv cfg (init_loop t)"
  by (simp add: timer_inv_def init_loop_def init_tstate_def)

lemma on_signal_simps:
  "on_signal cfg now (NextEvent ev) st = (if isNoop cfg then (st, [Emit ev]) else on_next cfg now ev st)"
  "on_signal cfg now (SourceError err) st = (if isNoop cfg then (st, [Failed err]) else on_error err st)"
  "on_signal cfg now SourceComplete st =
     (if isNoop cfg then (st, [Completed]) else (fst (flush_buffer now st), snd (flush_buffer now st) @ [Completed]))"
  "on_signal cfg now Unsubscribe st = (teardown st, [])"
  "on_signal cfg now TimerFires st = flush_buffer now st"
  by (simp_all add: on_signal_def on_complete_def on_timer_flush case_prod_unfold Let_def)

lemma timer_inv_step:
  assumes inv: "timer_inv cfg l" and step: "loop_step cfg lag l (now, sig, outs) l'"
  shows "timer_inv cfg l'"
proof -
  from step have l': "\<not> closed l" "clock l \<le> now" "l' = \<lparr>clock = now, closed = ends sig, sub = fst (on_signal cfg now sig (sub l))\<rparr>"
    by (auto simp: loop_step_iff)
  from inv l'(1) have i: "lastFlushTime (sub l) \<le> clock l" "isNoop cfg \<longrightarrow> buffer (sub l) = [] \<and> timerId (sub l) = None"
     "timerId (sub l) = None \<longleftrightarrow> intervalMs cfg \<le> 0 \<or> buffer (sub l) = []"
     "\<forall>due. timerId (sub l) = Some due \<longrightarrow> due = lastFlushTime (sub l) + intervalMs cfg"
    by (auto simp: timer_inv_def Let_def)
  show ?thesis
  proof (cases sig)
    case (NextEvent ev)
    show ?thesis
    proof (cases "isNoop cfg")
      case True
      with NextEvent l' i show ?thesis by (simp add: timer_inv_def on_signal_simps)
    next
      case False
      show ?thesis
      by (rule on_next_cases [of ev cfg now "sub l"])
        (use False NextEvent l' i in \<open>auto simp: timer_inv_def on_signal_simps\<close>)
    qed
  qed (use l' i in \<open>auto simp: timer_inv_def on_signal_simps flush_buffer_sel on_error_def teardown_def\<close>)
qed

lemma timer_inv_run: "loop_run cfg lag l tr l' \<Longrightarrow> timer_inv cfg l \<Longrightarrow> timer_inv cfg l'"
  by (induction rule: loop_run.induct) (metis timer_inv_step prod_cases3)+

lemma loop_step_clock: "loop_step cfg lag l e l' \<Longrightarrow> clock l \<le> fst e \<and> clock l' = fst e"
  by (auto elim: loop_stepE)

lemma loop_run_clock: "loop_run cfg lag l tr l' \<Longrightarrow> clock l \<le> clock l' \<and> (\<forall>e\<in>set tr. fst e \<le> clock l')"
  by (induction rule: loop_run.induct) (auto dest!: loop_step_clock)

subsection \<open>What has been delivered\<close>

text \<open>\<open>delivered tr\<close>: what was emitted is the coalescing of everything received. A prefix of the received events is in
  that relation at any time, the rest of them being the buffer.\<close>

definition delivered :: "entry list \<Rightarrow> bool" where
  "delivered tr = (coalesce (emitted tr) = coalesce (received tr))"

fun is_failure :: "signal \<Rightarrow> bool" where
  "is_failure (SourceError _) = True"
| "is_failure _ = False"

definition conserved :: "entry list \<Rightarrow> loop_state \<Rightarrow> bool" where
  "conserved tr l = (\<exists>sent held. received tr = sent @ held \<and> coalesce (emitted tr) = coalesce sent \<and>
     (held = buffer (sub l) \<or> closed l \<and> is_failure (fst (snd (last tr)))) \<and>
     (closed l \<and> fst (snd (last tr)) = SourceComplete \<longrightarrow> held = []))"

lemma coalesce_more:
  "coalesce xs = coalesce ys \<Longrightarrow> coalesce (xs @ zs) = coalesce (ys @ zs)"
  by (metis coalesce_append)

lemma conserved_step:
  assumes run: "conserved tr l" "list_all wf_event (received tr)" "list_all wf_event (signal_events sig)" and inv: "timer_inv cfg l"
    and step: "loop_step cfg lag l (now, sig, outs) l'"
  shows "conserved (tr @ [(now, sig, outs)]) l'"
proof -
  from step have l': "\<not> closed l" "l' = \<lparr>clock = now, closed = ends sig, sub = fst (on_signal cfg now sig (sub l))\<rparr>"
    "outs = snd (on_signal cfg now sig (sub l))"
    by (auto simp: loop_step_iff)
  from run l'(1) obtain sent where sent: "received tr = sent @ buffer (sub l)" "coalesce (emitted tr) = coalesce sent"
    by (auto simp: conserved_def)
  have wf: "list_all wf_event (sent @ buffer (sub l) @ signal_events sig)" using run(2,3) sent(1) by simp
  have flushed: "coalesce (emitted tr @ coalesce (buffer (sub l) @ zs)) = coalesce (sent @ buffer (sub l) @ zs)"
    if "zs = [] \<or> zs = signal_events sig" for zs
    using coalesce_more [OF sent(2)] coalesce_batch [of sent "buffer (sub l) @ zs"] wf that by auto
  show ?thesis
  proof (cases sig)
    case (NextEvent ev)
    show ?thesis
    proof (cases "isNoop cfg")
      case True
      with inv sent have "coalesce (emitted tr) = coalesce (received tr)" by (simp add: timer_inv_def Let_def)
      from coalesce_more [OF this, of "[ev]"] True NextEvent l' inv show ?thesis
        by (simp add: conserved_def on_signal_simps timer_inv_def Let_def)
    next
      case False
      show ?thesis
      proof (rule on_next_cases [of ev cfg now "sub l"])
        assume *: "buffer (fst (on_next cfg now ev (sub l))) = []"
          "snd (on_next cfg now ev (sub l)) = map Emit (coalesce (buffer (sub l))) @ [Emit ev]"
        from coalesce_more [OF flushed [of "[]"], of "[ev]"] * False NextEvent l' sent show ?thesis
          by (simp add: conserved_def on_signal_simps)
      next
        assume *: "buffer (fst (on_next cfg now ev (sub l))) = []"
          "snd (on_next cfg now ev (sub l)) = map Emit (coalesce (buffer (sub l) @ [ev]))"
        from flushed [of "[ev]"] * False NextEvent l' sent show ?thesis
          by (simp add: conserved_def on_signal_simps)
      next
        assume *: "buffer (fst (on_next cfg now ev (sub l))) = buffer (sub l) @ [ev]" "snd (on_next cfg now ev (sub l)) = []"
        with False NextEvent l' sent show ?thesis by (auto simp: conserved_def on_signal_simps)
      qed
    qed
  next
    case SourceComplete
    with flushed [of "[]"] l' sent inv show ?thesis
      by (auto simp: conserved_def on_signal_simps flush_buffer_sel timer_inv_def Let_def)
  next
    case TimerFires
    with flushed [of "[]"] l' sent show ?thesis by (auto simp: conserved_def on_signal_simps flush_buffer_sel)
  qed (use l' sent in \<open>auto simp: conserved_def on_signal_simps on_error_def teardown_def\<close>)
qed

lemma conserved_run:
  assumes "loop_run cfg lag l tr l'" "l = init_loop t" "0 \<le> t" "list_all wf_event (received tr)"
  shows "conserved tr l'"
  using assms
proof (induction rule: loop_run.induct)
  case (loop_start l)
  then show ?case by (auto simp: conserved_def init_loop_def init_tstate_def)
next
  case (loop_more l tr l' e l'')
  obtain now sig outs where e: "e = (now, sig, outs)" by (cases e)
  with loop_more timer_inv_run [OF loop_more(1)] timer_inv_init [of t cfg] show ?case
    by (auto intro: conserved_step)
qed

lemma conserved_empty: "conserved tr l \<Longrightarrow> \<not> closed l \<Longrightarrow> buffer (sub l) = [] \<Longrightarrow> delivered tr"
  by (auto simp: conserved_def delivered_def)

lemma conserved_complete: "conserved tr l \<Longrightarrow> closed l \<Longrightarrow> fst (snd (last tr)) = SourceComplete \<Longrightarrow> delivered tr"
  by (auto simp: conserved_def delivered_def)

subsection \<open>Waiting for a delivery\<close>

definition waiting :: "int \<Rightarrow> loop_state \<Rightarrow> bool" where
  "waiting limit l = (\<not> closed l \<and> buffer (sub l) \<noteq> [] \<and> (\<exists>due. timerId (sub l) = Some due \<and> due \<le> limit))"

text \<open>While something waits, a step keeps it waiting, with the same deadline, or leaves the buffer empty, or ends the subscription.\<close>

lemma waiting_step:
  assumes w: "waiting limit l" and inv: "timer_inv cfg l" and cfg: "0 < intervalMs cfg" "\<not> isNoop cfg" and
    step: "loop_step cfg lag l (now, sig, outs) l'"
  shows "now \<le> limit + lag \<and>
    (waiting limit l' \<or> \<not> closed l' \<and> buffer (sub l') = [] \<or> closed l' \<and> ends sig)"
proof -
  from w obtain due where due: "timerId (sub l) = Some due" "due \<le> limit" "buffer (sub l) \<noteq> []" by (auto simp: waiting_def)
  from step have l': "\<not> closed l" "l' = \<lparr>clock = now, closed = ends sig, sub = fst (on_signal cfg now sig (sub l))\<rparr>"
     "in_time lag now (sub l)"
    by (auto simp: loop_step_iff)
  from l'(3) due have "now \<le> limit + lag" by (simp add: in_time_def)
  moreover have "waiting limit l' \<or> \<not> closed l' \<and> buffer (sub l') = [] \<or> closed l' \<and> ends sig"
  proof (cases sig)
    case (NextEvent ev)
    show ?thesis
      by (rule on_next_cases [of ev cfg now "sub l"])
        (use NextEvent l' due cfg in \<open>auto simp: waiting_def on_signal_simps\<close>)
  qed (use l' in \<open>auto simp: on_signal_simps flush_buffer_sel\<close>)
  ultimately show ?thesis by simp
qed

lemma waiting_starts:
  assumes inv: "timer_inv cfg l'" "loop_step cfg lag l (t, NextEvent ev, outs) l'" and cfg: "0 < intervalMs cfg"
  shows "buffer (sub l') = [] \<or> waiting (t + intervalMs cfg) l'"
proof -
  from inv(2) have "\<not> closed l'" "clock l' = t" by (auto simp: loop_step_iff)
  with inv(1) cfg show ?thesis by (auto simp: timer_inv_def waiting_def Let_def)
qed

lemma waiting_run:
  assumes "loop_run cfg lag l tr l'" "waiting limit l" "timer_inv cfg l" "0 < intervalMs cfg" "\<not> isNoop cfg" "clock l \<le> limit + lag"
  shows "(\<exists>tr1 tr2 m. tr = tr1 @ tr2 \<and> tr1 \<noteq> [] \<and> loop_run cfg lag l tr1 m \<and> clock m \<le> limit + lag \<and>
      (\<not> closed m \<and> buffer (sub m) = [] \<or> closed m \<and> ends (fst (snd (last tr1))))) \<or>
    waiting limit l' \<and> clock l' \<le> limit + lag"
  using assms
proof (induction rule: loop_run.induct)
  case (loop_more l tr l' e l'')
  from loop_more.IH loop_more.prems consider
      (stops) tr1 tr2 m where "tr = tr1 @ tr2" "tr1 \<noteq> []" "loop_run cfg lag l tr1 m" "clock m \<le> limit + lag"
        "\<not> closed m \<and> buffer (sub m) = [] \<or> closed m \<and> ends (fst (snd (last tr1)))"
    | (waits) "waiting limit l'"
    by auto
  then show ?case
  proof cases
    case stops
    then show ?thesis by (intro disjI1 exI [of _ tr1] exI [of _ "tr2 @ [e]"] exI [of _ m]) simp
  next
    case waits
    obtain now sig outs where e: "e = (now, sig, outs)" by (cases e)
    from waiting_step [OF waits _ loop_more.prems(3,4) loop_more.hyps(2) [unfolded e]] loop_more.prems(2) loop_more.hyps(1)
      timer_inv_run loop_step_clock [OF loop_more.hyps(2)] e
    have bound: "now \<le> limit + lag" "clock l'' = now"
      "waiting limit l'' \<or> \<not> closed l'' \<and> buffer (sub l'') = [] \<or> closed l'' \<and> ends sig" by auto
    have run: "loop_run cfg lag l (tr @ [e]) l''" using loop_more.hyps by (rule loop_run.loop_more)
    show ?thesis
    proof (cases "waiting limit l''")
      case False
      with bound run e show ?thesis
        by (intro disjI1 exI [of _ "tr @ [e]"] exI [of _ "[]"] exI [of _ l'']) auto
    qed (use bound in simp)
  qed
qed simp

subsection \<open>The distance of deliveries\<close>

lemma loop_run_open: "loop_run cfg lag l tr l' \<Longrightarrow> \<not> closed l' \<Longrightarrow> \<not> closed l"
  by (induction rule: loop_run.induct) (auto elim: loop_stepE)

text \<open>A step that emits events moves the time of the last delivery to its own; no step moves it back.\<close>

lemma last_delivery_step:
  assumes inv: "timer_inv cfg l" and step: "loop_step cfg lag l (now, sig, outs) l'" and cfg: "\<not> isNoop cfg"
  shows "lastFlushTime (sub l) \<le> lastFlushTime (sub l') \<and>
    (emitted [(now, sig, outs)] \<noteq> [] \<and> \<not> closed l' \<longrightarrow> lastFlushTime (sub l') = now)"
proof -
  from step have l': "\<not> closed l" "clock l \<le> now" "l' = \<lparr>clock = now, closed = ends sig, sub = fst (on_signal cfg now sig (sub l))\<rparr>"
    "outs = snd (on_signal cfg now sig (sub l))"
    by (auto simp: loop_step_iff)
  from inv l'(2) have "lastFlushTime (sub l) \<le> now" by (simp add: timer_inv_def Let_def)
  then show ?thesis
  proof (cases sig)
    case (NextEvent ev)
    show ?thesis
      by (rule on_next_cases [of ev cfg now "sub l"])
        (use \<open>lastFlushTime (sub l) \<le> now\<close> NextEvent l' cfg in \<open>auto simp: on_signal_simps\<close>)
  qed (use l' in \<open>auto simp: on_signal_simps flush_buffer_sel on_error_def teardown_def coalesce_def\<close>)
qed

lemma last_delivery_run:
  "loop_run cfg lag l tr l' \<Longrightarrow> timer_inv cfg l \<Longrightarrow> \<not> isNoop cfg \<Longrightarrow> lastFlushTime (sub l) \<le> lastFlushTime (sub l')"
proof (induction rule: loop_run.induct)
  case (loop_more l tr l' e l'')
  obtain now sig outs where e: "e = (now, sig, outs)" by (cases e)
  from loop_more have "lastFlushTime (sub l) \<le> lastFlushTime (sub l')" by blast
  also have "\<dots> \<le> lastFlushTime (sub l'')"
    using last_delivery_step [OF timer_inv_run [OF loop_more(1,4)] loop_more(2) [unfolded e] loop_more(5)] by blast
  finally show ?case .
qed simp

lemma unforced_delivery:
  assumes inv: "timer_inv cfg l" and step: "loop_step cfg lag l (now, sig, outs) l'"
    and cfg: "0 < intervalMs cfg" "minChunkSize cfg \<le> 0" "\<not> isNoop cfg" and outs: "emitted [(now, sig, outs)] \<noteq> []"
    and unforced: "sig = TimerFires \<or> (\<exists>ev. sig = NextEvent ev \<and> ev_type ev \<in> set BUFFERABLE_EVENT_TYPES)"
  shows "lastFlushTime (sub l) = 0 \<or> lastFlushTime (sub l) + intervalMs cfg \<le> now"
proof -
  from step have l': "\<not> closed l" "fires now sig (sub l)" "outs = snd (on_signal cfg now sig (sub l))"
    by (auto simp: loop_step_iff)
  from unforced show ?thesis
  proof
    assume "sig = TimerFires"
    with l' inv show ?thesis by (auto simp: fires_def timer_inv_def Let_def split: option.splits)
  next
    assume "\<exists>ev. sig = NextEvent ev \<and> ev_type ev \<in> set BUFFERABLE_EVENT_TYPES"
    then obtain ev where ev: "sig = NextEvent ev" "ev_type ev \<in> set BUFFERABLE_EVENT_TYPES" by blast
    show ?thesis
      by (rule on_next_cases [of ev cfg now "sub l"]) (use ev l' cfg outs in \<open>auto simp: on_signal_simps\<close>)
  qed
qed

end
