(* ===== verification/ThrottleSpec.thy ===== *)
theory ThrottleSpec
  imports ThrottleProps
begin

text \<open>The properties of the event throttle: nothing is lost or reordered, nothing waits too long, and deliveries keep their distance.\<close>

definition demo_throttle :: throttle where
  "demo_throttle = \<lparr>intervalMs = 16, minChunkSize = 0, isNoop = False\<rparr>"

definition demo_chunk :: "string \<Rightarrow> event" where
  "demo_chunk s = mk_event TEXT_MESSAGE_CHUNK [(''messageId'', JStr ''m''), (''delta'', JStr s)]"

text \<open>Three chunks within one interval and a late timer: the first is delivered at once, the others as one.\<close>

definition demo_trace :: "entry list" where
  "demo_trace =
     [(100, NextEvent (demo_chunk ''a''), [Emit (demo_chunk ''a'')]),
      (104, NextEvent (demo_chunk ''b''), []),
      (110, NextEvent (demo_chunk ''c''), []),
      (118, TimerFires, [Emit (demo_chunk ''bc'')]),
      (119, SourceComplete, [Completed])]"

lemma demo_run: "\<exists>l. loop_run demo_throttle 2 (init_loop 90) demo_trace l \<and> closed l"
proof -
  define s1 where "s1 = fst (on_signal demo_throttle 100 (NextEvent (demo_chunk ''a'')) init_tstate)"
  define s2 where "s2 = fst (on_signal demo_throttle 104 (NextEvent (demo_chunk ''b'')) s1)"
  define s3 where "s3 = fst (on_signal demo_throttle 110 (NextEvent (demo_chunk ''c'')) s2)"
  define s4 where "s4 = fst (on_signal demo_throttle 118 TimerFires s3)"
  note st = s1_def s2_def s3_def s4_def
  have 1: "on_signal demo_throttle 100 (NextEvent (demo_chunk ''a'')) init_tstate = (s1, [Emit (demo_chunk ''a'')])"
    unfolding st by code_simp
  have 2: "on_signal demo_throttle 104 (NextEvent (demo_chunk ''b'')) s1 = (s2, [])" "in_time 2 104 s1"
    unfolding st by code_simp+
  have 3: "on_signal demo_throttle 110 (NextEvent (demo_chunk ''c'')) s2 = (s3, [])" "in_time 2 110 s2"
    unfolding st by code_simp+
  have 4: "on_signal demo_throttle 118 TimerFires s3 = (s4, [Emit (demo_chunk ''bc'')])" "in_time 2 118 s3" "fires 118 TimerFires s3"
    unfolding st by code_simp+
  have 5: "snd (on_signal demo_throttle 119 SourceComplete s4) = [Completed]" "in_time 2 119 s4"
    unfolding st by code_simp+
  from 1 2 3 4 5 show ?thesis
    unfolding demo_trace_def
    by (auto simp: loop_run_Cons loop_step_iff init_loop_def in_time_def [of 2 100] init_tstate_def fires_def prod_eq_iff)
qed

lemma demo_wf: "list_all wf_event (received demo_trace)"
  by (simp add: demo_trace_def wf_event_def demo_chunk_def)

text \<open>
  Coalescing loses nothing it should keep: the text streamed for each message, call or reasoning is what it was, and so is its
  metadata; events that are not chunks stay, in order; no two neighbours are left that could be joined; and but for delta and metadata a
  coalesced chunk is a chunk of the batch.
\<close>

theorem coalesce_faithful:
  assumes "list_all wf_event batch"
  shows "key_text k (coalesce batch) = key_text k batch \<and> key_metadata k (coalesce batch) = key_metadata k batch \<and>
    keyless (coalesce batch) = keyless batch \<and> separated (coalesce batch) \<and>
    (\<forall>ev. ev \<in> set (coalesce batch) \<longrightarrow> list_ex (same_but ev) batch)"
  using coalesce_text coalesce_metadata [OF assms] coalesce_keyless separated_coalesce coalesce_origin [of _ batch]
  by (auto simp: list_ex_iff)

theorem coalesce_faithful_witness:
  "key_text (''text'', JNull, JStr ''m'') (coalesce (received demo_trace)) = ''abc''"
  using coalesce_faithful [OF demo_wf, of "(''text'', JNull, JStr ''m'')"]
  by (simp add: demo_trace_def demo_chunk_def key_text_def chunkKey_def isTextChunk_def coalesce_nullish_def delta_text_def chunkDelta_def)

text \<open>
  C30. The throttle neither loses, repeats nor reorders anything: at any time what it has emitted and what it has received agree up to coalescing,
  but for the events still in the buffer; when the source completes, nothing is left.
\<close>

theorem throttle_conserves:
  assumes "loop_run cfg lag (init_loop t) tr l" "0 \<le> t" "list_all wf_event (received tr)"
  shows "\<exists>sent held. received tr = sent @ held \<and> coalesce (emitted tr) = coalesce sent \<and>
    (\<not> closed l \<longrightarrow> held = buffer (sub l)) \<and> (closed l \<and> fst (snd (last tr)) = SourceComplete \<longrightarrow> held = [])"
  using conserved_run [OF assms(1) refl assms(2,3)] by (auto simp: conserved_def)

theorem throttle_conserves_witness: "coalesce (emitted demo_trace) = coalesce (received demo_trace)"
proof -
  obtain l where "loop_run demo_throttle 2 (init_loop 90) demo_trace l" "closed l" using demo_run by blast
  moreover have "fst (snd (last demo_trace)) = SourceComplete" by (simp add: demo_trace_def)
  ultimately show ?thesis using throttle_conserves [of demo_throttle 2 90 demo_trace l] demo_wf by auto
qed

text \<open>
  C31. Nothing waits longer than the interval: once an event has arrived and the interval, with the lag of the timer, has passed, or the source has
  completed, there was a moment within that time at which everything received had been delivered.
\<close>

theorem throttle_delivers:
  assumes run: "loop_run cfg lag (init_loop t0) (before @ (t, NextEvent ev, outs) # after) l"
    and wf: "0 \<le> t0" "list_all wf_event (received (before @ (t, NextEvent ev, outs) # after))"
    and cfg: "0 < intervalMs cfg" "\<not> isNoop cfg" "0 \<le> lag"
    and later: "t + intervalMs cfg + lag < clock l \<or> closed l"
    and source: "\<forall>e\<in>set after. ends (fst (snd e)) \<longrightarrow> fst (snd e) = SourceComplete"
  shows "\<exists>soon rest. after = soon @ rest \<and> (\<forall>e\<in>set soon. fst e \<le> t + intervalMs cfg + lag) \<and>
    delivered (before @ (t, NextEvent ev, outs) # soon)"
proof -
  let ?e = "(t, NextEvent ev, outs)"
  from run obtain l0 l1 where l: "loop_run cfg lag (init_loop t0) before l0" "loop_step cfg lag l0 ?e l1"
      "loop_run cfg lag l1 after l"
    by (auto simp: loop_run_append loop_run_Cons)
  have inv: "timer_inv cfg l1"
    using timer_inv_step [OF timer_inv_run [OF l(1) timer_inv_init] l(2)] wf(1) by simp
  have reach: "loop_run cfg lag (init_loop t0) (before @ ?e # soon) m" if "loop_run cfg lag l1 soon m" for soon m
    using l(1,2) that by (auto simp: loop_run_append loop_run_Cons)
  have conserved: "conserved (before @ ?e # soon) m" if "loop_run cfg lag l1 soon m" "after = soon @ rest" for soon m rest
    using conserved_run [OF reach [OF that(1)] refl wf(1)] wf(2) that(2) by simp
  have l1: "\<not> closed l1" "clock l1 = t" using l(2) by (auto simp: loop_step_iff)
  from waiting_starts [OF inv l(2) cfg(1)] consider "buffer (sub l1) = []" | "waiting (t + intervalMs cfg) l1" by blast
  then show ?thesis
  proof cases
    case 1
    with conserved [of "[]" l1 after] l1 show ?thesis
      by (intro exI [of _ "[]"] exI [of _ after]) (simp add: conserved_empty)
  next
    case 2
    from waiting_run [OF l(3) 2 inv cfg(1,2)] l1(2) cfg later obtain soon rest m where
      m: "after = soon @ rest" "soon \<noteq> []" "loop_run cfg lag l1 soon m" "clock m \<le> t + intervalMs cfg + lag"
        "\<not> closed m \<and> buffer (sub m) = [] \<or> closed m \<and> ends (fst (snd (last soon)))"
      by (auto simp: waiting_def)
    have "delivered (before @ ?e # soon)"
      using m(5) conserved [OF m(3,1)] source m(1,2) by (auto intro: conserved_empty conserved_complete)
    moreover have "\<forall>e\<in>set soon. fst e \<le> t + intervalMs cfg + lag"
      using loop_run_clock [OF m(3)] m(4) by force
    ultimately show ?thesis using m(1) by blast
  qed
qed

theorem throttle_delivers_witness:
  "\<exists>soon rest. drop 2 demo_trace = soon @ rest \<and> (\<forall>e\<in>set soon. fst e \<le> 104 + 16 + 2) \<and> delivered (take 2 demo_trace @ soon)"
proof -
  obtain l where "loop_run demo_throttle 2 (init_loop 90) demo_trace l" "closed l" using demo_run by blast
  with throttle_delivers [of demo_throttle 2 90 "take 1 demo_trace" 104 "demo_chunk ''b''" "[]" "drop 2 demo_trace" l] demo_wf
  show ?thesis by (simp add: demo_trace_def demo_throttle_def)
qed

text \<open>
  C32. Deliveries keep their distance: without a size threshold, a delivery that no boundary event forces comes at least one interval after the
  delivery before it.
\<close>

theorem throttle_rate:
  assumes run: "loop_run cfg lag (init_loop t0) (before @ (t1, sig1, outs1) # between @ [(t2, sig2, outs2)]) l"
    and cfg: "0 < t0" "0 < intervalMs cfg" "minChunkSize cfg \<le> 0" "\<not> isNoop cfg"
    and outs: "emitted [(t1, sig1, outs1)] \<noteq> []" "emitted [(t2, sig2, outs2)] \<noteq> []"
    and unforced: "sig2 = TimerFires \<or> (\<exists>ev. sig2 = NextEvent ev \<and> ev_type ev \<in> set BUFFERABLE_EVENT_TYPES)"
  shows "t1 + intervalMs cfg \<le> t2"
proof -
  from run obtain l0 l1 l2 where l: "loop_run cfg lag (init_loop t0) before l0" "loop_step cfg lag l0 (t1, sig1, outs1) l1"
      "loop_run cfg lag l1 between l2" "loop_step cfg lag l2 (t2, sig2, outs2) l"
    by (auto simp: loop_run_append loop_run_Cons)
  have inv: "timer_inv cfg l0" "timer_inv cfg l1" "timer_inv cfg l2"
    using timer_inv_run [OF l(1) timer_inv_init] timer_inv_step [OF _ l(2)] timer_inv_run [OF l(3)] cfg(1) by auto
  have "\<not> closed l2" using l(4) by (auto elim: loop_stepE)
  with l(3) have "\<not> closed l1" by (rule loop_run_open)
  with last_delivery_step [OF inv(1) l(2) cfg(4)] outs(1) have "lastFlushTime (sub l1) = t1" by simp
  moreover have "lastFlushTime (sub l1) \<le> lastFlushTime (sub l2)" using last_delivery_run [OF l(3) inv(2) cfg(4)] .
  moreover have "t0 \<le> t1" using loop_run_clock [OF l(1)] loop_step_clock [OF l(2)] by (simp add: init_loop_def)
  moreover have "lastFlushTime (sub l2) = 0 \<or> lastFlushTime (sub l2) + intervalMs cfg \<le> t2"
    using unforced_delivery [OF inv(3) l(4) cfg(2-4) outs(2) unforced] .
  ultimately show ?thesis using cfg(1) by linarith
qed

theorem throttle_rate_witness:
  "\<exists>m. loop_run demo_throttle 2 (init_loop 90) (take 4 demo_trace) m \<and> 100 + intervalMs demo_throttle \<le> 118"
proof -
  obtain l where "loop_run demo_throttle 2 (init_loop 90) demo_trace l" using demo_run by blast
  then obtain m where "loop_run demo_throttle 2 (init_loop 90) (take 4 demo_trace) m"
    using loop_run_append [of demo_throttle 2 "init_loop 90" "take 4 demo_trace" "drop 4 demo_trace" l] by auto
  with throttle_rate [of demo_throttle 2 90 "[]" 100 "NextEvent (demo_chunk ''a'')" "[Emit (demo_chunk ''a'')]"
    "[(104, NextEvent (demo_chunk ''b''), []), (110, NextEvent (demo_chunk ''c''), [])]" 118 TimerFires "[Emit (demo_chunk ''bc'')]" m]
  have "100 + intervalMs demo_throttle \<le> 118" by (simp add: demo_trace_def demo_throttle_def)
  with \<open>loop_run demo_throttle 2 (init_loop 90) (take 4 demo_trace) m\<close> show ?thesis by blast
qed

end
