(* ===== verification/BoundaryProps.thy ===== *)
theory BoundaryProps
  imports Boundary
begin

text \<open>
  What the compatibility boundary makes of an event: \<open>settled_event\<close> says that nothing retired is left in it, every event that leaves the boundary
  is settled, and settled events pass unchanged. The properties are in \<open>CompatSpec\<close>.
\<close>


subsection \<open>Removing nulls\<close>

lemma omit_each_fst: "fst (omit_each label m flds rest) = foldl (\<lambda>r k. if oget m k = JNull then odel k r else r) rest flds"
  by (induction flds arbitrary: rest) (auto simp: case_prod_unfold Let_def)

lemma omit_each_snd: "snd (omit_each label m flds rest) = map (null_notice label) (filter (\<lambda>k. oget m k = JNull) flds)"
  by (induction flds arbitrary: rest) (auto simp: case_prod_unfold Let_def)

lemma oget_omit_each:
  "oget (fst (omit_each label m flds rest)) k = (if k \<in> set flds \<and> oget m k = JNull then JUndef else oget rest k)"
  unfolding omit_each_fst by (induction flds arbitrary: rest) auto

definition no_nulls :: "string list \<Rightarrow> jsobj \<Rightarrow> bool" where
  "no_nulls flds m = list_all (\<lambda>k. oget m k \<noteq> JNull) flds"

lemma omit_each_id: "no_nulls flds m \<Longrightarrow> omit_each label m flds rest = (rest, [])"
  by (induction flds) (auto simp: no_nulls_def)

lemma omit_each_no_nulls: "no_nulls flds (fst (omit_each label m flds m))"
  by (auto simp: no_nulls_def list_all_iff oget_omit_each)

fun settled_value :: "string list \<Rightarrow> jsval \<Rightarrow> bool" where
  "settled_value flds (JObj m) = no_nulls flds m"
| "settled_value flds _ = True"

lemma omitNulls_id: "settled_value flds v \<Longrightarrow> omitNulls v flds label = (v, [])"
  by (cases v) (simp_all add: omitNulls_def omit_each_id)

lemma omitNulls_settled: "settled_value flds (fst (omitNulls v flds label))"
  by (cases v) (simp_all add: omitNulls_def omit_each_no_nulls case_prod_unfold Let_def)

text \<open>An array normalized entry by entry.\<close>

fun settled_array :: "string \<Rightarrow> (jsval \<Rightarrow> bool) \<Rightarrow> jsval \<Rightarrow> bool" where
  "settled_array k P (JObj m) = list_all P (arr_items (oget m k))"
| "settled_array k P _ = True"

lemma mapProtocolArray_id:
  assumes "settled_array k P v" "\<And>x. P x \<Longrightarrow> f x = (x, [])"
  shows "mapProtocolArray v k f = (v, [])"
proof (cases v)
  case (JObj m)
  show ?thesis
  proof (cases "oget m k")
    case (JArr xs)
    with assms JObj have "map (fst \<circ> f) xs = xs" "concat (map (snd \<circ> f) xs) = []"
      by (auto simp: list_all_iff intro!: map_idI)
    with JObj JArr show ?thesis by (simp add: mapProtocolArray_def)
  qed (use JObj in \<open>simp_all add: mapProtocolArray_def\<close>)
qed (simp_all add: mapProtocolArray_def)

lemma mapProtocolArray_settled:
  assumes "\<And>x. P (fst (f x))"
  shows "settled_array k P (fst (mapProtocolArray v k f))"
proof (cases v)
  case (JObj m)
  show ?thesis
  proof (cases "oget m k")
    case (JArr xs)
    have "list_all P (map (fst \<circ> f) xs)" using assms by (simp add: list_all_iff)
    with JObj JArr show ?thesis by (auto simp: mapProtocolArray_def Let_def)
  qed (use JObj in \<open>simp_all add: mapProtocolArray_def\<close>)
qed (simp_all add: mapProtocolArray_def)

text \<open>Normalizing one member leaves the others as they are.\<close>

lemma mapProtocolArray_other:
  "settled_array k P v \<Longrightarrow> k \<noteq> k' \<Longrightarrow> settled_array k P (fst (mapProtocolArray v k' f))"
  by (cases v) (auto simp: mapProtocolArray_def Let_def split: jsval.splits)

lemma mapProtocolArray_fields:
  "settled_value flds v \<Longrightarrow> k \<notin> set flds \<Longrightarrow> settled_value flds (fst (mapProtocolArray v k f))"
  by (cases v) (auto simp: mapProtocolArray_def Let_def no_nulls_def list_all_iff split: jsval.splits)

subsection \<open>Messages\<close>

definition settled_part :: "jsval \<Rightarrow> bool" where
  "settled_part part = (normalize_part part = (part, []))"

lemma normalize_part_settled: "settled_part (fst (normalize_part part))"
proof (cases part)
  case (JObj m)
  show ?thesis
  proof (cases "oget m ''type''")
    case (JStr t)
    show ?thesis
    proof (cases "t \<in> {''image'', ''audio'', ''video'', ''document''}")
      case True
      let ?r = "fst (omit_each (Some (t @ '' input content'')) m part_nulls m)"
      have type: "oget ?r ''type'' = JStr t" using JStr by (simp add: oget_omit_each part_nulls_def)
      have "fst (normalize_part part) = JObj ?r"
        using True JStr JObj by (simp add: normalize_part_def omitNulls_def case_prod_unfold Let_def)
      moreover have "omitNulls (JObj ?r) part_nulls label = (JObj ?r, [])" for label
        using omit_each_no_nulls by (intro omitNulls_id) simp
      ultimately show ?thesis using type True by (simp add: settled_part_def normalize_part_def)
    qed (use JStr JObj in \<open>simp add: settled_part_def normalize_part_def\<close>)
  qed (use JObj in \<open>simp_all add: settled_part_def normalize_part_def\<close>)
qed (simp_all add: settled_part_def normalize_part_def)

lemma converted_settled: "convertible part \<Longrightarrow> settled_part (convertBinaryToNewFormat part)"
  by (auto simp: settled_part_def normalize_part_def convertBinaryToNewFormat_def Let_def filename_metadata_def omitNulls_def
      omit_each_id no_nulls_def part_nulls_def convertible_def)

definition settled_message :: "jsval \<Rightarrow> bool" where
  "settled_message = settled_array ''content'' (\<lambda>p. settled_part p \<and> \<not> convertible p)"

lemma settled_array_mono: "settled_array k P v \<Longrightarrow> (\<And>x. P x \<Longrightarrow> Q x) \<Longrightarrow> settled_array k Q v"
  by (cases v) (auto simp: list_all_iff)

lemma message_nulls_id: "settled_array ''content'' settled_part m \<Longrightarrow> normalizeLegacyMessageNulls m = (m, [])"
  unfolding normalizeLegacyMessageNulls_def by (rule mapProtocolArray_id [of _ settled_part], assumption) (simp add: settled_part_def)

lemma message_nulls_settled: "settled_array ''content'' settled_part (fst (normalizeLegacyMessageNulls m))"
  unfolding normalizeLegacyMessageNulls_def by (rule mapProtocolArray_settled) (rule normalize_part_settled)

lemma convertible_binary: "convertible p \<Longrightarrow> is_object p \<and> jget p ''type'' = JStr ''binary''"
  by (simp add: convertible_def isLegacyBinaryContent_def)

lemma upgrade_settled:
  assumes "settled_array ''content'' settled_part msg"
  shows "settled_message (upgradeMessageContent msg)"
proof (cases msg)
  case (JObj m)
  show ?thesis
  proof (cases "oget m ''content''")
    case (JArr raw)
    have "settled_part p \<and> \<not> convertible p" if "p \<in> set (concat (map (upgrade_part raw) raw))" for p
    proof -
      from that obtain q where q: "q \<in> set raw" "p \<in> set (upgrade_part raw q)" by auto
      with assms JObj JArr have "settled_part q" by (simp add: list_all_iff)
      with q(2) converted_settled [of q] have "settled_part p"
        by (cases "convertible q") (auto simp: upgrade_part_kept upgrade_part_converted split: if_splits)
      with upgrade_part_in [OF q(2)] show ?thesis by simp
    qed
    with JObj JArr show ?thesis by (auto simp: upgradeMessageContent_def settled_message_def list_all_iff)
  qed (use JObj in \<open>simp_all add: upgradeMessageContent_def settled_message_def\<close>)
qed (simp_all add: upgradeMessageContent_def settled_message_def)

lemma upgrade_id: "settled_message msg \<Longrightarrow> upgradeMessageContent msg = msg"
proof (cases msg)
  case (JObj m)
  assume s: "settled_message msg"
  show ?thesis
  proof (cases "oget m ''content''")
    case (JArr raw)
    with s JObj have "concat (map (upgrade_part raw) raw) = raw"
      by (intro upgrade_none) (simp add: settled_message_def list_all_iff)
    moreover have "has_own m ''content''" using JArr oget_not_own [of m "''content''"] by force
    ultimately show ?thesis using JObj JArr oset_oget [of m "''content''"] by (simp add: upgradeMessageContent_def)
  qed (use JObj in \<open>simp_all add: upgradeMessageContent_def\<close>)
qed (simp_all add: upgradeMessageContent_def)

lemma no_binary_settled:
  "settled_array ''content'' settled_part msg \<Longrightarrow> \<not> has_legacy_binary msg \<Longrightarrow> settled_message msg"
  by (cases msg) (auto simp: settled_message_def has_legacy_binary_def list_all_iff list_ex_iff dest: convertible_binary)

lemma upgradeInboundMessage_settled: "settled_message (fst (snd (upgradeInboundMessage st msg)))"
  using message_nulls_settled [of msg] upgrade_settled no_binary_settled
  by (auto simp: upgradeInboundMessage_def case_prod_unfold Let_def)

lemma upgradeInboundMessage_id: "settled_message msg \<Longrightarrow> fst (snd (upgradeInboundMessage st msg)) = msg"
proof -
  assume s: "settled_message msg"
  then have "normalizeLegacyMessageNulls msg = (msg, [])"
    unfolding settled_message_def by (intro message_nulls_id) (erule settled_array_mono, simp)
  with upgrade_id [OF s] show ?thesis by (simp add: upgradeInboundMessage_def case_prod_unfold Let_def)
qed

lemma upgradeInboundMessages_settled: "list_all settled_message (fst (snd (upgradeInboundMessages st ms)))"
  by (induction ms arbitrary: st) (simp_all add: case_prod_unfold Let_def upgradeInboundMessage_settled)

lemma upgradeInboundMessages_id: "list_all settled_message ms \<Longrightarrow> fst (snd (upgradeInboundMessages st ms)) = ms"
  by (induction ms arbitrary: st) (simp_all add: case_prod_unfold Let_def upgradeInboundMessage_id)

subsection \<open>Events\<close>

definition settled_input :: "jsval \<Rightarrow> bool" where
  "settled_input v \<longleftrightarrow> settled_value input_nulls v \<and> settled_array ''tools'' (settled_value tool_nulls) v \<and>
     settled_array ''resume'' (settled_value resume_nulls) v \<and> settled_array ''messages'' settled_message v"

definition thinking_types :: "event_type list" where
  "thinking_types = [THINKING_START, THINKING_END, THINKING_TEXT_MESSAGE_START, THINKING_TEXT_MESSAGE_CONTENT, THINKING_TEXT_MESSAGE_END]"

definition type_nulls :: "event_type \<Rightarrow> string list" where
  "type_nulls t = (case map_of EVENT_TYPE_OPTIONAL_NULLS t of None \<Rightarrow> [] | Some fs \<Rightarrow> fs)"

definition settled_event :: "event \<Rightarrow> bool" where
  "settled_event ev \<longleftrightarrow> ev_type ev \<notin> set thinking_types \<and> no_nulls (event_nulls @ type_nulls (ev_type ev)) (ev_props ev) \<and>
     (ev_type ev = RUN_FINISHED \<longrightarrow> settled_value outcome_nulls (field ev ''outcome'') \<and>
        settled_array ''usage'' (settled_value usage_nulls) (JObj (ev_props ev))) \<and>
     (ev_type ev = MESSAGES_SNAPSHOT \<longrightarrow> settled_array ''messages'' settled_message (JObj (ev_props ev))) \<and>
     (ev_type ev = RUN_STARTED \<longrightarrow> settled_input (field ev ''input''))"

lemma event_level_type [simp]: "ev_type (fst (event_level_nulls ev)) = ev_type ev"
  by (simp add: event_level_nulls_def omit_event_nulls_def case_prod_unfold Let_def split: option.split)

lemma no_nulls_append [simp]: "no_nulls (xs @ ys) m \<longleftrightarrow> no_nulls xs m \<and> no_nulls ys m"
  by (simp add: no_nulls_def)

lemma event_level_settled: "no_nulls (event_nulls @ type_nulls (ev_type ev)) (ev_props (fst (event_level_nulls ev)))"
  by (auto simp: event_level_nulls_def omit_event_nulls_def case_prod_unfold Let_def type_nulls_def
      no_nulls_def list_all_iff oget_omit_each split: option.split)

lemma event_level_id: "no_nulls (event_nulls @ type_nulls (ev_type ev)) (ev_props ev) \<Longrightarrow> event_level_nulls ev = (ev, [])"
  by (auto simp: event_level_nulls_def omit_event_nulls_def omit_each_id type_nulls_def split: option.split)

text \<open>Only the listed fields can change: \<open>k\<close> is untouched unless it held a listed null.\<close>

lemma event_level_field:
  "field (fst (event_level_nulls ev)) k =
     (if k \<in> set (event_nulls @ type_nulls (ev_type ev)) \<and> field ev k = JNull then JUndef else field ev k)"
  by (auto simp: event_level_nulls_def omit_event_nulls_def case_prod_unfold Let_def type_nulls_def
      oget_omit_each field_def split: option.split)

lemma translate_other:
  "ev_type ev \<notin> set thinking_types \<Longrightarrow> ev_type ev \<notin> {RUN_FINISHED, MESSAGES_SNAPSHOT, RUN_STARTED} \<Longrightarrow>
     translate uuid ev st = (st, ev, [])"
  by (auto simp: translate_def thinking_types_def)

lemma translate_modern:
  "ev_type ev = RUN_FINISHED \<Longrightarrow> fst (snd (translate uuid ev st)) = fst (finished_nulls ev)"
  "ev_type ev = MESSAGES_SNAPSHOT \<Longrightarrow> translate uuid ev st = on_legacy_snapshot ev st"
  "ev_type ev = RUN_STARTED \<Longrightarrow> translate uuid ev st = on_legacy_run_started ev st"
  by (simp_all add: translate_def case_prod_unfold Let_def)

lemma finished_nulls_id:
  "settled_value outcome_nulls (field ev ''outcome'') \<Longrightarrow> settled_array ''usage'' (settled_value usage_nulls) (JObj (ev_props ev)) \<Longrightarrow>
     fst (finished_nulls ev) = ev"
  by (simp add: finished_nulls_def omitNulls_id mapProtocolArray_id [of _ "settled_value usage_nulls"])

lemma snapshot_id:
  assumes "settled_array ''messages'' settled_message (JObj (ev_props ev))"
  shows "fst (snd (on_legacy_snapshot ev st)) = ev"
proof (cases "field ev ''messages''")
  case (JArr ms)
  with assms have "list_all settled_message ms" by (simp add: field_def)
  moreover have "has_own (ev_props ev) ''messages''"
    using JArr oget_not_own [of "ev_props ev" "''messages''"] by (force simp: field_def)
  ultimately show ?thesis using JArr oset_oget [of "ev_props ev" "''messages''"]
    by (simp add: on_legacy_snapshot_def case_prod_unfold Let_def upgradeInboundMessages_id field_def)
qed (simp_all add: on_legacy_snapshot_def)

lemma input_id: "settled_input v \<Longrightarrow> normalizeLegacyRunAgentInput v = (v, [])"
proof -
  assume s: "settled_input v"
  have "mapProtocolArray v ''messages'' normalizeLegacyMessageNulls = (v, [])"
    using s message_nulls_id unfolding settled_input_def settled_message_def
    by (intro mapProtocolArray_id [of _ "settled_array ''content'' settled_part"]) (auto elim!: settled_array_mono)
  moreover have "mapProtocolArray v ''tools'' (\<lambda>t. omitNulls t tool_nulls l) = (v, [])" for l
    using s omitNulls_id by (intro mapProtocolArray_id [of _ "settled_value tool_nulls"]) (simp_all add: settled_input_def)
  moreover have "mapProtocolArray v ''resume'' (\<lambda>t. omitNulls t resume_nulls l) = (v, [])" for l
    using s omitNulls_id by (intro mapProtocolArray_id [of _ "settled_value resume_nulls"]) (simp_all add: settled_input_def)
  ultimately show ?thesis using s by (simp add: normalizeLegacyRunAgentInput_def omitNulls_id settled_input_def)
qed

lemma run_started_id:
  assumes "settled_input (field ev ''input'')"
  shows "fst (snd (on_legacy_run_started ev st)) = ev"
proof (cases "field ev ''input''")
  case (JObj m)
  have own: "has_own (ev_props ev) ''input''"
    using JObj oget_not_own [of "ev_props ev" "''input''"] by (force simp: field_def)
  show ?thesis
  proof (cases "oget m ''messages''")
    case (JArr ms)
    with assms JObj have "list_all settled_message ms" by (simp add: settled_input_def)
    moreover have "has_own m ''messages''" using JArr oget_not_own [of m "''messages''"] by force
    ultimately show ?thesis
      using JArr JObj own assms oset_oget [of "ev_props ev" "''input''"] oset_oget [of m "''messages''"]
      by (simp add: on_legacy_run_started_def input_id case_prod_unfold Let_def upgradeInboundMessages_id field_def)
  qed (use JObj assms in \<open>simp_all add: on_legacy_run_started_def input_id case_prod_unfold Let_def\<close>)
qed (use assms in \<open>simp_all add: on_legacy_run_started_def input_id case_prod_unfold Let_def\<close>)

text \<open>What the boundary has to do with an event of today: nothing.\<close>

lemma transform_settled: "settled_event ev \<Longrightarrow> fst (snd (transformEvent uuid ev st)) = ev"
proof -
  assume s: "settled_event ev"
  then have l: "event_level_nulls ev = (ev, [])" by (intro event_level_id) (simp add: settled_event_def)
  have "fst (snd (translate uuid ev st')) = ev" for st'
  proof (cases "ev_type ev \<in> {RUN_FINISHED, MESSAGES_SNAPSHOT, RUN_STARTED}")
    case True
    then consider "ev_type ev = RUN_FINISHED" | "ev_type ev = MESSAGES_SNAPSHOT" | "ev_type ev = RUN_STARTED" by blast
    then show ?thesis
      using s by cases (simp_all add: translate_modern settled_event_def finished_nulls_id snapshot_id run_started_id)
  qed (use s in \<open>simp add: translate_other settled_event_def\<close>)
  with l show ?thesis by (simp add: transformEvent_def case_prod_unfold Let_def)
qed

subsection \<open>What leaves the boundary is of today\<close>

lemma no_nulls_oset: "no_nulls flds m \<Longrightarrow> v \<noteq> JNull \<or> k \<notin> set flds \<Longrightarrow> no_nulls flds (oset k v m)"
  by (auto simp: no_nulls_def list_all_iff)

lemma no_nulls_odel: "no_nulls flds m \<Longrightarrow> no_nulls flds (odel k m)"
  by (auto simp: no_nulls_def list_all_iff)

lemma omitNulls_null [simp]: "fst (omitNulls v flds label) = JNull \<longleftrightarrow> v = JNull"
  by (cases v) (simp_all add: omitNulls_def case_prod_unfold Let_def)

lemma mapProtocolArray_null [simp]: "fst (mapProtocolArray v k f) = JNull \<longleftrightarrow> v = JNull"
  by (cases v) (auto simp: mapProtocolArray_def Let_def split: jsval.split)

lemma mapProtocolArray_JObj:
  "\<exists>m'. fst (mapProtocolArray (JObj m) k f) = JObj m' \<and> (\<forall>k'. k' \<noteq> k \<longrightarrow> oget m' k' = oget m k')"
  by (cases "oget m k") (simp_all add: mapProtocolArray_def Let_def)

lemma translate_thinking:
  "ev_type ev = THINKING_START \<Longrightarrow> translate uuid ev st = on_thinking_start uuid ev st"
  "ev_type ev = THINKING_TEXT_MESSAGE_START \<Longrightarrow> translate uuid ev st = on_thinking_text_start uuid ev st"
  "ev_type ev = THINKING_TEXT_MESSAGE_CONTENT \<Longrightarrow> translate uuid ev st = on_thinking_text_content uuid ev st"
  "ev_type ev = THINKING_TEXT_MESSAGE_END \<Longrightarrow> translate uuid ev st = on_thinking_text_end uuid ev st"
  "ev_type ev = THINKING_END \<Longrightarrow> translate uuid ev st = on_thinking_end uuid ev st"
  by (simp_all add: translate_def)

lemma settled_reasoning:
  "ev_type ev \<in> {REASONING_START, REASONING_MESSAGE_START, REASONING_MESSAGE_CONTENT, REASONING_MESSAGE_END, REASONING_END} \<Longrightarrow>
     no_nulls event_nulls (ev_props ev) \<Longrightarrow> settled_event ev"
  by (auto simp: settled_event_def thinking_types_def type_nulls_def EVENT_TYPE_OPTIONAL_NULLS_def no_nulls_def)

lemma event_nulls_oset: "no_nulls event_nulls m \<Longrightarrow> k \<notin> set event_nulls \<Longrightarrow> no_nulls event_nulls (oset k v m)"
  by (rule no_nulls_oset) simp_all

lemma thinking_fields: "''messageId'' \<notin> set event_nulls" "''role'' \<notin> set event_nulls" "''delta'' \<notin> set event_nulls"
  by (simp_all add: event_nulls_def)

lemma settled_thinking:
  assumes "ev_type ev \<in> set thinking_types" "no_nulls event_nulls (ev_props ev)"
  shows "settled_event (fst (snd (translate uuid ev st)))"
proof -
  note handler = on_thinking_start_def on_thinking_text_start_def on_thinking_text_content_def on_thinking_text_end_def
    on_thinking_end_def retyped_def case_prod_unfold Let_def
  note keep = event_nulls_oset no_nulls_odel thinking_fields assms(2)
  from assms(1) consider "ev_type ev = THINKING_START" | "ev_type ev = THINKING_TEXT_MESSAGE_START"
    | "ev_type ev = THINKING_TEXT_MESSAGE_CONTENT" | "ev_type ev = THINKING_TEXT_MESSAGE_END" | "ev_type ev = THINKING_END"
    unfolding thinking_types_def by auto
  then show ?thesis
    by cases (simp_all only: translate_thinking, (rule settled_reasoning; simp add: handler keep)+)
qed

lemma finished_nulls_settled:
  assumes t: "ev_type ev = RUN_FINISHED" and n: "no_nulls (event_nulls @ type_nulls RUN_FINISHED) (ev_props ev)"
  shows "settled_event (fst (finished_nulls ev))"
proof -
  let ?o = "fst (omitNulls (field ev ''outcome'') outcome_nulls (Some ''RUN_FINISHED.outcome''))"
  let ?m = "if ?o = field ev ''outcome'' then ev_props ev else oset ''outcome'' ?o (ev_props ev)"
  let ?f = "\<lambda>entry. omitNulls entry usage_nulls (Some ''RUN_FINISHED.usage[]'')"
  obtain m' where m': "fst (mapProtocolArray (JObj ?m) ''usage'' ?f) = JObj m'" "\<And>k'. k' \<noteq> ''usage'' \<Longrightarrow> oget m' k' = oget ?m k'"
    using mapProtocolArray_JObj [of ?m "''usage''" ?f] by blast
  have ev': "fst (finished_nulls ev) = ev\<lparr>ev_props := m'\<rparr>"
    using m'(1) by (simp add: finished_nulls_def case_prod_unfold Let_def)
  have flds: "event_nulls @ type_nulls RUN_FINISHED = [''rawEvent'', ''subagentRunId'', ''result'', ''outcome'']"
    by (simp add: event_nulls_def type_nulls_def EVENT_TYPE_OPTIONAL_NULLS_def)
  have outcome: "oget ?m ''outcome'' = ?o" by (simp add: field_def)
  have "oget (ev_props ev) ''outcome'' \<noteq> JNull" using n unfolding flds by (simp add: no_nulls_def)
  then have "?o \<noteq> JNull" by (simp add: field_def)
  then have "no_nulls (event_nulls @ type_nulls RUN_FINISHED) m'"
    using n outcome m'(2) unfolding flds by (auto simp: no_nulls_def)
  moreover have "settled_value outcome_nulls (oget m' ''outcome'')"
    using m'(2) [of "''outcome''"] outcome omitNulls_settled by simp
  moreover have "settled_array ''usage'' (settled_value usage_nulls) (JObj m')"
    unfolding m'(1) [symmetric] by (rule mapProtocolArray_settled) (rule omitNulls_settled)
  ultimately show ?thesis
    using t ev' by (simp add: settled_event_def thinking_types_def)
qed

lemma snapshot_settled:
  assumes t: "ev_type ev = MESSAGES_SNAPSHOT" and n: "no_nulls (event_nulls @ type_nulls MESSAGES_SNAPSHOT) (ev_props ev)"
  shows "settled_event (fst (snd (on_legacy_snapshot ev st)))"
  using n upgradeInboundMessages_settled
  by (cases "field ev ''messages''")
    (auto simp: on_legacy_snapshot_def case_prod_unfold Let_def settled_event_def thinking_types_def t type_nulls_def
      EVENT_TYPE_OPTIONAL_NULLS_def event_nulls_def field_def intro!: no_nulls_oset)

lemma input_settled:
  assumes "fst (normalizeLegacyRunAgentInput v) = v'"
  shows "settled_value input_nulls v'" "settled_array ''tools'' (settled_value tool_nulls) v'"
    "settled_array ''resume'' (settled_value resume_nulls) v'"
proof -
  let ?v1 = "fst (omitNulls v input_nulls (Some ''RunAgentInput''))"
  let ?v2 = "fst (mapProtocolArray ?v1 ''tools'' (\<lambda>tool. omitNulls tool tool_nulls (Some ''Tool'')))"
  let ?v3 = "fst (mapProtocolArray ?v2 ''resume'' (\<lambda>entry. omitNulls entry resume_nulls (Some ''ResumeEntry'')))"
  have v': "v' = fst (mapProtocolArray ?v3 ''messages'' normalizeLegacyMessageNulls)"
    using assms by (simp add: normalizeLegacyRunAgentInput_def case_prod_unfold Let_def)
  show "settled_value input_nulls v'"
    unfolding v' using omitNulls_settled [of input_nulls v "Some ''RunAgentInput''"]
    by (intro mapProtocolArray_fields) (simp_all add: input_nulls_def)
  have tools: "settled_array ''tools'' (settled_value tool_nulls) ?v2"
    by (rule mapProtocolArray_settled) (rule omitNulls_settled)
  show "settled_array ''tools'' (settled_value tool_nulls) v'"
    unfolding v' by (rule mapProtocolArray_other [OF mapProtocolArray_other [OF tools]]) simp_all
  have resume: "settled_array ''resume'' (settled_value resume_nulls) ?v3"
    by (rule mapProtocolArray_settled) (rule omitNulls_settled)
  show "settled_array ''resume'' (settled_value resume_nulls) v'"
    unfolding v' by (rule mapProtocolArray_other [OF resume]) simp
qed

lemma input_null: "fst (normalizeLegacyRunAgentInput v) = JNull \<longleftrightarrow> v = JNull"
  by (simp add: normalizeLegacyRunAgentInput_def case_prod_unfold Let_def)

lemma run_started_settled:
  assumes t: "ev_type ev = RUN_STARTED" and n: "no_nulls (event_nulls @ type_nulls RUN_STARTED) (ev_props ev)"
  shows "settled_event (fst (snd (on_legacy_run_started ev st)))"
proof -
  obtain v where v: "fst (normalizeLegacyRunAgentInput (field ev ''input'')) = v" by blast
  define ev1 where "ev1 = (if v = field ev ''input'' then ev else ev\<lparr>ev_props := oset ''input'' v (ev_props ev)\<rparr>)"
  have f: "field ev1 ''input'' = v" "ev_type ev1 = RUN_STARTED" using t by (simp_all add: ev1_def)
  have r: "fst (snd (on_legacy_run_started ev st)) =
      (case v of
         JObj m \<Rightarrow>
           (case oget m ''messages'' of
              JArr ms \<Rightarrow> ev1\<lparr>ev_props := oset ''input'' (JObj (oset ''messages''
                (JArr (fst (snd (upgradeInboundMessages (fst (noticeNullOncePerRun (snd (normalizeLegacyRunAgentInput (field ev ''input''))) st)) ms)))) m)) (ev_props ev1)\<rparr>
            | _ \<Rightarrow> ev1)
       | _ \<Rightarrow> ev1)"
    unfolding on_legacy_run_started_def case_prod_unfold Let_def v ev1_def [symmetric] f(1)
    by (simp split: jsval.split)
  have flds: "event_nulls @ type_nulls RUN_STARTED = [''rawEvent'', ''subagentRunId'', ''parentRunId'', ''input'']"
    by (simp add: event_nulls_def type_nulls_def EVENT_TYPE_OPTIONAL_NULLS_def)
  have "v \<noteq> JNull" using n input_null [of "field ev ''input''"] unfolding v flds by (simp add: no_nulls_def field_def)
  then have n1: "no_nulls (event_nulls @ type_nulls RUN_STARTED) (ev_props ev1)" using n by (auto simp: ev1_def intro: no_nulls_oset)
  have plain: "settled_event ev1" if "settled_array ''messages'' settled_message v"
    using that n1 f input_settled [OF v] by (simp add: settled_event_def settled_input_def thinking_types_def)
  show ?thesis
  proof (cases v)
    case (JObj m)
    show ?thesis
    proof (cases "oget m ''messages''")
      case (JArr ms)
      have "settled_input (JObj (oset ''messages'' (JArr (fst (snd (upgradeInboundMessages st' ms)))) m))" for st'
        using input_settled [OF v] upgradeInboundMessages_settled JObj
        by (auto simp: settled_input_def input_nulls_def no_nulls_def)
      with n1 f show ?thesis unfolding r
        by (auto simp: settled_event_def thinking_types_def JObj JArr intro!: no_nulls_oset)
    qed (use JObj plain in \<open>simp_all add: r\<close>)
  qed (use plain in \<open>simp_all add: r\<close>)
qed

lemma settled_plain:
  "ev_type ev \<notin> set thinking_types \<Longrightarrow> ev_type ev \<notin> {RUN_FINISHED, MESSAGES_SNAPSHOT, RUN_STARTED} \<Longrightarrow>
     no_nulls (event_nulls @ type_nulls (ev_type ev)) (ev_props ev) \<Longrightarrow> settled_event ev"
  by (auto simp: settled_event_def)

lemma transform_result_settled: "settled_event (fst (snd (transformEvent uuid ev st)))"
proof -
  let ?ev = "fst (event_level_nulls ev)"
  have n: "no_nulls (event_nulls @ type_nulls (ev_type ?ev)) (ev_props ?ev)"
    using event_level_settled [of ev] by (simp del: no_nulls_append)
  have "settled_event (fst (snd (translate uuid ?ev st')))" for st'
  proof -
    consider "ev_type ?ev \<in> set thinking_types" | "ev_type ?ev = RUN_FINISHED" | "ev_type ?ev = MESSAGES_SNAPSHOT"
      | "ev_type ?ev = RUN_STARTED"
      | "ev_type ?ev \<notin> set thinking_types" "ev_type ?ev \<notin> {RUN_FINISHED, MESSAGES_SNAPSHOT, RUN_STARTED}" by blast
    then show ?thesis
    proof cases
      case 1
      with n show ?thesis by (intro settled_thinking) simp_all
    next
      case 2
      with n finished_nulls_settled show ?thesis by (metis translate_modern(1))
    next
      case 3
      with n snapshot_settled show ?thesis by (metis translate_modern(2))
    next
      case 4
      with n run_started_settled show ?thesis by (metis translate_modern(3))
    next
      case 5
      with n settled_plain show ?thesis by (metis translate_other fst_conv snd_conv)
    qed
  qed
  then show ?thesis by (simp add: transformEvent_def case_prod_unfold Let_def)
qed

lemma boundary_settled: "list_all settled_event (fst (boundary_events uuid st es))"
  by (induction es arbitrary: st) (simp_all add: case_prod_unfold Let_def transform_result_settled)

lemma boundary_id: "list_all settled_event es \<Longrightarrow> fst (boundary_events uuid st es) = es"
  by (induction es arbitrary: st) (simp_all add: case_prod_unfold Let_def transform_settled)

end
