(* ===== verification/BoundarySpec.thy ===== *)
theory BoundarySpec
  imports BoundaryProps VerifySpec
begin

text \<open>
  The properties of the compatibility boundary: it has nothing left to do on its own output, it says of each kind of null once per run that it converts it, and a
  stream of retired reasoning events that keeps their discipline becomes one the verifier accepts. The last is a simulation between the reference acceptor on the
  original and on the translated stream, which has open, besides, what \<open>translated_open\<close> reads off the boundary's state.
\<close>


subsection \<open>Notices about nulls\<close>

definition is_null_notice :: "notice \<Rightarrow> bool" where
  "is_null_notice n = (case n of Converting _ to \<Rightarrow> to = ''an absent field'' | _ \<Rightarrow> False)"

text \<open>The notices given between two states are new, different, and remembered.\<close>

definition noticed :: "boundary_fields \<Rightarrow> boundary_fields \<Rightarrow> notice list \<Rightarrow> bool" where
  "noticed st st' ns \<longleftrightarrow>
     distinct (filter is_null_notice ns) \<and>
     set (filter is_null_notice ns) \<inter> (\<lambda>w. Converting w ''an absent field'') ` set (nullsNoticedThisRun st) = {} \<and>
     (\<lambda>w. Converting w ''an absent field'') ` set (nullsNoticedThisRun st') =
       (\<lambda>w. Converting w ''an absent field'') ` set (nullsNoticedThisRun st) \<union> set (filter is_null_notice ns)"

lemma noticed_trans: "noticed st st1 a \<Longrightarrow> noticed st1 st2 b \<Longrightarrow> noticed st st2 (a @ b)"
  by (auto simp: noticed_def)

lemma noticed_none: "nullsNoticedThisRun st' = nullsNoticedThisRun st \<Longrightarrow> (\<And>n. n \<in> set ns \<Longrightarrow> \<not> is_null_notice n) \<Longrightarrow> noticed st st' ns"
  by (simp add: noticed_def filter_False)

lemma noticed_Nil [simp]: "noticed st st []"
  by (simp add: noticed_def)

lemma noticeNulls_noticed:
  "noticeNulls seen ws = (seen', ns) \<Longrightarrow> nullsNoticedThisRun st = seen \<Longrightarrow> nullsNoticedThisRun st' = seen' \<Longrightarrow> noticed st st' ns"
proof (induction ws arbitrary: seen ns st)
  case (Cons w ws)
  show ?case
  proof (cases "w \<in> set seen")
    case False
    obtain ns' where r: "noticeNulls (set_add w seen) ws = (seen', ns')" "ns = Converting w ''an absent field'' # ns'"
      using Cons.prems(1) False by (auto simp: Let_def split: prod.splits)
    have "noticed (st\<lparr>nullsNoticedThisRun := set_add w seen\<rparr>) st' ns'" using Cons.IH [OF r(1)] Cons.prems(3) by simp
    moreover have "noticed st (st\<lparr>nullsNoticedThisRun := set_add w seen\<rparr>) [Converting w ''an absent field'']"
      using False Cons.prems(2) by (auto simp: noticed_def is_null_notice_def)
    ultimately show ?thesis using noticed_trans [of st _ "[Converting w ''an absent field'']"] r(2) by fastforce
  qed (use Cons in simp)
qed (auto intro: noticed_none)

lemma notice_noticed: "noticed st (fst (noticeNullOncePerRun ws st)) (snd (noticeNullOncePerRun ws st))"
  by (rule noticeNulls_noticed [of "nullsNoticedThisRun st" ws])
    (auto simp: noticeNullOncePerRun_def case_prod_unfold Let_def)

lemma upgradeInboundMessage_noticed:
  "noticed st (fst (upgradeInboundMessage st m)) (snd (snd (upgradeInboundMessage st m)))"
proof -
  have "noticed st' st' [Converting ''binary input content'' r]" if "r = ''the modern media content parts''" for st' r
    using that by (intro noticed_none) (auto simp: is_null_notice_def)
  from noticed_trans [OF notice_noticed this [OF refl]] notice_noticed show ?thesis
    by (simp add: upgradeInboundMessage_def case_prod_unfold Let_def)
qed

lemma upgradeInboundMessages_noticed:
  "noticed st (fst (upgradeInboundMessages st ms)) (snd (snd (upgradeInboundMessages st ms)))"
proof (induction ms arbitrary: st)
  case (Cons m ms)
  show ?case
    using noticed_trans [OF upgradeInboundMessage_noticed Cons.IH] by (simp add: case_prod_unfold Let_def)
qed simp

lemmas thinking_handlers = on_thinking_start_def on_thinking_text_start_def on_thinking_text_content_def on_thinking_text_end_def
  on_thinking_end_def mintedContinuationId_def randomUUID_def case_prod_unfold Let_def

lemma thinking_noticed:
  "ev_type ev \<in> set thinking_types \<Longrightarrow> noticed st (fst (translate uuid ev st)) (snd (snd (translate uuid ev st)))"
proof -
  assume "ev_type ev \<in> set thinking_types"
  then consider "ev_type ev = THINKING_START" | "ev_type ev = THINKING_TEXT_MESSAGE_START"
    | "ev_type ev = THINKING_TEXT_MESSAGE_CONTENT" | "ev_type ev = THINKING_TEXT_MESSAGE_END" | "ev_type ev = THINKING_END"
    unfolding thinking_types_def by auto
  then show ?thesis
    by cases (simp_all only: translate_thinking,
      (rule noticed_none; auto simp: thinking_handlers is_null_notice_def split: option.splits if_splits)+)
qed

lemma run_started_noticed:
  "noticed st (fst (on_legacy_run_started ev st)) (snd (snd (on_legacy_run_started ev st)))"
proof -
  let ?r = "noticeNullOncePerRun (snd (normalizeLegacyRunAgentInput (field ev ''input''))) st"
  note n = notice_noticed [of st "snd (normalizeLegacyRunAgentInput (field ev ''input''))"]
  have "noticed st (fst (upgradeInboundMessages (fst ?r) ms)) (snd ?r @ snd (snd (upgradeInboundMessages (fst ?r) ms)))" for ms
    by (rule noticed_trans [OF n upgradeInboundMessages_noticed])
  with n show ?thesis
    unfolding on_legacy_run_started_def case_prod_unfold Let_def by (auto split: jsval.split)
qed

lemma translate_noticed: "noticed st (fst (translate uuid ev st)) (snd (snd (translate uuid ev st)))"
proof -
  consider "ev_type ev \<in> set thinking_types" | "ev_type ev = RUN_FINISHED" | "ev_type ev = MESSAGES_SNAPSHOT"
    | "ev_type ev = RUN_STARTED"
    | "ev_type ev \<notin> set thinking_types" "ev_type ev \<notin> {RUN_FINISHED, MESSAGES_SNAPSHOT, RUN_STARTED}" by blast
  then show ?thesis
  proof cases
    case 2
    then show ?thesis using notice_noticed by (simp add: translate_def case_prod_unfold Let_def)
  next
    case 3
    then show ?thesis using upgradeInboundMessages_noticed
      by (simp add: translate_modern on_legacy_snapshot_def case_prod_unfold Let_def split: jsval.split)
  qed (simp_all add: thinking_noticed translate_modern run_started_noticed translate_other)
qed

lemma transform_noticed:
  "noticed (clear_noticed ev st) (fst (transformEvent uuid ev st)) (snd (snd (transformEvent uuid ev st)))"
  using noticed_trans [OF notice_noticed translate_noticed]
  by (simp add: transformEvent_def case_prod_unfold Let_def)

fun boundary_state :: "(nat \<Rightarrow> string) \<Rightarrow> boundary_fields \<Rightarrow> event list \<Rightarrow> boundary_fields" where
  "boundary_state uuid st [] = st"
| "boundary_state uuid st (ev # evs) = boundary_state uuid (fst (transformEvent uuid ev st)) evs"

lemma boundary_noticed:
  "list_all (\<lambda>ev. ev_type ev \<noteq> RUN_STARTED) es \<Longrightarrow> noticed st (boundary_state uuid st es) (snd (boundary_events uuid st es))"
proof (induction es arbitrary: st)
  case (Cons ev es)
  then have "clear_noticed ev st = st" by (simp add: clear_noticed_def)
  with transform_noticed [of ev st uuid] Cons noticed_trans show ?case
    by (simp add: case_prod_unfold Let_def)
qed simp

subsection \<open>Retired reasoning events\<close>

text \<open>The discipline of the retired events: a span and a text message within the stream, at most one of each open, and none when a run starts or finishes.\<close>

fun thinking_step :: "bool \<times> bool \<Rightarrow> event_type \<Rightarrow> (bool \<times> bool) option" where
  "thinking_step (span, msg) t =
     (if t = THINKING_START then (if span then None else Some (True, msg))
      else if t = THINKING_END then (if span then Some (False, msg) else None)
      else if t = THINKING_TEXT_MESSAGE_START then (if msg then None else Some (span, True))
      else if t = THINKING_TEXT_MESSAGE_CONTENT then (if msg then Some (span, msg) else None)
      else if t = THINKING_TEXT_MESSAGE_END then (if msg then Some (span, False) else None)
      else if (t = RUN_STARTED \<or> t = RUN_FINISHED) \<and> (span \<or> msg) then None
      else Some (span, msg))"

fun thinking_ok :: "bool \<times> bool \<Rightarrow> event list \<Rightarrow> bool" where
  "thinking_ok p [] = True"
| "thinking_ok p (ev # es) = (case thinking_step p (ev_type ev) of None \<Rightarrow> False | Some p' \<Rightarrow> thinking_ok p' es)"

text \<open>Fresh identifiers: the reasoning events of the stream use none of them.\<close>

definition reasoning_types :: "event_type list" where
  "reasoning_types = [REASONING_START, REASONING_MESSAGE_START, REASONING_MESSAGE_CONTENT, REASONING_MESSAGE_END, REASONING_END]"

definition unused :: "(nat \<Rightarrow> string) \<Rightarrow> event \<Rightarrow> bool" where
  "unused uuid ev \<longleftrightarrow> (ev_type ev \<in> set reasoning_types \<longrightarrow> field ev ''messageId'' \<notin> JStr ` range uuid)"

definition minted_entities :: "(nat \<Rightarrow> string) \<Rightarrow> entity set" where
  "minted_entities uuid = (\<lambda>i. ReasoningSpan (JStr i)) ` range uuid \<union> (\<lambda>i. ReasoningMessage (JStr i)) ` range uuid"

definition translated_open :: "boundary_fields \<Rightarrow> entity set" where
  "translated_open st = {ReasoningSpan (JStr i) | i. currentReasoningId st = Some i} \<union>
     {ReasoningMessage (JStr i) | i. currentMessageId st = Some i}"

definition thinking_state :: "boundary_fields \<Rightarrow> bool \<times> bool" where
  "thinking_state st = (currentReasoningId st \<noteq> None, currentMessageId st \<noteq> None)"

text \<open>An event that is not translated keeps its type and what the verifier's entities read.\<close>

lemma notice_ids [simp]:
  "currentReasoningId (fst (noticeNullOncePerRun ws st)) = currentReasoningId st"
  "currentMessageId (fst (noticeNullOncePerRun ws st)) = currentMessageId st"
  "uuids (fst (noticeNullOncePerRun ws st)) = uuids st"
  by (simp_all add: noticeNullOncePerRun_def case_prod_unfold Let_def)

lemma upgradeInboundMessage_ids [simp]:
  "currentReasoningId (fst (upgradeInboundMessage st m)) = currentReasoningId st"
  "currentMessageId (fst (upgradeInboundMessage st m)) = currentMessageId st"
  "uuids (fst (upgradeInboundMessage st m)) = uuids st"
  by (simp_all add: upgradeInboundMessage_def case_prod_unfold Let_def)

lemma upgradeInboundMessages_ids [simp]:
  "currentReasoningId (fst (upgradeInboundMessages st ms)) = currentReasoningId st"
  "currentMessageId (fst (upgradeInboundMessages st ms)) = currentMessageId st"
  "uuids (fst (upgradeInboundMessages st ms)) = uuids st"
  by (induction ms arbitrary: st) (simp_all add: case_prod_unfold Let_def)

definition same_ids :: "boundary_fields \<Rightarrow> boundary_fields \<Rightarrow> bool" where
  "same_ids st st' \<longleftrightarrow> currentReasoningId st' = currentReasoningId st \<and> currentMessageId st' = currentMessageId st \<and> uuids st' = uuids st"

lemma translate_same:
  assumes "ev_type ev \<notin> set thinking_types"
  shows "same_ids st (fst (translate uuid ev st)) \<and> ev_type (fst (snd (translate uuid ev st))) = ev_type ev"
proof -
  consider "ev_type ev = RUN_FINISHED" | "ev_type ev = MESSAGES_SNAPSHOT" | "ev_type ev = RUN_STARTED"
    | "ev_type ev \<notin> {RUN_FINISHED, MESSAGES_SNAPSHOT, RUN_STARTED}" by blast
  then show ?thesis
  proof cases
    case 1
    then show ?thesis
      by (auto simp: same_ids_def translate_def case_prod_unfold Let_def finished_nulls_def split: jsval.split)
  next
    case 2
    then show ?thesis
      by (simp add: same_ids_def translate_modern on_legacy_snapshot_def case_prod_unfold Let_def split: jsval.split)
  next
    case 3
    then show ?thesis
      unfolding translate_modern(3) [OF 3] same_ids_def on_legacy_run_started_def case_prod_unfold Let_def
      by (simp split: jsval.split)
  qed (use assms in \<open>simp add: translate_other same_ids_def\<close>)
qed

lemma transform_same:
  assumes "ev_type ev \<notin> set thinking_types"
  shows "same_ids st (fst (transformEvent uuid ev st)) \<and> ev_type (fst (snd (transformEvent uuid ev st))) = ev_type ev"
  using assms translate_same [of "fst (event_level_nulls ev)"]
  by (auto simp: transformEvent_def case_prod_unfold Let_def same_ids_def clear_noticed_def)

lemma transform_fields:
  assumes "ev_type ev \<notin> set thinking_types" "ev_type ev \<notin> {RUN_FINISHED, MESSAGES_SNAPSHOT, RUN_STARTED}"
  shows "field (fst (snd (transformEvent uuid ev st))) k =
    (if k \<in> set (event_nulls @ type_nulls (ev_type ev)) \<and> field ev k = JNull then JUndef else field ev k)"
  using assms by (simp add: transformEvent_def case_prod_unfold Let_def translate_other event_level_field del: set_append)

definition id_keys :: "string list" where
  "id_keys = [''messageId'', ''toolCallId'', ''stepName'']"

lemma id_fields: "k \<in> set id_keys \<Longrightarrow> k \<notin> set (event_nulls @ type_nulls t)"
proof -
  assume k: "k \<in> set id_keys"
  have "list_all (\<lambda>k. k \<notin> set event_nulls) id_keys" by code_simp
  with k have "k \<notin> set event_nulls" by (simp add: list_all_iff)
  moreover have "k \<notin> set (type_nulls t)"
  proof (cases "map_of EVENT_TYPE_OPTIONAL_NULLS t")
    case (Some fs)
    have "list_all (\<lambda>p. list_all (\<lambda>k. k \<notin> set (snd p)) id_keys) EVENT_TYPE_OPTIONAL_NULLS" by code_simp
    with map_of_SomeD [OF Some] have "list_all (\<lambda>k. k \<notin> set fs) id_keys" by (fastforce simp: list_all_iff)
    with k Some show ?thesis by (simp add: type_nulls_def list_all_iff)
  qed (simp add: type_nulls_def)
  ultimately show ?thesis by simp
qed

lemma finished_nulls_field:
  "k \<noteq> ''usage'' \<Longrightarrow> field (fst (finished_nulls ev)) k =
     (if k = ''outcome'' then fst (omitNulls (field ev ''outcome'') outcome_nulls (Some ''RUN_FINISHED.outcome'')) else field ev k)"
proof -
  assume k: "k \<noteq> ''usage''"
  let ?o = "fst (omitNulls (field ev ''outcome'') outcome_nulls (Some ''RUN_FINISHED.outcome''))"
  let ?f = "\<lambda>entry. omitNulls entry usage_nulls (Some ''RUN_FINISHED.usage[]'')"
  define m where "m = (if ?o = field ev ''outcome'' then ev_props ev else oset ''outcome'' ?o (ev_props ev))"
  obtain m' where m': "fst (mapProtocolArray (JObj m) ''usage'' ?f) = JObj m'" "\<forall>k'. k' \<noteq> ''usage'' \<longrightarrow> oget m' k' = oget m k'"
    using mapProtocolArray_JObj [of m "''usage''" ?f] by blast
  have "fst (finished_nulls ev) = ev\<lparr>ev_props := m'\<rparr>"
    using m'(1) unfolding m_def by (simp add: finished_nulls_def case_prod_unfold Let_def)
  then have "field (fst (finished_nulls ev)) k = oget m' k" by (simp add: field_def)
  also have "\<dots> = oget m k" using m'(2) k by blast
  also have "\<dots> = (if k = ''outcome'' then ?o else field ev k)" by (auto simp: m_def field_def)
  finally show ?thesis .
qed

lemma tag_stripped: "nullish (tag_of ev) \<Longrightarrow> tag_of (strip_null_tag ev) = JUndef"
  by (auto simp: strip_null_tag_def nullish_def field_def)

lemma transform_tag: "nullish (tag_of ev) \<Longrightarrow> tag_of (fst (snd (transformEvent uuid ev st))) = JUndef"
proof -
  assume n: "nullish (tag_of ev)"
  have tag: "tag_of (fst (event_level_nulls ev)) = JUndef"
    using n by (auto simp: event_level_field nullish_def event_nulls_def)
  have "tag_of (fst (snd (translate uuid ev' st'))) = tag_of ev'" for ev' st'
  proof -
    consider "ev_type ev' = THINKING_START" | "ev_type ev' = THINKING_TEXT_MESSAGE_START"
      | "ev_type ev' = THINKING_TEXT_MESSAGE_CONTENT" | "ev_type ev' = THINKING_TEXT_MESSAGE_END" | "ev_type ev' = THINKING_END"
      | "ev_type ev' = RUN_FINISHED" | "ev_type ev' = MESSAGES_SNAPSHOT" | "ev_type ev' = RUN_STARTED"
      | "ev_type ev' \<notin> set thinking_types" "ev_type ev' \<notin> {RUN_FINISHED, MESSAGES_SNAPSHOT, RUN_STARTED}"
      unfolding thinking_types_def by fastforce
    then show ?thesis
    proof cases
      case 6
      then show ?thesis by (simp add: translate_modern finished_nulls_field)
    next
      case 7
      then show ?thesis
        by (auto simp: translate_modern on_legacy_snapshot_def case_prod_unfold Let_def field_def [of _ "''subagentRunId''"]
          split: jsval.split)
    next
      case 8
      then show ?thesis unfolding translate_modern(3) [OF 8] on_legacy_run_started_def case_prod_unfold Let_def
        by (simp add: field_def [of _ "''subagentRunId''"] split: jsval.split)
    qed (simp_all add: translate_thinking thinking_handlers retyped_def translate_other field_def)
  qed
  with tag show ?thesis by (simp add: transformEvent_def case_prod_unfold Let_def)
qed

lemma transform_sym:
  assumes "ev_type ev \<notin> set thinking_types" "nullish (tag_of ev)"
  shows "entity_sym x (fst (snd (transformEvent uuid ev st))) = entity_sym x ev"
proof -
  let ?ev = "fst (snd (transformEvent uuid ev st))"
  have t: "ev_type ?ev = ev_type ev" using transform_same [OF assms(1)] by blast
  have tags: "tag_of (strip_null_tag ?ev) = tag_of (strip_null_tag ev)"
    using tag_stripped [of ?ev] tag_stripped [OF assms(2)] transform_tag [OF assms(2), of uuid st] by (simp add: nullish_def)
  show ?thesis
  proof (cases "ev_type ev \<in> {RUN_FINISHED, MESSAGES_SNAPSHOT, RUN_STARTED}")
    case True
    with t show ?thesis by (cases x) (auto simp: sym_of_def)
  next
    case False
    with assms(1) id_fields have "field ?ev k = field ev k" if "k \<in> set id_keys" for k
      using that by (simp add: transform_fields del: set_append)
    with t tags show ?thesis by (cases x) (simp_all add: id_keys_def)
  qed
qed

text \<open>A plain event stays plain.\<close>

lemma omitNulls_get:
  "jget (fst (omitNulls v flds label)) k = (if k \<in> set flds \<and> jget v k = JNull then JUndef else jget v k)"
  by (cases v) (simp_all add: omitNulls_def case_prod_unfold Let_def oget_omit_each)

lemma mapProtocolArray_get: "is_arr (jget (fst (mapProtocolArray v k f)) k') = is_arr (jget v k')"
  by (cases v) (auto simp: mapProtocolArray_def Let_def split: jsval.split)

lemma input_messages_arr: "is_arr (jget (fst (normalizeLegacyRunAgentInput v)) ''messages'') = is_arr (jget v ''messages'')"
  by (simp add: normalizeLegacyRunAgentInput_def case_prod_unfold Let_def mapProtocolArray_get omitNulls_get input_nulls_def)

lemma finished_outcome: "jget (field (fst (finished_nulls ev)) ''outcome'') ''type'' = jget (field ev ''outcome'') ''type''"
  if "jget (field ev ''outcome'') ''type'' \<noteq> JNull"
  using that by (simp add: finished_nulls_field omitNulls_get outcome_nulls_def)

lemma event_level_kept: "field (fst (event_level_nulls ev)) k = field ev k \<or> field (fst (event_level_nulls ev)) k = JUndef"
  by (simp add: event_level_field)

lemma finished_plain:
  assumes "jget (field ev ''outcome'') ''type'' \<noteq> JStr ''interrupt''"
  shows "jget (field (fst (finished_nulls ev)) ''outcome'') ''type'' \<noteq> JStr ''interrupt''"
  using assms by (auto simp: finished_nulls_field omitNulls_get split: if_splits)

lemma run_started_plain:
  assumes "\<not> is_arr (jget (field ev ''input'') ''messages'')"
  shows "\<not> is_arr (jget (field (fst (snd (on_legacy_run_started ev st))) ''input'') ''messages'')"
proof -
  define v where "v = fst (normalizeLegacyRunAgentInput (field ev ''input''))"
  define ev1 where "ev1 = (if v = field ev ''input'' then ev else ev\<lparr>ev_props := oset ''input'' v (ev_props ev)\<rparr>)"
  have f: "field ev1 ''input'' = v" by (simp add: ev1_def)
  have n: "\<not> is_arr (jget v ''messages'')" unfolding v_def input_messages_arr by (rule assms)
  have "fst (snd (on_legacy_run_started ev st)) = ev1"
    unfolding on_legacy_run_started_def case_prod_unfold Let_def v_def [symmetric] ev1_def [symmetric] f
    using n by (auto split: jsval.split)
  with f n show ?thesis by simp
qed

lemma translate_plain:
  assumes "plain_event ev" "ev_type ev \<notin> set thinking_types" "tag_of (fst (snd (translate uuid ev st))) = JUndef"
  shows "plain_event (fst (snd (translate uuid ev st)))"
proof -
  have t: "ev_type (fst (snd (translate uuid ev st))) = ev_type ev" using translate_same [OF assms(2)] by blast
  have snap: "\<not> is_arr (field (fst (snd (translate uuid ev st))) ''messages'')" if "ev_type ev = MESSAGES_SNAPSHOT"
    using assms(1) that by (cases "field ev ''messages''") (simp_all add: translate_modern on_legacy_snapshot_def plain_event_def)
  have start: "\<not> is_arr (jget (field (fst (snd (translate uuid ev st))) ''input'') ''messages'')" if "ev_type ev = RUN_STARTED"
    using assms(1) that run_started_plain [of ev st] by (simp add: translate_modern plain_event_def)
  have fin: "jget (field (fst (snd (translate uuid ev st))) ''outcome'') ''type'' \<noteq> JStr ''interrupt''" if "ev_type ev = RUN_FINISHED"
    using assms(1) that finished_plain [of ev] by (simp add: translate_modern plain_event_def)
  show ?thesis using t snap start fin assms(1,3) by (simp add: plain_event_def)
qed

lemma transform_plain:
  assumes "plain_event ev" "ev_type ev \<notin> set thinking_types"
  shows "plain_event (fst (snd (transformEvent uuid ev st)))"
proof -
  let ?ev = "fst (event_level_nulls ev)"
  have sub: "field ?ev k = field ev k \<or> field ?ev k = JUndef" for k by (rule event_level_kept)
  have undef: "nullish JUndef" "\<not> is_arr JUndef" "jget JUndef k = JUndef" for k by simp_all
  have "nullish (tag_of ?ev)"
    using sub [of "''subagentRunId''"] assms(1) unfolding plain_event_def by (metis undef(1))
  moreover have "\<not> is_arr (field ?ev ''messages'')" if "ev_type ev = MESSAGES_SNAPSHOT"
    using sub [of "''messages''"] assms(1) that unfolding plain_event_def by (metis undef(2))
  moreover have "\<not> is_arr (jget (field ?ev ''input'') ''messages'')" if "ev_type ev = RUN_STARTED"
    using sub [of "''input''"] assms(1) that unfolding plain_event_def by (metis undef(2,3))
  moreover have "jget (field ?ev ''outcome'') ''type'' \<noteq> JStr ''interrupt''" if "ev_type ev = RUN_FINISHED"
    using sub [of "''outcome''"] assms(1) that unfolding plain_event_def by (metis undef(3) jsval.distinct(7))
  ultimately have "plain_event ?ev"
    using assms(1) unfolding plain_event_def event_level_type by blast
  moreover have "tag_of (fst (snd (transformEvent uuid ev st))) = JUndef"
    using assms(1) by (intro transform_tag) (simp add: plain_event_def)
  ultimately show ?thesis
    using assms(2) translate_plain [of ?ev] by (simp add: transformEvent_def case_prod_unfold Let_def)
qed

subsection \<open>The translated stream and the verifier\<close>

text \<open>An event that concerns one entity only.\<close>

lemma plain_ok_one:
  assumes "phase_step p (ev_type ev) = Some p'" "ev_type ev \<noteq> RUN_FINISHED"
    "\<And>x. entity_sym x ev = (if x = e then s else BOther)" "bracket_step (e \<in> B) s = Some b"
  shows "plain_ok p B (ev # es) \<longleftrightarrow> plain_ok p' (if b then insert e B else B - {e}) es"
proof -
  have "{x. bracket_step (x \<in> B) (entity_sym x ev) = Some True} = (if b then insert e B else B - {e})"
    using assms(4) by (auto simp: assms(3) split: if_splits)
  moreover have "bracket_step (x \<in> B) (entity_sym x ev) \<noteq> None" for x using assms(4) by (simp add: assms(3))
  ultimately show ?thesis using assms(1,2) by simp
qed

lemma reasoning_sym:
  "ev_type ev = REASONING_START \<Longrightarrow> entity_sym x ev = (if x = ReasoningSpan (field ev ''messageId'') then BOpen else BOther)"
  "ev_type ev = REASONING_END \<Longrightarrow> entity_sym x ev = (if x = ReasoningSpan (field ev ''messageId'') then BClose else BOther)"
  "ev_type ev = REASONING_MESSAGE_START \<Longrightarrow> entity_sym x ev = (if x = ReasoningMessage (field ev ''messageId'') then BOpen else BOther)"
  "ev_type ev = REASONING_MESSAGE_CONTENT \<Longrightarrow> entity_sym x ev = (if x = ReasoningMessage (field ev ''messageId'') then BPart else BOther)"
  "ev_type ev = REASONING_MESSAGE_END \<Longrightarrow> entity_sym x ev = (if x = ReasoningMessage (field ev ''messageId'') then BClose else BOther)"
  by (cases x; auto simp: sym_of_def)+

lemma thinking_sym: "ev_type ev = OtherType t \<Longrightarrow> entity_sym x ev = BOther"
  by (cases x) (simp_all add: sym_of_def)

lemma plain_ok_other: "ev_type ev = OtherType t \<Longrightarrow> plain_ok p A (ev # es) \<longleftrightarrow> p = Running \<and> plain_ok Running A es"
  by (cases p) (simp_all add: thinking_sym)

lemma phase_reasoning:
  "t \<notin> {RUN_STARTED, RUN_FINISHED, RUN_ERROR} \<Longrightarrow> phase_step Running t = Some Running"
  by simp

text \<open>What each retired event becomes, seen by the verifier.\<close>

lemma thinking_start_facts:
  "ev_type (fst (snd (on_thinking_start uuid ev st))) = REASONING_START"
  "field (fst (snd (on_thinking_start uuid ev st))) ''messageId'' = JStr (uuid (uuids st))"
  "currentReasoningId (fst (on_thinking_start uuid ev st)) = Some (uuid (uuids st))"
  "currentMessageId (fst (on_thinking_start uuid ev st)) = currentMessageId st"
  by (simp_all add: thinking_handlers retyped_def)

lemma thinking_text_start_facts:
  "ev_type (fst (snd (on_thinking_text_start uuid ev st))) = REASONING_MESSAGE_START"
  "field (fst (snd (on_thinking_text_start uuid ev st))) ''messageId'' = JStr (uuid (uuids st))"
  "currentReasoningId (fst (on_thinking_text_start uuid ev st)) = currentReasoningId st"
  "currentMessageId (fst (on_thinking_text_start uuid ev st)) = Some (uuid (uuids st))"
  by (simp_all add: thinking_handlers retyped_def)

lemma thinking_text_content_facts:
  "currentMessageId st = Some i \<Longrightarrow> ev_type (fst (snd (on_thinking_text_content uuid ev st))) = REASONING_MESSAGE_CONTENT"
  "currentMessageId st = Some i \<Longrightarrow> field (fst (snd (on_thinking_text_content uuid ev st))) ''messageId'' = JStr (i)"
  "currentMessageId st = Some i \<Longrightarrow> currentReasoningId (fst (on_thinking_text_content uuid ev st)) = currentReasoningId st"
  "currentMessageId st = Some i \<Longrightarrow> currentMessageId (fst (on_thinking_text_content uuid ev st)) = Some (i)"
  by (simp_all add: thinking_handlers retyped_def)

lemma thinking_text_end_facts:
  "currentMessageId st = Some i \<Longrightarrow> ev_type (fst (snd (on_thinking_text_end uuid ev st))) = REASONING_MESSAGE_END"
  "currentMessageId st = Some i \<Longrightarrow> field (fst (snd (on_thinking_text_end uuid ev st))) ''messageId'' = JStr (i)"
  "currentMessageId st = Some i \<Longrightarrow> currentReasoningId (fst (on_thinking_text_end uuid ev st)) = currentReasoningId st"
  "currentMessageId st = Some i \<Longrightarrow> currentMessageId (fst (on_thinking_text_end uuid ev st)) = None"
  by (simp_all add: thinking_handlers retyped_def)

lemma thinking_end_facts:
  "currentReasoningId st = Some i \<Longrightarrow> ev_type (fst (snd (on_thinking_end uuid ev st))) = REASONING_END"
  "currentReasoningId st = Some i \<Longrightarrow> field (fst (snd (on_thinking_end uuid ev st))) ''messageId'' = JStr (i)"
  "currentReasoningId st = Some i \<Longrightarrow> currentReasoningId (fst (on_thinking_end uuid ev st)) = None"
  "currentReasoningId st = Some i \<Longrightarrow> currentMessageId (fst (on_thinking_end uuid ev st)) = currentMessageId st"
  by (simp_all add: thinking_handlers retyped_def)

lemma transform_thinking:
  assumes "thinking_step (thinking_state st) (ev_type ev) = Some p" "ev_type ev \<in> set thinking_types"
  obtains e s b where
    "\<forall>x. entity_sym x (fst (snd (transformEvent uuid ev st))) = (if x = e then s else BOther)"
    "e \<in> minted_entities uuid \<or> e \<in> translated_open st"
    "bracket_step (e \<in> translated_open st) s = Some b"
    "translated_open (fst (transformEvent uuid ev st)) = (if b then insert e (translated_open st) else translated_open st - {e})"
    "thinking_state (fst (transformEvent uuid ev st)) = p"
    "ev_type (fst (snd (transformEvent uuid ev st))) \<in> set reasoning_types"
proof -
  let ?ev = "fst (event_level_nulls ev)"
  define st1 where "st1 = fst (noticeNullOncePerRun (snd (event_level_nulls ev)) (clear_noticed ev st))"
  have ids: "currentReasoningId st1 = currentReasoningId st" "currentMessageId st1 = currentMessageId st"
    by (simp_all add: st1_def clear_noticed_def)
  have r: "fst (transformEvent uuid ev st) = fst (translate uuid ?ev st1)"
    "fst (snd (transformEvent uuid ev st)) = fst (snd (translate uuid ?ev st1))"
    by (simp_all add: transformEvent_def case_prod_unfold Let_def st1_def)
  have t: "ev_type ?ev = ev_type ev" by simp
  from assms(2) consider "ev_type ev = THINKING_START" | "ev_type ev = THINKING_TEXT_MESSAGE_START"
    | "ev_type ev = THINKING_TEXT_MESSAGE_CONTENT" | "ev_type ev = THINKING_TEXT_MESSAGE_END" | "ev_type ev = THINKING_END"
    unfolding thinking_types_def by auto
  then show ?thesis
  proof cases
    case 1
    have h: "translate uuid ?ev st1 = on_thinking_start uuid ?ev st1" using t 1 by (rule translate_thinking(1) [OF trans])
    have n: "currentReasoningId st = None" "p = (True, currentMessageId st \<noteq> None)"
      using assms(1) 1 by (auto simp: thinking_state_def split: if_splits)
    note f = thinking_start_facts [of uuid ?ev st1]
    show ?thesis
      by (rule that [of "ReasoningSpan (JStr (uuid (uuids st1)))" BOpen True], unfold r h)
        (auto simp: reasoning_sym(1) [OF f(1)] f n ids minted_entities_def translated_open_def thinking_state_def reasoning_types_def)
  next
    case 2
    have h: "translate uuid ?ev st1 = on_thinking_text_start uuid ?ev st1" using t 2 by (rule translate_thinking(2) [OF trans])
    have n: "currentMessageId st = None" "p = (currentReasoningId st \<noteq> None, True)"
      using assms(1) 2 by (auto simp: thinking_state_def split: if_splits)
    note f = thinking_text_start_facts [of uuid ?ev st1]
    show ?thesis
      by (rule that [of "ReasoningMessage (JStr (uuid (uuids st1)))" BOpen True], unfold r h)
        (auto simp: reasoning_sym(3) [OF f(1)] f n ids minted_entities_def translated_open_def thinking_state_def reasoning_types_def)
  next
    case 3
    have h: "translate uuid ?ev st1 = on_thinking_text_content uuid ?ev st1" using t 3 by (rule translate_thinking(3) [OF trans])
    obtain i where n: "currentMessageId st = Some i" "p = (currentReasoningId st \<noteq> None, True)"
      using assms(1) 3 by (auto simp: thinking_state_def split: if_splits)
    note f = thinking_text_content_facts [of st1 i uuid ?ev, OF trans [OF ids(2) n(1)]]
    show ?thesis
      by (rule that [of "ReasoningMessage (JStr i)" BPart True], unfold r h)
        (auto simp: reasoning_sym(4) [OF f(1)] f n ids minted_entities_def translated_open_def thinking_state_def reasoning_types_def)
  next
    case 4
    have h: "translate uuid ?ev st1 = on_thinking_text_end uuid ?ev st1" using t 4 by (rule translate_thinking(4) [OF trans])
    obtain i where n: "currentMessageId st = Some i" "p = (currentReasoningId st \<noteq> None, False)"
      using assms(1) 4 by (auto simp: thinking_state_def split: if_splits)
    note f = thinking_text_end_facts [of st1 i uuid ?ev, OF trans [OF ids(2) n(1)]]
    show ?thesis
      by (rule that [of "ReasoningMessage (JStr i)" BClose False], unfold r h)
        (auto simp: reasoning_sym(5) [OF f(1)] f n ids minted_entities_def translated_open_def thinking_state_def reasoning_types_def)
  next
    case 5
    have h: "translate uuid ?ev st1 = on_thinking_end uuid ?ev st1" using t 5 by (rule translate_thinking(5) [OF trans])
    obtain i where n: "currentReasoningId st = Some i" "p = (False, currentMessageId st \<noteq> None)"
      using assms(1) 5 by (auto simp: thinking_state_def split: if_splits)
    note f = thinking_end_facts [of st1 i uuid ?ev, OF trans [OF ids(1) n(1)]]
    show ?thesis
      by (rule that [of "ReasoningSpan (JStr i)" BClose False], unfold r h)
        (auto simp: reasoning_sym(2) [OF f(1)] f n ids minted_entities_def translated_open_def thinking_state_def reasoning_types_def)
  qed
qed

text \<open>The simulation: the translated stream has open what the original has, and the spans and messages the boundary has opened.\<close>

lemma thinking_other:
  assumes "thinking_step (thinking_state st) (ev_type ev) = Some p" "ev_type ev \<notin> set thinking_types"
  shows "p = thinking_state st" "ev_type ev \<in> {RUN_STARTED, RUN_FINISHED} \<Longrightarrow> translated_open st = {}"
  using assms by (auto simp: thinking_state_def thinking_types_def translated_open_def split: if_splits)

lemma minted_other:
  "unused uuid ev \<Longrightarrow> ev_type ev \<noteq> RUN_STARTED \<Longrightarrow> x \<in> minted_entities uuid \<Longrightarrow> entity_sym x ev = BOther"
  by (auto simp: unused_def minted_entities_def reasoning_types_def sym_of_def)

lemma bracket_open: "bracket_step b s = Some True \<Longrightarrow> b \<or> s = BOpen"
  by (cases s) (auto split: if_splits)

lemma open_other:
  assumes "unused uuid ev" "A \<inter> minted_entities uuid = {}"
  shows "{x. bracket_step (x \<in> A) (entity_sym x ev) = Some True} \<inter> minted_entities uuid = {}"
proof -
  have "x \<notin> minted_entities uuid" if x: "bracket_step (x \<in> A) (entity_sym x ev) = Some True" for x
  proof (cases "ev_type ev = RUN_STARTED")
    case True
    then have "entity_sym x ev = BReset" by (cases x) (simp_all add: sym_of_def)
    with x show ?thesis by simp
  next
    case False
    with x minted_other [OF assms(1)] assms(2) show ?thesis by fastforce
  qed
  then show ?thesis by blast
qed

lemma boundary_plain_ok:
  assumes "plain_ok p A es" "thinking_ok (thinking_state st) es" "list_all plain_event es" "list_all (unused uuid) es"
    "A \<inter> minted_entities uuid = {}" "translated_open st \<subseteq> minted_entities uuid"
  shows "plain_ok p (A \<union> translated_open st) (fst (boundary_events uuid st es))"
  using assms
proof (induction es arbitrary: p A st)
  case (Cons ev es)
  let ?st = "fst (transformEvent uuid ev st)" and ?ev = "fst (snd (transformEvent uuid ev st))"
  obtain q where q: "thinking_step (thinking_state st) (ev_type ev) = Some q" "thinking_ok q es"
    using Cons.prems(2) by (auto split: option.splits)
  have rest: "fst (boundary_events uuid st (ev # es)) = ?ev # fst (boundary_events uuid ?st es)"
    by (simp add: case_prod_unfold Let_def)
  show ?case
  proof (cases "ev_type ev \<in> set thinking_types")
    case True
    obtain e s b where e: "\<forall>x. entity_sym x ?ev = (if x = e then s else BOther)"
        "e \<in> minted_entities uuid \<or> e \<in> translated_open st" "bracket_step (e \<in> translated_open st) s = Some b"
        "translated_open ?st = (if b then insert e (translated_open st) else translated_open st - {e})"
        "thinking_state ?st = q" "ev_type ?ev \<in> set reasoning_types"
      by (rule transform_thinking [OF q(1) True, of uuid])
    from True obtain t where "ev_type ev = OtherType t" by (auto simp: thinking_types_def)
    with Cons.prems(1) have ok: "p = Running" "plain_ok Running A es" by (simp_all only: plain_ok_other)
    have minted: "e \<in> minted_entities uuid" using e(2) Cons.prems(6) by blast
    then have "e \<notin> A" using Cons.prems(5) by blast
    then have open': "(if b then insert e (A \<union> translated_open st) else A \<union> translated_open st - {e}) = A \<union> translated_open ?st"
      and part: "bracket_step (e \<in> A \<union> translated_open st) s = Some b" using e(3,4) by auto
    have sub: "translated_open ?st \<subseteq> minted_entities uuid" using e(4) minted Cons.prems(6) by (auto split: if_splits)
    have types: "ev_type ?ev \<noteq> RUN_FINISHED" "phase_step Running (ev_type ?ev) = Some Running"
      using e(6) by (auto simp: reasoning_types_def)
    have "plain_ok Running (A \<union> translated_open ?st) (fst (boundary_events uuid ?st es))"
      using ok(2) q(2) e(5) Cons.prems sub by (intro Cons.IH) simp_all
    then have "plain_ok Running (A \<union> translated_open st) (?ev # fst (boundary_events uuid ?st es))"
      unfolding plain_ok_one [OF types(2,1) e(1) [THEN spec] part] open' .
    then show ?thesis using ok(1) rest by simp
  next
    case False
    note other = thinking_other [OF q(1) False]
    have tag: "nullish (tag_of ev)" using Cons.prems(3) by (simp add: plain_event_def)
    have sym: "entity_sym x ?ev = entity_sym x ev" for x by (rule transform_sym [OF False tag])
    have same: "same_ids st ?st" "ev_type ?ev = ev_type ev" using transform_same [OF False] by blast+
    then have topen: "translated_open ?st = translated_open st" "thinking_state ?st = thinking_state st"
      by (simp_all add: same_ids_def translated_open_def thinking_state_def)
    obtain p' where p': "phase_step p (ev_type ev) = Some p'"
      "\<forall>x. bracket_step (x \<in> A) (entity_sym x ev) \<noteq> None" "ev_type ev = RUN_FINISHED \<longrightarrow> A = {}"
      "plain_ok p' {x. bracket_step (x \<in> A) (entity_sym x ev) = Some True} es"
      using Cons.prems(1) by (auto split: option.splits)
    have un: "unused uuid ev" using Cons.prems(4) by simp
    have keep: "bracket_step (x \<in> A \<union> translated_open st) (entity_sym x ev) =
        (if x \<in> translated_open st then Some True else bracket_step (x \<in> A) (entity_sym x ev))" for x
      using minted_other [OF un] Cons.prems(6) other(2) by (cases "ev_type ev = RUN_STARTED") auto
    have "plain_ok p' ({x. bracket_step (x \<in> A) (entity_sym x ev) = Some True} \<union> translated_open ?st) (fst (boundary_events uuid ?st es))"
      using p'(4) q(2) other(1) topen Cons.prems open_other [OF un Cons.prems(5)] by (intro Cons.IH) simp_all
    moreover have "{x. bracket_step (x \<in> A \<union> translated_open st) (entity_sym x ev) = Some True} =
        {x. bracket_step (x \<in> A) (entity_sym x ev) = Some True} \<union> translated_open ?st"
      unfolding keep topen by auto
    moreover have "bracket_step (x \<in> A \<union> translated_open st) (entity_sym x ev) \<noteq> None" for x
      using keep [of x] p'(2) by auto
    moreover have "ev_type ev = RUN_FINISHED \<longrightarrow> A \<union> translated_open st = {}" using p'(3) other(2) by auto
    ultimately show ?thesis using p'(1) same(2) by (simp add: rest sym del: boundary_events.simps)
  qed
qed simp

lemma boundary_plain:
  "list_all plain_event es \<Longrightarrow> list_all plain_event (fst (boundary_events uuid st es))"
proof (induction es arbitrary: st)
  case (Cons ev es)
  have "plain_event (fst (snd (transformEvent uuid ev st)))"
  proof (cases "ev_type ev \<in> set thinking_types")
    case True
    let ?ev = "fst (event_level_nulls ev)"
    have "ev_type (fst (snd (translate uuid ?ev st'))) \<in> set reasoning_types" for st'
    proof -
      from True consider "ev_type ev = THINKING_START" | "ev_type ev = THINKING_TEXT_MESSAGE_START"
        | "ev_type ev = THINKING_TEXT_MESSAGE_CONTENT" | "ev_type ev = THINKING_TEXT_MESSAGE_END" | "ev_type ev = THINKING_END"
        unfolding thinking_types_def by auto
      then show ?thesis
        by cases (simp_all add: translate_thinking thinking_handlers retyped_def reasoning_types_def)
    qed
    then have "ev_type (fst (snd (transformEvent uuid ev st))) \<in> set reasoning_types"
      by (simp add: transformEvent_def case_prod_unfold Let_def)
    moreover have "tag_of (fst (snd (transformEvent uuid ev st))) = JUndef"
      using Cons.prems by (intro transform_tag) (simp add: plain_event_def)
    ultimately show ?thesis by (auto simp: plain_event_def reasoning_types_def)
  qed (use Cons.prems in \<open>simp add: transform_plain\<close>)
  with Cons show ?case by (simp add: case_prod_unfold Let_def)
qed simp

subsection \<open>Theorems\<close>

text \<open>A stream of an older agent.\<close>

definition old_stream :: "event list" where
  "old_stream =
     [mk_event RUN_STARTED [(''parentRunId'', JNull)],
      mk_event THINKING_START [(''title'', JStr ''plan'')],
      mk_event THINKING_TEXT_MESSAGE_START [],
      mk_event THINKING_TEXT_MESSAGE_CONTENT [(''delta'', JStr ''hm'')],
      mk_event THINKING_TEXT_MESSAGE_END [(''rawEvent'', JNull)],
      mk_event THINKING_END [],
      mk_event STEP_STARTED [(''stepName'', JStr ''s''), (''rawEvent'', JNull)],
      mk_event STEP_FINISHED [(''stepName'', JStr ''s'')],
      mk_event RUN_FINISHED [(''outcome'', JNull)]]"

text \<open>
  Legacy binary parts are upgraded without loss: every part with data or a url has its form of today in the upgraded message, with the same content,
  media type and file name; no such part is left; and all other parts stay, in order, with only converted parts in between.
\<close>

theorem upgrade_lossless:
  assumes "oget m ''content'' = JArr raw"
  shows "\<exists>parts. upgradeMessageContent (JObj m) = JObj (oset ''content'' (JArr parts) m) \<and>
    (\<forall>p\<in>set raw. convertible p \<longrightarrow> list_ex (\<lambda>q. matchesModernPart q (convertBinaryToNewFormat p) (jget p ''filename'')) parts) \<and>
    list_all (\<lambda>p. \<not> convertible p) parts \<and>
    (\<exists>new. parts \<in> shuffles (filter (\<lambda>p. \<not> convertible p) raw) new \<and>
       set new \<subseteq> convertBinaryToNewFormat ` {p \<in> set raw. convertible p})"
proof (rule exI [of _ "concat (map (upgrade_part raw) raw)"], intro conjI)
  show "upgradeMessageContent (JObj m) = JObj (oset ''content'' (JArr (concat (map (upgrade_part raw) raw))) m)"
    using assms by (simp add: upgradeMessageContent_def)
  show "\<forall>p\<in>set raw. convertible p \<longrightarrow> list_ex (\<lambda>q. matchesModernPart q (convertBinaryToNewFormat p) (jget p ''filename''))
      (concat (map (upgrade_part raw) raw))"
    unfolding list_ex_iff by (blast intro: upgraded_represents)
  show "list_all (\<lambda>p. \<not> convertible p) (concat (map (upgrade_part raw) raw))"
    unfolding list_all_iff by (auto dest: upgrade_part_in)
  show "\<exists>new. concat (map (upgrade_part raw) raw) \<in> shuffles (filter (\<lambda>p. \<not> convertible p) raw) new \<and>
       set new \<subseteq> convertBinaryToNewFormat ` {p \<in> set raw. convertible p}"
    using upgraded_others [of raw raw] by blast
qed

definition old_part :: jsval where
  "old_part = JObj [(''type'', JStr ''binary''), (''mimeType'', JStr ''image/png''), (''data'', JStr ''iVBO'')]"

theorem upgrade_lossless_witness:
  "convertible old_part \<and> (\<exists>parts. upgradeMessageContent (JObj [(''content'', JArr [old_part])]) = JObj [(''content'', JArr parts)] \<and>
     list_all (\<lambda>p. \<not> convertible p) parts)"
proof -
  have "convertible old_part" by code_simp
  moreover have "oget [(''content'', JArr [old_part])] ''content'' = JArr [old_part]" by simp
  from upgrade_lossless [OF this] obtain parts where
    "upgradeMessageContent (JObj [(''content'', JArr [old_part])]) = JObj (oset ''content'' (JArr parts) [(''content'', JArr [old_part])])"
    "list_all (\<lambda>p. \<not> convertible p) parts" by blast
  moreover have "oset ''content'' v [(''content'', w)] = [(''content'', v)]" for v w :: jsval by (simp add: oset_def)
  ultimately show ?thesis by auto
qed

text \<open>
  What leaves the boundary is of today: no retired event type is left, and a second boundary, wherever it stands and whatever identifiers it would
  draw, changes nothing more.
\<close>

theorem boundary_idempotent:
  "compatibilityBoundaryOperator uuid' (compatibilityBoundaryOperator uuid es) = compatibilityBoundaryOperator uuid es \<and>
   ev_type ` set (compatibilityBoundaryOperator uuid es) \<inter> set thinking_types = {}"
proof -
  note settled = boundary_settled [of uuid init_boundary es]
  have "ev_type ev \<notin> set thinking_types" if "ev \<in> set (fst (boundary_events uuid init_boundary es))" for ev
    using settled that by (simp add: list_all_iff settled_event_def)
  with boundary_id [OF settled] show ?thesis unfolding compatibilityBoundaryOperator_def by auto
qed

text \<open>
  Within a run each kind of converted null is announced once: after a run has started, and as long as no other starts, no notice about a null comes twice.
\<close>

theorem boundary_notices_once:
  assumes "ev_type start = RUN_STARTED" "list_all (\<lambda>ev. ev_type ev \<noteq> RUN_STARTED) es"
  shows "distinct (filter is_null_notice (snd (boundary_events uuid st (start # es))))"
proof -
  let ?st = "fst (transformEvent uuid start st)"
  have "noticed (clear_noticed start st) (boundary_state uuid ?st es)
      (snd (snd (transformEvent uuid start st)) @ snd (boundary_events uuid ?st es))"
    by (rule noticed_trans [OF transform_noticed boundary_noticed [OF assms(2)]])
  then show ?thesis by (simp add: noticed_def case_prod_unfold Let_def)
qed

theorem boundary_notices_once_witness:
  "filter is_null_notice (snd (boundary_events nat_str init_boundary old_stream)) =
     map (\<lambda>w. Converting w ''an absent field'') [''RUN_STARTED.parentRunId: null'', ''rawEvent: null'', ''RUN_FINISHED.outcome: null''] \<and>
   distinct (filter is_null_notice (snd (boundary_events nat_str init_boundary old_stream)))"
proof -
  have "filter is_null_notice (snd (boundary_events nat_str init_boundary old_stream)) =
     map (\<lambda>w. Converting w ''an absent field'') [''RUN_STARTED.parentRunId: null'', ''rawEvent: null'', ''RUN_FINISHED.outcome: null'']"
    by code_simp
  moreover have "list_all (\<lambda>ev. ev_type ev \<noteq> RUN_STARTED) (tl old_stream)" by code_simp
  then have "distinct (filter is_null_notice (snd (boundary_events nat_str init_boundary (hd old_stream # tl old_stream))))"
    by (intro boundary_notices_once) (simp_all add: old_stream_def)
  ultimately show ?thesis by (simp add: old_stream_def)
qed

text \<open>
  C34. Retired reasoning streams stay valid: if the verifier accepts a stream of the parent agent, to which the retired events mean nothing, and these keep
  their own discipline, then it accepts the translated stream, where they are reasoning spans and messages of today.
\<close>

theorem boundary_verifies:
  assumes "accepts verify_step init_vstate es" "list_all plain_event es" "thinking_ok (False, False) es"
    and "list_all (unused uuid) es"
  shows "accepts verify_step init_vstate (compatibilityBoundaryOperator uuid es)"
proof -
  have init: "plain_state init_vstate" "phase_of init_vstate = NotStarted" "{x. entity_open init_vstate x} = {}"
    using entity_open_init by (auto simp: plain_state_def phase_of_def init_vstate_def)
  have "plain_ok NotStarted {} es" using run_plain [OF verify_inv_init init(1) assms(2)] assms(1) init by simp
  then have "plain_ok NotStarted ({} \<union> translated_open init_boundary) (fst (boundary_events uuid init_boundary es))"
    using assms(2-4) by (intro boundary_plain_ok) (simp_all add: thinking_state_def translated_open_def init_boundary_def)
  moreover have "translated_open init_boundary = {}" by (simp add: translated_open_def init_boundary_def)
  ultimately show ?thesis
    using run_plain [OF verify_inv_init init(1) boundary_plain [OF assms(2)]] init by (simp add: compatibilityBoundaryOperator_def)
qed

theorem boundary_verifies_witness: "accepts verify_step init_vstate (compatibilityBoundaryOperator nat_str old_stream)"
proof (rule boundary_verifies)
  show "accepts verify_step init_vstate old_stream" by code_simp
  show "list_all plain_event old_stream" by code_simp
  show "thinking_ok (False, False) old_stream" by code_simp
  show "list_all (unused nat_str) old_stream"
    by (simp add: old_stream_def unused_def reasoning_types_def)
qed

end
