(* ===== verification/MiddlewareSpec.thy ===== *)
theory MiddlewareSpec
  imports Middleware BoundaryProps ChunksProps VerifySpec
begin

text \<open>
  The properties of the middlewares: the shim for peers without subagents removes all attribution, the shim for thinking events is idle
  behind the compatibility boundary, and the filter for tool calls hides them whole and keeps a stream valid, shown by a
  simulation between the reference acceptor on the original and on the filtered stream.
\<close>


subsection \<open>Filtering\<close>

fun blocked_after :: "tool_filter \<Rightarrow> jsval list \<Rightarrow> event list \<Rightarrow> jsval list" where
  "blocked_after cfg blocked [] = blocked"
| "blocked_after cfg blocked (ev # evs) = blocked_after cfg (fst (filter_step cfg blocked ev)) evs"

lemma filter_events_append:
  "filter_events cfg blocked (xs @ ys) = filter_events cfg blocked xs @ filter_events cfg (blocked_after cfg blocked xs) ys"
  by (induction xs arbitrary: blocked) (simp_all add: case_prod_unfold Let_def)

lemma blocked_after_append: "blocked_after cfg blocked (xs @ ys) = blocked_after cfg (blocked_after cfg blocked xs) ys"
  by (induction xs arbitrary: blocked) simp_all

text \<open>A blocked call stays blocked until its result, or until another run starts.\<close>

definition unblocks :: "jsval \<Rightarrow> event \<Rightarrow> bool" where
  "unblocks i ev \<longleftrightarrow> ev_type ev = RUN_STARTED \<or> ev_type ev = TOOL_CALL_RESULT \<and> field ev ''toolCallId'' = i"

lemma blocked_stays:
  "i \<in> set blocked \<Longrightarrow> list_all (\<lambda>ev. \<not> unblocks i ev) es \<Longrightarrow> i \<in> set (blocked_after cfg blocked es)"
proof (induction es arbitrary: blocked)
  case (Cons ev es)
  then have "i \<in> set (fst (filter_step cfg blocked ev))" by (auto simp: filter_step_def unblocks_def Let_def)
  with Cons show ?case by simp
qed simp

text \<open>The order the filter relies on: within a run no id is started twice, and a result comes after the end of its call.\<close>

fun orderly_calls :: "jsval list \<Rightarrow> jsval list \<Rightarrow> event list \<Rightarrow> bool" where
  "orderly_calls started opens [] = True"
| "orderly_calls started opens (ev # es) =
     (let i = field ev ''toolCallId'' in
      if ev_type ev = RUN_STARTED then orderly_calls [] [] es
      else if ev_type ev = TOOL_CALL_START then i \<notin> set started \<and> orderly_calls (i # started) (i # opens) es
      else if ev_type ev = TOOL_CALL_END then orderly_calls started (set_del i opens) es
      else if ev_type ev = TOOL_CALL_RESULT then i \<notin> set opens \<and> orderly_calls started opens es
      else orderly_calls started opens es)"

text \<open>Dropping an event that concerns no entity that is left, and keeping one that concerns no entity that is gone.\<close>

lemma plain_ok_kept:
  assumes "phase_step p (ev_type ev) = Some p'" "\<forall>x. bracket_step (x \<in> A) (entity_sym x ev) \<noteq> None"
    "ev_type ev = RUN_FINISHED \<longrightarrow> A = {}" "\<And>x. x \<in> D \<Longrightarrow> entity_sym x ev = BOther"
    "plain_ok p' ({x. bracket_step (x \<in> A) (entity_sym x ev) = Some True} - D) es"
  shows "plain_ok p (A - D) (ev # es)"
proof -
  have step: "bracket_step (x \<in> A - D) (entity_sym x ev) = (if x \<in> D then Some False else bracket_step (x \<in> A) (entity_sym x ev))" for x
    using assms(4) [of x] by (cases "x \<in> D") simp_all
  have "{x. bracket_step (x \<in> A - D) (entity_sym x ev) = Some True} = {x. bracket_step (x \<in> A) (entity_sym x ev) = Some True} - D"
    unfolding step by auto
  moreover have "bracket_step (x \<in> A - D) (entity_sym x ev) \<noteq> None" for x
    using step [of x] assms(2) by (metis option.distinct(1))
  ultimately show ?thesis using assms(1,3,5) by auto
qed

lemma call_sym:
  "ev_type ev \<in> {TOOL_CALL_START, TOOL_CALL_ARGS, TOOL_CALL_END} \<Longrightarrow> x \<noteq> ToolCall (field ev ''toolCallId'') \<Longrightarrow> entity_sym x ev = BOther"
  "ev_type ev = TOOL_CALL_START \<Longrightarrow> entity_sym (ToolCall (field ev ''toolCallId'')) ev = BOpen"
  "ev_type ev = TOOL_CALL_ARGS \<Longrightarrow> entity_sym (ToolCall (field ev ''toolCallId'')) ev = BPart"
  "ev_type ev = TOOL_CALL_END \<Longrightarrow> entity_sym (ToolCall (field ev ''toolCallId'')) ev = BClose"
  "ev_type ev = TOOL_CALL_RESULT \<Longrightarrow> entity_sym x ev = BOther"
  "ev_type ev \<notin> {RUN_STARTED, TOOL_CALL_START, TOOL_CALL_ARGS, TOOL_CALL_END} \<Longrightarrow> entity_sym (ToolCall i) ev = BOther"
  by (cases x; auto simp: sym_of_def)+

lemma opens_one:
  assumes "\<forall>x. bracket_step (x \<in> A) (entity_sym x ev) \<noteq> None" "entity_sym e ev = s" "\<And>x. x \<noteq> e \<Longrightarrow> entity_sym x ev = BOther"
  shows "{x. bracket_step (x \<in> A) (entity_sym x ev) = Some True} =
    (if bracket_step (e \<in> A) s = Some True then insert e A else A - {e})" "bracket_step (e \<in> A) s \<noteq> None"
proof -
  have "bracket_step (x \<in> A) (entity_sym x ev) = Some True \<longleftrightarrow> (if x = e then bracket_step (e \<in> A) s = Some True else x \<in> A)" for x
    using assms(2,3) by (cases "x = e") simp_all
  then show "{x. bracket_step (x \<in> A) (entity_sym x ev) = Some True} =
    (if bracket_step (e \<in> A) s = Some True then insert e A else A - {e})" by auto
  show "bracket_step (e \<in> A) s \<noteq> None" using assms(1,2) by blast
qed

lemma run_started_sym: "ev_type ev = RUN_STARTED \<Longrightarrow> entity_sym x ev = BReset"
  by (cases x) (simp_all add: sym_of_def)

lemma phase_running: "phase_step p t = Some p' \<Longrightarrow> t \<notin> {RUN_STARTED, RUN_FINISHED, RUN_ERROR} \<Longrightarrow> p = Running \<and> p' = Running"
  by (cases p) (auto split: if_splits)

lemma filter_plain_ok:
  assumes "plain_ok p A es" "orderly_calls started opens es" "set blocked \<subseteq> set started"
    "\<And>i. ToolCall i \<in> A \<Longrightarrow> i \<in> set opens"
  shows "plain_ok p (A - ToolCall ` set blocked) (filter_events cfg blocked es)"
  using assms
proof (induction es arbitrary: p A started opens blocked)
  case (Cons ev es)
  let ?i = "field ev ''toolCallId''" and ?D = "ToolCall ` set blocked"
  let ?A = "{x. bracket_step (x \<in> A) (entity_sym x ev) = Some True}"
  obtain p' where p': "phase_step p (ev_type ev) = Some p'" "\<forall>x. bracket_step (x \<in> A) (entity_sym x ev) \<noteq> None"
    "ev_type ev = RUN_FINISHED \<longrightarrow> A = {}" "plain_ok p' ?A es"
    using Cons.prems(1) by (auto split: option.splits)
  have kept: "plain_ok p (A - ?D) (ev # filter_events cfg blocked es)"
    if "?i \<notin> set blocked" "ev_type ev \<in> {TOOL_CALL_START, TOOL_CALL_ARGS, TOOL_CALL_END}"
      "plain_ok p' (?A - ?D) (filter_events cfg blocked es)"
    using that p'(1-3) by (intro plain_ok_kept) (auto intro!: call_sym(1))
  consider "ev_type ev = RUN_STARTED" | "ev_type ev = TOOL_CALL_START" | "ev_type ev = TOOL_CALL_ARGS" | "ev_type ev = TOOL_CALL_END"
    | "ev_type ev = TOOL_CALL_RESULT"
    | "ev_type ev \<notin> {RUN_STARTED, TOOL_CALL_START, TOOL_CALL_ARGS, TOOL_CALL_END, TOOL_CALL_RESULT}" by blast
  then show ?case
  proof cases
    case 1
    then have A: "?A = {}" by (simp add: run_started_sym)
    have "plain_ok p' ({} - ToolCall ` set []) (filter_events cfg [] es)"
      using p'(4) Cons.prems(2) 1 unfolding A by (intro Cons.IH [of _ _ "[]" "[]"]) simp_all
    with p'(1) 1 show ?thesis by (simp add: filter_step_def run_started_sym)
  next
    case 2
    with p'(1) have run: "p = Running" "p' = Running" using phase_running by force+
    note one = opens_one [OF p'(2) call_sym(2) [OF 2] call_sym(1)]
    have new: "ToolCall ?i \<notin> A" and A: "?A = insert (ToolCall ?i) A" using one 2 by (auto split: if_splits)
    from Cons.prems(2) 2 have fresh: "?i \<notin> set started" "orderly_calls (?i # started) (?i # opens) es" by (simp_all add: Let_def)
    have IH: "plain_ok Running (insert (ToolCall ?i) A - ToolCall ` set b) (filter_events cfg b es)" if "set b \<subseteq> insert ?i (set started)" for b
      using p'(4) fresh(2) Cons.prems(4) that unfolding A run by (intro Cons.IH [of _ _ "?i # started" "?i # opens"]) auto
    show ?thesis
    proof (cases "shouldFilterTool cfg (field ev ''toolCallName'')")
      case True
      have "insert (ToolCall ?i) A - ToolCall ` set (set_add ?i blocked) = A - ?D" using new by auto
      with IH [of "set_add ?i blocked"] Cons.prems(3) True 2 run show ?thesis by (auto simp: filter_step_def Let_def)
    next
      case False
      have "plain_ok p (A - ?D) (ev # filter_events cfg blocked es)"
        using IH [of blocked] Cons.prems(3) fresh(1) 2 run A by (intro kept) auto
      with False 2 show ?thesis by (simp add: filter_step_def Let_def)
    qed
  next
    case 3
    with p'(1) have run: "p = Running" "p' = Running" using phase_running by force+
    note one = opens_one [OF p'(2) call_sym(3) [OF 3] call_sym(1)]
    have A: "?A = A" using one 3 by (auto split: if_splits)
    have IH: "plain_ok Running (A - ?D) (filter_events cfg blocked es)"
      using p'(4) Cons.prems(2-4) 3 unfolding A run by (intro Cons.IH [of _ _ started opens]) (simp_all add: Let_def)
    show ?thesis
    proof (cases "?i \<in> set blocked")
      case False
      have "plain_ok p (A - ?D) (ev # filter_events cfg blocked es)"
        using IH False 3 run A by (intro kept) simp_all
      with False 3 show ?thesis by (simp add: filter_step_def Let_def)
    qed (use IH run 3 in \<open>simp add: filter_step_def Let_def\<close>)
  next
    case 4
    with p'(1) have run: "p = Running" "p' = Running" using phase_running by force+
    note one = opens_one [OF p'(2) call_sym(4) [OF 4] call_sym(1)]
    have A: "?A = A - {ToolCall ?i}" using one 4 by (auto split: if_splits)
    have IH: "plain_ok Running (A - {ToolCall ?i} - ?D) (filter_events cfg blocked es)"
      using p'(4) Cons.prems(2-4) 4 unfolding A run by (intro Cons.IH [of _ _ started "set_del ?i opens"]) (auto simp: Let_def)
    show ?thesis
    proof (cases "?i \<in> set blocked")
      case True
      then have "A - {ToolCall ?i} - ?D = A - ?D" by auto
      with IH True 4 run show ?thesis by (simp add: filter_step_def Let_def)
    next
      case False
      have "plain_ok p (A - ?D) (ev # filter_events cfg blocked es)"
        using IH False 4 run A by (intro kept) simp_all
      with False 4 show ?thesis by (simp add: filter_step_def Let_def)
    qed
  next
    case 5
    with p'(1) have run: "p = Running" "p' = Running" using phase_running by force+
    have A: "?A = A" using 5 by (auto simp: call_sym(5))
    from Cons.prems(2) 5 have fresh: "?i \<notin> set opens" "orderly_calls started opens es" by (simp_all add: Let_def)
    have IH: "plain_ok Running (A - ToolCall ` set b) (filter_events cfg b es)" if "set b \<subseteq> set started" for b
      using p'(4) fresh(2) Cons.prems(4) that unfolding A run by (intro Cons.IH [of _ _ started opens]) auto
    show ?thesis
    proof (cases "?i \<in> set blocked")
      case True
      have "A - ToolCall ` set (set_del ?i blocked) = A - ?D" using fresh(1) Cons.prems(4) by auto
      with IH [of "set_del ?i blocked"] Cons.prems(3) True 5 run show ?thesis by (auto simp: filter_step_def Let_def)
    next
      case False
      have "plain_ok p (A - ?D) (ev # filter_events cfg blocked es)"
        using p' IH [of blocked] Cons.prems(3) False 5 unfolding A run by (intro plain_ok_kept) (auto simp: call_sym(5))
      with False 5 show ?thesis by (simp add: filter_step_def Let_def)
    qed
  next
    case 6
    have "plain_ok p' (?A - ?D) (filter_events cfg blocked es)"
    proof (rule Cons.IH [OF p'(4)])
      show "orderly_calls started opens es" using Cons.prems(2) 6 by (simp add: Let_def)
      show "i \<in> set opens" if "ToolCall i \<in> ?A" for i
      proof -
        have "entity_sym (ToolCall i) ev = BOther" using 6 by (intro call_sym(6)) simp
        with that Cons.prems(4) show ?thesis by simp
      qed
    qed (rule Cons.prems(3))
    then have "plain_ok p (A - ?D) (ev # filter_events cfg blocked es)"
      using p'(1-3) 6 by (intro plain_ok_kept) (auto simp: sym_of_def)
    with 6 show ?thesis by (simp add: filter_step_def Let_def)
  qed
qed simp

subsection \<open>No subagents\<close>

definition unattributed :: "jsval \<Rightarrow> bool" where
  "unattributed v = (case v of JObj m \<Rightarrow> \<not> has_own m ''subagentRunId'' | _ \<Rightarrow> True)"

definition unattributed_event :: "event \<Rightarrow> bool" where
  "unattributed_event ev \<longleftrightarrow> \<not> has_own (ev_props ev) ''subagentRunId'' \<and> ev_type ev \<notin> set subagent_types \<and>
     (ev_type ev = MESSAGES_SNAPSHOT \<longrightarrow> list_all unattributed (arr_items (field ev ''messages''))) \<and>
     (ev_type ev = RUN_FINISHED \<longrightarrow> list_all unattributed (arr_items (jget (field ev ''outcome'') ''interrupts''))) \<and>
     (ev_type ev = RUN_STARTED \<longrightarrow> list_all unattributed (arr_items (jget (field ev ''input'') ''messages'')))"

lemma strip_unattributed: "unattributed (stripSubagentRunId v)"
  by (cases v) (simp_all add: unattributed_def stripSubagentRunId_def)

lemma odel_absent: "\<not> has_own m k \<Longrightarrow> odel k m = m"
  by (simp add: odel_def has_own_iff delete_id)

lemma strip_id: "unattributed v \<Longrightarrow> stripSubagentRunId v = v"
  by (cases v) (simp_all add: unattributed_def stripSubagentRunId_def odel_absent)

lemma stripMessages_unattributed: "list_all unattributed (stripMessages ms)"
  by (simp add: stripMessages_def list_all_iff strip_unattributed)

lemma stripMessages_id: "list_all unattributed ms \<Longrightarrow> stripMessages ms = ms"
  by (auto simp: stripMessages_def list_all_iff strip_id intro!: map_idI)

lemma present: "oget m k \<noteq> JUndef \<Longrightarrow> has_own m k"
  using oget_not_own by blast

lemma strip_member_get:
  "oget (strip_member k m) k' = (if k' = k then (case oget m k of JArr ms \<Rightarrow> JArr (stripMessages ms) | v \<Rightarrow> v) else oget m k')"
  by (simp add: strip_member_def split: jsval.split)

lemma strip_member_own: "has_own (strip_member k m) k' = has_own m k'"
  using present [of m k] by (auto simp: strip_member_def split: jsval.split)

lemma strip_member_id: "list_all unattributed (arr_items (oget m k)) \<Longrightarrow> strip_member k m = m"
  using present [of m k] by (cases "oget m k") (auto simp: strip_member_def stripMessages_id dest: oset_oget)

lemma strip_member_clean: "list_all unattributed (arr_items (oget (strip_member k m) k))"
  by (cases "oget m k") (simp_all add: strip_member_get stripMessages_unattributed)

lemma strip_nested_own: "has_own (strip_nested k k' m) k'' = has_own m k''"
  using present [of m k] by (auto simp: strip_nested_def split: jsval.split)

lemma strip_nested_id: "list_all unattributed (arr_items (jget (oget m k) k')) \<Longrightarrow> strip_nested k k' m = m"
proof (cases "oget m k")
  case (JObj m')
  assume *: "list_all unattributed (arr_items (jget (oget m k) k'))"
  then have "strip_member k' m' = m'" by (intro strip_member_id) (simp add: JObj)
  with JObj present [of m k] oset_oget [of m k] show ?thesis by (simp add: strip_nested_def split: jsval.split)
qed (simp_all add: strip_nested_def)

lemma strip_nested_clean: "list_all unattributed (arr_items (jget (oget (strip_nested k k' m) k) k'))"
proof (cases "oget m k")
  case (JObj m')
  with strip_member_clean [of k' m'] show ?thesis by (cases "oget m' k'") (simp_all add: strip_nested_def)
qed (simp_all add: strip_nested_def)

lemma transform57_type [simp]: "ev_type (transformEvent57 ev) = ev_type ev"
  by (simp add: transformEvent57_def Let_def)

lemma transform57_clean: "ev_type ev \<notin> set subagent_types \<Longrightarrow> unattributed_event (transformEvent57 ev)"
  by (auto simp: unattributed_event_def transformEvent57_def Let_def field_def strip_member_own strip_nested_own
      strip_member_clean strip_nested_clean)

lemma transform57_id: "unattributed_event ev \<Longrightarrow> transformEvent57 ev = ev"
  by (auto simp: unattributed_event_def transformEvent57_def Let_def field_def odel_absent strip_member_id strip_nested_id)

lemma events57_clean: "list_all unattributed_event (events57 es)"
  by (auto simp: events57_def list_all_iff transform57_clean)

lemma events57_id: "list_all unattributed_event es \<Longrightarrow> events57 es = es"
  by (auto simp: events57_def list_all_iff transform57_id unattributed_event_def filter_True intro!: map_idI)

subsection \<open>Nothing left to translate\<close>

lemma events45_id: "list_all (\<lambda>ev. ev_type ev \<notin> set thinking_types) es \<Longrightarrow> events45 uuid st es = es"
proof (induction es arbitrary: st)
  case (Cons ev es)
  then have "transformEvent45 uuid ev st = (st, ev)" by (auto simp: transformEvent45_def thinking_types_def)
  with Cons show ?case by simp
qed simp

lemma kinds_not_thinking:
  "start_type k \<notin> set thinking_types \<and> content_type k \<notin> set thinking_types \<and> end_type k \<notin> set thinking_types"
  by (cases k) (simp_all add: thinking_types_def)

subsection \<open>Theorems\<close>

text \<open>
  A peer without subagents: what the shim lets through carries no attribution, neither on an event nor on the messages and interrupts nested in it,
  and no subagent life cycle; otherwise the stream keeps its events in order, and a second shim changes nothing.
\<close>

theorem shim57_removes:
  "list_all unattributed_event (events57 es) \<and> events57 (events57 es) = events57 es \<and>
   map ev_type (events57 es) = filter (\<lambda>t. t \<notin> set subagent_types) (map ev_type es)"
  using events57_clean events57_id [OF events57_clean]
  by (simp add: events57_def filter_map comp_def)

text \<open>
  Behind the compatibility boundary the shim for thinking events finds nothing to do: it passes on the expanded stream, whatever the agent sends.
\<close>

theorem shim45_idle:
  "BackwardCompatibility_0_0_45 uuid (CompatibilityBoundary uuid' nxt) input = runNext (CompatibilityBoundary uuid' nxt) input"
proof -
  obtain es f where bnd: "CompatibilityBoundary uuid' nxt input = (es, f)" by fastforce
  then have "list_all settled_event es"
    using boundary_settled by (auto simp: CompatibilityBoundary_def case_prod_unfold Let_def)
  then have "list_all (\<lambda>ev. ev_type ev \<notin> set thinking_types) es" by (simp add: list_all_iff settled_event_def)
  from run_types [OF kinds_not_thinking this, of "[]"]
  have "list_all (\<lambda>ev. ev_type ev \<notin> set thinking_types) (fst (transformChunks es))"
    by (simp add: transformChunks_def case_prod_unfold Let_def)
  then show ?thesis
    using bnd by (simp add: BackwardCompatibility_0_0_45_def runNext_def case_prod_unfold Let_def events45_id)
qed

text \<open>
  A filtered tool call disappears with all that belongs to it: its start does not pass, nor do its arguments, its end or its result, until the
  result has come or another run starts.
\<close>

theorem filter_hides_calls:
  assumes "ev_type start = TOOL_CALL_START" "shouldFilterTool cfg (field start ''toolCallName'')"
    and "list_all (\<lambda>e. \<not> unblocks (field start ''toolCallId'') e) between"
    and "ev_type ev \<in> {TOOL_CALL_ARGS, TOOL_CALL_END, TOOL_CALL_RESULT}" "field ev ''toolCallId'' = field start ''toolCallId''"
  shows "filter_events cfg [] (before @ [start]) = filter_events cfg [] before \<and>
    filter_events cfg [] (before @ start # between @ [ev]) = filter_events cfg [] (before @ start # between)"
proof -
  let ?i = "field start ''toolCallId''"
  let ?b = "blocked_after cfg [] before"
  have start: "filter_step cfg b start = (set_add ?i b, False)" for b
    using assms(1,2) by (simp add: filter_step_def Let_def)
  have "filter_events cfg [] (before @ [start]) = filter_events cfg [] before"
    by (simp add: filter_events_append start)
  moreover have "?i \<in> set (blocked_after cfg (set_add ?i ?b) between)" by (rule blocked_stays [OF _ assms(3)]) simp
  then have "filter_events cfg (blocked_after cfg (set_add ?i ?b) between) [ev] = []"
    using assms(4,5) by (auto simp: filter_step_def Let_def)
  then have "filter_events cfg [] (before @ start # between @ [ev]) = filter_events cfg [] (before @ start # between)"
    using filter_events_append [of cfg "[]" "before @ start # between" "[ev]"] by (simp add: blocked_after_append start)
  ultimately show ?thesis ..
qed

text \<open>A call that is filtered out and one that is not.\<close>

definition call_stream :: "event list" where
  "call_stream =
     [mk_event RUN_STARTED [],
      mk_event TOOL_CALL_START [(''toolCallId'', JStr ''a''), (''toolCallName'', JStr ''rm'')],
      mk_event TOOL_CALL_START [(''toolCallId'', JStr ''b''), (''toolCallName'', JStr ''ls'')],
      mk_event TOOL_CALL_ARGS [(''toolCallId'', JStr ''a'')],
      mk_event TOOL_CALL_END [(''toolCallId'', JStr ''b'')],
      mk_event TOOL_CALL_END [(''toolCallId'', JStr ''a'')],
      mk_event TOOL_CALL_RESULT [(''toolCallId'', JStr ''a'')],
      mk_event RUN_FINISHED []]"

theorem filter_hides_calls_witness:
  "filter_events (Disallowed [''rm'']) [] (take 2 call_stream @ [mk_event TOOL_CALL_ARGS [(''toolCallId'', JStr ''a'')]]) =
     filter_events (Disallowed [''rm'']) [] (take 2 call_stream)"
proof -
  let ?start = "mk_event TOOL_CALL_START [(''toolCallId'', JStr ''a''), (''toolCallName'', JStr ''rm'')]"
  have "shouldFilterTool (Disallowed [''rm'']) (field ?start ''toolCallName'')" by code_simp
  from filter_hides_calls [OF _ this, of "[]" "mk_event TOOL_CALL_ARGS [(''toolCallId'', JStr ''a'')]" "take 1 call_stream"]
  show ?thesis by (simp add: call_stream_def)
qed

text \<open>
  C38. Filtering tool calls keeps a stream valid: what the filter leaves of a stream of the parent agent that the verifier accepts, the verifier accepts, if ids are not reused
  within a run and results come after the end of their call.
\<close>

theorem filter_verifies:
  assumes "accepts verify_step init_vstate es" "list_all plain_event es" "orderly_calls [] [] es"
  shows "accepts verify_step init_vstate (filter_events cfg [] es)"
proof -
  have init: "plain_state init_vstate" "phase_of init_vstate = NotStarted" "{x. entity_open init_vstate x} = {}"
    using entity_open_init by (auto simp: plain_state_def phase_of_def init_vstate_def)
  have "plain_ok NotStarted {} es" using run_plain [OF verify_inv_init init(1) assms(2)] assms(1) init by simp
  then have "plain_ok NotStarted ({} - ToolCall ` set []) (filter_events cfg [] es)"
    using assms(3) by (intro filter_plain_ok) simp_all
  moreover have "list_all plain_event (filter_events cfg b es)" for b
    using assms(2) by (induction es arbitrary: b) (simp_all add: case_prod_unfold Let_def)
  ultimately show ?thesis
    using run_plain [OF verify_inv_init init(1)] init by simp
qed

theorem filter_verifies_witness: "accepts verify_step init_vstate (filter_events (Disallowed [''rm'']) [] call_stream)"
proof (rule filter_verifies)
  show "accepts verify_step init_vstate call_stream" by code_simp
  show "list_all plain_event call_stream" by code_simp
  show "orderly_calls [] [] call_stream" by code_simp
qed

text \<open>Without that order it does not: a filtered call whose id is used again for an allowed one leaves the start of the second alone.\<close>

lemma filter_reused_id:
  "\<exists>es. accepts verify_step init_vstate es \<and> \<not> accepts verify_step init_vstate (filter_events (Disallowed [''rm'']) [] es)"
proof -
  let ?call = "\<lambda>n. [mk_event TOOL_CALL_START [(''toolCallId'', JStr ''a''), (''toolCallName'', JStr n)],
     mk_event TOOL_CALL_END [(''toolCallId'', JStr ''a'')]]"
  let ?es = "mk_event RUN_STARTED [] # ?call ''rm'' @ ?call ''ls'' @ [mk_event RUN_FINISHED []]"
  have "accepts verify_step init_vstate ?es" by code_simp
  moreover have "\<not> accepts verify_step init_vstate (filter_events (Disallowed [''rm'']) [] ?es)" by code_simp
  ultimately show ?thesis by blast
qed

end
