(* ===== verification/Interrupts.thy ===== *)
theory Interrupts
  imports MetadataProps
begin

text \<open>
  Answering interrupts, \<^verbatim>\<open>client/src/interrupts/index.ts\<close>. An interrupt is an object with an \<^verbatim>\<open>id\<close>; the responses are an object from ids to
  responses, an association list with distinct keys. The parser of dates is a parameter: \<^verbatim>\<open>new Date(s)\<close> as milliseconds, or nothing
  for a string that is no date, which compares as \<^verbatim>\<open>NaN\<close>.
\<close>

subsection \<open>Definitions\<close>

definition getRunOutcome :: "event \<Rightarrow> jsval" where
  "getRunOutcome ev = field ev ''outcome''"

definition isInterruptExpired :: "(jsval \<Rightarrow> int option) \<Rightarrow> jsobj \<Rightarrow> int \<Rightarrow> bool" where
  "isInterruptExpired date interrupt now =
     (if oget interrupt ''expiresAt'' = JUndef then False
      else case date (oget interrupt ''expiresAt'') of None \<Rightarrow> False | Some t \<Rightarrow> t \<le> now)"

datatype resume_error = MissingResponses "string list" | UnknownInterrupts "string list"

definition interrupt_id :: "jsobj \<Rightarrow> string" where
  "interrupt_id interrupt = str_of (oget interrupt ''id'')"

definition resume_entry :: "string \<Rightarrow> jsval \<Rightarrow> jsobj" where
  "resume_entry i r =
     (let entry = [(''interruptId'', JStr i), (''status'', jget r ''status'')];
          entry = (if jget r ''status'' = JStr ''resolved'' \<and> jget r ''payload'' \<noteq> JUndef
                   then oset ''payload'' (jget r ''payload'') entry else entry)
      in if jget r ''metadata'' \<noteq> JUndef then oset ''metadata'' (jget r ''metadata'') entry else entry)"

definition buildResumeArray :: "jsobj list \<Rightarrow> jsobj \<Rightarrow> resume_error + jsobj list" where
  "buildResumeArray interrupts responses =
     (let openIds = as_set (map interrupt_id interrupts);
          responseIds = as_set (map fst responses);
          missing = filter (\<lambda>i. i \<notin> set responseIds) openIds;
          unknown = filter (\<lambda>i. i \<notin> set openIds) responseIds
      in if missing \<noteq> [] then Inl (MissingResponses missing)
         else if unknown \<noteq> [] then Inl (UnknownInterrupts unknown)
         else Inr (map (\<lambda>interrupt. resume_entry (interrupt_id interrupt) (oget responses (interrupt_id interrupt))) interrupts))"

subsection \<open>Properties\<close>

lemma resume_entry_fields:
  "oget (resume_entry i r) k =
     (if k = ''metadata'' then jget r ''metadata''
      else if k = ''payload'' then (if jget r ''status'' = JStr ''resolved'' then jget r ''payload'' else JUndef)
      else if k = ''interruptId'' then JStr i
      else if k = ''status'' then jget r ''status'' else JUndef)"
  by (simp add: resume_entry_def Let_def)

text \<open>
  A resume array answers the open interrupts exactly: it is built if and only if the responses name the open interrupts and no others, and an error
  otherwise names what is missing or, if nothing is, what is unknown; each entry, in the order of the interrupts, carries the status and metadata
  of its response, and its payload only when the interrupt is resolved.
\<close>

theorem resume_exact:
  "case buildResumeArray interrupts responses of
     Inr entries \<Rightarrow>
       set (map interrupt_id interrupts) = set (map fst responses) \<and>
       map (\<lambda>e. oget e ''interruptId'') entries = map (JStr \<circ> interrupt_id) interrupts \<and>
       map (\<lambda>e. (oget e ''status'', oget e ''metadata'')) entries =
         map (\<lambda>i. let r = oget responses (interrupt_id i) in (jget r ''status'', jget r ''metadata'')) interrupts \<and>
       map (\<lambda>e. oget e ''payload'') entries =
         map (\<lambda>i. let r = oget responses (interrupt_id i) in if jget r ''status'' = JStr ''resolved'' then jget r ''payload'' else JUndef) interrupts
   | Inl (MissingResponses ids) \<Rightarrow> ids \<noteq> [] \<and> set ids = set (map interrupt_id interrupts) - set (map fst responses)
   | Inl (UnknownInterrupts ids) \<Rightarrow> ids \<noteq> [] \<and> set ids = set (map fst responses) - set (map interrupt_id interrupts) \<and>
       set (map interrupt_id interrupts) \<subseteq> set (map fst responses)"
proof -
  let ?o = "set (map interrupt_id interrupts)" and ?r = "set (map fst responses)"
  consider "\<not> ?o \<subseteq> ?r" | "?o \<subseteq> ?r" "\<not> ?r \<subseteq> ?o" | "?o = ?r" by blast
  then show ?thesis
  proof cases
    case 1
    then show ?thesis by (auto simp: buildResumeArray_def Let_def filter_empty_conv set_as_set)
  next
    case 2
    then show ?thesis by (auto simp: buildResumeArray_def Let_def filter_empty_conv set_as_set)
  next
    case 3
    then have "buildResumeArray interrupts responses =
        Inr (map (\<lambda>interrupt. resume_entry (interrupt_id interrupt) (oget responses (interrupt_id interrupt))) interrupts)"
      by (auto simp: buildResumeArray_def Let_def filter_empty_conv set_as_set)
    with 3 show ?thesis by (simp add: resume_entry_fields Let_def)
  qed
qed

end
