(* ===== verification/AgentRun.thy ===== *)
theory AgentRun
  imports Agent Interrupts
begin

text \<open>
  A run from the caller's side: \<^verbatim>\<open>runAgent\<close>, \<^verbatim>\<open>connectAgent\<close> and the methods they call in \<^verbatim>\<open>client/src/agent/agent.ts\<close>. The record
  \<open>agent_fields\<close> holds the fields of \<^verbatim>\<open>AbstractAgent\<close>; a run takes them and an opaque world of the subscribers, and returns both with the
  outcome. Optional fields are options; an input is a JavaScript object. Detaching is a parameter of the run: after how many verified events it comes.

  Packages and the machine are fields of \<open>run_env\<close>: fresh ids, the comparison of versions, dates, JSON Patch, the validators. So are the error
  object a subscriber is shown for an error of the client's own, and what a failing step of the reducer leaves of the world, which the
  model of the reducer does not return. Logging and notifications of changes are left out, as is a second run started during the first.
\<close>

subsection \<open>The fields of an agent\<close>

record 'w agent_fields = agent_view +
  agentId :: "string option"
  threadId :: "string option"
  isRunning :: bool
  openInterrupts :: "jsval list"
  agent_subscribers :: "'w subscriber list"
  middlewares :: "middleware list"
  entryBudget :: "nat option"

record 'w run_env =
  testing :: bool
  jsonPatch :: "jsval \<Rightarrow> jsval \<Rightarrow> jsval option"
  uuidv4 :: "nat \<Rightarrow> string"
  compareVersions :: "string \<Rightarrow> string \<Rightarrow> int"
  validateVersion :: "string \<Rightarrow> bool"
  maxProtocolVersion :: jsval
  validator :: "zschema \<Rightarrow> jsval \<Rightarrow> string + jsval"
  dateOf :: "jsval \<Rightarrow> int option"
  now :: int
  errorObject :: "run_error \<Rightarrow> jsval"
  after_failure :: "'w \<times> jsval \<Rightarrow> 'w \<times> jsval"

definition packageVersion :: string where "packageVersion = ''1.0.3''"
definition PROTOCOL_VERSION :: string where "PROTOCOL_VERSION = ''1.0''"

datatype construction_error = InvalidCeiling jsval | InvalidEntries enforce_error

text \<open>The constructor; an option that is not given is \<open>None\<close>.\<close>

definition new_agent ::
  "'w run_env \<Rightarrow> string option \<Rightarrow> string option \<Rightarrow> jsval list option \<Rightarrow> jsval \<Rightarrow> budget_option \<Rightarrow> construction_error + 'w agent_fields" where
  "new_agent env i t initialMessages initialState maxEntries =
     (case resolveMaxEntries maxEntries of
        Inl e \<Rightarrow> Inl (InvalidEntries e)
      | Inr mx \<Rightarrow>
          (case maxProtocolVersion env of
             JStr ceiling \<Rightarrow>
               (if \<not> validateVersion env ceiling then Inl (InvalidCeiling (JStr ceiling))
                else Inr \<lparr>agent_messages = (case initialMessages of Some ms \<Rightarrow> ms | None \<Rightarrow> []),
                  agent_state = (if nullish initialState then JObj [] else initialState),
                  agentId = i, threadId = t, isRunning = False, openInterrupts = [], agent_subscribers = [],
                  middlewares = installed_shims (\<lambda>a b. compareVersions env a b \<le> 0) (uuidv4 env) ceiling, entryBudget = mx\<rparr>)
           | v \<Rightarrow> Inl (InvalidCeiling v)))"

definition subscribe :: "'w subscriber \<Rightarrow> 'w agent_fields \<Rightarrow> 'w agent_fields" where
  "subscribe s a = a\<lparr>agent_subscribers := agent_subscribers a @ [s]\<rparr>"

definition use_middlewares :: "middleware list \<Rightarrow> 'w agent_fields \<Rightarrow> 'w agent_fields" where
  "use_middlewares ms a = a\<lparr>middlewares := middlewares a @ ms\<rparr>"

text \<open>\<^verbatim>\<open>clone\<close>: reading the getter gives the original a thread id if it had none.\<close>

definition value_or_new :: "(nat \<Rightarrow> string) \<Rightarrow> string option \<Rightarrow> nat \<Rightarrow> string \<times> nat" where
  "value_or_new uuid v n = (case v of Some s \<Rightarrow> (s, n) | None \<Rightarrow> (uuid n, Suc n))"

definition clone :: "'w run_env \<Rightarrow> 'w agent_fields \<Rightarrow> 'w agent_fields \<times> 'w agent_fields" where
  "clone env a = (let a' = a\<lparr>threadId := Some (fst (value_or_new (uuidv4 env) (threadId a) 0))\<rparr> in (a', a'))"

subsection \<open>The declared protocol version\<close>

datatype declared_version = Newer | NotNewer | Uninterpretable

definition all_digits :: "string \<Rightarrow> bool" where
  "all_digits s = (s \<noteq> [] \<and> list_all (\<lambda>c. c \<in> set ''0123456789'') s)"

definition two_components :: "string \<Rightarrow> bool" where
  "two_components s =
     (all_digits (takeWhile (\<lambda>c. c \<noteq> CHR ''.'') s) \<and>
      (case dropWhile (\<lambda>c. c \<noteq> CHR ''.'') s of [] \<Rightarrow> False | _ # rest \<Rightarrow> all_digits rest))"

definition compareDeclaredProtocol :: "'w run_env \<Rightarrow> string \<Rightarrow> string \<Rightarrow> declared_version" where
  "compareDeclaredProtocol env declared spoken =
     (if \<not> two_components declared then Uninterpretable
      else if compareVersions env declared spoken > 0 then Newer else NotNewer)"

subsection \<open>The input of a run\<close>

text \<open>What is left of a history for the producer.\<close>

definition sendable :: "jsval list \<Rightarrow> jsval list" where
  "sendable ms = keepToolResultsWithCalls (filter (\<lambda>m. jget m ''role'' \<noteq> JStr ''activity'') ms)"

definition default_to :: "jsval \<Rightarrow> jsval \<Rightarrow> jsval" where
  "default_to d v = (if nullish v then d else v)"

text \<open>The parameters are an object. The ids drawn so far are counted; the result has the agent with its thread id and the next count.\<close>

definition prepareRunAgentInput :: "'w run_env \<Rightarrow> nat \<Rightarrow> 'w agent_fields \<Rightarrow> jsobj \<Rightarrow> jsobj \<times> 'w agent_fields \<times> nat" where
  "prepareRunAgentInput env n a parameters =
     (let clonedMessages = map strip_message_tag (agent_messages a);
          (t, n1) = value_or_new (uuidv4 env) (threadId a) n;
          (r, n2) = (if truthy (oget parameters ''runId'') then (oget parameters ''runId'', n1)
                     else (JStr (uuidv4 env n1), Suc n1))
      in ([(''threadId'', JStr t), (''runId'', r)] @
          (if compareVersions env (str_of (maxProtocolVersion env)) packageVersion \<ge> 0
           then [(''protocolVersion'', JStr PROTOCOL_VERSION)] else []) @
          [(''tools'', default_to (JArr []) (oget parameters ''tools'')),
           (''context'', default_to (JArr []) (oget parameters ''context'')),
           (''forwardedProps'', default_to (JObj []) (oget parameters ''forwardedProps'')),
           (''state'', agent_state a),
           (''messages'', JArr (sendable clonedMessages))] @
          opt_prop ''resume'' (oget parameters ''resume''),
          a\<lparr>threadId := Some t\<rparr>, n2))"

subsection \<open>Initialisation\<close>

datatype init_error = PendingInterrupts "jsval list" | InterruptExpired jsval jsval | InitializeRejected

definition uncovered :: "jsval list \<Rightarrow> jsval \<Rightarrow> jsval list" where
  "uncovered pending resume =
     (let resumeIds = map (\<lambda>r. jget r ''interruptId'') (arr_items resume)
      in filter (\<lambda>i. i \<notin> set resumeIds) (map (\<lambda>i. jget i ''id'') pending))"

definition has_expired :: "'w run_env \<Rightarrow> jsval \<Rightarrow> bool" where
  "has_expired env i = (case i of JObj interrupt \<Rightarrow> isInterruptExpired (dateOf env) interrupt (now env) | _ \<Rightarrow> False)"

definition cancels :: "jsval \<Rightarrow> jsval \<Rightarrow> bool" where
  "cancels resume i =
     (case find (\<lambda>r. jget r ''interruptId'' = jget i ''id'') (arr_items resume) of
        Some entry \<Rightarrow> jget entry ''status'' = JStr ''cancelled'' | None \<Rightarrow> False)"

definition interrupt_gate :: "'w run_env \<Rightarrow> jsval list \<Rightarrow> jsval \<Rightarrow> init_error option" where
  "interrupt_gate env pending resume =
     (if uncovered pending resume \<noteq> [] then Some (PendingInterrupts (uncovered pending resume))
      else case find (\<lambda>i. has_expired env i \<and> \<not> cancels resume i) pending of
        Some i \<Rightarrow> Some (InterruptExpired (jget i ''id'') (jget i ''expiresAt''))
      | None \<Rightarrow> None)"

text \<open>The hooks of the agent itself concern no event; an event of no type stands for it. Those of a run are called with the input.\<close>

definition agent_call :: "hook \<Rightarrow> jsval list \<Rightarrow> hook_call" where
  "agent_call h args = \<lparr>hk = h, hk_event = mk_event (OtherType []) [], hk_args = args\<rparr>"

definition run_call :: "hook \<Rightarrow> jsobj \<Rightarrow> jsval list \<Rightarrow> hook_call" where
  "run_call h input args = agent_call h (JObj input # args)"

definition onInitialize ::
  "'v run_env \<Rightarrow> bool \<Rightarrow> 'w subscriber list \<Rightarrow> 'v agent_fields \<Rightarrow> 'w \<Rightarrow> jsobj \<Rightarrow> init_error + 'w \<times> 'v agent_fields \<times> jsobj" where
  "onInitialize env answering subs a w input =
     (case (if answering then interrupt_gate env (openInterrupts a) (oget input ''resume'') else None) of
        Some e \<Rightarrow> Inl e
      | None \<Rightarrow>
          (case runSubscribersWithMutation (testing env) subs (run_call OnRunInitialized input []) w (agent_messages a) (agent_state a) of
             None \<Rightarrow> Inl InitializeRejected
           | Some (w', m) \<Rightarrow>
               (let (a1, input1) =
                      (case mut_messages m of
                         Some ms \<Rightarrow> (let ms' = map strip_message_tag ms
                                    in (a\<lparr>agent_messages := ms'\<rparr>, oset ''messages'' (JArr (sendable ms')) input))
                       | None \<Rightarrow> (a, input));
                    (a2, input2) =
                      (case mut_state m of
                         Some s \<Rightarrow> (a1\<lparr>agent_state := s\<rparr>, oset ''state'' s input1)
                       | None \<Rightarrow> (a1, input1))
                in Inr (w', a2, input2))))"

subsection \<open>The end of a run\<close>

definition take_result :: "mutation \<Rightarrow> 'v agent_fields \<Rightarrow> 'v agent_fields" where
  "take_result m a = take_update a (mut_messages m, mut_state m)"

definition shown_error :: "'v run_env \<Rightarrow> run_error \<Rightarrow> jsval" where
  "shown_error env e = (case e of StreamFailure (SourceFailure v) \<Rightarrow> v | _ \<Rightarrow> errorObject env e)"

definition is_abort :: "jsval \<Rightarrow> bool" where
  "is_abort e =
     (jget e ''name'' = JStr ''AbortError'' \<or> jget e ''message'' = JStr ''Fetch is aborted'' \<or>
      jget e ''message'' = JStr ''signal is aborted without reason'' \<or> jget e ''message'' = JStr ''component unmounted'' \<or>
      e = JStr ''component unmounted'')"

datatype run_failure = RunFailed run_error | FailureHookRejected

text \<open>The outcome is the failure to rethrow, if any.\<close>

definition onError ::
  "'v run_env \<Rightarrow> ('w \<times> jsval) subscriber list \<Rightarrow> ('w \<times> jsval \<Rightarrow> 'w \<times> jsval) \<Rightarrow> 'v agent_fields \<Rightarrow> 'w \<times> jsval \<Rightarrow> jsobj \<Rightarrow> run_error \<Rightarrow>
     ('w \<times> jsval) \<times> 'v agent_fields \<times> run_failure option" where
  "onError env subs lost a w input e =
     (case runSubscribersWithMutation (testing env) subs (run_call OnRunFailed input [shown_error env e]) w (agent_messages a) (agent_state a) of
        None \<Rightarrow> (lost w, a, Some FailureHookRejected)
      | Some (w', m) \<Rightarrow>
          (w', take_result m a,
           if mut_stop m \<noteq> Some True \<and> \<not> is_abort (shown_error env e) then Some (RunFailed e) else None))"

text \<open>\<^verbatim>\<open>onFinalize\<close> is not awaited; its own failure goes unnoticed.\<close>

definition onFinalize ::
  "'v run_env \<Rightarrow> ('w \<times> jsval) subscriber list \<Rightarrow> ('w \<times> jsval \<Rightarrow> 'w \<times> jsval) \<Rightarrow> 'v agent_fields \<Rightarrow> 'w \<times> jsval \<Rightarrow> jsobj \<Rightarrow> ('w \<times> jsval) \<times> 'v agent_fields" where
  "onFinalize env subs lost a w input =
     (case runSubscribersWithMutation (testing env) subs (run_call OnRunFinalized input []) w (agent_messages a) (agent_state a) of
        None \<Rightarrow> (lost w, a)
      | Some (w', m) \<Rightarrow> (w', take_result m a))"

subsection \<open>The run\<close>

text \<open>The client's own subscriber keeps the result of a successful run, beside the world of the others.\<close>

definition result_subscriber :: "('w \<times> jsval) subscriber" where
  "result_subscriber call ms st w =
     (case (hk call, hk_args call) of
        (OnRunFinished, outcome # r # _) \<Rightarrow> (if outcome = JStr ''success'' then (fst w, r) else w, Nothing)
      | _ \<Rightarrow> (w, Nothing))"

definition beside_result :: "'w subscriber \<Rightarrow> ('w \<times> jsval) subscriber" where
  "beside_result s call ms st w = (let (w', r) = s call ms st (fst w) in ((w', snd w), r))"

definition no_subscriber :: "'w subscriber" where
  "no_subscriber call ms st w = (w, Nothing)"

definition run_subscribers :: "'w agent_fields \<Rightarrow> 'w subscriber option \<Rightarrow> ('w \<times> jsval) subscriber list" where
  "run_subscribers a extra =
     result_subscriber # map beside_result (agent_subscribers a @ [case extra of Some s \<Rightarrow> s | None \<Rightarrow> no_subscriber])"

datatype run_outcome = Completed jsval "jsval list" | Refused init_error | Failed run_failure

definition reducer_env :: "'v run_env \<Rightarrow> 'w subscriber list \<Rightarrow> 'w renv" where
  "reducer_env env subs = \<lparr>test_env = testing env, subscribers = subs, applyPatch = jsonPatch env\<rparr>"

definition reducer_start :: "'v agent_fields \<Rightarrow> jsobj \<Rightarrow> 'w \<Rightarrow> 'w rstate" where
  "reducer_start a input w = init_rstate (agent_messages a) (oget input ''state'') (openInterrupts a) w"

text \<open>The pipeline from an initialised run to its completion, without the finalisation.\<close>

definition run_pipeline ::
  "'w run_env \<Rightarrow> ('w \<times> jsval) subscriber list \<Rightarrow> 'w agent_fields \<Rightarrow> 'w \<times> jsval \<Rightarrow> jsobj \<Rightarrow> source \<Rightarrow>
     ('w \<times> jsval) \<times> 'w agent_fields \<times> run_failure option" where
  "run_pipeline env subs a w input src =
     (let renv = reducer_env env subs; rs = reducer_start a input w;
          (updates, r) = applyBeforeSourceError renv rs src;
          rs' = reached (apply_step renv) rs (fst src);
          a' = (processApplyEvents a updates)\<lparr>openInterrupts := pendingInterrupts rs'\<rparr>
      in case r of
           Inr _ \<Rightarrow> (world rs', a', None)
         | Inl (ApplyFailure e) \<Rightarrow> onError env subs (after_failure env) a' (after_failure env (world rs')) input (ApplyFailure e)
         | Inl e \<Rightarrow> onError env subs (after_failure env) a' (world rs') input e)"

definition new_messages :: "jsval list \<Rightarrow> jsval list \<Rightarrow> jsval list" where
  "new_messages before ms = filter (\<lambda>m. jget m ''id'' \<notin> set (map (\<lambda>m. jget m ''id'') before)) ms"

text \<open>The agent with its ids and the input it starts a run with.\<close>

definition start_run :: "'w run_env \<Rightarrow> 'w agent_fields \<Rightarrow> jsobj \<Rightarrow> 'w agent_fields \<times> jsobj" where
  "start_run env a parameters =
     (let (i, n) = value_or_new (uuidv4 env) (agentId a) 0;
          (input, a1, _) = prepareRunAgentInput env n (a\<lparr>agentId := Some i\<rparr>) parameters
      in (a1, input))"

definition run_with ::
  "'w run_env \<Rightarrow> bool \<Rightarrow> 'w subscriber option \<Rightarrow> (jsobj \<Rightarrow> source) \<Rightarrow> jsobj \<Rightarrow> 'w agent_fields \<Rightarrow> 'w \<Rightarrow> 'w \<times> 'w agent_fields \<times> run_outcome" where
  "run_with env answering extra source parameters a w =
     (let (a1, input) = start_run env a parameters;
          subs = run_subscribers a extra
      in case onInitialize env answering subs a1 (w, JUndef) input of
           Inl InitializeRejected \<Rightarrow> (fst (after_failure env (w, JUndef)), a1\<lparr>isRunning := False\<rparr>, Refused InitializeRejected)
         | Inl e \<Rightarrow> (w, a1\<lparr>isRunning := False\<rparr>, Refused e)
         | Inr (w2, a2, input2) \<Rightarrow>
             (let (w3, a3, failure) = run_pipeline env subs a2 w2 input2 (source input2);
                  (w4, a4) = onFinalize env subs (after_failure env) a3 w3 input2
              in (fst w4, a4\<lparr>isRunning := False\<rparr>,
                  case failure of
                    Some f \<Rightarrow> Failed f
                  | None \<Rightarrow> Completed (snd w3) (new_messages (agent_messages a) (agent_messages a3)))))"

text \<open>\<^verbatim>\<open>run\<close> is the subclass's own; \<open>d\<close> says when the run is detached.\<close>

definition agent_source :: "'w run_env \<Rightarrow> agent \<Rightarrow> nat option \<Rightarrow> 'w agent_fields \<Rightarrow> jsobj \<Rightarrow> source" where
  "agent_source env run d a input =
     detach_after d (run_source (validator env) (entryBudget a) (chainedAgent (uuidv4 env) (middlewares a) run input))"

definition runAgent ::
  "'w run_env \<Rightarrow> agent \<Rightarrow> nat option \<Rightarrow> 'w subscriber option \<Rightarrow> jsobj \<Rightarrow> 'w agent_fields \<Rightarrow> 'w \<Rightarrow> 'w \<times> 'w agent_fields \<times> run_outcome" where
  "runAgent env run d extra parameters a w = run_with env True extra (agent_source env run d a) parameters a w"

text \<open>A subclass need not implement \<^verbatim>\<open>connect\<close>; then the run completes empty.\<close>

definition connect_source :: "'w run_env \<Rightarrow> agent option \<Rightarrow> nat option \<Rightarrow> 'w agent_fields \<Rightarrow> jsobj \<Rightarrow> source" where
  "connect_source env connect d a input =
     (case connect of
        None \<Rightarrow> ([], None)
      | Some run \<Rightarrow>
          (let (events, failure) = run input
           in detach_after d (run_source (validator env) (entryBudget a) (compatibilityBoundaryOperator (uuidv4 env) events, failure))))"

definition connectAgent ::
  "'w run_env \<Rightarrow> agent option \<Rightarrow> nat option \<Rightarrow> 'w subscriber option \<Rightarrow> jsobj \<Rightarrow> 'w agent_fields \<Rightarrow> 'w \<Rightarrow> 'w \<times> 'w agent_fields \<times> run_outcome" where
  "connectAgent env connect d extra parameters a w = run_with env False extra (connect_source env connect d a) parameters a w"

subsection \<open>Messages from outside a run\<close>

text \<open>The calls that \<^verbatim>\<open>addMessages\<close> makes in the background, in order; a rejection ends them.\<close>

definition message_calls :: "jsval \<Rightarrow> hook_call list" where
  "message_calls message =
     agent_call OnNewMessage [message] #
     (if jget message ''role'' = JStr ''assistant''
      then map (\<lambda>toolCall. agent_call OnNewToolCall [toolCall]) (arr_items (jget message ''toolCalls'')) else [])"

fun announce :: "'w subscriber list \<Rightarrow> jsval list \<Rightarrow> jsval \<Rightarrow> hook_call list \<Rightarrow> 'w \<Rightarrow> 'w option" where
  "announce subs ms st [] w = Some w"
| "announce subs ms st (call # calls) w =
     (case notify_all subs call w ms st of None \<Rightarrow> None | Some w' \<Rightarrow> announce subs ms st calls w')"

definition announce_all :: "'w agent_fields \<Rightarrow> hook_call list \<Rightarrow> 'w \<Rightarrow> 'w option" where
  "announce_all a calls w = announce (agent_subscribers a) (agent_messages a) (agent_state a) calls w"

definition addMessages :: "jsval list \<Rightarrow> 'w agent_fields \<Rightarrow> 'w \<Rightarrow> 'w agent_fields \<times> 'w option" where
  "addMessages ms a w =
     (let a' = a\<lparr>agent_messages := agent_messages a @ ms\<rparr>
      in (a', announce_all a' (concat (map message_calls ms) @ [agent_call OnMessagesChanged []]) w))"

definition addMessage :: "jsval \<Rightarrow> 'w agent_fields \<Rightarrow> 'w \<Rightarrow> 'w agent_fields \<times> 'w option" where
  "addMessage message a w =
     (let a' = a\<lparr>agent_messages := agent_messages a @ [message]\<rparr>
      in (a', announce_all a' (message_calls message @ [agent_call OnMessagesChanged []]) w))"

definition setMessages :: "jsval list \<Rightarrow> 'w agent_fields \<Rightarrow> 'w \<Rightarrow> 'w agent_fields \<times> 'w option" where
  "setMessages ms a w =
     (let a' = a\<lparr>agent_messages := ms\<rparr> in (a', announce_all a' [agent_call OnMessagesChanged []] w))"

definition setState :: "jsval \<Rightarrow> 'w agent_fields \<Rightarrow> 'w \<Rightarrow> 'w agent_fields \<times> 'w option" where
  "setState st a w =
     (let a' = a\<lparr>agent_state := st\<rparr> in (a', announce_all a' [agent_call OnStateChanged []] w))"

end
