(* ===== verification/AgentProps.thy ===== *)
theory AgentProps
  imports AgentRun Pipeline EnforceSpec
begin

text \<open>
  Lemmas on runs: what passes through the source of a run, the input it is started with, the gate at its start, and runs whose
  subscribers only watch.
\<close>

subsection \<open>The source\<close>

lemma verified_source: "fst (source_events es) = fst (verifyEvents (fst (transformChunks es)))"
  by (simp add: source_events_def Let_def case_prod_unfold)

lemma run_source_fst: "fst (run_source parse b s) = fst (source_events (fst (run_stage (enforce_event parse (resolved b)) () (fst s))))"
  by (simp add: run_source_def Let_def case_prod_unfold)

lemma detach_take: "\<exists>n. fst (detach_after d src) = take n (fst src)"
  by (cases d) (auto simp: detach_after_def intro: exI [of _ "length (fst src)"])

lemma verify_fixed_prefix:
  assumes "run_stage verify_step s es = (es, Inr t)"
  shows "\<exists>t. run_stage verify_step s (take n es) = (take n es, Inr t)"
proof -
  have run: "run_stage verify_step s (take n es @ drop n es) = (es, Inr t)" using assms by (simp only: append_take_drop_id)
  obtain os r where os: "run_stage verify_step s (take n es) = (os, r)" by (cases "run_stage verify_step s (take n es)")
  from run os obtain t1 os2 where r: "r = Inr t1" "es = os @ os2"
    unfolding run_stage_append by (auto split: sum.splits prod.splits)
  have "length os = length (take n es)" using run_pass_through [OF os] unfolding r(1) by force
  with r(2) have "os = take n es" by (metis append_eq_conv_conj append_take_drop_id length_take)
  with os r(1) show ?thesis by simp
qed

lemma source_verified: "\<exists>t. verifyEvents (fst (source_events es)) = (fst (source_events es), Inr t)"
proof -
  obtain os r where v: "verifyEvents (fst (transformChunks es)) = (os, r)" by (cases "verifyEvents (fst (transformChunks es))")
  have "same_but_notice init_vstate init_vstate" by (auto simp: same_but_notice_def intro: exI [of _ "nullSubagentRunIdNoticed init_vstate"])
  from run_again [OF v [unfolded verifyEvents_def] this] have "\<exists>t. verifyEvents os = (os, Inr t)"
    by (auto simp: verifyEvents_def)
  then show ?thesis by (simp add: verified_source v)
qed

lemma source_types:
  assumes "\<And>k. P (start_type k) \<and> P (content_type k) \<and> P (end_type k)" "list_all (\<lambda>e. P (ev_type e)) es"
  shows "list_all (\<lambda>e. P (ev_type e)) (fst (source_events es))"
proof -
  have os: "list_all (\<lambda>e. P (ev_type e)) (fst (transformChunks es))"
    using run_types [of P es "[]", OF assms] by (simp add: transformChunks_def Let_def case_prod_unfold)
  obtain n where "fst (verifyEvents (fst (transformChunks es))) = map strip_null_tag (take n (fst (transformChunks es)))"
    using run_pass_through [of init_vstate "fst (transformChunks es)"] unfolding verifyEvents_def by (metis prod.collapse)
  with os show ?thesis using set_take_subset [of n "fst (transformChunks es)"]
    by (auto simp: verified_source list_all_iff strip_null_tag_def)
qed

lemma list_all_take: "list_all P es \<Longrightarrow> list_all P (take n es)"
  by (metis append_take_drop_id list_all_append)

subsection \<open>The input\<close>

lemma strip_message_tag_not_null: "jget (strip_message_tag m) ''subagentRunId'' \<noteq> JNull"
  by (simp add: strip_message_tag_def jget_jdel)

definition paired :: "jsval list \<Rightarrow> bool" where
  "paired ms \<longleftrightarrow> (\<forall>i k t. sole_pair ms i k t \<longrightarrow> (\<exists>pre post. ms = pre @ ms ! t # post \<and> find separates (rev pre) = Some (ms ! k)))"

definition clean_input :: "jsobj \<Rightarrow> bool" where
  "clean_input input \<longleftrightarrow> paired (input_messages input) \<and>
     list_all (\<lambda>m. jget m ''role'' \<noteq> JStr ''activity'' \<and> jget m ''subagentRunId'' \<noteq> JNull) (input_messages input)"

lemma sole_pair_mono:
  assumes "\<And>j. j < length xs \<Longrightarrow> f j < length ys \<and> xs ! j = ys ! f j" "inj_on f {..<length xs}" "length xs = length ys"
    and pair: "sole_pair xs i k t"
  shows "sole_pair ys i (f k) (f t)"
proof -
  have "f ` {..<length xs} = {..<length ys}"
    using assms(1-3) by (intro card_subset_eq) (auto simp: card_image)
  then have ex: "\<exists>l < length xs. j = f l" if "j < length ys" for j using that by (auto simp: image_iff)
  have kt: "k < length xs" "t < length xs" using pair by (simp_all add: sole_pair_def)
  have "j = f k" if "j < length ys" "i \<in> set (issuedCallIds (ys ! j))" for j
    using ex [OF that(1)] that(2) assms(1) pair unfolding sole_pair_def by metis
  moreover have "j = f t" if "j < length ys" "roleOf (ys ! j) = JStr ''tool'' \<and> jget (ys ! j) ''toolCallId'' = JStr i" for j
    using ex [OF that(1)] that(2) assms(1) pair unfolding sole_pair_def by metis
  ultimately show ?thesis using assms(1) [OF kt(1)] assms(1) [OF kt(2)] pair unfolding sole_pair_def by metis
qed

lemma paired_keep: "paired (keepToolResultsWithCalls ms)"
proof (unfold paired_def, intro allI impI)
  fix i k t assume pair: "sole_pair (keepToolResultsWithCalls ms) i k t"
  let ?ord = "repair_order ms" and ?ks = "keepToolResultsWithCalls ms"
  have perm: "mset ?ord = mset [0..<length ms]" by (rule repair_order_perm)
  have len: "length ?ord = length ms" using perm mset_eq_length by fastforce
  have "distinct ?ord" using perm mset_eq_imp_distinct_iff by fastforce
  then have inj: "inj_on ((!) ?ord) {..<length ?ks}" using len
    by (auto simp: inj_on_def nth_eq_iff_index_eq keepToolResultsWithCalls_def)
  have nth: "?ord ! j < length ms \<and> ?ks ! j = ms ! (?ord ! j)" if "j < length ?ks" for j
    using that len mset_eq_setD [OF perm] nth_mem [of j ?ord] by (auto simp: keepToolResultsWithCalls_def)
  have pair': "sole_pair ms i (?ord ! k) (?ord ! t)"
    by (rule sole_pair_mono [OF nth inj _ pair]) (simp_all add: keepToolResultsWithCalls_def len)
  have kt: "k < length ?ks" "t < length ?ks" using pair by (simp_all add: sole_pair_def)
  from sole_pair_placed [OF pair'] nth [OF kt(1)] nth [OF kt(2)]
  show "\<exists>pre post. ?ks = pre @ ?ks ! t # post \<and> find separates (rev pre) = Some (?ks ! k)" by simp
qed

lemma sendable_clean:
  assumes "list_all (\<lambda>m. jget m ''subagentRunId'' \<noteq> JNull) ms" "input_messages input = sendable ms"
  shows "clean_input input"
proof -
  have "mset (sendable ms) = mset (filter (\<lambda>m. jget m ''role'' \<noteq> JStr ''activity'') ms)"
    by (simp add: sendable_def keep_mset)
  from mset_eq_setD [OF this] assms show ?thesis
    by (auto simp: clean_input_def list_all_iff sendable_def paired_keep)
qed

lemma list_all_strip: "list_all (\<lambda>m. jget m ''subagentRunId'' \<noteq> JNull) (map strip_message_tag ms)"
  by (simp add: list_all_iff strip_message_tag_not_null)

lemma prepared_messages:
  "input_messages (fst (prepareRunAgentInput env n a parameters)) = sendable (map strip_message_tag (agent_messages a))"
  by (simp add: prepareRunAgentInput_def input_messages_def Let_def oget_append split: prod.split)

lemma start_messages: "input_messages (snd (start_run env a parameters)) = sendable (map strip_message_tag (agent_messages a))"
  using prepared_messages [of env _ "a\<lparr>agentId := _\<rparr>" parameters]
  by (auto simp: start_run_def Let_def case_prod_unfold)

lemma start_resume: "oget (snd (start_run env a parameters)) ''resume'' = oget parameters ''resume''"
  by (simp add: start_run_def prepareRunAgentInput_def Let_def oget_append split: prod.split)

lemma initialize_clean:
  assumes "onInitialize env answering subs a w input = Inr (w', a', input')" "clean_input input"
  shows "clean_input input'"
proof -
  have "clean_input (oset ''messages'' (JArr (sendable (map strip_message_tag ms))) input)" for ms
    by (rule sendable_clean [OF list_all_strip]) (simp add: input_messages_def)
  moreover have "clean_input (oset ''state'' s i) = clean_input i" for s i
    by (simp add: clean_input_def input_messages_def)
  ultimately show ?thesis using assms
    by (auto simp: onInitialize_def Let_def split: option.splits if_splits)
qed

subsection \<open>Interrupts\<close>

lemma gate_None:
  "interrupt_gate env pending resume = None \<longleftrightarrow>
     (\<forall>i \<in> set pending. jget i ''id'' \<in> (\<lambda>r. jget r ''interruptId'') ` set (arr_items resume)) \<and>
     (\<forall>i \<in> set pending. has_expired env i \<longrightarrow> cancels resume i)"
  by (auto simp: interrupt_gate_def uncovered_def filter_empty_conv find_None_iff Let_def split: option.splits dest!: find_SomeD)

lemma gate_not_rejected: "interrupt_gate env pending resume \<noteq> Some InitializeRejected"
  by (auto simp: interrupt_gate_def split: option.splits)

lemma initialize_error:
  "onInitialize env answering subs a w input = Inl e \<longleftrightarrow>
     (case (if answering then interrupt_gate env (openInterrupts a) (oget input ''resume'') else None) of
        Some e' \<Rightarrow> e = e'
      | None \<Rightarrow> e = InitializeRejected \<and>
          runSubscribersWithMutation (testing env) subs (run_call OnRunInitialized input []) w (agent_messages a) (agent_state a) = None)"
  by (auto simp: onInitialize_def Let_def split: option.split prod.split)

lemma start_fields: "\<exists>i t. fst (start_run env a parameters) = a\<lparr>agentId := Some i, threadId := Some t\<rparr>"
  by (auto simp: start_run_def prepareRunAgentInput_def Let_def split: prod.split)

lemma run_with_refused:
  assumes "run_with env answering extra source parameters a w = (w', a', Refused e)"
  shows "onInitialize env answering (run_subscribers a extra) (fst (start_run env a parameters)) (w, JUndef) (snd (start_run env a parameters)) = Inl e"
  using assms by (auto simp: run_with_def Let_def split: prod.splits sum.splits init_error.splits option.splits)

lemma run_refused:
  assumes "interrupt_gate env (openInterrupts a) (oget parameters ''resume'') = Some e"
  shows "runAgent env run d extra parameters a w = (w, (fst (start_run env a parameters))\<lparr>isRunning := False\<rparr>, Refused e)"
proof -
  obtain a1 input where s: "start_run env a parameters = (a1, input)" by (cases "start_run env a parameters")
  have "openInterrupts a1 = openInterrupts a" "oget input ''resume'' = oget parameters ''resume''"
    using start_fields [of env a parameters] start_resume [of env a parameters] s by auto
  with assms have "onInitialize env True (run_subscribers a extra) a1 (w, JUndef) input = Inl e"
    by (simp add: initialize_error)
  with assms gate_not_rejected [of env "openInterrupts a" "oget parameters ''resume''"] show ?thesis
    by (auto simp: runAgent_def run_with_def s Let_def split: init_error.split)
qed

lemma find_map: "find P (map f xs) = map_option f (find (\<lambda>x. P (f x)) xs)"
  by (induction xs) auto

subsection \<open>Runs that are only watched\<close>

lemma applied_messages:
  assumes "applyBeforeSourceError env rs src = (us, r)" "curMessages rs = None"
  shows "observe (messages rs) us = messages (reached (apply_step env) rs (fst src))"
proof -
  obtain os r0 where run: "run_stage (apply_step env) rs (fst src) = (os, r0)" by (cases "run_stage (apply_step env) rs (fst src)")
  have "us = os \<or> us = [(None, None)] \<and> os = []"
    using assms(1) run by (auto simp: applyBeforeSourceError_def defaultApplyEvents_def Let_def case_prod_unfold split: sum.splits if_splits)
  with reached_observed [OF run assms(2)] show ?thesis by (auto simp: observe_def)
qed

lemma processed_view:
  "\<exists>st. processApplyEvents a us = a\<lparr>agent_messages := observe (agent_messages a) us, agent_state := st\<rparr>"
proof -
  have "\<exists>l st. foldl take_update a us = a\<lparr>agent_messages := l, agent_state := st\<rparr>"
  proof (induction us rule: rev_induct)
    case Nil
    show ?case by (intro exI [of _ "agent_messages a"] exI [of _ "agent_state a"]) simp
  next
    case (snoc u us)
    then obtain l st where "foldl take_update a us = a\<lparr>agent_messages := l, agent_state := st\<rparr>" by blast
    moreover have "take_update (a\<lparr>agent_messages := l, agent_state := st\<rparr>) u =
        a\<lparr>agent_messages := (case fst u of Some m \<Rightarrow> m | None \<Rightarrow> l),
          agent_state := (case snd u of Some s \<Rightarrow> (if s = JUndef then st else s) | None \<Rightarrow> st)\<rparr>"
      by (auto simp: take_update_def Let_def split: option.split)
    ultimately show ?case by auto
  qed
  then obtain l st where p: "processApplyEvents a us = a\<lparr>agent_messages := l, agent_state := st\<rparr>"
    by (auto simp: processApplyEvents_def)
  with view_observe [of a us] have "l = observe (agent_messages a) us" by simp
  with p show ?thesis by blast
qed

definition watching :: "'w subscriber \<Rightarrow> bool" where
  "watching s \<longleftrightarrow> (\<forall>call ms st w. snd (s call ms st w) = Nothing)"

lemma watched_iterate: "list_all watching subs \<Longrightarrow> \<exists>w'. sub_iterate t subs call w sl = Some (w', sl)"
proof (induction subs arbitrary: w)
  case (Cons s subs)
  then obtain w1 where "s call (sl_messages sl) (sl_state sl) w = (w1, Nothing)"
    by (auto simp: watching_def) (metis prod.collapse)
  with Cons show ?case by simp
qed simp

lemma watched_hook: "list_all watching subs \<Longrightarrow> \<exists>w'. runSubscribersWithMutation t subs call w ms st = Some (w', no_mutation)"
  using watched_iterate [of subs t call w "\<lparr>sl_messages = ms, sl_state = st, sl_messages_mutated = False,
    sl_state_mutated = False, sl_stop = None\<rparr>"]
  by (auto simp: runSubscribersWithMutation_def no_mutation_def)

lemma watched_call: "list_all watching (subscribers env) \<Longrightarrow>
    \<exists>w'. call_hook env h ev args rs = Inr (rs\<lparr>world := w'\<rparr>, \<lparr>stopped = False, replaced = False\<rparr>)"
  using watched_hook [of "subscribers env" "test_env env" "\<lparr>hk = h, hk_event = ev, hk_args = args\<rparr>" "world rs" "messages rs" "state rs"]
  by (auto simp: call_hook_def no_mutation_def)

lemma run_watched:
  assumes "list_all watching (agent_subscribers a)" "pred_option watching extra"
  shows "list_all watching (run_subscribers a extra)"
proof -
  have "watching (result_subscriber :: ('w \<times> jsval) subscriber)"
    by (auto simp: watching_def result_subscriber_def split: hook.split list.split)
  moreover have "watching s \<Longrightarrow> watching (beside_result s)" for s :: "'w subscriber"
    by (simp add: watching_def beside_result_def case_prod_unfold)
  moreover have "watching (case extra of Some s \<Rightarrow> s | None \<Rightarrow> no_subscriber)"
    using assms(2) by (auto simp: watching_def no_subscriber_def split: option.split)
  ultimately show ?thesis using assms(1) by (auto simp: run_subscribers_def list_all_iff)
qed

lemma take_nothing [simp]: "take_result no_mutation a = a"
  by (simp add: take_result_def take_update_def no_mutation_def)

lemma watched_initialize:
  assumes "list_all watching subs" "answering \<longrightarrow> interrupt_gate env (openInterrupts a) (oget input ''resume'') = None"
  shows "\<exists>w'. onInitialize env answering subs a w input = Inr (w', a, input)"
  using watched_hook [OF assms(1), of "testing env" "run_call OnRunInitialized input []" w "agent_messages a" "agent_state a"] assms(2)
  by (auto simp: onInitialize_def no_mutation_def)

lemma watched_error:
  assumes "list_all watching subs"
  shows "\<exists>w'. onError env subs lost a w input e =
    (w', a, if \<not> is_abort (shown_error env e) then Some (RunFailed e) else None)"
  using watched_hook [OF assms, of "testing env" "run_call OnRunFailed input [shown_error env e]" w "agent_messages a" "agent_state a"]
  by (auto simp: onError_def) (auto simp: no_mutation_def)

lemma watched_finalize:
  assumes "list_all watching subs"
  shows "\<exists>w'. onFinalize env subs lost a w input = (w', a)"
  using watched_hook [OF assms, of "testing env" "run_call OnRunFinalized input []" w "agent_messages a" "agent_state a"]
  by (auto simp: onFinalize_def)

text \<open>The failure of a run: the reducer's own, or else the source's.\<close>

definition failure_of :: "'w renv \<Rightarrow> 'w rstate \<Rightarrow> source \<Rightarrow> run_error option" where
  "failure_of renv rs src =
     (case snd (defaultApplyEvents renv rs (fst src)) of Inl e \<Rightarrow> Some (ApplyFailure e) | Inr _ \<Rightarrow> snd src)"

definition surfaces :: "'v run_env \<Rightarrow> run_error option \<Rightarrow> run_error option" where
  "surfaces env failure = (case failure of Some e \<Rightarrow> (if is_abort (shown_error env e) then None else Some e) | None \<Rightarrow> None)"

lemma watched_pipeline:
  assumes subs: "list_all watching subs" and renv: "renv = reducer_env env subs" and rs: "rs = reducer_start a input w"
  shows "\<exists>w' st. run_pipeline env subs a w input src =
    (w', a\<lparr>agent_messages := messages (reached (apply_step renv) rs (fst src)), agent_state := st,
           openInterrupts := pendingInterrupts (reached (apply_step renv) rs (fst src))\<rparr>,
     map_option RunFailed (surfaces env (failure_of renv rs src)))"
proof -
  obtain us r where ap: "applyBeforeSourceError renv rs src = (us, r)" by (cases "applyBeforeSourceError renv rs src")
  have init: "curMessages rs = None" "messages rs = agent_messages a" by (simp_all add: rs reducer_start_def init_rstate_def)
  obtain st where view: "processApplyEvents a us =
      a\<lparr>agent_messages := messages (reached (apply_step renv) rs (fst src)), agent_state := st\<rparr>"
    using processed_view [of a us] applied_messages [OF ap init(1)] init(2) by auto
  let ?a = "a\<lparr>agent_messages := messages (reached (apply_step renv) rs (fst src)), agent_state := st,
           openInterrupts := pendingInterrupts (reached (apply_step renv) rs (fst src))\<rparr>"
  have fail: "failure_of renv rs src = (case r of Inl e \<Rightarrow> Some e | Inr _ \<Rightarrow> None)"
    using ap by (auto simp: applyBeforeSourceError_def failure_of_def Let_def case_prod_unfold split: sum.splits option.splits)
  have pipe: "run_pipeline env subs a w input src =
      (case r of
           Inr _ \<Rightarrow> (world (reached (apply_step renv) rs (fst src)), ?a, None)
         | Inl (ApplyFailure e) \<Rightarrow> onError env subs (after_failure env) ?a
             (after_failure env (world (reached (apply_step renv) rs (fst src)))) input (ApplyFailure e)
         | Inl e \<Rightarrow> onError env subs (after_failure env) ?a (world (reached (apply_step renv) rs (fst src))) input e)"
    by (simp add: run_pipeline_def Let_def renv [symmetric] rs [symmetric] ap view)
  show ?thesis
  proof (cases r)
    case (Inr x)
    with pipe fail show ?thesis by (auto simp: surfaces_def)
  next
    case (Inl e)
    obtain w1 where "run_pipeline env subs a w input src = onError env subs (after_failure env) ?a w1 input e"
      unfolding pipe Inl by (cases e) auto
    with watched_error [OF subs, of env "after_failure env" ?a w1 input e] Inl fail show ?thesis
      by (auto simp: surfaces_def)
  qed
qed

lemma watched_result:
  assumes "list_all watching (agent_subscribers a)" "pred_option watching extra"
    "interrupt_gate env (openInterrupts a) (oget parameters ''resume'') = None"
    "start_run env a parameters = (a1, input)" "src = agent_source env run d a input"
  shows "\<exists>w1 w' st r. let renv = reducer_env env (run_subscribers a extra); rs0 = reducer_start a1 input w1;
      rs = reached (apply_step renv) rs0 (fst src)
    in runAgent env run d extra parameters a w =
      (w', a1\<lparr>agent_messages := messages rs, agent_state := st, isRunning := False, openInterrupts := pendingInterrupts rs\<rparr>,
       case surfaces env (failure_of renv rs0 src) of
         Some e \<Rightarrow> Failed (RunFailed e)
       | None \<Rightarrow> Completed r (new_messages (agent_messages a) (messages rs)))"
proof -
  let ?subs = "run_subscribers a extra"
  have subs: "list_all watching ?subs" by (rule run_watched [OF assms(1,2)])
  have start: "openInterrupts a1 = openInterrupts a" "oget input ''resume'' = oget parameters ''resume''"
    using start_fields [of env a parameters] start_resume [of env a parameters] assms(4) by auto
  obtain w1 where init: "onInitialize env True ?subs a1 (w, JUndef) input = Inr (w1, a1, input)"
    using watched_initialize [OF subs] start assms(3) by metis
  let ?renv = "reducer_env env ?subs" and ?initial = "reducer_start a1 input w1"
  let ?reach = "reached (apply_step ?renv) ?initial (fst src)"
  obtain w2 st where pipe: "run_pipeline env ?subs a1 w1 input src =
      (w2, a1\<lparr>agent_messages := messages ?reach, agent_state := st, openInterrupts := pendingInterrupts ?reach\<rparr>,
       map_option RunFailed (surfaces env (failure_of ?renv ?initial src)))"
    using watched_pipeline [OF subs refl refl, of env a1 w1 input src] by blast
  let ?a2 = "a1\<lparr>agent_messages := messages ?reach, agent_state := st, openInterrupts := pendingInterrupts ?reach\<rparr>"
  obtain w3 where fin: "onFinalize env ?subs (after_failure env) ?a2 w2 input = (w3, ?a2)"
    using watched_finalize [OF subs] by blast
  have "runAgent env run d extra parameters a w =
      (fst w3, a1\<lparr>agent_messages := messages ?reach, agent_state := st, isRunning := False, openInterrupts := pendingInterrupts ?reach\<rparr>,
       case surfaces env (failure_of ?renv ?initial src) of
         Some e \<Rightarrow> Failed (RunFailed e)
       | None \<Rightarrow> Completed (snd w2) (new_messages (agent_messages a) (messages ?reach)))"
    using assms(4,5) init pipe fin by (auto simp: runAgent_def run_with_def Let_def split: option.split)
  then show ?thesis unfolding Let_def by blast
qed


subsection \<open>An interrupted thread\<close>

lemma watched_interrupt:
  assumes subs: "list_all watching (subscribers env)" and ty: "ev_type fin = RUN_FINISHED"
    and out: "jget (field fin ''outcome'') ''type'' = JStr ''interrupt''" "jget (field fin ''outcome'') ''interrupts'' = JArr ints"
    and step: "apply_step env rs fin = Inr (rs', us)"
  shows "pendingInterrupts rs' = map strip_message_tag ints"
proof -
  obtain w1 where e: "call_hook env OnEvent fin [] rs = Inr (rs\<lparr>world := w1\<rparr>, \<lparr>stopped = False, replaced = False\<rparr>)"
    using watched_call [OF subs] by blast
  obtain w2 where f: "call_hook env OnRunFinished fin (finished_args (rs\<lparr>world := w1\<rparr>) fin) (rs\<lparr>world := w1\<rparr>) =
      Inr (rs\<lparr>world := w1\<rparr>\<lparr>world := w2\<rparr>, \<lparr>stopped = False, replaced = False\<rparr>)"
    using watched_call [OF subs] by blast
  from step show ?thesis
    by (auto simp: apply_step_def e f apply_dispatch_def ty ap_run_finished_def out emit_def emitUpdates_def)
qed

lemma start_again: "agentId a = Some i \<Longrightarrow> threadId a = Some t \<Longrightarrow> fst (start_run env a parameters) = a"
  by (simp add: start_run_def prepareRunAgentInput_def value_or_new_def Let_def split: prod.split)

lemma uncovered_strip: "uncovered (map strip_message_tag ints) resume = uncovered ints resume"
proof -
  have "jget (strip_message_tag m) ''id'' = jget m ''id''" for m by (simp add: strip_message_tag_def jget_jdel)
  then show ?thesis by (simp add: uncovered_def comp_def)
qed

end
