(* ===== verification/AgentSpec.thy ===== *)
theory AgentSpec
  imports AgentProps
begin

text \<open>The theorems on whole runs of an agent, and the composition of runs by interrupts.\<close>

definition demo_env :: "unit run_env" where
  "demo_env = \<lparr>testing = False, jsonPatch = (\<lambda>_ _. None), uuidv4 = (\<lambda>_. ''u''), compareVersions = (\<lambda>_ _. 0),
     validateVersion = (\<lambda>_. True), maxProtocolVersion = JStr ''1.0.3'', validator = (\<lambda>s v. Inr v), dateOf = (\<lambda>_. None),
     now = 0, errorObject = (\<lambda>_. JUndef), after_failure = (\<lambda>w. w)\<rparr>"

definition demo_fields :: "unit agent_fields" where
  "demo_fields = \<lparr>agent_messages = [], agent_state = JObj [], agentId = None, threadId = None, isRunning = False,
     openInterrupts = [], agent_subscribers = [], middlewares = [], entryBudget = None\<rparr>"

definition demo_finish :: event where
  "demo_finish = mk_event RUN_FINISHED [(''threadId'', JStr ''u''), (''runId'', JStr ''u''), 
     (''outcome'', JObj [(''type'', JStr ''interrupt''), (''interrupts'', JArr [JObj [(''id'', JStr ''i''), (''reason'', JStr ''r'')]])])]"

definition demo_run :: agent where
  "demo_run input = ([mk_event RUN_STARTED [(''threadId'', JStr ''u''), (''runId'', JStr ''u'')], demo_finish], None)"

lemma demo_parser: "event_parser (validator demo_env)"
  by (auto simp: event_parser_def demo_env_def)

lemma demo_source:
  "agent_source demo_env demo_run None demo_fields (snd (start_run demo_env demo_fields [])) =
     ([mk_event RUN_STARTED [(''threadId'', JStr ''u''), (''runId'', JStr ''u'')]] @ [demo_finish], None)"
  by code_simp

text \<open>
  C9. Whatever its producer and middlewares are, and wherever a run is detached, the events that reach the reducer are a stream the
  verifier accepts as it is, of types the protocol knows, with no chunk among them.
\<close>

theorem reducer_gets_verified:
  assumes "event_parser (validator env)"
  shows "\<exists>es err st. agent_source env run d a input = (es, err) \<and> verifyEvents es = (es, Inr st) \<and>
    list_all (\<lambda>ev. \<not> is_chunk_type (ev_type ev) \<and> (\<forall>s. ev_type ev \<noteq> OtherType s)) es"
proof -
  define emitted where "emitted = chainedAgent (uuidv4 env) (middlewares a) run input"
  define es where "es = fst (run_stage (enforce_event (validator env) (resolved (entryBudget a))) () (fst emitted))"
  obtain n where src: "fst (agent_source env run d a input) = take n (fst (source_events es))"
    using detach_take [of d "run_source (validator env) (entryBudget a) emitted"]
    by (auto simp: agent_source_def emitted_def es_def run_source_fst)
  have "list_all enforced es" using run_enforced [OF assms] unfolding es_def by (metis prod.collapse)
  then have all: "list_all (\<lambda>e. \<forall>s. ev_type e \<noteq> OtherType s) es" by (auto simp: list_all_iff enforced_def)
  have kinds: "(\<forall>s. start_type k \<noteq> OtherType s) \<and> (\<forall>s. content_type k \<noteq> OtherType s) \<and> (\<forall>s. end_type k \<noteq> OtherType s)" for k
    by (cases k) simp_all
  have "list_all (\<lambda>e. \<forall>s. ev_type e \<noteq> OtherType s) (fst (source_events es))"
    by (rule source_types [of "\<lambda>t. \<forall>s. t \<noteq> OtherType s", OF kinds all])
  with source_no_chunk [of es] have "list_all (\<lambda>ev. \<not> is_chunk_type (ev_type ev) \<and> (\<forall>s. ev_type ev \<noteq> OtherType s)) (fst (source_events es))"
    by (auto simp: list_all_iff)
  from list_all_take [OF this, of n] obtain st where
    "verifyEvents (take n (fst (source_events es))) = (take n (fst (source_events es)), Inr st)"
    "list_all (\<lambda>ev. \<not> is_chunk_type (ev_type ev) \<and> (\<forall>s. ev_type ev \<noteq> OtherType s)) (take n (fst (source_events es)))"
    using source_verified [of es] verify_fixed_prefix [of init_vstate "fst (source_events es)" _ n] unfolding verifyEvents_def by blast
  with src show ?thesis by (intro exI [of _ "fst (agent_source env run d a input)"] exI [of _ "snd (agent_source env run d a input)"])
    (simp add: prod_eq_iff)
qed

theorem reducer_gets_verified_witness:
  "\<exists>es err st. agent_source demo_env demo_run (Some 1) demo_fields [] = (es, err) \<and> verifyEvents es = (es, Inr st) \<and>
    list_all (\<lambda>ev. \<not> is_chunk_type (ev_type ev) \<and> (\<forall>s. ev_type ev \<noteq> OtherType s)) es"
  by (rule reducer_gets_verified [OF demo_parser])

text \<open>
  C22. A producer only ever sees a clean input, whatever the agent's messages are and whatever the subscribers make of them before the run starts: no
  activity message, no null attribution, and every tool result whose call is unambiguous directly behind it. Formally, a run does not change when the
  source is replaced by one that answers clean inputs alike.
\<close>

theorem producer_sees_clean_input:
  assumes "\<And>input. clean_input input \<Longrightarrow> source input = source' input"
  shows "run_with env answering extra source parameters a w = run_with env answering extra source' parameters a w"
proof -
  obtain a1 input where s: "start_run env a parameters = (a1, input)" by (cases "start_run env a parameters")
  have "clean_input input"
    using sendable_clean [OF list_all_strip, of input "agent_messages a"] start_messages [of env a parameters] s by simp
  then have "source i2 = source' i2" if "onInitialize env answering (run_subscribers a extra) a1 (w, JUndef) input = Inr (w2, a2, i2)" for w2 a2 i2
    using initialize_clean [OF that] assms by blast
  then show ?thesis
    by (auto simp: run_with_def s Let_def split: sum.split init_error.split)
qed

theorem producer_sees_clean_input_witness:
  "run_with demo_env True None (\<lambda>input. if JNull \<in> (\<lambda>m. jget m ''subagentRunId'') ` set (input_messages input) then ([demo_finish], None) else ([], None)) []
     (demo_fields\<lparr>agent_messages := [JObj [(''id'', JStr ''m''), (''subagentRunId'', JNull)]]\<rparr>) () =
   run_with demo_env True None (\<lambda>input. ([], None)) []
     (demo_fields\<lparr>agent_messages := [JObj [(''id'', JStr ''m''), (''subagentRunId'', JNull)]]\<rparr>) ()"
  by (rule producer_sees_clean_input) (auto simp: clean_input_def list_all_iff)

text \<open>
  C40. A run is refused over interrupts exactly when one that is open has no answer, or has expired and is answered by anything but a cancellation; then
  nothing has happened but that the agent has its ids. Connecting is never refused for them.
\<close>

theorem interrupts_must_be_answered:
  "(case interrupt_gate env (openInterrupts a) (oget parameters ''resume'') of
      Some e \<Rightarrow> \<exists>i t. runAgent env run d extra parameters a w = (w, a\<lparr>agentId := Some i, threadId := Some t, isRunning := False\<rparr>, Refused e)
    | None \<Rightarrow> \<forall>w' a' e. runAgent env run d extra parameters a w = (w', a', Refused e) \<longrightarrow> e = InitializeRejected) \<and>
   (\<forall>w' a' e. connectAgent env connect d extra parameters a w = (w', a', Refused e) \<longrightarrow> e = InitializeRejected) \<and>
   (interrupt_gate env (openInterrupts a) (oget parameters ''resume'') = None \<longleftrightarrow>
     (\<forall>i \<in> set (openInterrupts a). jget i ''id'' \<in> (\<lambda>r. jget r ''interruptId'') ` set (arr_items (oget parameters ''resume''))) \<and>
     (\<forall>i \<in> set (openInterrupts a). has_expired env i \<longrightarrow> cancels (oget parameters ''resume'') i))"
proof (intro conjI gate_None)
  obtain a1 input where s: "start_run env a parameters = (a1, input)" by (cases "start_run env a parameters")
  obtain i t where a1: "a1 = a\<lparr>agentId := Some i, threadId := Some t\<rparr>" using start_fields [of env a parameters] s by auto
  have resume: "oget input ''resume'' = oget parameters ''resume''" using start_resume [of env a parameters] s by simp
  show "case interrupt_gate env (openInterrupts a) (oget parameters ''resume'') of
      Some e \<Rightarrow> \<exists>i t. runAgent env run d extra parameters a w = (w, a\<lparr>agentId := Some i, threadId := Some t, isRunning := False\<rparr>, Refused e)
    | None \<Rightarrow> \<forall>w' a' e. runAgent env run d extra parameters a w = (w', a', Refused e) \<longrightarrow> e = InitializeRejected"
    using run_refused [of env a parameters] s a1
    by (auto simp: runAgent_def initialize_error resume split: option.split dest!: run_with_refused)
  show "\<forall>w' a' e. connectAgent env connect d extra parameters a w = (w', a', Refused e) \<longrightarrow> e = InitializeRejected"
    by (auto simp: connectAgent_def initialize_error dest!: run_with_refused)
qed

theorem interrupts_must_be_answered_witness:
  "\<exists>i t. runAgent demo_env demo_run None None [] (demo_fields\<lparr>openInterrupts := [JObj [(''id'', JStr ''i'')]]\<rparr>) () =
     ((), (demo_fields\<lparr>openInterrupts := [JObj [(''id'', JStr ''i'')]]\<rparr>)\<lparr>agentId := Some i, threadId := Some t, isRunning := False\<rparr>,
      Refused (PendingInterrupts [JStr ''i'']))"
proof -
  let ?a = "demo_fields\<lparr>openInterrupts := [JObj [(''id'', JStr ''i'')]]\<rparr>"
  have "interrupt_gate demo_env (openInterrupts ?a) (oget [] ''resume'') = Some (PendingInterrupts [JStr ''i''])"
    by (simp add: interrupt_gate_def uncovered_def)
  with interrupts_must_be_answered [where env = demo_env and a = ?a and parameters = "[]" and run = demo_run and d = None
      and extra = None and w = "()"] show ?thesis by simp
qed

text \<open>
  The resume array that \<^verbatim>\<open>buildResumeArray\<close> builds opens the gate: every interrupt is covered, and a run with it is refused only for an
  interrupt that has expired and was not cancelled.
\<close>

theorem answers_accepted:
  assumes "buildResumeArray interrupts responses = Inr resumes" "\<forall>i \<in> set interrupts. is_str (oget i ''id'')"
  shows "interrupt_gate env (map JObj interrupts) (JArr (map JObj resumes)) = None \<longleftrightarrow>
    (\<forall>i \<in> set interrupts. has_expired env (JObj i) \<longrightarrow> jget (oget responses (interrupt_id i)) ''status'' = JStr ''cancelled'')"
proof -
  let ?entry = "\<lambda>i. JObj (resume_entry (interrupt_id i) (oget responses (interrupt_id i)))"
  have res: "map JObj resumes = map ?entry interrupts"
    using assms(1) by (auto simp: buildResumeArray_def Let_def split: if_splits)
  have str: "oget i ''id'' = JStr (interrupt_id i)" if "i \<in> set interrupts" for i
    using assms(2) that by (cases "oget i ''id''") (auto simp: interrupt_id_def)
  have find: "\<exists>j. find (\<lambda>x. interrupt_id x = interrupt_id i) interrupts = Some j \<and> interrupt_id j = interrupt_id i" if "i \<in> set interrupts" for i
    using that by (cases "find (\<lambda>x. interrupt_id x = interrupt_id i) interrupts") (auto simp: find_None_iff find_Some_iff)
  have "cancels (JArr (map JObj resumes)) (JObj i) \<longleftrightarrow> jget (oget responses (interrupt_id i)) ''status'' = JStr ''cancelled''"
    if "i \<in> set interrupts" for i
    using find [OF that] by (auto simp: cancels_def res find_map comp_def resume_entry_fields str [OF that])
  then show ?thesis
    unfolding gate_None by (auto simp: res resume_entry_fields str image_iff)
qed

theorem answers_accepted_witness:
  "interrupt_gate (demo_env\<lparr>dateOf := (\<lambda>_. Some (-1))\<rparr>)
     (map JObj [[(''id'', JStr ''i''), (''expiresAt'', JStr ''t'')], [(''id'', JStr ''j'')]])
     (JArr (map JObj [[(''interruptId'', JStr ''i''), (''status'', JStr ''cancelled'')], [(''interruptId'', JStr ''j''), (''status'', JStr ''resolved'')]])) = None"
proof -
  let ?is = "[[(''id'', JStr ''i''), (''expiresAt'', JStr ''t'')], [(''id'', JStr ''j'')]]"
    and ?rs = "[(''i'', JObj [(''status'', JStr ''cancelled'')]), (''j'', JObj [(''status'', JStr ''resolved'')])]"
  have b: "buildResumeArray ?is ?rs =
      Inr [[(''interruptId'', JStr ''i''), (''status'', JStr ''cancelled'')], [(''interruptId'', JStr ''j''), (''status'', JStr ''resolved'')]]"
    by code_simp
  show ?thesis
    by (rule answers_accepted [OF b, THEN iffD2]) (simp_all add: interrupt_id_def has_expired_def isInterruptExpired_def)
qed

text \<open>
  What a run leaves behind when subscribers only watch: the messages are those the reducer reached with every event that passed the
  source, before any failure; the open interrupts are the reducer's; the agent is not running; the outcome is the failure of
  the reducer, or else of the source, unless it is an abort, and otherwise the messages that were not there before.
\<close>

theorem watched_run:
  assumes "list_all watching (agent_subscribers a)" "pred_option watching extra"
    "interrupt_gate env (openInterrupts a) (oget parameters ''resume'') = None"
    "start_run env a parameters = (a1, input)" "src = agent_source env run d a input"
  shows "\<exists>w1 w' st r. let renv = reducer_env env (run_subscribers a extra); rs0 = reducer_start a1 input w1;
      rs = reached (apply_step renv) rs0 (fst src)
    in runAgent env run d extra parameters a w =
      (w', a1\<lparr>agent_messages := messages rs, agent_state := st, isRunning := False, openInterrupts := pendingInterrupts rs\<rparr>,
       case surfaces env (failure_of renv rs0 src) of
         Some e \<Rightarrow> Failed (RunFailed e)
       | None \<Rightarrow> Completed r (new_messages (agent_messages a) (messages rs)))"
  by (rule watched_result [OF assms])

theorem watched_run_witness:
  "\<exists>w1 w' st r. let renv = reducer_env demo_env (run_subscribers demo_fields None);
      rs0 = reducer_start (fst (start_run demo_env demo_fields [])) (snd (start_run demo_env demo_fields [])) w1;
      src = ([mk_event RUN_STARTED [(''threadId'', JStr ''u''), (''runId'', JStr ''u'')]] @ [demo_finish], None);
      rs = reached (apply_step renv) rs0 (fst src)
    in runAgent demo_env demo_run None None [] demo_fields () =
      (w', (fst (start_run demo_env demo_fields []))\<lparr>agent_messages := messages rs, agent_state := st, isRunning := False, openInterrupts := pendingInterrupts rs\<rparr>,
       case surfaces demo_env (failure_of renv rs0 src) of
         Some e \<Rightarrow> Failed (RunFailed e)
       | None \<Rightarrow> Completed r (new_messages (agent_messages demo_fields) (messages rs)))"
  using watched_run [OF _ _ _ prod.collapse [symmetric] demo_source [symmetric], of None "()"]
  by (simp add: demo_fields_def interrupt_gate_def uncovered_def)

text \<open>
  C37. An interrupted thread waits for answers: when a watched run ends with an interrupt outcome and completes, the agent holds exactly the interrupts that
  event names, and a later run whose resume leaves one of them out is refused with the ids left out, the agent being as it was.
\<close>

theorem interrupted_thread_waits:
  assumes subs: "list_all watching (agent_subscribers a)" "pred_option watching extra"
    and own: "\<forall>e. \<not> is_abort (errorObject env (ApplyFailure e))"
    and src: "agent_source env run d a (snd (start_run env a parameters)) = (es @ [fin], None)"
    and fin: "ev_type fin = RUN_FINISHED" "jget (field fin ''outcome'') ''type'' = JStr ''interrupt''"
      "jget (field fin ''outcome'') ''interrupts'' = JArr ints"
    and run: "runAgent env run d extra parameters a w = (w1, a1, Completed r new)"
  shows "openInterrupts a1 = map strip_message_tag ints \<and>
    (uncovered ints (oget parameters2 ''resume'') \<noteq> [] \<longrightarrow>
      runAgent env run2 d2 extra2 parameters2 a1 w1 = (w1, a1, Refused (PendingInterrupts (uncovered ints (oget parameters2 ''resume'')))))"
proof (intro conjI impI)
  let ?renv = "reducer_env env (run_subscribers a extra)"
  obtain a0 input where s: "start_run env a parameters = (a0, input)" by (cases "start_run env a parameters")
  obtain i t where a0: "a0 = a\<lparr>agentId := Some i, threadId := Some t\<rparr>" using start_fields [of env a parameters] s by auto
  have gate: "interrupt_gate env (openInterrupts a) (oget parameters ''resume'') = None"
    using run run_refused [of env a parameters] by (cases "interrupt_gate env (openInterrupts a) (oget parameters ''resume'')") auto
  have src': "(es @ [fin], None) = agent_source env run d a input" using src s by simp
  from watched_result [OF subs gate s src', of w] obtain w0 st r' rs0 rs where rs: "rs0 = reducer_start a0 input w0" "rs = reached (apply_step ?renv) rs0 (es @ [fin])"
    and res: "a1 = a0\<lparr>agent_messages := messages rs, agent_state := st, isRunning := False, openInterrupts := pendingInterrupts rs\<rparr>"
      "Completed r new = (case surfaces env (failure_of ?renv rs0 (es @ [fin], None)) of
         Some e \<Rightarrow> Failed (RunFailed e) | None \<Rightarrow> Completed r' (new_messages (agent_messages a) (messages rs)))"
    unfolding Let_def run fst_conv prod.inject by blast
  have "\<exists>us rs'. defaultApplyEvents ?renv rs0 (es @ [fin]) = (us, Inr rs')"
    using res(2) own by (cases "defaultApplyEvents ?renv rs0 (es @ [fin])")
      (auto simp: failure_of_def surfaces_def shown_error_def split: sum.splits)
  then obtain us rs' where "run_stage (apply_step ?renv) rs0 (es @ [fin]) = (us, Inr rs')"
    by (auto simp: defaultApplyEvents_def Let_def split: prod.splits sum.splits)
  with reached_Inr [OF this] rs(2) obtain rs1 us2 where "apply_step ?renv rs1 fin = Inr (rs, us2)"
    by (auto simp: run_stage_append split: sum.splits prod.splits)
  moreover have "list_all watching (subscribers ?renv)" using run_watched [OF subs] by (simp add: reducer_env_def)
  ultimately have "pendingInterrupts rs = map strip_message_tag ints" using watched_interrupt fin by blast
  with res(1) show open1: "openInterrupts a1 = map strip_message_tag ints" by simp
  assume u: "uncovered ints (oget parameters2 ''resume'') \<noteq> []"
  then have "interrupt_gate env (openInterrupts a1) (oget parameters2 ''resume'') =
      Some (PendingInterrupts (uncovered ints (oget parameters2 ''resume'')))"
    by (simp add: open1 interrupt_gate_def uncovered_strip)
  from run_refused [OF this] start_again [of a1 i t] res(1) a0
  show "runAgent env run2 d2 extra2 parameters2 a1 w1 = (w1, a1, Refused (PendingInterrupts (uncovered ints (oget parameters2 ''resume''))))"
    by simp
qed

theorem interrupted_thread_waits_witness:
  "\<exists>w1 a1 r new. runAgent demo_env demo_run None None [] demo_fields () = (w1, a1, Completed r new) \<and>
     openInterrupts a1 = [JObj [(''id'', JStr ''i''), (''reason'', JStr ''r'')]] \<and>
     runAgent demo_env demo_run None None [] a1 w1 = (w1, a1, Refused (PendingInterrupts [JStr ''i'']))"
proof -
  let ?run = "runAgent demo_env demo_run None None [] demo_fields ()"
  have "case snd (snd ?run) of Completed _ _ \<Rightarrow> True | _ \<Rightarrow> False" by code_simp
  then obtain w1 a1 r new where run: "?run = (w1, a1, Completed r new)"
    by (cases ?run) (auto split: run_outcome.splits)
  have watch: "list_all watching (agent_subscribers demo_fields)" "pred_option watching (None :: unit subscriber option)"
    by (simp_all add: demo_fields_def)
  have own: "\<forall>e. \<not> is_abort (errorObject demo_env (ApplyFailure e))" by (simp add: demo_env_def is_abort_def)
  have fin: "ev_type demo_finish = RUN_FINISHED" "jget (field demo_finish ''outcome'') ''type'' = JStr ''interrupt''"
    "jget (field demo_finish ''outcome'') ''interrupts'' = JArr [JObj [(''id'', JStr ''i''), (''reason'', JStr ''r'')]]"
    by (simp_all add: demo_finish_def)
  have "uncovered [JObj [(''id'', JStr ''i''), (''reason'', JStr ''r'')]] (oget [] ''resume'') = [JStr ''i'']"
    "map strip_message_tag [JObj [(''id'', JStr ''i''), (''reason'', JStr ''r'')]] = [JObj [(''id'', JStr ''i''), (''reason'', JStr ''r'')]]"
    by (simp_all add: uncovered_def strip_message_tag_def)
  with interrupted_thread_waits [OF watch own demo_source fin run, where ?parameters2.0 = "[]" and ?run2.0 = demo_run and ?d2.0 = None and ?extra2.0 = None] run
  show ?thesis by (metis list.distinct(1))
qed

end
