(* ===== verification/MediaType.thy ===== *)
theory MediaType
  imports JsValue Complex_Main
begin

text \<open>
  Content negotiation, \<^verbatim>\<open>encoder/src/media-type.ts\<close>: the parser of \<^verbatim>\<open>Accept\<close> headers and the choice among provided types. Regular
  expressions are the scans they stand for. Numbers of quality values are exact decimals with \<^verbatim>\<open>NaN\<close> and the infinities; rounding
  to double precision is left out. Characters are those of the header encoding, Latin-1.
\<close>

subsection \<open>Characters and numbers\<close>

definition js_space :: "char \<Rightarrow> bool" where
  "js_space c = (of_char c \<in> {9, 10, 11, 12, 13, 32, 160 :: nat})"

definition js_trim :: "string \<Rightarrow> string" where
  "js_trim s = rev (dropWhile js_space (rev (dropWhile js_space s)))"

definition lower_char :: "char \<Rightarrow> char" where
  "lower_char c =
     (let n = of_char c :: nat in
      if 65 \<le> n \<and> n \<le> 90 \<or> 192 \<le> n \<and> n \<le> 222 \<and> n \<noteq> 215 then char_of (n + 32) else c)"

definition toLowerCase :: "string \<Rightarrow> string" where
  "toLowerCase s = map lower_char s"

fun split_on :: "char \<Rightarrow> string \<Rightarrow> string list" where
  "split_on sep [] = [[]]"
| "split_on sep (c # cs) =
     (if c = sep then [] # split_on sep cs
      else case split_on sep cs of p # ps \<Rightarrow> (c # p) # ps | [] \<Rightarrow> [[c]])"

datatype jsnum = NaN | Infinite_num bool | Finite_num rat

text \<open>The sign of a number; \<^verbatim>\<open>NaN\<close> has none. An infinity carries whether it is positive.\<close>

definition num_sign :: "jsnum \<Rightarrow> int" where
  "num_sign x = (case x of NaN \<Rightarrow> 0 | Infinite_num p \<Rightarrow> (if p then 1 else -1) | Finite_num r \<Rightarrow> (if r > 0 then 1 else if r < 0 then -1 else 0))"

definition num_minus :: "jsnum \<Rightarrow> jsnum \<Rightarrow> jsnum" where
  "num_minus x y =
     (case (x, y) of
        (Finite_num a, Finite_num b) \<Rightarrow> Finite_num (a - b)
      | (Infinite_num p, Infinite_num p') \<Rightarrow> (if p = p' then NaN else Infinite_num p)
      | (Infinite_num p, Finite_num _) \<Rightarrow> Infinite_num p
      | (Finite_num _, Infinite_num p) \<Rightarrow> Infinite_num (\<not> p)
      | _ \<Rightarrow> NaN)"

definition is_digit :: "char \<Rightarrow> bool" where
  "is_digit c = (let n = of_char c :: nat in 48 \<le> n \<and> n \<le> 57)"

definition digits_value :: "string \<Rightarrow> nat" where
  "digits_value s = foldl (\<lambda>n c. 10 * n + (of_char c - 48)) 0 s"

text \<open>The exponent at the front of a string, \<^verbatim>\<open>[eE][+-]?[0-9]+\<close>, or zero.\<close>

definition exponent_part :: "string \<Rightarrow> int" where
  "exponent_part s =
     (case s of
        c # cs \<Rightarrow>
          (if c = CHR ''e'' \<or> c = CHR ''E'' then
             (let (negative, rest) = (case cs of d # ds \<Rightarrow> (if d = CHR ''-'' then (True, ds) else if d = CHR ''+'' then (False, ds) else (False, cs)) | [] \<Rightarrow> (False, []));
                  n = int (digits_value (takeWhile is_digit rest))
              in if negative then - n else n)
           else 0)
      | [] \<Rightarrow> 0)"

definition scale10 :: "rat \<Rightarrow> int \<Rightarrow> rat" where
  "scale10 r e = (if 0 \<le> e then r * 10 ^ nat e else r / 10 ^ nat (- e))"

text \<open>\<^verbatim>\<open>parseFloat\<close>: the longest decimal literal at the front, after white space.\<close>

definition parse_unsigned :: "string \<Rightarrow> jsnum" where
  "parse_unsigned s =
     (if take 8 s = ''Infinity'' then Infinite_num True
      else
        (let whole = takeWhile is_digit s; rest = dropWhile is_digit s;
             (fraction, rest') =
               (case rest of c # cs \<Rightarrow> (if c = CHR ''.'' then (takeWhile is_digit cs, dropWhile is_digit cs) else ([], rest)) | [] \<Rightarrow> ([], []))
         in if whole = [] \<and> fraction = [] then NaN
            else Finite_num (scale10 (of_nat (digits_value (whole @ fraction))) (exponent_part rest' - int (length fraction)))))"

definition num_negate :: "jsnum \<Rightarrow> jsnum" where
  "num_negate x = (case x of NaN \<Rightarrow> NaN | Infinite_num p \<Rightarrow> Infinite_num (\<not> p) | Finite_num r \<Rightarrow> Finite_num (- r))"

definition parseFloat :: "string \<Rightarrow> jsnum" where
  "parseFloat s =
     (case dropWhile js_space s of
        [] \<Rightarrow> NaN
      | c # cs \<Rightarrow> (if c = CHR ''-'' then num_negate (parse_unsigned cs) else if c = CHR ''+'' then parse_unsigned cs else parse_unsigned (c # cs)))"

subsection \<open>Splitting\<close>

definition quoteCount :: "string \<Rightarrow> nat" where
  "quoteCount s = count_list s (CHR 0x22)"

text \<open>Pieces are joined again while the quotes before them are unbalanced.\<close>

fun rejoin :: "char \<Rightarrow> string \<Rightarrow> string list \<Rightarrow> string list" where
  "rejoin sep cur [] = [cur]"
| "rejoin sep cur (p # ps) =
     (if even (quoteCount cur) then cur # rejoin sep p ps else rejoin sep (cur @ sep # p) ps)"

definition split_quoted :: "char \<Rightarrow> string \<Rightarrow> string list" where
  "split_quoted sep s = (case split_on sep s of p # ps \<Rightarrow> rejoin sep p ps | [] \<Rightarrow> [])"

definition splitMediaTypes :: "string \<Rightarrow> string list" where
  "splitMediaTypes accept = split_quoted (CHR '','') accept"

definition splitParameters :: "string \<Rightarrow> string list" where
  "splitParameters s = map js_trim (split_quoted (CHR '';'') s)"

definition splitKeyValuePair :: "string \<Rightarrow> string \<times> string" where
  "splitKeyValuePair s =
     (case dropWhile (\<lambda>c. c \<noteq> CHR ''='') s of
        [] \<Rightarrow> (s, [])
      | _ # val \<Rightarrow> (takeWhile (\<lambda>c. c \<noteq> CHR ''='') s, val))"

subsection \<open>Media types\<close>

record media_type =
  mt_type :: string
  mt_subtype :: string
  mt_params :: "(string \<times> string) list"
  mt_q :: jsnum
  mt_i :: nat

text \<open>\<^verbatim>\<open>simpleMediaTypeRegExp\<close>: type, subtype, and what follows the first semicolon, in which no line ends.\<close>

definition simpleMediaType :: "string \<Rightarrow> (string \<times> string \<times> string) option" where
  "simpleMediaType s =
     (let s = dropWhile js_space s;
          inner = (\<lambda>c. \<not> js_space c \<and> c \<noteq> CHR ''/'' \<and> c \<noteq> CHR '';'');
          type = takeWhile inner s
      in case dropWhile inner s of
           [] \<Rightarrow> None
         | c # rest \<Rightarrow>
             (if c \<noteq> CHR ''/'' \<or> type = [] then None
              else
                (let inner = (\<lambda>c. \<not> js_space c \<and> c \<noteq> CHR '';''); subtype = takeWhile inner rest
                 in if subtype = [] then None
                    else case dropWhile js_space (dropWhile inner rest) of
                      [] \<Rightarrow> Some (type, subtype, [])
                    | d # params \<Rightarrow>
                        (if d = CHR '';'' \<and> list_all (\<lambda>c. of_char c \<noteq> (10 :: nat) \<and> of_char c \<noteq> (13 :: nat)) params
                         then Some (type, subtype, params) else None))))"

definition unquote :: "string \<Rightarrow> string" where
  "unquote val = (if val \<noteq> [] \<and> hd val = CHR 0x22 \<and> last val = CHR 0x22 then butlast (tl val) else val)"

text \<open>The loop over the parameters, which \<^verbatim>\<open>q\<close> ends.\<close>

fun read_params :: "(string \<times> string) list \<Rightarrow> (string \<times> string) list \<Rightarrow> (string \<times> string) list \<times> jsnum" where
  "read_params params [] = (params, Finite_num 1)"
| "read_params params ((k, val) # pairs) =
     (let key = toLowerCase k; v = unquote val in
      if key = ''q'' then (params, parseFloat v) else read_params (AList.update key v params) pairs)"

definition parseMediaType :: "string \<Rightarrow> nat \<Rightarrow> media_type option" where
  "parseMediaType str i =
     (case simpleMediaType str of
        None \<Rightarrow> None
      | Some (type, subtype, rest) \<Rightarrow>
          (let (params, q) = (if rest = [] then ([], Finite_num 1) else read_params [] (map splitKeyValuePair (splitParameters rest)))
           in Some \<lparr>mt_type = type, mt_subtype = subtype, mt_params = params, mt_q = q, mt_i = i\<rparr>))"

definition parseAccept :: "string \<Rightarrow> media_type list" where
  "parseAccept accept = List.map_filter (\<lambda>(i, s). parseMediaType (js_trim s) i) (enumerate 0 (splitMediaTypes accept))"

subsection \<open>Priorities\<close>

text \<open>Order in the header (\<open>-1\<close> for none), quality, specificity, position among the provided types.\<close>

record priority =
  pr_o :: int
  pr_q :: jsnum
  pr_s :: nat
  pr_i :: nat

definition param_of :: "(string \<times> string) list \<Rightarrow> string \<Rightarrow> string" where
  "param_of params k = (case map_of params k of Some v \<Rightarrow> v | None \<Rightarrow> [])"

text \<open>The three bits of the specificity are disjoint, so their disjunction is a sum.\<close>

definition specify :: "string \<Rightarrow> media_type \<Rightarrow> nat \<Rightarrow> priority option" where
  "specify type spec index =
     (case parseMediaType type 0 of
        None \<Rightarrow> None
      | Some p \<Rightarrow>
          (let sameType = toLowerCase (mt_type spec) = toLowerCase (mt_type p);
               sameSubtype = toLowerCase (mt_subtype spec) = toLowerCase (mt_subtype p);
               keys = map fst (mt_params spec);
               sameParams = list_all (\<lambda>k. param_of (mt_params spec) k = ''*'' \<or>
                 toLowerCase (param_of (mt_params spec) k) = toLowerCase (param_of (mt_params p) k)) keys
           in if \<not> sameType \<and> mt_type spec \<noteq> ''*'' then None
              else if \<not> sameSubtype \<and> mt_subtype spec \<noteq> ''*'' then None
              else if keys \<noteq> [] \<and> \<not> sameParams then None
              else Some \<lparr>pr_o = int (mt_i spec), pr_q = mt_q spec,
                pr_s = (if sameType then 4 else 0) + (if sameSubtype then 2 else 0) + (if keys \<noteq> [] then 1 else 0), pr_i = index\<rparr>))"

text \<open>\<^verbatim>\<open>(priority.s - spec.s || priority.q - spec.q || priority.o - spec.o) < 0\<close>\<close>

definition outranked :: "priority \<Rightarrow> priority \<Rightarrow> bool" where
  "outranked p spec =
     (if pr_s p \<noteq> pr_s spec then pr_s p < pr_s spec
      else let d = num_sign (num_minus (pr_q p) (pr_q spec)) in
        if d \<noteq> 0 then d < 0 else pr_o p < pr_o spec)"

definition better :: "string \<Rightarrow> nat \<Rightarrow> priority \<Rightarrow> media_type \<Rightarrow> priority" where
  "better type index p accepted =
     (case specify type accepted index of
        Some spec \<Rightarrow> (if outranked p spec then spec else p)
      | None \<Rightarrow> p)"

definition getMediaTypePriority :: "string \<Rightarrow> media_type list \<Rightarrow> nat \<Rightarrow> priority" where
  "getMediaTypePriority type accepted index =
     foldl (better type index) \<lparr>pr_o = -1, pr_q = Finite_num 0, pr_s = 0, pr_i = 0\<rparr> accepted"

text \<open>The comparators, as whether the first argument may come first.\<close>

definition compareSpecs :: "priority \<Rightarrow> priority \<Rightarrow> bool" where
  "compareSpecs a b =
     (let d = num_sign (num_minus (pr_q b) (pr_q a)) in
      if d \<noteq> 0 then d < 0
      else if pr_s b \<noteq> pr_s a then pr_s b < pr_s a
      else if pr_o a \<noteq> pr_o b then pr_o a < pr_o b
      else pr_i a \<le> pr_i b)"

definition compareQuality :: "media_type \<Rightarrow> media_type \<Rightarrow> bool" where
  "compareQuality a b =
     (let d = num_sign (num_minus (mt_q b) (mt_q a)) in if d \<noteq> 0 then d < 0 else mt_i b \<le> mt_i a)"

text \<open>\<^verbatim>\<open>Array.prototype.sort\<close> is stable; insertion sort is one such sort.\<close>

fun insert_by :: "('a \<Rightarrow> 'a \<Rightarrow> bool) \<Rightarrow> 'a \<Rightarrow> 'a list \<Rightarrow> 'a list" where
  "insert_by le x [] = [x]"
| "insert_by le x (y # ys) = (if le x y then x # y # ys else y # insert_by le x ys)"

definition js_sort :: "('a \<Rightarrow> 'a \<Rightarrow> bool) \<Rightarrow> 'a list \<Rightarrow> 'a list" where
  "js_sort le xs = foldr (insert_by le) xs []"

definition getFullType :: "media_type \<Rightarrow> string" where
  "getFullType spec = mt_type spec @ ''/'' @ mt_subtype spec"

definition positive :: "jsnum \<Rightarrow> bool" where
  "positive q = (num_sign q = 1)"

definition preferredMediaTypes :: "string option \<Rightarrow> string list option \<Rightarrow> string list" where
  "preferredMediaTypes accept provided =
     (let accepts = parseAccept (case accept of None \<Rightarrow> ''*/*'' | Some s \<Rightarrow> s) in
      case provided of
        None \<Rightarrow> map getFullType (js_sort compareQuality (filter (\<lambda>spec. positive (mt_q spec)) accepts))
      | Some types \<Rightarrow>
          map snd (js_sort (\<lambda>a b. compareSpecs (fst a) (fst b))
            (filter (\<lambda>(p, _). positive (pr_q p))
              (map (\<lambda>(index, type). (getMediaTypePriority type accepts index, type)) (enumerate 0 types)))))"

text \<open>Without provided types, types of one quality come in the reverse of the header's order.\<close>

lemma reversed_ties: "preferredMediaTypes (Some ''text/html, application/json'') None = [''application/json'', ''text/html'']"
  by code_simp

end
