(* ===== verification/Transport.thy ===== *)
theory Transport
  imports Framing MediaType Enforce Apply
begin

text \<open>
  The transport end to end: the encoder's choice of a content type (\<^verbatim>\<open>encoder/src/encoder.ts\<close>), the request and its response
  (\<^verbatim>\<open>client/src/run/http-request.ts\<close>, \<^verbatim>\<open>client/src/agent/http.ts\<close>), and the choice of a reader by content type
  (\<^verbatim>\<open>client/src/transform/http.ts\<close>). \<^verbatim>\<open>fetch\<close>, the JSON functions, the text codec and the protobuf codec are parameters. Events on the wire are
  JavaScript values. Cancelling a reader nobody listens to any more has no effect on what is delivered and is left out.
\<close>

subsection \<open>The encoder\<close>

definition AGUI_MEDIA_TYPE :: string where
  "AGUI_MEDIA_TYPE = ''application/vnd.ag-ui.event+proto''"

definition isProtobufAccepted :: "string \<Rightarrow> bool" where
  "isProtobufAccepted acceptHeader = (AGUI_MEDIA_TYPE \<in> set (preferredMediaTypes (Some acceptHeader) (Some [AGUI_MEDIA_TYPE])))"

text \<open>The constructor: whether the encoder is for protobuf.\<close>

definition EventEncoder :: "string option \<Rightarrow> bool" where
  "EventEncoder accept = (case accept of Some s \<Rightarrow> s \<noteq> [] \<and> isProtobufAccepted s | None \<Rightarrow> False)"

definition getContentType :: "bool \<Rightarrow> string" where
  "getContentType acceptsProtobuf = (if acceptsProtobuf then AGUI_MEDIA_TYPE else ''text/event-stream'')"

definition encodeBinary ::
  "bool \<Rightarrow> ('e \<Rightarrow> bytes) \<Rightarrow> ('e \<Rightarrow> 'v) \<Rightarrow> ('v \<Rightarrow> string) \<Rightarrow> (string \<Rightarrow> bytes) \<Rightarrow> 'e \<Rightarrow> bytes" where
  "encodeBinary acceptsProtobuf encode omitted stringify utf8 event =
     (if acceptsProtobuf then encodeProtobuf encode event else utf8 (encodeSSE omitted stringify event))"

subsection \<open>The request\<close>

text \<open>A read that fails carries the error value; so does a rejected \<^verbatim>\<open>fetch\<close>.\<close>

datatype body_end = BodyDone | BodyFailed jsval

record response =
  resp_ok :: bool
  resp_status :: int
  resp_content_type :: "string option"
  resp_text :: string
  resp_body :: "(bytes list \<times> body_end) option"

datatype fetched = Response response | FetchRejected jsval

datatype response_event = Headers "string option" | Data "bytes option"

datatype source_error = Unsent enforce_error | HttpStatus int jsval | NoReader | Rejected jsval

datatype source_end = Completes | Fails source_error

definition has_substring :: "string \<Rightarrow> string \<Rightarrow> bool" where
  "has_substring needle s = list_ex (\<lambda>n. take (length needle) (drop n s) = needle) [0..<Suc (length s)]"

definition runHttpRequest :: "(string \<Rightarrow> jsval option) \<Rightarrow> fetched \<Rightarrow> response_event list \<times> source_end" where
  "runHttpRequest parse fetched =
     (case fetched of
        FetchRejected e \<Rightarrow> ([], Fails (Rejected e))
      | Response r \<Rightarrow>
          (if \<not> resp_ok r then
             (let contentType = (case resp_content_type r of Some c \<Rightarrow> c | None \<Rightarrow> []);
                  payload = (if has_substring ''application/json'' contentType
                             then (case parse (resp_text r) of Some v \<Rightarrow> v | None \<Rightarrow> JStr (resp_text r))
                             else JStr (resp_text r))
              in ([], Fails (HttpStatus (resp_status r) payload)))
           else case resp_body r of
             None \<Rightarrow> ([], Fails NoReader)
           | Some (chunks, fin) \<Rightarrow>
               (Headers (resp_content_type r) # map (\<lambda>b. Data (Some b)) chunks,
                case fin of BodyDone \<Rightarrow> Completes | BodyFailed e \<Rightarrow> Fails (Rejected e))))"

subsection \<open>The reader\<close>

datatype transport_error =
    NoHeaders
  | NotAnObject
  | NoEventType
  | SseFailed sse_error
  | ProtoFailed proto_error
  | SourceFailed source_error

text \<open>How the stream ends; a source that completes before any event leaves it open for ever.\<close>

datatype stream_end = Ended | StreamFailed transport_error | NeverEnds

definition as_http :: "response_event \<Rightarrow> http_event" where
  "as_http ev = (case ev of Headers _ \<Rightarrow> HttpHeaders | Data b \<Rightarrow> HttpData b)"

text \<open>What a parser has delivered when its source ends, and its error: its own, or else the source's.\<close>

definition read_proto ::
  "(bytes \<Rightarrow> jsval decoded) \<Rightarrow> response_event list \<Rightarrow> source_end \<Rightarrow> jsval list \<times> transport_error option" where
  "read_proto decode events fin =
     (let st = foldl (proto_next decode) init_proto (map as_http events) in
      case fin of
        Completes \<Rightarrow> (let s = proto_sink (proto_complete decode st) in (delivered s, map_option ProtoFailed (sink_error s)))
      | Fails e \<Rightarrow> (let s = proto_sink st in
          (delivered s, Some (case sink_error s of Some x \<Rightarrow> ProtoFailed x | None \<Rightarrow> SourceFailed e))))"

definition read_sse ::
  "(string \<Rightarrow> jsval option) \<Rightarrow> 'd decoder \<Rightarrow> 'd \<Rightarrow> response_event list \<Rightarrow> source_end \<Rightarrow> jsval list \<times> transport_error option" where
  "read_sse parse dec d events fin =
     (let st = foldl (sse_next parse dec) (init_sse d) (map as_http events) in
      case fin of
        Completes \<Rightarrow> (let s = sse_sink (sse_complete parse dec st) in (delivered s, map_option SseFailed (sink_error s)))
      | Fails e \<Rightarrow> (let s = sse_sink st in
          (delivered s, Some (case sink_error s of Some x \<Rightarrow> SseFailed x | None \<Rightarrow> SourceFailed e))))"

text \<open>The check of a JSON frame before anything is read off it.\<close>

definition frame_error :: "jsval \<Rightarrow> transport_error option" where
  "frame_error json =
     (case json of
        JObj record \<Rightarrow>
          (case oget record ''type'' of JStr s \<Rightarrow> (if s = [] then Some NoEventType else None) | _ \<Rightarrow> Some NoEventType)
      | _ \<Rightarrow> Some NotAnObject)"

definition is_abort_error :: "transport_error \<Rightarrow> jsval option" where
  "is_abort_error e =
     (case e of
        SourceFailed (Rejected v) \<Rightarrow> (if jget v ''name'' = JStr ''AbortError'' then Some v else None)
      | _ \<Rightarrow> None)"

definition abort_event :: "jsval \<Rightarrow> jsval" where
  "abort_event err =
     JObj [(''type'', JStr ''RUN_ERROR''),
       (''message'', if truthy (jget err ''message'') then jget err ''message'' else JStr ''Request aborted''),
       (''code'', JStr ''abort''), (''rawEvent'', err)]"

text \<open>The subscription to the text parser: the first bad frame fails the stream, and an aborted request is an event.\<close>

definition take_frames :: "jsval list \<Rightarrow> transport_error option \<Rightarrow> jsval list \<times> stream_end" where
  "take_frames jsons err =
     (let good = takeWhile (\<lambda>v. frame_error v = None) jsons in
      case dropWhile (\<lambda>v. frame_error v = None) jsons of
        bad # _ \<Rightarrow> (good, StreamFailed (the (frame_error bad)))
      | [] \<Rightarrow>
          (case err of
             None \<Rightarrow> (good, Ended)
           | Some e \<Rightarrow> (case is_abort_error e of Some v \<Rightarrow> (good @ [abort_event v], Ended) | None \<Rightarrow> (good, StreamFailed e))))"

definition transformHttpEventStream ::
  "(bytes \<Rightarrow> jsval decoded) \<Rightarrow> (string \<Rightarrow> jsval option) \<Rightarrow> 'd decoder \<Rightarrow> 'd \<Rightarrow> response_event list \<times> source_end \<Rightarrow> jsval list \<times> stream_end" where
  "transformHttpEventStream decode parse dec d source =
     (case source of
        ([], Completes) \<Rightarrow> ([], NeverEnds)
      | ([], Fails e) \<Rightarrow> ([], StreamFailed (SourceFailed e))
      | (Data _ # _, _) \<Rightarrow> ([], StreamFailed NoHeaders)
      | (Headers contentType # rest, fin) \<Rightarrow>
          (let events = Headers contentType # rest in
           if contentType = Some AGUI_MEDIA_TYPE
           then (let (evs, err) = read_proto decode events fin
                 in (evs, case err of None \<Rightarrow> Ended | Some e \<Rightarrow> StreamFailed e))
           else (let (jsons, err) = read_sse parse dec d events fin in take_frames jsons err)))"

subsection \<open>The agent over HTTP\<close>

definition sanitizeOutgoingInput :: "jsval \<Rightarrow> jsval" where
  "sanitizeOutgoingInput input =
     (case jget input ''messages'' of
        JArr ms \<Rightarrow>
          (if list_ex (\<lambda>m. jget m ''subagentRunId'' = JNull) ms
           then jset ''messages'' (JArr (map strip_message_tag ms)) input else input)
      | _ \<Rightarrow> input)"

record http_request =
  req_url :: string
  req_method :: string
  req_headers :: jsobj
  req_body :: string

definition requestInit :: "(jsval \<Rightarrow> string) \<Rightarrow> string \<Rightarrow> jsobj \<Rightarrow> jsval \<Rightarrow> http_request" where
  "requestInit stringify url headers input =
     \<lparr>req_url = url, req_method = ''POST'',
      req_headers = oset ''Accept'' (JStr ''text/event-stream'') (oset ''Content-Type'' (JStr ''application/json'') headers),
      req_body = stringify (sanitizeOutgoingInput input)\<rparr>"

definition httpAgent_run ::
  "(zschema \<Rightarrow> jsval \<Rightarrow> string + jsval) \<Rightarrow> budget_option \<Rightarrow> (bytes \<Rightarrow> jsval decoded) \<Rightarrow> (string \<Rightarrow> jsval option) \<Rightarrow> (jsval \<Rightarrow> string) \<Rightarrow>
     'd decoder \<Rightarrow> 'd \<Rightarrow> string \<Rightarrow> jsobj \<Rightarrow> (http_request \<Rightarrow> fetched) \<Rightarrow> jsval \<Rightarrow> jsval list \<times> stream_end" where
  "httpAgent_run validate maxEntries decode parse stringify dec d url headers fetch input =
     transformHttpEventStream decode parse dec d
       (case enforceOutgoingInput validate maxEntries input of
          Inl e \<Rightarrow> ([], Fails (Unsent e))
        | Inr v \<Rightarrow> runHttpRequest parse (fetch (requestInit stringify url headers v)))"

end
