(* ===== verification/MediaTypeProps.thy ===== *)
theory MediaTypeProps
  imports MediaType "HOL-Library.Multiset"
begin

text \<open>
  Lemmas on the sort, the comparators and the choice of a priority, and what is preferred among provided types. The comparators are
  interpretations of one contract.
\<close>

subsection \<open>Sorting with a comparator\<close>

text \<open>What a comparator must promise on the values that are sorted.\<close>

locale comparator =
  fixes le :: "'a \<Rightarrow> 'a \<Rightarrow> bool" and good :: "'a \<Rightarrow> bool"
  assumes total: "good a \<Longrightarrow> good b \<Longrightarrow> le a b \<or> le b a"
    and trans: "good a \<Longrightarrow> good b \<Longrightarrow> good c \<Longrightarrow> le a b \<Longrightarrow> le b c \<Longrightarrow> le a c"
begin

lemma insert_sorted:
  "good x \<Longrightarrow> list_all good ys \<Longrightarrow> sorted_wrt le ys \<Longrightarrow> sorted_wrt le (insert_by le x ys)"
proof (induction ys)
  case (Cons y ys)
  have set: "set (insert_by le x ys) = insert x (set ys)" by (induction ys) auto
  show ?case
  proof (cases "le x y")
    case True
    with Cons.prems trans [of x y] show ?thesis by (auto simp: list_all_iff)
  next
    case False
    then have "le y x" using total [of x y] Cons.prems by simp
    with False Cons set show ?thesis by auto
  qed
qed simp

lemma insert_good: "good x \<Longrightarrow> list_all good ys \<Longrightarrow> list_all good (insert_by le x ys)"
  by (induction ys) auto

lemma js_sort_sorted: "list_all good xs \<Longrightarrow> list_all good (js_sort le xs) \<and> sorted_wrt le (js_sort le xs)"
  by (induction xs) (auto simp: js_sort_def insert_sorted insert_good)

end

lemma mset_insert_by: "mset (insert_by le x xs) = add_mset x (mset xs)"
  by (induction xs) auto

lemma mset_js_sort: "mset (js_sort le xs) = mset xs"
  by (induction xs) (auto simp: js_sort_def mset_insert_by)

lemma set_js_sort: "set (js_sort le xs) = set xs"
  using mset_js_sort [of le xs] by (metis set_mset_mset)

lemma insert_by_map: "map f (insert_by (\<lambda>a b. le (f a) (f b)) x xs) = insert_by le (f x) (map f xs)"
  by (induction xs) auto

lemma js_sort_map: "map f (js_sort (\<lambda>a b. le (f a) (f b)) xs) = js_sort le (map f xs)"
  by (induction xs) (auto simp: js_sort_def insert_by_map)

subsection \<open>Numbers\<close>

lemma num_sign_simps [simp]:
  "num_sign NaN = 0" "num_sign (Infinite_num p) = (if p then 1 else -1)"
  "num_sign (Finite_num r) = (if r > 0 then 1 else if r < 0 then -1 else 0)"
  by (simp_all add: num_sign_def)

lemma num_minus_simps [simp]:
  "num_minus (Finite_num a) (Finite_num b) = Finite_num (a - b)"
  "num_minus (Infinite_num p) (Infinite_num p') = (if p = p' then NaN else Infinite_num p)"
  "num_minus (Infinite_num p) (Finite_num b) = Infinite_num p"
  "num_minus (Finite_num a) (Infinite_num p) = Infinite_num (\<not> p)"
  "num_minus NaN x = NaN" "num_minus x NaN = NaN"
  by (simp_all add: num_minus_def split: jsnum.split)

text \<open>The order of the numbers that are not \<^verbatim>\<open>NaN\<close>.\<close>

definition num_less :: "jsnum \<Rightarrow> jsnum \<Rightarrow> bool" where
  "num_less x y \<longleftrightarrow> num_sign (num_minus x y) < 0"

lemma num_less_simps [simp]:
  "num_less (Finite_num a) (Finite_num b) \<longleftrightarrow> a < b"
  "num_less (Infinite_num p) (Infinite_num p') \<longleftrightarrow> \<not> p \<and> p'"
  "num_less (Infinite_num p) (Finite_num b) \<longleftrightarrow> \<not> p"
  "num_less (Finite_num a) (Infinite_num p) \<longleftrightarrow> p"
  "\<not> num_less NaN x" "\<not> num_less x NaN"
  by (auto simp: num_less_def)

lemma num_sign_minus: "num_sign (num_minus x y) = (if num_less x y then -1 else if num_less y x then 1 else 0)"
  by (cases x; cases y) auto

lemma num_less_trans: "num_less x y \<Longrightarrow> num_less y z \<Longrightarrow> num_less x z"
  by (cases x; cases y; cases z) auto

lemma num_less_linear: "x \<noteq> NaN \<Longrightarrow> y \<noteq> NaN \<Longrightarrow> num_less x y \<or> x = y \<or> num_less y x"
  by (cases x; cases y) auto

lemma num_less_irrefl [simp]: "\<not> num_less x x"
  by (cases x) auto

lemma num_less_asym: "num_less x y \<Longrightarrow> \<not> num_less y x"
  by (cases x; cases y) auto

lemma positive_iff: "positive q \<longleftrightarrow> num_less (Finite_num 0) q"
  by (cases q) (auto simp: positive_def)

lemma positive_number: "positive q \<Longrightarrow> q \<noteq> NaN"
  by (auto simp: positive_def)

subsection \<open>Comparators\<close>

lemma compareQuality_iff:
  "mt_q a \<noteq> NaN \<Longrightarrow> mt_q b \<noteq> NaN \<Longrightarrow>
     compareQuality a b \<longleftrightarrow> num_less (mt_q b) (mt_q a) \<or> mt_q a = mt_q b \<and> mt_i b \<le> mt_i a"
  using num_less_linear [of "mt_q a" "mt_q b"]
  by (auto simp: compareQuality_def num_sign_minus Let_def dest: num_less_asym)

lemma compareSpecs_iff:
  "pr_q a \<noteq> NaN \<Longrightarrow> pr_q b \<noteq> NaN \<Longrightarrow>
     compareSpecs a b \<longleftrightarrow> num_less (pr_q b) (pr_q a) \<or> pr_q a = pr_q b \<and>
       (pr_s b < pr_s a \<or> pr_s a = pr_s b \<and> (pr_o a < pr_o b \<or> pr_o a = pr_o b \<and> pr_i a \<le> pr_i b))"
  using num_less_linear [of "pr_q a" "pr_q b"]
  by (auto simp: compareSpecs_def num_sign_minus Let_def dest: num_less_asym)

interpretation qualities: comparator compareQuality "\<lambda>m. mt_q m \<noteq> NaN"
proof
  fix a b c :: media_type
  assume q: "mt_q a \<noteq> NaN" "mt_q b \<noteq> NaN"
  then show "compareQuality a b \<or> compareQuality b a"
    using num_less_linear [of "mt_q a" "mt_q b"] by (auto simp: compareQuality_iff)
  assume "mt_q c \<noteq> NaN" "compareQuality a b" "compareQuality b c"
  with q show "compareQuality a c" using num_less_trans by (auto simp: compareQuality_iff)
qed

interpretation specs: comparator compareSpecs "\<lambda>p. pr_q p \<noteq> NaN"
proof
  fix a b c :: priority
  assume q: "pr_q a \<noteq> NaN" "pr_q b \<noteq> NaN"
  then show "compareSpecs a b \<or> compareSpecs b a"
    using num_less_linear [of "pr_q a" "pr_q b"] by (auto simp: compareSpecs_iff)
  assume "pr_q c \<noteq> NaN" "compareSpecs a b" "compareSpecs b c"
  with q show "compareSpecs a c" using num_less_trans by (auto simp: compareSpecs_iff)
qed

subsection \<open>The choice of a priority\<close>

lemma outranked_iff:
  "pr_q p \<noteq> NaN \<Longrightarrow> pr_q x \<noteq> NaN \<Longrightarrow>
     outranked p x \<longleftrightarrow> pr_s p < pr_s x \<or> pr_s p = pr_s x \<and> (num_less (pr_q p) (pr_q x) \<or> pr_q p = pr_q x \<and> pr_o p < pr_o x)"
  using num_less_linear [of "pr_q p" "pr_q x"]
  by (auto simp: outranked_def num_sign_minus Let_def dest: num_less_asym)

lemma outranked_irrefl: "\<not> outranked p p"
  by (simp add: outranked_def num_sign_minus Let_def)

lemma outranked_trans:
  "pr_q p \<noteq> NaN \<Longrightarrow> pr_q x \<noteq> NaN \<Longrightarrow> pr_q y \<noteq> NaN \<Longrightarrow> outranked p x \<Longrightarrow> outranked x y \<Longrightarrow> outranked p y"
  using num_less_trans by (auto simp: outranked_iff)

text \<open>The ranges of a header that match a type, as its candidates.\<close>

definition candidates :: "string \<Rightarrow> media_type list \<Rightarrow> nat \<Rightarrow> priority set" where
  "candidates type accepted index = {p. \<exists>m \<in> set accepted. specify type m index = Some p}"

lemma specify_fields:
  assumes "specify type m index = Some p"
  shows "pr_q p = mt_q m" "pr_i p = index"
proof -
  have "\<exists>s. p = \<lparr>pr_o = int (mt_i m), pr_q = mt_q m, pr_s = s, pr_i = index\<rparr>"
    using assms unfolding specify_def Let_def
    by (simp only: option.case_eq_if option.inject option.distinct split: if_split_asm) blast+
  then show "pr_q p = mt_q m" "pr_i p = index" by auto
qed

lemma candidate_number:
  "list_all (\<lambda>m. mt_q m \<noteq> NaN) accepted \<Longrightarrow> p \<in> candidates type accepted index \<Longrightarrow> pr_q p \<noteq> NaN"
  unfolding candidates_def list_all_iff using specify_fields(1) by fastforce

lemma candidate_index: "p \<in> candidates type accepted index \<Longrightarrow> pr_i p = index"
  by (auto simp: candidates_def dest: specify_fields)

lemma better_fold:
  "list_all (\<lambda>m. mt_q m \<noteq> NaN) accepted \<Longrightarrow> pr_q p0 \<noteq> NaN \<Longrightarrow>
     (let p = foldl (better type index) p0 accepted in
        p \<in> insert p0 (candidates type accepted index) \<and> (\<forall>x \<in> insert p0 (candidates type accepted index). \<not> outranked p x))"
proof (induction accepted rule: rev_induct)
  case Nil
  then show ?case by (auto simp: candidates_def outranked_irrefl)
next
  case (snoc m ms)
  let ?p = "foldl (better type index) p0 ms"
  have IH: "?p \<in> insert p0 (candidates type ms index)" "\<forall>x \<in> insert p0 (candidates type ms index). \<not> outranked ?p x"
    using snoc by (simp_all add: Let_def)
  have num: "\<forall>x \<in> insert p0 (candidates type (ms @ [m]) index). pr_q x \<noteq> NaN"
    using candidate_number snoc.prems by blast
  have mono: "candidates type ms index \<subseteq> candidates type (ms @ [m]) index" by (auto simp: candidates_def)
  show ?case
  proof (cases "specify type m index")
    case None
    then have "better type index ?p m = ?p" "candidates type (ms @ [m]) index = candidates type ms index"
      by (auto simp: better_def candidates_def)
    with IH show ?thesis by (simp add: Let_def)
  next
    case (Some x)
    then have c: "candidates type (ms @ [m]) index = insert x (candidates type ms index)" by (auto simp: candidates_def)
    have x: "\<not> outranked x x" by (rule outranked_irrefl)
    show ?thesis
    proof (cases "outranked ?p x")
      case True
      have "\<not> outranked x y" if "y \<in> insert p0 (candidates type ms index)" for y
        using outranked_trans [OF _ _ _ True, of y] IH num that mono c by blast
      moreover have "better type index ?p m = x" by (simp add: better_def Some True)
      ultimately show ?thesis using x by (simp add: c Let_def)
    next
      case False
      moreover have "better type index ?p m = ?p" by (simp add: better_def Some False)
      ultimately show ?thesis using IH by (auto simp: c Let_def)
    qed
  qed
qed

lemma priority_candidate:
  "getMediaTypePriority type accepted index = \<lparr>pr_o = -1, pr_q = Finite_num 0, pr_s = 0, pr_i = 0\<rparr> \<or>
   getMediaTypePriority type accepted index \<in> candidates type accepted index"
proof -
  have "foldl (better type index) p0 accepted = p0 \<or> foldl (better type index) p0 accepted \<in> candidates type accepted index" for p0
  proof (induction accepted rule: rev_induct)
    case (snoc m ms)
    then show ?case by (auto simp: better_def candidates_def split: option.split)
  qed simp
  then show ?thesis by (simp add: getMediaTypePriority_def)
qed

lemma accepted_precedence:
  assumes "list_all (\<lambda>m. mt_q m \<noteq> NaN) accepted"
  shows "positive (pr_q (getMediaTypePriority type accepted index)) \<longleftrightarrow>
    (\<exists>p \<in> candidates type accepted index. positive (pr_q p) \<and> (\<forall>x \<in> candidates type accepted index. pr_s x \<le> pr_s p))"
proof -
  let ?none = "\<lparr>pr_o = -1, pr_q = Finite_num 0, pr_s = 0, pr_i = 0\<rparr>" and ?p = "getMediaTypePriority type accepted index"
  have p: "?p \<in> insert ?none (candidates type accepted index)" "\<forall>x \<in> insert ?none (candidates type accepted index). \<not> outranked ?p x"
    using better_fold [OF assms, of ?none type index] by (simp_all add: getMediaTypePriority_def Let_def)
  have p0: "\<not> positive (pr_q ?none)" by (simp add: positive_def)
  have num: "pr_q ?p \<noteq> NaN" "\<And>x. x \<in> candidates type accepted index \<Longrightarrow> pr_q x \<noteq> NaN"
    using p(1) candidate_number [OF assms] by auto
  show ?thesis
  proof
    assume pos: "positive (pr_q ?p)"
    with p0 p(1) have "?p \<in> candidates type accepted index" by auto
    moreover have "\<forall>x \<in> candidates type accepted index. pr_s x \<le> pr_s ?p" using p(2) num by (auto simp: outranked_iff not_less)
    ultimately show "\<exists>p \<in> candidates type accepted index. positive (pr_q p) \<and> (\<forall>x \<in> candidates type accepted index. pr_s x \<le> pr_s p)"
      using pos by blast
  next
    assume "\<exists>p \<in> candidates type accepted index. positive (pr_q p) \<and> (\<forall>x \<in> candidates type accepted index. pr_s x \<le> pr_s p)"
    then obtain x where x: "x \<in> candidates type accepted index" "positive (pr_q x)"
      "\<forall>y \<in> candidates type accepted index. pr_s y \<le> pr_s x" by blast
    have not: "\<not> outranked ?p x" using p(2) x(1) by blast
    have "pr_s ?p \<le> pr_s x" using p(1) x(3) by auto
    with not num x(1) have "\<not> num_less (pr_q ?p) (pr_q x)" by (auto simp: outranked_iff)
    with num_less_linear [OF num(1) num(2) [OF x(1)]] x(2) show "positive (pr_q ?p)"
      using num_less_trans by (auto simp: positive_iff)
  qed
qed

text \<open>
  What is preferred among provided types: exactly those whose priority has a positive quality, each as often as it is provided, ordered by quality,
  then specificity, then the order of the header, then that of the provided types.
\<close>

theorem preferred_types:
  "\<exists>ps. preferredMediaTypes accept (Some types) = map (\<lambda>p. types ! pr_i p) ps \<and> sorted_wrt compareSpecs ps \<and>
     mset ps = mset (filter (\<lambda>p. positive (pr_q p))
       (map (\<lambda>(index, type). getMediaTypePriority type (parseAccept (case accept of None \<Rightarrow> ''*/*'' | Some s \<Rightarrow> s)) index) (enumerate 0 types)))"
proof -
  define acc where "acc = parseAccept (case accept of None \<Rightarrow> ''*/*'' | Some s \<Rightarrow> s)"
  let ?pairs = "filter (\<lambda>(p, _). positive (pr_q p)) (map (\<lambda>(index, type). (getMediaTypePriority type acc index, type)) (enumerate 0 types))"
  let ?sorted = "js_sort (\<lambda>a b. compareSpecs (fst a) (fst b)) ?pairs"
  have pairs: "snd x = types ! pr_i (fst x) \<and> positive (pr_q (fst x))" if "x \<in> set ?sorted" for x
  proof -
    have "x \<in> set ?pairs" using that by (simp only: set_js_sort)
    then have x: "x \<in> (\<lambda>(index, type). (getMediaTypePriority type acc index, type)) ` set (enumerate 0 types)" "positive (pr_q (fst x))"
      by (simp_all only: set_filter set_map mem_Collect_eq case_prod_unfold)
    from x(1) obtain y where y: "y \<in> set (enumerate 0 types)" "x = (getMediaTypePriority (snd y) acc (fst y), snd y)"
      by (auto simp only: case_prod_unfold)
    define i where "i = fst y"
    have "i < length types" "snd y = types ! i" using y(1) by (simp_all add: in_set_enumerate_eq i_def)
    with x(2) y(2) have i: "x = (getMediaTypePriority (types ! i) acc i, types ! i)" "positive (pr_q (fst x))"
      by (simp_all only: i_def)
    have "pr_i (fst x) = i"
      using priority_candidate [of "types ! i" acc i] i candidate_index [of _ "types ! i" acc i] by (auto simp: positive_def)
    with i show ?thesis by (metis snd_conv)
  qed
  have fst: "map fst ?sorted = js_sort compareSpecs (map fst ?pairs)" by (rule js_sort_map)
  have "list_all (\<lambda>p. pr_q p \<noteq> NaN) (map fst ?pairs)" by (auto simp: list_all_iff positive_number)
  then have srt: "sorted_wrt compareSpecs (map fst ?sorted)" using specs.js_sort_sorted by (simp add: fst)
  have ms: "mset (map fst ?sorted) = mset (map fst ?pairs)" by (simp add: fst mset_js_sort)
  have ps: "map fst ?pairs = filter (\<lambda>p. positive (pr_q p)) (map (\<lambda>(index, type). getMediaTypePriority type acc index) (enumerate 0 types))"
    by (simp add: filter_map comp_def case_prod_unfold)
  have pref: "preferredMediaTypes accept (Some types) = map (\<lambda>p. types ! pr_i p) (map fst ?sorted)"
  proof -
    have "preferredMediaTypes accept (Some types) = map snd ?sorted"
      by (simp only: preferredMediaTypes_def Let_def option.case acc_def)
    also have "\<dots> = map (\<lambda>x. types ! pr_i (fst x)) ?sorted" by (rule map_cong [OF refl]) (use pairs in blast)
    also have "\<dots> = map (\<lambda>p. types ! pr_i p) (map fst ?sorted)" by (simp only: map_map comp_def)
    finally show ?thesis .
  qed
  show ?thesis
    unfolding acc_def [symmetric] by (rule exI [of _ "map fst ?sorted"]) (intro conjI pref srt ms [unfolded ps])
qed

end
