(* ===== verification/TransportSpec.thy ===== *)
theory TransportSpec
  imports Transport FramingProps MediaTypeProps ApplyProps
begin

text \<open>The transport: who is sent protobuf, the round trip from an encoder to the reader its content type selects, and how streams end.\<close>

subsection \<open>Who gets protobuf\<close>

lemma protobuf_accepted:
  "isProtobufAccepted accept \<longleftrightarrow> positive (pr_q (getMediaTypePriority AGUI_MEDIA_TYPE (parseAccept accept) 0))"
  by (simp add: isProtobufAccepted_def preferredMediaTypes_def Let_def js_sort_def)

text \<open>
  C36. An encoder sends protobuf exactly to those who ask for it: the header is not empty and, among its ranges that match the media type, one of the
  most specific has a positive quality. A wildcard with a high quality does not override an exact range with quality zero. Asked of the header:
  its qualities are numbers.
\<close>

theorem negotiation_precedence:
  assumes "list_all (\<lambda>m. mt_q m \<noteq> NaN) (parseAccept accept)"
  shows "EventEncoder (Some accept) \<longleftrightarrow> accept \<noteq> [] \<and>
    (\<exists>p \<in> candidates AGUI_MEDIA_TYPE (parseAccept accept) 0. positive (pr_q p) \<and>
       (\<forall>x \<in> candidates AGUI_MEDIA_TYPE (parseAccept accept) 0. pr_s x \<le> pr_s p))"
  by (simp add: EventEncoder_def protobuf_accepted accepted_precedence [OF assms])

theorem negotiation_precedence_witness:
  "\<not> EventEncoder (Some ''*/*, application/vnd.ag-ui.event+proto;q=0'') \<and>
   EventEncoder (Some ''application/*;q=0.1, text/event-stream'') \<and>
   (\<exists>p \<in> candidates AGUI_MEDIA_TYPE (parseAccept ''application/*;q=0.1, text/event-stream'') 0. positive (pr_q p))"
proof -
  have e: "\<not> EventEncoder (Some ''*/*, application/vnd.ag-ui.event+proto;q=0'')"
    "EventEncoder (Some ''application/*;q=0.1, text/event-stream'')" by code_simp+
  have "list_all (\<lambda>m. mt_q m \<noteq> NaN) (parseAccept ''application/*;q=0.1, text/event-stream'')" by code_simp
  from negotiation_precedence [OF this] e show ?thesis by blast
qed

subsection \<open>The wire\<close>

lemma source_headers:
  assumes "resp_ok r" "resp_body r = Some (chunks, BodyDone)"
  shows "runHttpRequest parse (Response r) = (Headers (resp_content_type r) # map (\<lambda>b. Data (Some b)) chunks, Completes)"
  using assms by (simp add: runHttpRequest_def)

definition http_chunks :: "bytes list \<Rightarrow> http_event list" where
  "http_chunks chunks = HttpHeaders # map (\<lambda>b. HttpData (Some b)) chunks"

lemma as_http_chunks: "map as_http (Headers c # map (\<lambda>b. Data (Some b)) chunks) = http_chunks chunks"
  by (simp add: as_http_def http_chunks_def comp_def)

lemma data_chunks: "concat (map data_of (http_chunks chunks)) = concat chunks"
  by (simp add: http_chunks_def comp_def)

text \<open>What is asked of the codecs for the events that are sent.\<close>

definition wire_ok ::
  "(jsval \<Rightarrow> bytes) \<Rightarrow> (bytes \<Rightarrow> jsval decoded) \<Rightarrow> (jsval \<Rightarrow> jsval) \<Rightarrow> (jsval \<Rightarrow> string) \<Rightarrow> (string \<Rightarrow> jsval option) \<Rightarrow> jsval list \<Rightarrow> bool" where
  "wire_ok encode decode omitted stringify parse evs \<longleftrightarrow>
     (\<forall>ev \<in> set evs. decode (encode ev) = Decoded ev \<and> 4 + length (encode ev) \<le> MAX_BUFFER_SIZE \<and>
        nl \<notin> set (stringify (omitted ev)) \<and> parse (stringify (omitted ev)) = Some (omitted ev) \<and>
        6 + length (stringify (omitted ev)) < MAX_BUFFER_SIZE \<and> frame_error (omitted ev) = None)"

text \<open>A text codec: encoding is compatible with concatenation, and decoding in pieces gives the text back.\<close>

definition text_codec :: "(string \<Rightarrow> bytes) \<Rightarrow> 'd decoder \<Rightarrow> 'd \<Rightarrow> bool" where
  "text_codec utf8 dec d \<longleftrightarrow> utf8 [] = [] \<and> (\<forall>s t. utf8 (s @ t) = utf8 s @ utf8 t) \<and>
     (\<forall>t chunks. concat chunks = utf8 t \<longrightarrow> decoded_texts dec d (http_chunks chunks) = t)"

lemma utf8_concat: "text_codec utf8 dec d \<Longrightarrow> concat (map (\<lambda>ev. utf8 (f ev)) evs) = utf8 (concat (map f evs))"
  by (induction evs) (auto simp: text_codec_def)

lemma takeWhile_all: "list_all P xs \<Longrightarrow> takeWhile P xs = xs \<and> dropWhile P xs = []"
  by (induction xs) auto

text \<open>
  C39. Content negotiation and transport agree. Whatever Accept header the client sends, the events that the encoder configured by it
  encodes, put into the body of a successful response that names the encoder's content type, are exactly the events that
  \<^verbatim>\<open>transformHttpEventStream\<close> delivers, in order, with the stream ended regularly. This holds however the body is cut into chunks, in
  the middle of a length prefix or of a line included. Asked of the protobuf codec and of JSON is the round trip of single events
  (\<open>wire_ok\<close>), of the text codec that decoding in pieces gives the text back (\<open>text_codec\<close>).
\<close>

theorem negotiated_roundtrip:
  assumes "wire_ok encode decode omitted stringify parse evs" "text_codec utf8 dec d"
    and resp: "resp_ok r" "resp_content_type r = Some (getContentType (EventEncoder accept))"
      "resp_body r = Some (chunks, BodyDone)"
      "concat chunks = concat (map (encodeBinary (EventEncoder accept) encode omitted stringify utf8) evs)"
  shows "transformHttpEventStream decode parse dec d (runHttpRequest parse (Response r)) =
    (map (if EventEncoder accept then (\<lambda>ev. ev) else omitted) evs, Ended)"
proof (cases "EventEncoder accept")
  case True
  have "parseProtoStream decode (http_chunks chunks) = \<lparr>delivered = evs, sink_error = None\<rparr>"
    by (rule proto_frames [where encode = encode]) (use assms True in \<open>auto simp: wire_ok_def data_chunks encodeBinary_def [abs_def]\<close>)
  then have "read_proto decode (Headers (Some AGUI_MEDIA_TYPE) # map (\<lambda>b. Data (Some b)) chunks) Completes = (evs, None)"
    by (simp add: read_proto_def as_http_chunks [simplified] parseProtoStream_def Let_def)
  with True resp show ?thesis
    by (simp add: source_headers transformHttpEventStream_def getContentType_def)
next
  case False
  have ct: "''text/event-stream'' \<noteq> AGUI_MEDIA_TYPE" by (simp add: AGUI_MEDIA_TYPE_def)
  have "concat chunks = utf8 (concat (map (encodeSSE omitted stringify) evs))"
    using resp(4) False utf8_concat [OF assms(2)] by (simp add: encodeBinary_def [abs_def])
  then have "decoded_texts dec d (http_chunks chunks) = concat (map (encodeSSE omitted stringify) evs)"
    using assms(2) by (simp add: text_codec_def)
  then have "parseSSEStream parse dec d (http_chunks chunks) = \<lparr>delivered = map omitted evs, sink_error = None\<rparr>"
    by (intro sse_frames) (use assms(1) in \<open>auto simp: wire_ok_def\<close>)
  then have read: "read_sse parse dec d (Headers c # map (\<lambda>b. Data (Some b)) chunks) Completes = (map omitted evs, None)" for c
    by (simp add: read_sse_def as_http_chunks [simplified] parseSSEStream_def Let_def)
  have "list_all (\<lambda>v. frame_error v = None) (map omitted evs)" using assms(1) by (auto simp: wire_ok_def list_all_iff)
  note tw = takeWhile_all [OF this, THEN conjunct1] takeWhile_all [OF this, THEN conjunct2]
  have "take_frames (map omitted evs) None = (map omitted evs, Ended)"
    unfolding take_frames_def Let_def tw by simp
  with False resp ct read show ?thesis
    by (simp add: source_headers transformHttpEventStream_def getContentType_def)
qed

definition latin1 :: "unit decoder" where
  "latin1 = \<lparr>decode_more = (\<lambda>d b. (map (\<lambda>w. char_of (unat w)) b, d)), decode_last = (\<lambda>d. [])\<rparr>"

lemma latin1_codec: "text_codec (map (\<lambda>c. word_of_nat (of_char c))) latin1 ()"
proof -
  have read: "decoded_texts latin1 () (map (\<lambda>b. HttpData (Some b)) chunks) = map (\<lambda>w. char_of (unat w)) (concat chunks)" for chunks
    by (induction chunks) (simp_all add: latin1_def)
  have "char_of (unat (word_of_nat (of_char c) :: 8 word)) = c" for c
    by (simp add: unat_of_nat take_bit_eq_mod)
  with read show ?thesis by (auto simp: text_codec_def http_chunks_def comp_def)
qed

theorem negotiated_roundtrip_witness:
  "transformHttpEventStream (\<lambda>_. Decoded (JObj [(''type'', JStr ''RAW'')])) (\<lambda>_. Some (JObj [(''type'', JStr ''RAW'')])) latin1 ()
     (runHttpRequest (\<lambda>_. Some (JObj [(''type'', JStr ''RAW'')])) (Response \<lparr>resp_ok = True, resp_status = 200,
        resp_content_type = Some (getContentType (EventEncoder (Some ''application/*''))), resp_text = [],
        resp_body = Some ([[0, 0], [0, 1, 7]], BodyDone)\<rparr>)) = ([JObj [(''type'', JStr ''RAW'')]], Ended)"
proof -
  let ?ev = "JObj [(''type'', JStr ''RAW'')]" and ?utf8 = "map (\<lambda>c. word_of_nat (of_char c)) :: string \<Rightarrow> bytes"
  have e: "EventEncoder (Some ''application/*'')" by code_simp
  have ok: "wire_ok (\<lambda>_. [7]) (\<lambda>_. Decoded ?ev) (\<lambda>v. v) (\<lambda>_. ''x'') (\<lambda>_. Some ?ev) [?ev]"
    by (simp add: wire_ok_def MAX_BUFFER_SIZE_def frame_error_def)
  show ?thesis
    using negotiated_roundtrip [OF ok latin1_codec, where accept = "Some ''application/*''" and chunks = "[[0, 0], [0, 1, 7]]"
        and r = "\<lparr>resp_ok = True, resp_status = 200,
        resp_content_type = Some (getContentType (EventEncoder (Some ''application/*''))), resp_text = [],
        resp_body = Some ([[0, 0], [0, 1, 7]], BodyDone)\<rparr>"] e
    by (simp add: encodeBinary_def encodeProtobuf_def set_uint32_def runHttpRequest_def)
qed

subsection \<open>How streams end\<close>

lemma take_frames_end:
  "snd (take_frames jsons err) \<noteq> NeverEnds"
  "snd (take_frames jsons err) = Ended \<Longrightarrow> err = None \<or> (\<exists>e v. err = Some e \<and> is_abort_error e = Some v)"
  by (auto simp: take_frames_def Let_def split: list.splits option.splits)

lemma read_proto_fails: "\<exists>e'. snd (read_proto decode events (Fails e)) = Some e'"
  by (simp add: read_proto_def Let_def)

lemma read_sse_fails:
  "snd (read_sse parse dec d events (Fails e)) = Some e' \<Longrightarrow> e' = SourceFailed e \<or> (\<exists>x. e' = SseFailed x)"
  by (auto simp: read_sse_def Let_def split: option.splits)

lemma read_sse_some: "snd (read_sse parse dec d events (Fails e)) \<noteq> None"
  by (simp add: read_sse_def Let_def)

lemma abort_error: "is_abort_error e = Some v \<longleftrightarrow> e = SourceFailed (Rejected v) \<and> jget v ''name'' = JStr ''AbortError''"
  by (auto simp: is_abort_error_def split: transport_error.splits source_error.splits if_splits)

lemma transform_headers:
  "transformHttpEventStream decode parse dec d (Headers c # rest, fin) =
     (if c = Some AGUI_MEDIA_TYPE
      then (fst (read_proto decode (Headers c # rest) fin),
            case snd (read_proto decode (Headers c # rest) fin) of None \<Rightarrow> Ended | Some e \<Rightarrow> StreamFailed e)
      else case_prod take_frames (read_sse parse dec d (Headers c # rest) fin))"
  by (simp add: transformHttpEventStream_def Let_def case_prod_unfold)

lemma transform_end:
  assumes "snd (transformHttpEventStream decode parse dec d (Headers c # rest, fin)) = Ended"
  shows "fin = Completes \<or> (\<exists>v. fin = Fails (Rejected v) \<and> jget v ''name'' = JStr ''AbortError'' \<and> c \<noteq> Some AGUI_MEDIA_TYPE)"
proof (cases fin)
  case (Fails e)
  show ?thesis
  proof (cases "c = Some AGUI_MEDIA_TYPE")
    case True
    with assms Fails read_proto_fails [of decode "Headers c # rest" e] show ?thesis by (auto simp: transform_headers)
  next
    case False
    let ?r = "read_sse parse dec d (Headers c # rest) fin"
    have "snd (take_frames (fst ?r) (snd ?r)) = Ended" using assms False by (simp add: transform_headers case_prod_unfold)
    from take_frames_end(2) [OF this] obtain e' v where "snd ?r = Some e'" "is_abort_error e' = Some v"
      using read_sse_some [of parse dec d "Headers c # rest" e] Fails by auto
    with read_sse_fails [of parse dec d "Headers c # rest" e e'] Fails False show ?thesis by (auto simp: abort_error)
  qed
qed simp

text \<open>
  C17. Every response ends its stream: whatever \<^verbatim>\<open>fetch\<close> returns, the events end or fail, and they end regularly only for a successful response whose
  body was read to its end, or was aborted while it was read as text; an error status, a rejected request or a broken body never
  passes for a completed run.
\<close>

theorem responses_end:
  "snd (transformHttpEventStream decode parse dec d (runHttpRequest parse fetched)) \<noteq> NeverEnds \<and>
   (snd (transformHttpEventStream decode parse dec d (runHttpRequest parse fetched)) = Ended \<longrightarrow>
     (\<exists>r chunks fin. fetched = Response r \<and> resp_ok r \<and> resp_body r = Some (chunks, fin) \<and>
        (fin = BodyDone \<or> (\<exists>v. fin = BodyFailed v \<and> jget v ''name'' = JStr ''AbortError'' \<and> resp_content_type r \<noteq> Some AGUI_MEDIA_TYPE))))"
proof (cases "\<exists>r chunks fin. fetched = Response r \<and> resp_ok r \<and> resp_body r = Some (chunks, fin)")
  case True
  then obtain r chunks fin where r: "fetched = Response r" "resp_ok r" "resp_body r = Some (chunks, fin)" by blast
  let ?fin = "case fin of BodyDone \<Rightarrow> Completes | BodyFailed e \<Rightarrow> Fails (Rejected e)"
    and ?rest = "map (\<lambda>b. Data (Some b)) chunks"
  have run: "runHttpRequest parse fetched = (Headers (resp_content_type r) # ?rest, ?fin)"
    using r by (simp add: runHttpRequest_def)
  have "snd (transformHttpEventStream decode parse dec d (Headers (resp_content_type r) # ?rest, ?fin)) \<noteq> NeverEnds"
    unfolding transform_headers using take_frames_end(1) by (simp add: case_prod_unfold split: option.split)
  with transform_end [of decode parse dec d "resp_content_type r" ?rest ?fin] r show ?thesis
    unfolding run by (cases fin) auto
next
  case False
  then have "\<exists>e. runHttpRequest parse fetched = ([], Fails e)"
    by (auto simp: runHttpRequest_def Let_def split: fetched.split option.split)
  then show ?thesis by (auto simp: transformHttpEventStream_def)
qed

theorem responses_end_witness:
  "\<exists>evs. transformHttpEventStream (\<lambda>b. UnknownEventType) (\<lambda>s. None) \<lparr>decode_more = \<lambda>d b. ([], d), decode_last = \<lambda>d. []\<rparr> ()
     (runHttpRequest (\<lambda>s. None) (Response \<lparr>resp_ok = True, resp_status = 200, resp_content_type = None, resp_text = [],
        resp_body = Some ([], BodyFailed (JObj [(''name'', JStr ''AbortError'')]))\<rparr>)) = (evs, Ended) \<and>
     evs = [abort_event (JObj [(''name'', JStr ''AbortError'')])] \<and>
     snd (transformHttpEventStream (\<lambda>b. UnknownEventType) (\<lambda>s. None) \<lparr>decode_more = \<lambda>d b. ([], d), decode_last = \<lambda>d. []\<rparr> ()
       (runHttpRequest (\<lambda>s. None) (FetchRejected (JObj [(''name'', JStr ''AbortError'')])))) \<noteq> Ended"
proof -
  let ?dec = "\<lparr>decode_more = \<lambda>d b. ([], d), decode_last = \<lambda>d. []\<rparr> :: unit decoder"
  have "transformHttpEventStream (\<lambda>b. UnknownEventType) (\<lambda>s. None) ?dec ()
     (runHttpRequest (\<lambda>s. None) (Response \<lparr>resp_ok = True, resp_status = 200, resp_content_type = None, resp_text = [],
        resp_body = Some ([], BodyFailed (JObj [(''name'', JStr ''AbortError'')]))\<rparr>)) =
     ([abort_event (JObj [(''name'', JStr ''AbortError'')])], Ended)" by code_simp
  with responses_end [of "\<lambda>b. UnknownEventType" "\<lambda>s. None" ?dec "()" "FetchRejected (JObj [(''name'', JStr ''AbortError'')])"]
  show ?thesis by blast
qed

subsection \<open>What leaves the agent\<close>

lemma sanitized_null_free: "list_all (\<lambda>m. jget m ''subagentRunId'' \<noteq> JNull) (arr_items (jget (sanitizeOutgoingInput v) ''messages''))"
proof (cases "jget v ''messages''")
  case (JArr ms)
  have strip: "jget (strip_message_tag m) ''subagentRunId'' \<noteq> JNull" for m
    by (simp add: strip_message_tag_def jget_jdel)
  from JArr obtain ob where "v = JObj ob" by (cases v) auto
  with JArr strip show ?thesis
    by (auto simp: sanitizeOutgoingInput_def jset_def list_all_iff list_ex_iff)
qed (simp_all add: sanitizeOutgoingInput_def)

lemma sanitize_again: "sanitizeOutgoingInput (sanitizeOutgoingInput v) = sanitizeOutgoingInput v"
proof (cases "jget (sanitizeOutgoingInput v) ''messages''")
  case (JArr ms)
  with sanitized_null_free [of v] have "\<not> list_ex (\<lambda>m. jget m ''subagentRunId'' = JNull) ms"
    by (auto simp: list_all_iff list_ex_iff)
  with JArr show ?thesis unfolding sanitizeOutgoingInput_def [of "sanitizeOutgoingInput v"] by simp
qed (simp_all add: sanitizeOutgoingInput_def [of "sanitizeOutgoingInput v"])

text \<open>No null attribution leaves the agent: two servers that answer alike to requests whose messages carry none cannot be told apart.\<close>

lemma outgoing_null_free:
  assumes same: "\<And>v. list_all (\<lambda>m. jget m ''subagentRunId'' \<noteq> JNull) (arr_items (jget v ''messages'')) \<Longrightarrow>
    fetch (requestInit stringify url headers v) = fetch' (requestInit stringify url headers v)"
  shows "httpAgent_run validate maxEntries decode parse stringify dec d url headers fetch input =
    httpAgent_run validate maxEntries decode parse stringify dec d url headers fetch' input"
proof -
  have "requestInit stringify url headers v = requestInit stringify url headers (sanitizeOutgoingInput v)" for v
    by (simp add: requestInit_def sanitize_again)
  then have "fetch (requestInit stringify url headers v) = fetch' (requestInit stringify url headers v)" for v
    using same [OF sanitized_null_free] by metis
  then show ?thesis by (auto simp: httpAgent_run_def split: sum.split)
qed

end
