(* ===== verification/Legacy.thy ===== *)
theory Legacy
  imports AgentRun
begin

text \<open>
  The bridge to the legacy runtime protocol, \<^verbatim>\<open>client/src/legacy/convert.ts\<close>: \<open>convertToLegacyEvents\<close> translates a verified stream,
  \<open>convertMessagesToLegacyFormat\<close> a message history, and \<open>runAgentBridged\<close> is the method of \<^verbatim>\<open>AbstractAgent\<close> that ends its pipeline in the
  bridge instead of the reducer. The closure variables are the record \<open>legacy_state\<close>. \<^verbatim>\<open>JSON\<close>, \<^verbatim>\<open>untruncate-json\<close> and \<^verbatim>\<open>fast-json-patch\<close> are
  parameters; \<^verbatim>\<open>undefined\<close> is a value like any other, so an absent field of a legacy event is \<open>JUndef\<close>. Messages, tool calls and content parts are
  objects, as their types say and enforcement checks; a field of anything else reads as \<^verbatim>\<open>undefined\<close>. What a \<^verbatim>\<open>CUSTOM\<close> event carries is
  checked by nothing, and the ways it can break the bridge are errors here. Console output is left out, and with it the flag that
  limits it.
\<close>

subsection \<open>Legacy events and messages\<close>

record legacy_agent_state =
  la_threadId :: jsval
  la_agentName :: jsval
  la_nodeName :: jsval
  la_runId :: jsval
  la_running :: bool
  la_role :: string
  la_state :: string
  la_active :: bool

datatype legacy_event =
    LegacyTextMessageStart jsval jsval
  | LegacyTextMessageContent jsval jsval
  | LegacyTextMessageEnd jsval
  | LegacyActionExecutionStart jsval jsval jsval
  | LegacyActionExecutionArgs jsval jsval
  | LegacyActionExecutionEnd jsval
  | LegacyActionExecutionResult jsval jsval string
  | LegacyAgentStateMessage legacy_agent_state
  | LegacyMetaEvent jsval jsval
  | LegacyRunError jsval jsval

record legacy_env =
  lg_parse :: "string \<Rightarrow> string + jsval"
  lg_untruncated :: "string \<Rightarrow> jsval option"
  lg_stringify :: "jsval \<Rightarrow> string"
  lg_patch :: "jsval \<Rightarrow> jsval \<Rightarrow> jsval option"

text \<open>The ids a bridge is made for.\<close>

record legacy_ids =
  li_threadId :: jsval
  li_runId :: jsval
  li_agentName :: jsval

subsection \<open>Content\<close>

definition is_text_part :: "jsval \<Rightarrow> bool" where
  "is_text_part part = (jget part ''type'' = JStr ''text'')"

text \<open>One element of a joined array.\<close>

definition joined :: "jsval \<Rightarrow> string" where
  "joined v = (if nullish v then [] else js_string v)"

definition contentToText :: "jsval \<Rightarrow> string" where
  "contentToText content =
     (case content of
        JStr s \<Rightarrow> s
      | JArr parts \<Rightarrow> join [] (map (\<lambda>part. joined (jget part ''text'')) (filter is_text_part parts))
      | _ \<Rightarrow> [])"

definition flattenLegacyResult :: "jsval \<Rightarrow> string" where
  "flattenLegacyResult content = contentToText content"

definition flattenMessageContentToText :: "jsval \<Rightarrow> string option" where
  "flattenMessageContentToText content =
     (case content of
        JStr s \<Rightarrow> Some s
      | JArr parts \<Rightarrow>
          (let textParts = filter (\<lambda>s. s \<noteq> []) (map (\<lambda>part. joined (jget part ''text'')) (filter is_text_part parts))
           in if textParts = [] then None else Some (join [CHR 0x0A] textParts))
      | _ \<Rightarrow> None)"

subsection \<open>Histories\<close>

datatype legacy_message =
    LegacyTextMessage jsval jsval string
  | LegacyActionExecutionMessage jsval jsval jsval jsval
  | LegacyResultMessage jsval string jsval jsval

text \<open>A tool call whose arguments do not parse ends the conversion; the value is the message of the error.\<close>

definition parse_failure :: "jsval \<Rightarrow> string \<Rightarrow> string" where
  "parse_failure toolCall reason =
     ''Failed to parse arguments for tool call '' @ [CHR 0x27] @ js_string (jget toolCall ''id'') @ [CHR 0x27] @ '' ('' @
     js_string (call_function toolCall ''name'') @ ''): '' @ reason"

definition convert_call :: "(string \<Rightarrow> string + jsval) \<Rightarrow> jsval \<Rightarrow> jsval \<Rightarrow> string + legacy_message" where
  "convert_call parse message toolCall =
     (case parse (js_string (call_function toolCall ''arguments'')) of
        Inl reason \<Rightarrow> Inl (parse_failure toolCall reason)
      | Inr arguments \<Rightarrow> Inr (LegacyActionExecutionMessage (jget toolCall ''id'') (call_function toolCall ''name'') arguments
          (jget message ''id'')))"

definition calls_of :: "jsval \<Rightarrow> jsval list" where
  "calls_of m = (if jget m ''role'' = JStr ''assistant'' then arr_items (jget m ''toolCalls'') else [])"

text \<open>The inner loop stops at the first match, the outer one goes on: the last message that holds the call names it.\<close>

definition replayed_name :: "jsval list \<Rightarrow> jsval \<Rightarrow> jsval" where
  "replayed_name history toolCallId =
     foldl (\<lambda>actionName m.
         case find (\<lambda>toolCall. jget toolCall ''id'' = toolCallId) (calls_of m) of
           Some toolCall \<Rightarrow> call_function toolCall ''name''
         | None \<Rightarrow> actionName)
       (JStr ''unknown'') history"

definition convert_message ::
  "(string \<Rightarrow> string + jsval) \<Rightarrow> jsval list \<Rightarrow> jsval \<Rightarrow> string + legacy_message list" where
  "convert_message parse history message =
     (let role = jget message ''role'' in
      if role = JStr ''assistant'' \<or> role = JStr ''user'' \<or> role = JStr ''system'' then
        (let texts = (case flattenMessageContentToText (jget message ''content'') of
               Some s \<Rightarrow> (if s = [] then [] else [LegacyTextMessage (jget message ''id'') role s])
             | None \<Rightarrow> [])
         in andThen (collect (convert_call parse message) (calls_of message)) (\<lambda>calls. Inr (texts @ calls)))
      else if role = JStr ''tool'' then
        Inr [LegacyResultMessage (jget message ''id'') (flattenLegacyResult (jget message ''content''))
               (jget message ''toolCallId'') (replayed_name history (jget message ''toolCallId''))]
      else Inr [])"

definition convertMessagesToLegacyFormat :: "(string \<Rightarrow> string + jsval) \<Rightarrow> jsval list \<Rightarrow> string + legacy_message list" where
  "convertMessagesToLegacyFormat parse history =
     andThen (collect (convert_message parse history) history) (\<lambda>parts. Inr (concat parts))"

text \<open>A legacy message as the object that is serialized.\<close>

fun legacy_object :: "legacy_message \<Rightarrow> jsval" where
  "legacy_object (LegacyTextMessage i role content) = JObj [(''id'', i), (''role'', role), (''content'', JStr content)]"
| "legacy_object (LegacyActionExecutionMessage i name arguments parent) =
     JObj [(''id'', i), (''name'', name), (''arguments'', arguments), (''parentMessageId'', parent)]"
| "legacy_object (LegacyResultMessage i result call name) =
     JObj [(''id'', i), (''result'', JStr result), (''actionExecutionId'', call), (''actionName'', name)]"

subsection \<open>The state of the bridge\<close>

record bridged_call =
  bc_id :: jsval
  bc_name :: jsval
  bc_arguments :: string

text \<open>The run's state is an object, or an array; both have own properties.\<close>

record legacy_state =
  lg_currentState :: jsval
  lg_running :: bool
  lg_active :: bool
  lg_nodeName :: jsval
  lg_syncedMessages :: jsval
  lg_predictState :: jsval
  lg_currentToolCalls :: "bridged_call list"
  lg_toolCallNames :: jsobj

definition init_legacy :: legacy_state where
  "init_legacy = \<lparr>lg_currentState = JObj [], lg_running = True, lg_active = True, lg_nodeName = JStr [],
     lg_syncedMessages = JNull, lg_predictState = JNull, lg_currentToolCalls = [], lg_toolCallNames = []\<rparr>"

fun js_own_props :: "jsval \<Rightarrow> jsobj" where
  "js_own_props (JObj m) = m"
| "js_own_props (JArr vs) = zip (map nat_str [0..<length vs]) vs"
| "js_own_props _ = []"

definition updateCurrentState :: "jsval \<Rightarrow> legacy_state \<Rightarrow> legacy_state" where
  "updateCurrentState newState st =
     (if is_object newState then st\<lparr>lg_currentState := jdel ''messages'' newState\<rparr> else st)"

text \<open>An own property of an array beside its elements is never serialized; only an object stores one here.\<close>

definition store_messages :: "jsval \<Rightarrow> jsval \<Rightarrow> jsval" where
  "store_messages synced st = jset ''messages'' synced st"

definition state_message :: "legacy_ids \<Rightarrow> (jsval \<Rightarrow> string) \<Rightarrow> jsval \<Rightarrow> bool \<Rightarrow> legacy_state \<Rightarrow> legacy_event" where
  "state_message ids stringify shown act st =
     LegacyAgentStateMessage \<lparr>la_threadId = li_threadId ids, la_agentName = li_agentName ids, la_nodeName = lg_nodeName st,
       la_runId = li_runId ids, la_running = lg_running st, la_role = ''assistant'', la_state = stringify shown, la_active = act\<rparr>"

subsection \<open>Predicted state\<close>

text \<open>What a malformed \<^verbatim>\<open>PredictState\<close> value raises when it is searched.\<close>

datatype legacy_error = PredictStateNotSearchable jsval | PredictStateEntry jsval

text \<open>Both operands of the loose comparison are strings by their types; \<^verbatim>\<open>null\<close> equals \<^verbatim>\<open>undefined\<close>.\<close>

definition loosely_equal :: "jsval \<Rightarrow> jsval \<Rightarrow> bool" where
  "loosely_equal a b = (a = b \<or> nullish a \<and> nullish b)"

fun find_predicted :: "jsval \<Rightarrow> jsval list \<Rightarrow> legacy_error + jsval option" where
  "find_predicted name [] = Inr None"
| "find_predicted name (s # ss) =
     (if nullish s then Inl (PredictStateEntry s)
      else if loosely_equal (jget s ''tool'') name then Inr (Some s) else find_predicted name ss)"

definition predicted :: "jsval \<Rightarrow> jsval \<Rightarrow> legacy_error + jsval option" where
  "predicted name predictState =
     (if \<not> truthy predictState then Inr None
      else case predictState of JArr entries \<Rightarrow> find_predicted name entries | v \<Rightarrow> Inl (PredictStateNotSearchable v))"

text \<open>\<^verbatim>\<open>key in args\<close>, which throws unless \<^verbatim>\<open>args\<close> is an object, and the value there.\<close>

definition read_member :: "string \<Rightarrow> jsval \<Rightarrow> jsval option" where
  "read_member k args =
     (case args of
        JArr vs \<Rightarrow> (if k = ''length'' then Some (JNum (int (length vs))) else map_of (js_own_props args) k)
      | _ \<Rightarrow> map_of (js_own_props args) k)"

text \<open>The state predicted from the arguments so far, if they can be read.\<close>

definition predict :: "(string \<Rightarrow> jsval option) \<Rightarrow> jsval \<Rightarrow> string \<Rightarrow> jsval \<Rightarrow> jsval option" where
  "predict untruncated entry arguments currentState =
     (case untruncated arguments of
        None \<Rightarrow> None
      | Some currentArgs \<Rightarrow>
          (let assigned = (\<lambda>v. JObj (oset (js_string (jget entry ''state_key'')) v (js_own_props currentState))) in
           if truthy (jget entry ''tool_argument'')
           then map_option assigned (read_member (js_string (jget entry ''tool_argument'')) currentArgs)
           else Some (assigned currentArgs)))"

subsection \<open>The handlers\<close>

definition lg_tool_call_start :: "legacy_state \<Rightarrow> event \<Rightarrow> legacy_state \<times> legacy_event list" where
  "lg_tool_call_start st ev =
     (st\<lparr>lg_currentToolCalls := lg_currentToolCalls st @
          [\<lparr>bc_id = field ev ''toolCallId'', bc_name = field ev ''toolCallName'', bc_arguments = []\<rparr>],
         lg_active := True,
         lg_toolCallNames := oset (js_string (field ev ''toolCallId'')) (field ev ''toolCallName'') (lg_toolCallNames st)\<rparr>,
      [LegacyActionExecutionStart (field ev ''toolCallId'') (field ev ''toolCallName'') (field ev ''parentMessageId'')])"

definition lg_tool_call_args ::
  "legacy_env \<Rightarrow> legacy_ids \<Rightarrow> legacy_state \<Rightarrow> event \<Rightarrow> legacy_error + legacy_state \<times> legacy_event list" where
  "lg_tool_call_args env ids st ev =
     (case find_index (\<lambda>tc. bc_id tc = field ev ''toolCallId'') (lg_currentToolCalls st) of
        None \<Rightarrow> Inr (st, [])
      | Some n \<Rightarrow>
          (let tc = lg_currentToolCalls st ! n;
               arguments = bc_arguments tc @ js_string (field ev ''delta'');
               st1 = st\<lparr>lg_currentToolCalls := (lg_currentToolCalls st)[n := tc\<lparr>bc_arguments := arguments\<rparr>]\<rparr>;
               sent = LegacyActionExecutionArgs (field ev ''toolCallId'') (field ev ''delta'')
           in andThen (predicted (bc_name tc) (lg_predictState st)) (\<lambda>entry.
                case (case entry of
                        Some s \<Rightarrow> (if truthy s then predict (lg_untruncated env) s arguments (lg_currentState st) else None)
                      | None \<Rightarrow> None) of
                  Some newState \<Rightarrow>
                    (let st2 = updateCurrentState newState st1
                     in Inr (st2, [sent, state_message ids (lg_stringify env) (lg_currentState st2) (lg_active st2) st2]))
                | None \<Rightarrow> Inr (st1, [sent]))))"

definition lg_tool_call_result :: "legacy_state \<Rightarrow> event \<Rightarrow> legacy_state \<times> legacy_event list" where
  "lg_tool_call_result st ev =
     (let knownName = oget (lg_toolCallNames st) (js_string (field ev ''toolCallId''))
      in (st, [LegacyActionExecutionResult (field ev ''toolCallId'') (if truthy knownName then knownName else JStr ''unknown'')
                 (flattenLegacyResult (field ev ''content''))]))"

definition lg_custom :: "legacy_state \<Rightarrow> event \<Rightarrow> legacy_state \<times> legacy_event list" where
  "lg_custom st ev =
     (if field ev ''name'' = JStr ''Exit'' then st\<lparr>lg_running := False\<rparr>
      else if field ev ''name'' = JStr ''PredictState'' then st\<lparr>lg_predictState := field ev ''value''\<rparr> else st,
      [LegacyMetaEvent (field ev ''name'') (field ev ''value'')])"

definition lg_state_snapshot :: "legacy_env \<Rightarrow> legacy_ids \<Rightarrow> legacy_state \<Rightarrow> event \<Rightarrow> legacy_state \<times> legacy_event list" where
  "lg_state_snapshot env ids st ev =
     (let st1 = updateCurrentState (field ev ''snapshot'') st
      in (st1, [state_message ids (lg_stringify env) (lg_currentState st1) (lg_active st1) st1]))"

definition lg_state_delta :: "legacy_env \<Rightarrow> legacy_ids \<Rightarrow> legacy_state \<Rightarrow> event \<Rightarrow> legacy_state \<times> legacy_event list" where
  "lg_state_delta env ids st ev =
     (case lg_patch env (lg_currentState st) (field ev ''delta'') of
        None \<Rightarrow> (st, [])
      | Some patched \<Rightarrow>
          (let st1 = updateCurrentState patched st
           in (st1, [state_message ids (lg_stringify env) (lg_currentState st1) (lg_active st1) st1])))"

definition lg_messages_snapshot :: "legacy_env \<Rightarrow> legacy_ids \<Rightarrow> legacy_state \<Rightarrow> event \<Rightarrow> legacy_state \<times> legacy_event list" where
  "lg_messages_snapshot env ids st ev =
     (let synced = field ev ''messages'';
          st1 = st\<lparr>lg_syncedMessages := synced\<rparr>;
          props = js_own_props (lg_currentState st)
      in (st1, [state_message ids (lg_stringify env)
                  (JObj (if truthy synced then oset ''messages'' synced props else props)) True st1]))"

text \<open>A synchronised history is an array, by its type; the messages of the run's state are replaced by it, in the legacy form.\<close>

definition lg_run_finished :: "legacy_env \<Rightarrow> legacy_ids \<Rightarrow> legacy_state \<Rightarrow> event \<Rightarrow> legacy_state \<times> legacy_event list" where
  "lg_run_finished env ids st ev =
     (if truthy (lg_syncedMessages st) then
        (let st1 = st\<lparr>lg_currentState := store_messages (lg_syncedMessages st) (lg_currentState st)\<rparr>
         in (st1,
             case convertMessagesToLegacyFormat (lg_parse env) (arr_items (lg_syncedMessages st)) of
               Inl reason \<Rightarrow> [LegacyRunError (JStr reason) JUndef]
             | Inr legacyMessages \<Rightarrow>
                 [state_message ids (lg_stringify env)
                    (JObj (oset ''messages'' (JArr (map legacy_object legacyMessages)) (js_own_props (lg_currentState st1)))) False st1]))
      else if js_own_props (lg_currentState st) = [] then (st, [])
      else (st, [state_message ids (lg_stringify env) (JObj (js_own_props (lg_currentState st))) False st]))"

definition lg_step :: "legacy_env \<Rightarrow> legacy_ids \<Rightarrow> bool \<Rightarrow> legacy_state \<Rightarrow> legacy_state \<times> legacy_event list" where
  "lg_step env ids act st =
     (let st1 = st\<lparr>lg_currentToolCalls := [], lg_predictState := JNull\<rparr>
      in (st1, [state_message ids (lg_stringify env) (lg_currentState st1) act st1]))"

definition legacy_step ::
  "legacy_env \<Rightarrow> legacy_ids \<Rightarrow> legacy_state \<Rightarrow> event \<Rightarrow> legacy_error + legacy_state \<times> legacy_event list" where
  "legacy_step env ids st ev =
     (case ev_type ev of
        TEXT_MESSAGE_START \<Rightarrow> Inr (st, [LegacyTextMessageStart (field ev ''messageId'') (field ev ''role'')])
      | TEXT_MESSAGE_CONTENT \<Rightarrow> Inr (st, [LegacyTextMessageContent (field ev ''messageId'') (field ev ''delta'')])
      | TEXT_MESSAGE_END \<Rightarrow> Inr (st, [LegacyTextMessageEnd (field ev ''messageId'')])
      | TOOL_CALL_START \<Rightarrow> Inr (lg_tool_call_start st ev)
      | TOOL_CALL_ARGS \<Rightarrow> lg_tool_call_args env ids st ev
      | TOOL_CALL_END \<Rightarrow> Inr (st, [LegacyActionExecutionEnd (field ev ''toolCallId'')])
      | TOOL_CALL_RESULT \<Rightarrow> Inr (lg_tool_call_result st ev)
      | RAW \<Rightarrow> Inr (st, [])
      | CUSTOM \<Rightarrow> Inr (lg_custom st ev)
      | STATE_SNAPSHOT \<Rightarrow> Inr (lg_state_snapshot env ids st ev)
      | STATE_DELTA \<Rightarrow> Inr (lg_state_delta env ids st ev)
      | MESSAGES_SNAPSHOT \<Rightarrow> Inr (lg_messages_snapshot env ids st ev)
      | RUN_STARTED \<Rightarrow> Inr (st, [])
      | RUN_FINISHED \<Rightarrow> Inr (lg_run_finished env ids st ev)
      | RUN_ERROR \<Rightarrow> Inr (st, [LegacyRunError (field ev ''message'') (field ev ''code'')])
      | STEP_STARTED \<Rightarrow> Inr (lg_step env ids True (st\<lparr>lg_nodeName := field ev ''stepName''\<rparr>))
      | STEP_FINISHED \<Rightarrow> Inr (lg_step env ids False st)
      | _ \<Rightarrow> Inr (st, []))"

definition convertToLegacyEvents ::
  "legacy_env \<Rightarrow> legacy_ids \<Rightarrow> event list \<Rightarrow> legacy_event list \<times> (legacy_error + legacy_state)" where
  "convertToLegacyEvents env ids es = run_stage (legacy_step env ids) init_legacy es"

subsection \<open>The bridged run\<close>

datatype bridge_error = BridgeFailed legacy_error | BridgeSource run_error

definition runAgentBridged ::
  "'w run_env \<Rightarrow> legacy_env \<Rightarrow> agent \<Rightarrow> jsobj \<Rightarrow> 'w agent_fields \<Rightarrow> 'w agent_fields \<times> legacy_event list \<times> bridge_error option" where
  "runAgentBridged env lenv run parameters a =
     (let (a1, input) = start_run env a parameters;
          (events, err) = agent_source env run None a1 input;
          ids = \<lparr>li_threadId = (case threadId a1 of Some s \<Rightarrow> JStr s | None \<Rightarrow> JUndef), li_runId = oget input ''runId'',
                 li_agentName = (case agentId a1 of Some s \<Rightarrow> JStr s | None \<Rightarrow> JUndef)\<rparr>;
          (bridged, r) = convertToLegacyEvents lenv ids events
      in (a1, bridged, case r of Inl e \<Rightarrow> Some (BridgeFailed e) | Inr _ \<Rightarrow> map_option BridgeSource err))"

end
