(* ===== verification/LegacySpec.thy ===== *)
theory LegacySpec
  imports Legacy AgentProps CompactSpec
begin

text \<open>
  What the legacy bridge promises: a well bracketed legacy stream, the state the reducer computes, no failure but that of a
  malformed prediction, and results that are named alike live and replayed.
\<close>

subsection \<open>Steps of the bridge\<close>

text \<open>A value the bridge can search for the prediction of a tool.\<close>

definition searchable :: "jsval \<Rightarrow> bool" where
  "searchable v \<longleftrightarrow> \<not> truthy v \<or> (\<exists>preds. v = JArr preds \<and> list_all (\<lambda>s. \<not> nullish s) preds)"

lemma find_predicted_ok: "list_all (\<lambda>s. \<not> nullish s) preds \<Longrightarrow> \<exists>r. find_predicted name preds = Inr r"
  by (induction preds) auto

lemma predicted_ok: "searchable v \<Longrightarrow> \<exists>r. predicted name v = Inr r"
  using find_predicted_ok by (auto simp: searchable_def predicted_def)

definition predicts :: "event \<Rightarrow> bool" where
  "predicts ev \<longleftrightarrow> ev_type ev = CUSTOM \<and> field ev ''name'' = JStr ''PredictState''"

lemma legacy_frames [simp]:
  "lg_predictState (updateCurrentState v st) = lg_predictState st"
  "lg_currentState (updateCurrentState v st) = (if is_object v then jdel ''messages'' v else lg_currentState st)"
  "lg_active (updateCurrentState v st) = lg_active st"
  "lg_toolCallNames (updateCurrentState v st) = lg_toolCallNames st"
  by (simp_all add: updateCurrentState_def)

lemmas legacy_handlers = lg_tool_call_start_def lg_tool_call_args_def lg_tool_call_result_def lg_custom_def lg_state_snapshot_def
  lg_state_delta_def lg_messages_snapshot_def lg_run_finished_def lg_step_def

lemma args_ok: "searchable (lg_predictState st) \<Longrightarrow> \<exists>r. lg_tool_call_args env ids st ev = Inr r"
  using predicted_ok [of "lg_predictState st"]
  by (auto simp: lg_tool_call_args_def Let_def andThen_def split: option.splits sum.splits) (metis Inl_Inr_False)

lemma legacy_step_ok:
  assumes "searchable (lg_predictState st)"
  shows "\<exists>r. legacy_step env ids st ev = Inr r"
  using args_ok [OF assms] by (cases "ev_type ev") (simp_all add: legacy_step_def)

fun is_state_message :: "legacy_event \<Rightarrow> bool" where
  "is_state_message (LegacyAgentStateMessage _) = True"
| "is_state_message _ = False"

lemma state_message_is [simp]: "is_state_message (state_message ids stringify shown act st)"
  by (simp add: state_message_def)

lemma args_Inr:
  assumes "lg_tool_call_args env ids st ev = Inr (st', ls)"
  shows "lg_predictState st' = lg_predictState st" "lg_toolCallNames st' = lg_toolCallNames st"
    "filter (\<lambda>l. \<not> is_state_message l) ls \<in> {[], [LegacyActionExecutionArgs (field ev ''toolCallId'') (field ev ''delta'')]}"
  using assms by (auto simp: lg_tool_call_args_def Let_def andThen_Inr split: option.splits) 

lemma legacy_step_predict:
  "legacy_step env ids st ev = Inr (st', ls) \<Longrightarrow>
     lg_predictState st' = (if predicts ev then field ev ''value'' else if ev_type ev \<in> {STEP_STARTED, STEP_FINISHED} then JNull
       else lg_predictState st)"
  by (cases "ev_type ev")
    (auto simp: legacy_step_def legacy_handlers(1,3-) predicts_def Let_def args_Inr split: option.splits if_splits sum.splits)

text \<open>A message or tool call as the legacy stream shows it; an error ends everything.\<close>

fun legacy_sym :: "entity \<Rightarrow> legacy_event \<Rightarrow> bracket_sym" where
  "legacy_sym (TextMessage i) (LegacyTextMessageStart j _) = (if j = i then BOpen else BOther)"
| "legacy_sym (TextMessage i) (LegacyTextMessageContent j _) = (if j = i then BPart else BOther)"
| "legacy_sym (TextMessage i) (LegacyTextMessageEnd j) = (if j = i then BClose else BOther)"
| "legacy_sym (ToolCall i) (LegacyActionExecutionStart j _ _) = (if j = i then BOpen else BOther)"
| "legacy_sym (ToolCall i) (LegacyActionExecutionArgs j _) = (if j = i then BPart else BOther)"
| "legacy_sym (ToolCall i) (LegacyActionExecutionEnd j) = (if j = i then BClose else BOther)"
| "legacy_sym x (LegacyRunError _ _) = BReset"
| "legacy_sym x _ = BOther"

lemma state_message_sym [simp]: "is_state_message l \<Longrightarrow> legacy_sym x l = BOther"
  by (cases l; cases x) simp_all

lemma run_ignores_states: "bracket_run b (map (legacy_sym x) ls) = bracket_run b (map (legacy_sym x) (filter (\<lambda>l. \<not> is_state_message l) ls))"
  by (induction ls arbitrary: b) (auto split: option.splits)

fun bridged_entity :: "entity \<Rightarrow> bool" where
  "bridged_entity (TextMessage _) = True"
| "bridged_entity (ToolCall _) = True"
| "bridged_entity _ = False"

lemma bridged_entityE:
  assumes "bridged_entity x"
  obtains i where "x = TextMessage i" | i where "x = ToolCall i"
  using assms by (cases x) auto

text \<open>What an event becomes beside the state that is shown: itself in the legacy form, or nothing.\<close>

definition plain_output :: "event \<Rightarrow> legacy_event list" where
  "plain_output ev =
     (case ev_type ev of
        TEXT_MESSAGE_START \<Rightarrow> [LegacyTextMessageStart (field ev ''messageId'') (field ev ''role'')]
      | TEXT_MESSAGE_CONTENT \<Rightarrow> [LegacyTextMessageContent (field ev ''messageId'') (field ev ''delta'')]
      | TEXT_MESSAGE_END \<Rightarrow> [LegacyTextMessageEnd (field ev ''messageId'')]
      | TOOL_CALL_START \<Rightarrow>
          [LegacyActionExecutionStart (field ev ''toolCallId'') (field ev ''toolCallName'') (field ev ''parentMessageId'')]
      | TOOL_CALL_ARGS \<Rightarrow> [LegacyActionExecutionArgs (field ev ''toolCallId'') (field ev ''delta'')]
      | TOOL_CALL_END \<Rightarrow> [LegacyActionExecutionEnd (field ev ''toolCallId'')]
      | RUN_ERROR \<Rightarrow> [LegacyRunError (field ev ''message'') (field ev ''code'')]
      | CUSTOM \<Rightarrow> [LegacyMetaEvent (field ev ''name'') (field ev ''value'')]
      | _ \<Rightarrow> [])"

lemma legacy_output:
  assumes "legacy_step env ids st ev = Inr (st', ls)"
  shows "filter (\<lambda>l. \<not> is_state_message l) ls = plain_output ev \<or>
    ev_type ev = TOOL_CALL_ARGS \<and> filter (\<lambda>l. \<not> is_state_message l) ls = [] \<or>
    ev_type ev = TOOL_CALL_RESULT \<and> (\<exists>name. ls = [LegacyActionExecutionResult (field ev ''toolCallId'') name (flattenLegacyResult (field ev ''content''))]) \<or>
    ev_type ev = RUN_FINISHED \<and> (\<exists>reason. ls = [LegacyRunError (JStr reason) JUndef])"
proof (cases "ev_type ev = TOOL_CALL_ARGS")
  case True
  with assms have "lg_tool_call_args env ids st ev = Inr (st', ls)" by (simp add: legacy_step_def)
  from args_Inr(3) [OF this] True show ?thesis by (auto simp: plain_output_def)
next
  case False
  with assms show ?thesis
    by (cases "ev_type ev")
      (auto simp: legacy_step_def plain_output_def legacy_handlers(1,3-) Let_def split: option.splits if_splits sum.splits)
qed

text \<open>Only the arguments of a call the bridge does not know are left out; a failed conversion at the end of a run is an error.\<close>

lemma plain_word:
  assumes "bridged_entity x" "ev_type ev \<notin> {RUN_STARTED, RUN_ERROR}" "bracket_step b (entity_sym x ev) = Some b'"
  shows "bracket_run b (map (legacy_sym x) (plain_output ev)) = Some b'"
  using assms(1)
proof (cases rule: bridged_entityE)
  case (1 i)
  with assms show ?thesis by (cases "ev_type ev") (auto simp: plain_output_def sym_of_def split: if_splits)
next
  case (2 i)
  with assms show ?thesis by (cases "ev_type ev") (auto simp: plain_output_def sym_of_def split: if_splits)
qed

lemma legacy_step_word:
  assumes step: "legacy_step env ids st ev = Inr (st', ls)" and x: "bridged_entity x"
    and type: "ev_type ev \<notin> {RUN_STARTED, RUN_ERROR}" and br: "bracket_step b (entity_sym x ev) = Some b'"
    and fin: "ev_type ev = RUN_FINISHED \<longrightarrow> \<not> b'"
  shows "bracket_run b (map (legacy_sym x) ls) = Some b'"
  using legacy_output [OF step]
proof (elim disjE conjE exE)
  assume "filter (\<lambda>l. \<not> is_state_message l) ls = plain_output ev"
  with plain_word [OF x type br] show ?thesis by (subst run_ignores_states) simp
next
  assume "ev_type ev = TOOL_CALL_ARGS" "filter (\<lambda>l. \<not> is_state_message l) ls = []"
  with br x show ?thesis by (subst run_ignores_states, cases x) (auto simp: sym_of_def split: if_splits)
next
  fix name
  assume "ev_type ev = TOOL_CALL_RESULT" and ls: "ls = [LegacyActionExecutionResult (field ev ''toolCallId'') name (flattenLegacyResult (field ev ''content''))]"
  with br x show ?thesis by (cases x) (auto simp: sym_of_def)
next
  fix reason
  assume "ev_type ev = RUN_FINISHED" "ls = [LegacyRunError (JStr reason) JUndef]"
  with fin x show ?thesis by (cases x) auto
qed

lemma verify_step_flags:
  assumes inv: "verify_inv st" and step: "verify_step st ev = Inr (st', os)"
  shows "ev_type ev = RUN_STARTED \<Longrightarrow> \<not> runError st'" "ev_type ev = RUN_STARTED \<Longrightarrow> runError st \<or> \<not> entity_open st x"
    "ev_type ev = RUN_ERROR \<Longrightarrow> runError st'"
    "ev_type ev \<notin> {RUN_STARTED, RUN_ERROR} \<Longrightarrow> \<not> runError st \<and> \<not> runError st'" "ev_type ev = RUN_FINISHED \<Longrightarrow> runFinished st'"
proof -
  from step obtain st1 where over: "terminal_error st (ev_type ev) = None" and admit: "admit_run st (ev_type ev) = Inr st1"
    and disp: "dispatch (notice_null_tag st1 ev) (strip_null_tag ev) = Inr st'"
    by (rule verify_step_Inr)
  note flags = dispatch_flags [OF disp, simplified] and adm = admit_run_inv [OF inv admit]
  show "ev_type ev = RUN_STARTED \<Longrightarrow> \<not> runError st'" using flags adm by simp
  show "ev_type ev = RUN_STARTED \<Longrightarrow> runError st \<or> \<not> entity_open st x"
    using admit inv by (auto simp: admit_run_def verify_inv_def split: if_splits)
  show "ev_type ev = RUN_ERROR \<Longrightarrow> runError st'" "ev_type ev = RUN_FINISHED \<Longrightarrow> runFinished st'" using flags by simp_all
  show "ev_type ev \<notin> {RUN_STARTED, RUN_ERROR} \<Longrightarrow> \<not> runError st \<and> \<not> runError st'"
    using flags over admit by (auto simp: terminal_error_def admit_run_def split: if_splits)
qed


lemma legacy_word:
  assumes "verify_inv st" "run_stage verify_step st es = (es, Inr st')" "bridged_entity x"
  shows "\<exists>b. bracket_run (entity_open st x \<and> \<not> runError st) (map (legacy_sym x) (fst (run_stage (legacy_step env ids) lst es))) = Some b \<and>
    (\<forall>t. snd (run_stage (legacy_step env ids) lst es) = Inr t \<longrightarrow> b = (entity_open st' x \<and> \<not> runError st'))"
  using assms(1,2)
proof (induction es arbitrary: st lst)
  case (Cons ev es)
  from Cons.prems(2) obtain s1 os1 os2 where step: "verify_step st ev = Inr (s1, os1)"
    and rest: "run_stage verify_step s1 es = (os2, Inr st')" and os: "ev # es = os1 @ os2"
    by (rule run_stage_Cons_Inr)
  from verify_step_out [OF step] os have out: "os2 = es" "strip_null_tag ev = ev" by simp_all
  note inv = verify_step_inv [OF Cons.prems(1) step]
  note br = verify_step_bracket [OF Cons.prems(1) step, of x] and flags = verify_step_flags [OF Cons.prems(1) step]
  show ?case
  proof (cases "legacy_step env ids lst ev")
    case (Inr r)
    obtain l1 ls where r: "r = (l1, ls)" by (cases r)
    have word: "bracket_run (entity_open st x \<and> \<not> runError st) (map (legacy_sym x) ls) = Some (entity_open s1 x \<and> \<not> runError s1)"
    proof (cases "ev_type ev \<in> {RUN_STARTED, RUN_ERROR}")
      case True
      then show ?thesis
      proof (elim insertE emptyE)
        assume t: "ev_type ev = RUN_STARTED"
        then have "entity_sym x ev = BReset" by (cases x) (simp_all add: sym_of_def)
        with br have "\<not> entity_open s1 x" by simp
        with t flags(1) flags(2) [of x] Inr r show ?thesis by (auto simp: legacy_step_def)
      next
        assume t: "ev_type ev = RUN_ERROR"
        with flags(3) Inr r assms(3) show ?thesis by (cases x) (auto simp: legacy_step_def)
      qed
    next
      case False
      have "ev_type ev = RUN_FINISHED \<longrightarrow> \<not> entity_open s1 x"
        using flags(5) finished_closed [OF Cons.prems(1) step] by blast
      with legacy_step_word [OF Inr [unfolded r] assms(3) False br] flags(4) [OF False] show ?thesis by simp
    qed
    from Cons.IH [OF inv rest [unfolded out], of l1] word Inr r show ?thesis
      by (auto simp: bracket_run_append Let_def split: prod.splits)
  qed simp
qed simp

text \<open>
  C8. A bridged run is well bracketed. Whatever the agent, its middlewares and the producer do, whether the run ends, fails or breaks
  the bridge: in the legacy stream every text message and every action execution starts, continues and ends in this order,
  with nothing continued or ended that was not started; an error ends everything that was open.
\<close>

theorem bridged_brackets:
  "\<exists>b. bracket_run False (map (legacy_sym x) (fst (snd (runAgentBridged env lenv run parameters a)))) = Some b"
proof (cases "bridged_entity x")
  case True
  obtain a1 input where s: "start_run env a parameters = (a1, input)" by (cases "start_run env a parameters")
  let ?src = "agent_source env run None a1 input"
  obtain t where v: "verifyEvents (fst ?src) = (fst ?src, Inr t)"
    using source_verified by (auto simp: agent_source_def detach_after_def run_source_fst)
  from legacy_word [OF verify_inv_init this [unfolded verifyEvents_def] True, of lenv _ init_legacy] s show ?thesis
    by (auto simp: runAgentBridged_def convertToLegacyEvents_def Let_def case_prod_unfold)
next
  case False
  have other: "legacy_sym x l \<in> {BOther, BReset}" for l using False by (cases x; cases l) simp_all
  have "\<exists>b. bracket_run b0 (map (legacy_sym x) ls) = Some b" for ls b0
  proof (induction ls arbitrary: b0)
    case (Cons l ls)
    with other [of l] show ?case by auto
  qed simp
  then show ?thesis by blast
qed


lemma legacy_run_ok:
  assumes "\<forall>ev \<in> set es. predicts ev \<longrightarrow> searchable (field ev ''value'')" "searchable (lg_predictState st)"
  shows "\<exists>ls t. run_stage (legacy_step env ids) st es = (ls, Inr t)"
  using assms
proof (induction es arbitrary: st)
  case (Cons ev es)
  obtain s1 ls where step: "legacy_step env ids st ev = Inr (s1, ls)" using legacy_step_ok [OF Cons.prems(2)] by fastforce
  have "searchable (lg_predictState s1)"
    using legacy_step_predict [OF step] Cons.prems by (simp add: searchable_def)
  with Cons.IH [of s1] Cons.prems(1) step show ?case by (force split: prod.splits)
qed simp

text \<open>
  C27. The bridge fails on nothing but a malformed prediction: if every \<^verbatim>\<open>PredictState\<close> value is falsy or an array of
  values that are not null, every stream of events is bridged to its end, whatever arguments, patches and histories do not parse.
\<close>

theorem legacy_never_fails:
  assumes "\<forall>ev \<in> set es. predicts ev \<longrightarrow> searchable (field ev ''value'')"
  shows "\<exists>ls t. convertToLegacyEvents env ids es = (ls, Inr t)"
  using legacy_run_ok [OF assms, of init_legacy] by (simp add: convertToLegacyEvents_def init_legacy_def searchable_def)

text \<open>A prediction that is no array, or has a hole, takes the bridge down with the next piece of arguments.\<close>

lemma malformed_prediction:
  "snd (convertToLegacyEvents env ids
     [mk_event CUSTOM [(''name'', JStr ''PredictState''), (''value'', JObj [])],
      mk_event TOOL_CALL_START [(''toolCallId'', JStr ''c''), (''toolCallName'', JStr ''f'')],
      mk_event TOOL_CALL_ARGS [(''toolCallId'', JStr ''c''), (''delta'', JStr ''{'')]]) =
   Inl (PredictStateNotSearchable (JObj []))"
  by (simp add: convertToLegacyEvents_def legacy_step_def legacy_handlers init_legacy_def predicted_def andThen_def Let_def)

subsection \<open>State\<close>

definition object_state :: "jsval \<Rightarrow> bool" where
  "object_state v \<longleftrightarrow> (\<exists>m. v = JObj m \<and> \<not> has_own m ''messages'')"

lemma object_state_kept: "object_state v \<Longrightarrow> is_object v \<and> jdel ''messages'' v = v"
  by (auto simp: object_state_def jdel_def odel_def has_own_iff delete_id)

lemma args_state:
  assumes "lg_tool_call_args env ids st ev = Inr (st', ls)" "\<not> truthy (lg_predictState st)"
  shows "lg_currentState st' = lg_currentState st"
  using assms by (auto simp: lg_tool_call_args_def Let_def andThen_Inr predicted_def split: option.splits)

lemma legacy_step_state:
  assumes "legacy_step env ids st ev = Inr (st', ls)" "\<not> truthy (lg_predictState st)" "object_state (lg_currentState st)"
    "ev_type ev = STATE_SNAPSHOT \<longrightarrow> object_state (field ev ''snapshot'')" "ev_type ev \<noteq> RUN_FINISHED"
    "\<forall>doc d doc'. object_state doc \<longrightarrow> lg_patch env doc d = Some doc' \<longrightarrow> object_state doc'"
  shows "lg_currentState st' = state_after (lg_patch env) (lg_currentState st) [ev] \<and> object_state (lg_currentState st')"
  using assms args_state [of env ids st ev st' ls]
  by (cases "ev_type ev")
    (auto simp: legacy_step_def legacy_handlers(1,3-) Let_def state_after_def is_state_def fold_state_def object_state_kept
      split: option.splits if_splits)

lemma legacy_run_state:
  assumes "\<forall>doc d doc'. object_state doc \<longrightarrow> lg_patch env doc d = Some doc' \<longrightarrow> object_state doc'"
    "\<forall>ev \<in> set es. \<not> predicts ev \<and> ev_type ev \<noteq> RUN_FINISHED \<and> (ev_type ev = STATE_SNAPSHOT \<longrightarrow> object_state (field ev ''snapshot''))"
    "\<not> truthy (lg_predictState st)" "object_state (lg_currentState st)"
  shows "\<exists>ls t. run_stage (legacy_step env ids) st es = (ls, Inr t) \<and>
    object_state (lg_currentState t) \<and> lg_currentState t = state_after (lg_patch env) (lg_currentState st) es"
  using assms(2-)
proof (induction es arbitrary: st)
  case (Cons ev es)
  have "searchable (lg_predictState st)" using Cons.prems(2) by (simp add: searchable_def)
  then obtain s1 ls where step: "legacy_step env ids st ev = Inr (s1, ls)" using legacy_step_ok by fastforce
  have s1: "lg_currentState s1 = state_after (lg_patch env) (lg_currentState st) [ev] \<and> object_state (lg_currentState s1)"
    by (rule legacy_step_state [OF step]) (use Cons.prems assms(1) in auto)
  have "\<not> truthy (lg_predictState s1)" using legacy_step_predict [OF step] Cons.prems by simp
  with Cons.IH [of s1] Cons.prems(1) s1 step state_after_append [of "lg_patch env" "lg_currentState st" "[ev]" es] show ?case by fastforce
qed (simp add: state_after_def)

lemma odel_oset_messages: "\<not> has_own m k \<Longrightarrow> odel k (oset k v m) = m"
  by (induction m) (auto simp: odel_def oset_def has_own_iff AList.delete_eq filter_id_conv)

lemma final_state:
  assumes "object_state (lg_currentState t)" "lg_run_finished env ids t ev = (t', outs)" "LegacyAgentStateMessage l \<in> set outs"
  shows "\<exists>shown. la_state l = lg_stringify env shown \<and> jdel ''messages'' shown = lg_currentState t"
proof -
  obtain m where m: "lg_currentState t = JObj m" "\<not> has_own m ''messages''" using assms(1) by (auto simp: object_state_def)
  have twice: "oset k v (oset k u m) = oset k v m" for k u v by (simp add: oset_def update_last)
  have restored: "jdel ''messages'' (JObj (oset ''messages'' v m)) = JObj m" "jdel ''messages'' (JObj m) = JObj m" for v
    using m(2) by (simp_all add: jdel_def odel_oset_messages) (simp add: odel_def has_own_iff delete_id)
  show ?thesis
  proof (cases "truthy (lg_syncedMessages t)")
    case True
    with assms m obtain r where "outs = [state_message ids (lg_stringify env) (JObj (oset ''messages'' r (oset ''messages'' (lg_syncedMessages t) m))) False
        (t\<lparr>lg_currentState := JObj (oset ''messages'' (lg_syncedMessages t) m)\<rparr>)]"
      by (auto simp: lg_run_finished_def store_messages_def jset_def Let_def split: sum.splits)
    with assms(3) m(1) twice restored show ?thesis
      by (intro exI [of _ "JObj (oset ''messages'' r m)"]) (simp add: state_message_def)
  next
    case False
    with assms m restored show ?thesis
      by (intro exI [of _ "JObj m"]) (auto simp: lg_run_finished_def state_message_def split: if_splits)
  qed
qed

lemma reduced_state:
  "subscribers env = [] \<Longrightarrow> defaultApplyEvents env rs es = (us, Inr rs') \<Longrightarrow> state rs' = state_after (applyPatch env) (state rs) es"
  by (rule run_state [where us = us]) (auto simp: defaultApplyEvents_def Let_def split: prod.splits sum.splits)


definition bridge_env :: legacy_env where
  "bridge_env = \<lparr>lg_parse = (\<lambda>s. Inr (JStr s)), lg_untruncated = (\<lambda>s. None), lg_stringify = (\<lambda>v. ''{}''), lg_patch = (\<lambda>doc d. None)\<rparr>"

definition bridge_ids :: legacy_ids where
  "bridge_ids = \<lparr>li_threadId = JStr ''t'', li_runId = JStr ''r'', li_agentName = JStr ''a''\<rparr>"



subsection \<open>Live and replayed results\<close>

lemma legacy_step_names:
  "legacy_step env ids st ev = Inr (st', ls) \<Longrightarrow>
     lg_toolCallNames st' = (if ev_type ev = TOOL_CALL_START
       then oset (js_string (field ev ''toolCallId'')) (field ev ''toolCallName'') (lg_toolCallNames st) else lg_toolCallNames st)"
  by (cases "ev_type ev")
    (auto simp: legacy_step_def legacy_handlers(1,3-) Let_def args_Inr split: option.splits if_splits sum.splits)

text \<open>The name the bridge knows a call by: that of the last start, if there was one.\<close>

definition started_as :: "string \<Rightarrow> jsval \<Rightarrow> event list \<Rightarrow> bool" where
  "started_as i name es \<longleftrightarrow>
     (\<exists>ev \<in> set es. ev_type ev = TOOL_CALL_START \<and> js_string (field ev ''toolCallId'') = i) \<and>
     (\<forall>ev \<in> set es. ev_type ev = TOOL_CALL_START \<longrightarrow> js_string (field ev ''toolCallId'') = i \<longrightarrow> field ev ''toolCallName'' = name)"

lemma run_names:
  assumes "run_stage (legacy_step env ids) st es = (ls, Inr t)"
    "\<forall>ev \<in> set es. ev_type ev = TOOL_CALL_START \<longrightarrow> js_string (field ev ''toolCallId'') = i \<longrightarrow> field ev ''toolCallName'' = name"
    "oget (lg_toolCallNames st) i = name \<or>
       (\<exists>ev \<in> set es. ev_type ev = TOOL_CALL_START \<and> js_string (field ev ''toolCallId'') = i)"
  shows "oget (lg_toolCallNames t) i = name"
  using assms
proof (induction es arbitrary: st ls)
  case (Cons ev es)
  from Cons.prems(1) obtain s1 l1 l2 where step: "legacy_step env ids st ev = Inr (s1, l1)"
    and rest: "run_stage (legacy_step env ids) s1 es = (l2, Inr t)" by (rule run_stage_Cons_Inr)
  show ?case by (rule Cons.IH [OF rest]) (use Cons.prems(2,3) legacy_step_names [OF step] in auto)
qed simp

lemma replayed_fold:
  assumes "\<forall>h \<in> set ms. \<forall>tc \<in> set (calls_of h). jget tc ''id'' = i \<longrightarrow> call_function tc ''name'' = n"
    "acc = n \<or> (\<exists>h \<in> set ms. \<exists>tc \<in> set (calls_of h). jget tc ''id'' = i)"
  shows "foldl (\<lambda>actionName m. case find (\<lambda>toolCall. jget toolCall ''id'' = i) (calls_of m) of
      Some toolCall \<Rightarrow> call_function toolCall ''name'' | None \<Rightarrow> actionName) acc ms = n"
  using assms
proof (induction ms arbitrary: acc)
  case (Cons h ms)
  let ?f = "find (\<lambda>toolCall. jget toolCall ''id'' = i) (calls_of h)"
  show ?case
  proof (cases ?f)
    case None
    then have "\<forall>tc \<in> set (calls_of h). jget tc ''id'' \<noteq> i" by (simp add: find_None_iff)
    with None Cons show ?thesis by auto
  next
    case (Some tc)
    with find_SomeD [OF Some] Cons show ?thesis by auto
  qed
qed simp

lemma named_results:
  assumes "started_as i (JStr n) es" "n \<noteq> []" "convertToLegacyEvents env ids es = (ls, Inr t)" 
    "ev_type ev = TOOL_CALL_RESULT" "field ev ''toolCallId'' = JStr i"
  shows "legacy_step env ids t ev = Inr (t, [LegacyActionExecutionResult (JStr i) (JStr n) (flattenLegacyResult (field ev ''content''))])"
proof -
  have "oget (lg_toolCallNames t) i = JStr n"
    by (rule run_names [OF assms(3) [unfolded convertToLegacyEvents_def]]) (use assms(1) in \<open>auto simp: started_as_def\<close>)
  with assms(2,4,5) show ?thesis by (simp add: legacy_step_def lg_tool_call_result_def)
qed

text \<open>
  C33. A tool result reads the same live and replayed. If a call was started under one name that is not empty, and the
  history holds the call under that name, then the result event is bridged, and the result message of the history converted, with the same text,
  the same call and that name.
\<close>

theorem legacy_replay_agrees:
  assumes live: "started_as i (JStr n) es" "n \<noteq> []" "convertToLegacyEvents env ids es = (ls, Inr t)"
      "ev_type ev = TOOL_CALL_RESULT" "field ev ''toolCallId'' = JStr i"
    and history: "\<exists>h \<in> set ms. \<exists>tc \<in> set (calls_of h). jget tc ''id'' = JStr i"
      "\<forall>h \<in> set ms. \<forall>tc \<in> set (calls_of h). jget tc ''id'' = JStr i \<longrightarrow> call_function tc ''name'' = JStr n"
    and result: "m \<in> set ms" "jget m ''role'' = JStr ''tool''" "jget m ''toolCallId'' = JStr i" "jget m ''content'' = field ev ''content''"
    and replay: "convertMessagesToLegacyFormat parse ms = Inr out"
  shows "\<exists>r. legacy_step env ids t ev = Inr (t, [LegacyActionExecutionResult (JStr i) (JStr n) r]) \<and>
    LegacyResultMessage (jget m ''id'') r (JStr i) (JStr n) \<in> set out"
proof -
  have "replayed_name ms (JStr i) = JStr n" unfolding replayed_name_def by (rule replayed_fold) (use history in auto)
  with result have "convert_message parse ms m =
      Inr [LegacyResultMessage (jget m ''id'') (flattenLegacyResult (field ev ''content'')) (JStr i) (JStr n)]"
    by (simp add: convert_message_def Let_def)
  moreover from replay obtain parts where "collect (convert_message parse ms) ms = Inr parts" "out = concat parts"
    by (auto simp: convertMessagesToLegacyFormat_def andThen_Inr)
  ultimately have "LegacyResultMessage (jget m ''id'') (flattenLegacyResult (field ev ''content'')) (JStr i) (JStr n) \<in> set out"
    using collect_Inr [of "convert_message parse ms" ms parts m] result(1) by force
  with named_results [OF live] show ?thesis by blast
qed

theorem legacy_replay_agrees_witness:
  "LegacyResultMessage (JStr ''r'') ''ok'' (JStr ''c'') (JStr ''f'') \<in>
     set (case convertMessagesToLegacyFormat (\<lambda>s. Inr (JStr s))
       [JObj [(''id'', JStr ''m''), (''role'', JStr ''assistant''), (''toolCalls'', JArr [JObj [(''id'', JStr ''c''),
          (''function'', JObj [(''name'', JStr ''f''), (''arguments'', JStr [])])]])],
        JObj [(''id'', JStr ''r''), (''role'', JStr ''tool''), (''toolCallId'', JStr ''c''), (''content'', JStr ''ok'')]] of
       Inr out \<Rightarrow> out | Inl _ \<Rightarrow> [])"
proof -
  let ?h = "JObj [(''id'', JStr ''m''), (''role'', JStr ''assistant''), (''toolCalls'', JArr [JObj [(''id'', JStr ''c''),
          (''function'', JObj [(''name'', JStr ''f''), (''arguments'', JStr [])])]])]"
  let ?m = "JObj [(''id'', JStr ''r''), (''role'', JStr ''tool''), (''toolCallId'', JStr ''c''), (''content'', JStr ''ok'')]"
  let ?es = "[mk_event TOOL_CALL_START [(''toolCallId'', JStr ''c''), (''toolCallName'', JStr ''f'')]]"
  let ?ev = "mk_event TOOL_CALL_RESULT [(''toolCallId'', JStr ''c''), (''content'', JStr ''ok'')]"
  obtain ls t where run: "convertToLegacyEvents bridge_env bridge_ids ?es = (ls, Inr t)"
    using legacy_run_ok [of ?es init_legacy bridge_env bridge_ids]
    by (auto simp: convertToLegacyEvents_def predicts_def init_legacy_def searchable_def)
  obtain out where out: "convertMessagesToLegacyFormat (\<lambda>s. Inr (JStr s)) [?h, ?m] = Inr out"
    by (simp add: convertMessagesToLegacyFormat_def convert_message_def andThen_def Let_def flattenMessageContentToText_def
        calls_of_def convert_call_def)
  have calls: "calls_of ?h = [JObj [(''id'', JStr ''c''), (''function'', JObj [(''name'', JStr ''f''), (''arguments'', JStr [])])]]"
    "calls_of ?m = []" by (simp_all add: calls_of_def)
  have started: "started_as ''c'' (JStr ''f'') ?es" by (simp add: started_as_def)
  have step: "legacy_step bridge_env bridge_ids t ?ev = Inr (t, [LegacyActionExecutionResult (JStr ''c'') (JStr ''f'') ''ok''])"
    by (subst named_results [OF started _ run]) (simp_all add: flattenLegacyResult_def contentToText_def)
  from legacy_replay_agrees [OF started _ run _ _ _ _ _ _ _ _ out, of ?ev ?m] step out show ?thesis
    by (simp add: calls call_function_def)
qed

text \<open>An opener with the empty name: the live result is sent under a substitute, the replayed one under the empty name.\<close>

lemma empty_name_diverges:
  "legacy_step env ids (init_legacy\<lparr>lg_toolCallNames := [(''c'', JStr [])]\<rparr>) (mk_event TOOL_CALL_RESULT [(''toolCallId'', JStr ''c'')]) =
     Inr (init_legacy\<lparr>lg_toolCallNames := [(''c'', JStr [])]\<rparr>, [LegacyActionExecutionResult (JStr ''c'') (JStr ''unknown'') []])"
  "replayed_name [JObj [(''role'', JStr ''assistant''), (''toolCalls'', JArr [JObj [(''id'', JStr ''c''),
     (''function'', JObj [(''name'', JStr [])])]])]] (JStr ''c'') = JStr []"
  by (simp_all add: legacy_step_def lg_tool_call_result_def flattenLegacyResult_def contentToText_def replayed_name_def calls_of_def
      call_function_def)

text \<open>A step that starts while a call streams: the verifier accepts it, the bridge drops the rest of the arguments but not the end.\<close>

definition stepped_call :: "event list" where
  "stepped_call =
     [mk_event RUN_STARTED [], mk_event TOOL_CALL_START [(''toolCallId'', JStr ''c''), (''toolCallName'', JStr ''f'')],
      mk_event STEP_STARTED [(''stepName'', JStr ''s'')], mk_event TOOL_CALL_ARGS [(''toolCallId'', JStr ''c''), (''delta'', JStr ''{}'')],
      mk_event TOOL_CALL_END [(''toolCallId'', JStr ''c'')]]"

lemma arguments_lost_over_step:
  "accepts verify_step init_vstate stepped_call"
  "list_all (\<lambda>l. case l of LegacyActionExecutionArgs _ _ \<Rightarrow> False | _ \<Rightarrow> True) (fst (convertToLegacyEvents bridge_env bridge_ids stepped_call))"
  by code_simp+

theorem legacy_never_fails_witness:
  "\<exists>ls t. convertToLegacyEvents bridge_env bridge_ids
     [mk_event CUSTOM [(''name'', JStr ''PredictState''), (''value'', JArr [JObj [(''tool'', JStr ''f'')]])]] = (ls, Inr t)"
  by (rule legacy_never_fails) (simp add: searchable_def)

end
