(* ===== verification/ProtoWire.thy ===== *)
theory ProtoWire
  imports Framing
begin

text \<open>
  The guards of the binary decoder, \<^verbatim>\<open>proto/src/proto.ts\<close>: what is checked of the bytes of an envelope before the protobuf runtime reads
  them, and how an event of a later protocol is told from broken bytes. A cursor is the offset it stands at; every failure throws the same
  \<^verbatim>\<open>Invalid event\<close>, so a scan is a truth value and a read is an option. JavaScript numbers are exact wherever a number is used: the masked
  reader stays below \<open>2 ^ 32\<close>, the bounded one reads a number in five bytes and of a longer one uses only that it was readable.
\<close>

subsection \<open>The message tables\<close>

record scan_spec =
  singular :: "nat list"
  descend :: "(nat \<times> string) list"
  google :: "(nat \<times> string) list"
  arms :: "nat list"
  armWireTypes :: "(nat \<times> nat) list"

definition SCAN_SPECS :: "(string \<times> scan_spec) list" where
  "SCAN_SPECS =
     [(''TextMessageStartEvent'', \<lparr>singular = [1], descend = [(1, ''BaseEvent'')], google = [], arms = [], armWireTypes = []\<rparr>),
      (''BaseEvent'', \<lparr>singular = [3, 4], descend = [], google = [(3, ''google.protobuf.Value''), (4, ''google.protobuf.Struct'')], arms = [], armWireTypes = []\<rparr>),
      (''TextMessageContentEvent'', \<lparr>singular = [1], descend = [(1, ''BaseEvent'')], google = [], arms = [], armWireTypes = []\<rparr>),
      (''TextMessageEndEvent'', \<lparr>singular = [1], descend = [(1, ''BaseEvent'')], google = [], arms = [], armWireTypes = []\<rparr>),
      (''ToolCallStartEvent'', \<lparr>singular = [1], descend = [(1, ''BaseEvent'')], google = [], arms = [], armWireTypes = []\<rparr>),
      (''ToolCallArgsEvent'', \<lparr>singular = [1], descend = [(1, ''BaseEvent'')], google = [], arms = [], armWireTypes = []\<rparr>),
      (''ToolCallEndEvent'', \<lparr>singular = [1], descend = [(1, ''BaseEvent'')], google = [], arms = [], armWireTypes = []\<rparr>),
      (''StateSnapshotEvent'', \<lparr>singular = [1, 2], descend = [(1, ''BaseEvent'')], google = [(2, ''google.protobuf.Value'')], arms = [], armWireTypes = []\<rparr>),
      (''StateDeltaEvent'', \<lparr>singular = [1], descend = [(1, ''BaseEvent''), (2, ''JsonPatchOperation'')], google = [], arms = [], armWireTypes = []\<rparr>),
      (''JsonPatchOperation'', \<lparr>singular = [4], descend = [], google = [(4, ''google.protobuf.Value'')], arms = [], armWireTypes = []\<rparr>),
      (''MessagesSnapshotEvent'', \<lparr>singular = [1], descend = [(1, ''BaseEvent''), (2, ''Message'')], google = [], arms = [], armWireTypes = []\<rparr>),
      (''Message'', \<lparr>singular = [9, 13], descend = [(5, ''ToolCall''), (8, ''InputContent'')], google = [(9, ''google.protobuf.Struct''), (13, ''google.protobuf.Struct'')], arms = [], armWireTypes = []\<rparr>),
      (''ToolCall'', \<lparr>singular = [3, 4], descend = [], google = [(4, ''google.protobuf.Struct'')], arms = [], armWireTypes = []\<rparr>),
      (''InputContent'', \<lparr>singular = [1, 2, 3, 4, 5], descend = [(1, ''TextInputPart''), (2, ''ImageInputPart''), (3, ''AudioInputPart''), (4, ''VideoInputPart''), (5, ''DocumentInputPart'')], google = [], arms = [1, 2, 3, 4, 5], armWireTypes = []\<rparr>),
      (''TextInputPart'', \<lparr>singular = [3], descend = [], google = [(3, ''google.protobuf.Value'')], arms = [], armWireTypes = []\<rparr>),
      (''ImageInputPart'', \<lparr>singular = [1, 2], descend = [(1, ''InputContentSource'')], google = [(2, ''google.protobuf.Value'')], arms = [], armWireTypes = []\<rparr>),
      (''InputContentSource'', \<lparr>singular = [1, 2, 3], descend = [], google = [], arms = [1, 2, 3], armWireTypes = []\<rparr>),
      (''AudioInputPart'', \<lparr>singular = [1, 2], descend = [(1, ''InputContentSource'')], google = [(2, ''google.protobuf.Value'')], arms = [], armWireTypes = []\<rparr>),
      (''VideoInputPart'', \<lparr>singular = [1, 2], descend = [(1, ''InputContentSource'')], google = [(2, ''google.protobuf.Value'')], arms = [], armWireTypes = []\<rparr>),
      (''DocumentInputPart'', \<lparr>singular = [1, 2], descend = [(1, ''InputContentSource'')], google = [(2, ''google.protobuf.Value'')], arms = [], armWireTypes = []\<rparr>),
      (''RawEvent'', \<lparr>singular = [1, 2], descend = [(1, ''BaseEvent'')], google = [(2, ''google.protobuf.Value'')], arms = [], armWireTypes = []\<rparr>),
      (''CustomEvent'', \<lparr>singular = [1, 3], descend = [(1, ''BaseEvent'')], google = [(3, ''google.protobuf.Value'')], arms = [], armWireTypes = []\<rparr>),
      (''RunStartedEvent'', \<lparr>singular = [1, 5], descend = [(1, ''BaseEvent''), (5, ''RunAgentInput'')], google = [], arms = [], armWireTypes = []\<rparr>),
      (''RunAgentInput'', \<lparr>singular = [4, 8], descend = [(5, ''Message''), (6, ''Tool''), (9, ''ResumeEntry'')], google = [(4, ''google.protobuf.Value''), (8, ''google.protobuf.Value'')], arms = [], armWireTypes = []\<rparr>),
      (''Tool'', \<lparr>singular = [3, 4], descend = [], google = [(3, ''google.protobuf.Value''), (4, ''google.protobuf.Struct'')], arms = [], armWireTypes = []\<rparr>),
      (''ResumeEntry'', \<lparr>singular = [3, 4], descend = [], google = [(3, ''google.protobuf.Value''), (4, ''google.protobuf.Struct'')], arms = [], armWireTypes = []\<rparr>),
      (''RunFinishedEvent'', \<lparr>singular = [1, 4], descend = [(1, ''BaseEvent''), (6, ''Interrupt'')], google = [(4, ''google.protobuf.Value'')], arms = [], armWireTypes = []\<rparr>),
      (''Interrupt'', \<lparr>singular = [5, 7], descend = [], google = [(5, ''google.protobuf.Value''), (7, ''google.protobuf.Value'')], arms = [], armWireTypes = []\<rparr>),
      (''RunErrorEvent'', \<lparr>singular = [1], descend = [(1, ''BaseEvent'')], google = [], arms = [], armWireTypes = []\<rparr>),
      (''StepStartedEvent'', \<lparr>singular = [1], descend = [(1, ''BaseEvent'')], google = [], arms = [], armWireTypes = []\<rparr>),
      (''StepFinishedEvent'', \<lparr>singular = [1], descend = [(1, ''BaseEvent'')], google = [], arms = [], armWireTypes = []\<rparr>),
      (''TextMessageChunkEvent'', \<lparr>singular = [1], descend = [(1, ''BaseEvent'')], google = [], arms = [], armWireTypes = []\<rparr>),
      (''ToolCallChunkEvent'', \<lparr>singular = [1], descend = [(1, ''BaseEvent'')], google = [], arms = [], armWireTypes = []\<rparr>),
      (''SubagentStartedEvent'', \<lparr>singular = [1], descend = [(1, ''BaseEvent'')], google = [], arms = [], armWireTypes = []\<rparr>),
      (''SubagentFinishedEvent'', \<lparr>singular = [1, 3], descend = [(1, ''BaseEvent'')], google = [(3, ''google.protobuf.Value'')], arms = [], armWireTypes = []\<rparr>),
      (''SubagentErrorEvent'', \<lparr>singular = [1], descend = [(1, ''BaseEvent'')], google = [], arms = [], armWireTypes = []\<rparr>),
      (''ToolCallResultEvent'', \<lparr>singular = [1], descend = [(1, ''BaseEvent''), (7, ''InputContent'')], google = [], arms = [], armWireTypes = []\<rparr>),
      (''ActivitySnapshotEvent'', \<lparr>singular = [1, 5], descend = [(1, ''BaseEvent'')], google = [(5, ''google.protobuf.Struct'')], arms = [], armWireTypes = []\<rparr>),
      (''ActivityDeltaEvent'', \<lparr>singular = [1], descend = [(1, ''BaseEvent''), (5, ''JsonPatchOperation'')], google = [], arms = [], armWireTypes = []\<rparr>),
      (''ReasoningStartEvent'', \<lparr>singular = [1], descend = [(1, ''BaseEvent'')], google = [], arms = [], armWireTypes = []\<rparr>),
      (''ReasoningMessageStartEvent'', \<lparr>singular = [1], descend = [(1, ''BaseEvent'')], google = [], arms = [], armWireTypes = []\<rparr>),
      (''ReasoningMessageContentEvent'', \<lparr>singular = [1], descend = [(1, ''BaseEvent'')], google = [], arms = [], armWireTypes = []\<rparr>),
      (''ReasoningMessageEndEvent'', \<lparr>singular = [1], descend = [(1, ''BaseEvent'')], google = [], arms = [], armWireTypes = []\<rparr>),
      (''ReasoningMessageChunkEvent'', \<lparr>singular = [1], descend = [(1, ''BaseEvent'')], google = [], arms = [], armWireTypes = []\<rparr>),
      (''ReasoningEndEvent'', \<lparr>singular = [1], descend = [(1, ''BaseEvent'')], google = [], arms = [], armWireTypes = []\<rparr>),
      (''ReasoningEncryptedValueEvent'', \<lparr>singular = [1], descend = [(1, ''BaseEvent'')], google = [], arms = [], armWireTypes = []\<rparr>),
      (''google.protobuf.Struct'', \<lparr>singular = [], descend = [(1, ''google.protobuf.Struct.FieldsEntry'')], google = [], arms = [], armWireTypes = []\<rparr>),
      (''google.protobuf.Struct.FieldsEntry'', \<lparr>singular = [2], descend = [(2, ''google.protobuf.Value'')], google = [], arms = [], armWireTypes = []\<rparr>),
      (''google.protobuf.Value'', \<lparr>singular = [5, 6], descend = [(5, ''google.protobuf.Struct''), (6, ''google.protobuf.ListValue'')], google = [], arms = [1, 2, 3, 4, 5, 6], armWireTypes = [(1, 0), (2, 1), (3, 2), (4, 0), (5, 2), (6, 2)]\<rparr>),
      (''google.protobuf.ListValue'', \<lparr>singular = [], descend = [(1, ''google.protobuf.Value'')], google = [], arms = [], armWireTypes = []\<rparr>)]"

definition ENVELOPE_TAGS :: "nat list" where
  "ENVELOPE_TAGS = [1..<32]"

definition ENVELOPE_SCAN :: "(nat \<times> string) list" where
  "ENVELOPE_SCAN =
     [(1, ''TextMessageStartEvent''), (2, ''TextMessageContentEvent''), (3, ''TextMessageEndEvent''), (4, ''ToolCallStartEvent''), (5,
      ''ToolCallArgsEvent''), (6, ''ToolCallEndEvent''), (7, ''StateSnapshotEvent''), (8, ''StateDeltaEvent''), (9,
      ''MessagesSnapshotEvent''), (10, ''RawEvent''), (11, ''CustomEvent''), (12, ''RunStartedEvent''), (13, ''RunFinishedEvent''), (14,
      ''RunErrorEvent''), (15, ''StepStartedEvent''), (16, ''StepFinishedEvent''), (17, ''TextMessageChunkEvent''), (18,
      ''ToolCallChunkEvent''), (19, ''SubagentStartedEvent''), (20, ''SubagentFinishedEvent''), (21, ''SubagentErrorEvent''), (22,
      ''ToolCallResultEvent''), (23, ''ActivitySnapshotEvent''), (24, ''ActivityDeltaEvent''), (25, ''ReasoningStartEvent''), (26,
      ''ReasoningMessageStartEvent''), (27, ''ReasoningMessageContentEvent''), (28, ''ReasoningMessageEndEvent''), (29,
      ''ReasoningMessageChunkEvent''), (30, ''ReasoningEndEvent''), (31, ''ReasoningEncryptedValueEvent'')]"

text \<open>The table of a field, where the graph of messages goes on.\<close>

definition child_spec :: "(nat \<times> string) list \<Rightarrow> nat \<Rightarrow> scan_spec option" where
  "child_spec edges field = (case map_of edges field of Some child \<Rightarrow> map_of SCAN_SPECS child | None \<Rightarrow> None)"

subsection \<open>Numbers\<close>

function read_varint :: "bytes \<Rightarrow> nat \<Rightarrow> nat \<Rightarrow> nat \<Rightarrow> (nat \<times> nat) option" where
  "read_varint data off result shift =
     (if length data \<le> off then None
      else
        (let byte = data ! off;
             result' = (if shift < 28 then result + unat (byte AND 0x7F) * 2 ^ shift
                        else if shift = 28 then result + unat (byte AND 0x0F) * 2 ^ 28 else result)
         in if byte AND 0x80 = 0 then Some (result', Suc off) else read_varint data (Suc off) result' (shift + 7)))"
  by pat_completeness auto
termination by (relation "measure (\<lambda>(data, off, _). length data - off)") auto

text \<open>The number at an offset and the offset behind it.\<close>

definition readVarint :: "bytes \<Rightarrow> nat \<Rightarrow> (nat \<times> nat) option" where
  "readVarint data off = read_varint data off 0 0"

text \<open>\<open>None\<close> is the result -1; \<open>n\<close> counts the bytes read.\<close>

function bounded_varint :: "nat \<Rightarrow> nat \<Rightarrow> bytes \<Rightarrow> nat \<Rightarrow> nat \<Rightarrow> nat \<Rightarrow> nat \<Rightarrow> (nat \<times> nat) option" where
  "bounded_varint maxBytes lastByteMax data off result shift n =
     (if length data \<le> off \<or> maxBytes \<le> n then None
      else
        (let byte = data ! off in
         if Suc n = maxBytes \<and> lastByteMax < unat byte then None
         else
           (let result' = result + unat (byte AND 0x7F) * 2 ^ shift
            in if byte AND 0x80 = 0 then Some (result', Suc off)
               else bounded_varint maxBytes lastByteMax data (Suc off) result' (shift + 7) (Suc n))))"
  by pat_completeness auto
termination by (relation "measure (\<lambda>(_, _, data, off, _). length data - off)") auto

definition varint32 :: "bytes \<Rightarrow> nat \<Rightarrow> (nat \<times> nat) option" where
  "varint32 data off = bounded_varint 5 0x0F data off 0 0 0"

definition varint64 :: "bytes \<Rightarrow> nat \<Rightarrow> (nat \<times> nat) option" where
  "varint64 data off = bounded_varint 10 0x01 data off 0 0 0"

lemma read_varint_offset: "read_varint data off result shift = Some (v, off') \<Longrightarrow> off < off' \<and> off' \<le> length data"
  by (induction data off result shift rule: read_varint.induct)
    (subst (asm) (2) read_varint.simps, fastforce simp: Let_def simp del: read_varint.simps split: if_splits)

lemma bounded_varint_offset:
  "bounded_varint m l data off result shift n = Some (v, off') \<Longrightarrow> off < off' \<and> off' \<le> length data"
  by (induction m l data off result shift n rule: bounded_varint.induct)
    (subst (asm) (2) bounded_varint.simps, fastforce simp: Let_def simp del: bounded_varint.simps split: if_splits)

lemma readVarint_offset: "readVarint data off = Some (v, off') \<Longrightarrow> off < off' \<and> off' \<le> length data"
  by (simp add: readVarint_def read_varint_offset)

lemma varint32_offset: "varint32 data off = Some (v, off') \<Longrightarrow> off < off' \<and> off' \<le> length data"
  unfolding varint32_def by (rule bounded_varint_offset)

lemma varint64_offset: "varint64 data off = Some (v, off') \<Longrightarrow> off < off' \<and> off' \<le> length data"
  unfolding varint64_def by (rule bounded_varint_offset)

declare read_varint.simps [simp del] bounded_varint.simps [simp del]

subsection \<open>The guard of a known event\<close>

text \<open>\<^verbatim>\<open>data.subarray(offset, offset + length)\<close>\<close>

definition subarray :: "bytes \<Rightarrow> nat \<Rightarrow> nat \<Rightarrow> bytes" where
  "subarray data off n = take n (drop off data)"

text \<open>One level of the scan graph; \<open>seenArm\<close> is the arm of a oneof that was seen, or 0.\<close>

function scan_from :: "bytes \<Rightarrow> scan_spec \<Rightarrow> nat \<Rightarrow> nat \<Rightarrow> nat \<Rightarrow> bool" where
  "scan_from data spec off groupDepth seenArm =
     (if length data \<le> off then groupDepth = 0
      else case readVarint data off of
        None \<Rightarrow> False
      | Some (tag, off1) \<Rightarrow>
          (let field = tag div 8; wireType = tag mod 8 in
           if field = 0 then False
           else if wireType = 3 then scan_from data spec off1 (Suc groupDepth) seenArm
           else if wireType = 4 then groupDepth \<noteq> 0 \<and> scan_from data spec off1 (groupDepth - 1) seenArm
           else if wireType = 0 then
             (case readVarint data off1 of None \<Rightarrow> False | Some (_, off2) \<Rightarrow> scan_from data spec off2 groupDepth seenArm)
           else if wireType = 1 then off1 + 8 \<le> length data \<and> scan_from data spec (off1 + 8) groupDepth seenArm
           else if wireType = 2 then
             (case readVarint data off1 of
                None \<Rightarrow> False
              | Some (len, off2) \<Rightarrow>
                  off2 + len \<le> length data \<and>
                  (let isArm = (groupDepth = 0 \<and> field \<in> set (arms spec))
                   in (isArm \<longrightarrow> seenArm = 0 \<or> seenArm = field) \<and>
                      (groupDepth = 0 \<longrightarrow>
                        (case child_spec (descend spec) field of
                           None \<Rightarrow> True
                         | Some childSpec \<Rightarrow> scan_from (subarray data off2 len) childSpec 0 0 0)) \<and>
                      scan_from data spec (off2 + len) groupDepth (if isArm then field else seenArm)))
           else if wireType = 5 then off1 + 4 \<le> length data \<and> scan_from data spec (off1 + 4) groupDepth seenArm
           else False))"
  by pat_completeness auto
termination
  by (relation "measure (\<lambda>(data, _, off, _). length data - off)")
    (auto simp: subarray_def dest!: readVarint_offset)

definition scanMessage :: "bytes \<Rightarrow> scan_spec \<Rightarrow> bool" where
  "scanMessage data spec = scan_from data spec 0 0 0"

declare scan_from.simps [simp del]

text \<open>The envelope: \<open>seen\<close> holds the known fields met so far.\<close>

function envelope_from :: "bytes \<Rightarrow> nat \<Rightarrow> nat \<Rightarrow> nat list \<Rightarrow> bool" where
  "envelope_from data off groupDepth seen =
     (if length data \<le> off then groupDepth = 0
      else case readVarint data off of
        None \<Rightarrow> False
      | Some (tag, off1) \<Rightarrow>
          (let field = tag div 8; wireType = tag mod 8;
               known = (groupDepth = 0 \<and> field \<in> set ENVELOPE_TAGS);
               seen' = (if known then set_add field seen else seen) in
           if field = 0 then False
           else if wireType = 3 then envelope_from data off1 (Suc groupDepth) seen
           else if wireType = 4 then groupDepth \<noteq> 0 \<and> envelope_from data off1 (groupDepth - 1) seen
           else if known \<and> seen \<noteq> [] \<and> field \<notin> set seen then False
           else if wireType = 0 then
             (case readVarint data off1 of None \<Rightarrow> False | Some (_, off2) \<Rightarrow> envelope_from data off2 groupDepth seen')
           else if wireType = 1 then off1 + 8 \<le> length data \<and> envelope_from data (off1 + 8) groupDepth seen'
           else if wireType = 2 then
             (case readVarint data off1 of
                None \<Rightarrow> False
              | Some (len, off2) \<Rightarrow>
                  off2 + len \<le> length data \<and>
                  (groupDepth = 0 \<longrightarrow>
                    (case child_spec ENVELOPE_SCAN field of
                       None \<Rightarrow> True
                     | Some childSpec \<Rightarrow> scanMessage (subarray data off2 len) childSpec)) \<and>
                  envelope_from data (off2 + len) groupDepth seen')
           else if wireType = 5 then off1 + 4 \<le> length data \<and> envelope_from data (off1 + 4) groupDepth seen'
           else False))"
  by pat_completeness auto
termination
  by (relation "measure (\<lambda>(data, off, _). length data - off)") (auto dest!: readVarint_offset)

definition assertWellFormedEnvelope :: "bytes \<Rightarrow> bool" where
  "assertWellFormedEnvelope data = envelope_from data 0 0 []"

declare envelope_from.simps [simp del]

subsection \<open>The walkers of an event from a later protocol\<close>

text \<open>\<open>groups\<close> is the stack of open groups.\<close>

function walks_from :: "bytes \<Rightarrow> nat \<Rightarrow> nat list \<Rightarrow> bool" where
  "walks_from data off groups =
     (if length data \<le> off then groups = []
      else case varint32 data off of
        None \<Rightarrow> False
      | Some (tag, off1) \<Rightarrow>
          (let field = tag div 8; wireType = tag mod 8 in
           if field = 0 then False
           else if wireType = 3 then walks_from data off1 (field # groups)
           else if wireType = 4 then (case groups of g # gs \<Rightarrow> g = field \<and> walks_from data off1 gs | [] \<Rightarrow> False)
           else if wireType = 0 then
             (case varint64 data off1 of None \<Rightarrow> False | Some (_, off2) \<Rightarrow> walks_from data off2 groups)
           else if wireType = 1 then off1 + 8 \<le> length data \<and> walks_from data (off1 + 8) groups
           else if wireType = 5 then off1 + 4 \<le> length data \<and> walks_from data (off1 + 4) groups
           else if wireType = 2 then
             (case varint32 data off1 of
                None \<Rightarrow> False
              | Some (len, off2) \<Rightarrow> off2 + len \<le> length data \<and> walks_from data (off2 + len) groups)
           else False))"
  by pat_completeness auto
termination
  by (relation "measure (\<lambda>(data, off, _). length data - off)") (auto dest!: varint32_offset varint64_offset)

definition walksAsMessage :: "bytes \<Rightarrow> bool" where
  "walksAsMessage data = walks_from data 0 []"

declare walks_from.simps [simp del]

function future_from :: "bytes \<Rightarrow> nat \<Rightarrow> nat list \<Rightarrow> nat \<Rightarrow> bool" where
  "future_from data off groups future =
     (if length data \<le> off then groups = [] \<and> future > 0
      else case varint32 data off of
        None \<Rightarrow> False
      | Some (tag, off1) \<Rightarrow>
          (let field = tag div 8; wireType = tag mod 8; knownHere = (groups = [] \<and> field \<in> set ENVELOPE_TAGS) in
           if field = 0 then False
           else if wireType = 3 then \<not> knownHere \<and> future_from data off1 (field # groups) future
           else if wireType = 4 then (case groups of g # gs \<Rightarrow> g = field \<and> future_from data off1 gs future | [] \<Rightarrow> False)
           else if wireType = 0 then
             \<not> knownHere \<and> (case varint64 data off1 of None \<Rightarrow> False | Some (_, off2) \<Rightarrow> future_from data off2 groups future)
           else if wireType = 1 then \<not> knownHere \<and> off1 + 8 \<le> length data \<and> future_from data (off1 + 8) groups future
           else if wireType = 5 then \<not> knownHere \<and> off1 + 4 \<le> length data \<and> future_from data (off1 + 4) groups future
           else if wireType = 2 then
             (case varint32 data off1 of
                None \<Rightarrow> False
              | Some (len, off2) \<Rightarrow>
                  off2 + len \<le> length data \<and> \<not> knownHere \<and>
                  (groups = [] \<longrightarrow> walksAsMessage (subarray data off2 len)) \<and>
                  future_from data (off2 + len) groups (if groups = [] then Suc future else future))
           else False))"
  by pat_completeness auto
termination
  by (relation "measure (\<lambda>(data, off, _). length data - off)") (auto dest!: varint32_offset varint64_offset)

definition namesOnlyFutureArms :: "bytes \<Rightarrow> bool" where
  "namesOnlyFutureArms data = future_from data 0 [] 0"

declare future_from.simps [simp del]

end
