(* ===== verification/WireGrammar.thy ===== *)
theory WireGrammar
  imports ProtoWire
begin

text \<open>
  The protobuf wire format as a grammar, and what it means to walk over it. \<^verbatim>\<open>proto/src/proto.ts\<close> scans its input four times with four
  hand-written loops; here the bytes a protobuf writer produces are the image of an abstract syntax, the two number readers read what was
  written (and the masked one agrees with the bounded one), and the locale \<open>field_skipper\<close> is the contract the four loops share.
\<close>

subsection \<open>Bytes\<close>

lemma byte_low [simp]: "unat (b AND 0x7F :: 8 word) = unat b mod 128" "unat (b AND 0x0F :: 8 word) = unat b mod 16"
proof -
  have "unat (b AND mask n) = unat b mod 2 ^ n" for n
    by (simp only: take_bit_eq_mask [symmetric] unsigned_take_bit_eq take_bit_eq_mod [of n "unat b"])
  from this [of 7] this [of 4] show "unat (b AND 0x7F) = unat b mod 128" "unat (b AND 0x0F) = unat b mod 16"
    by (simp_all add: mask_eq_exp_minus_1)
qed

lemma byte_high [simp]: "(b AND 0x80 :: 8 word) = 0 \<longleftrightarrow> unat b < 128"
proof -
  have "b AND 0x80 = 0 \<longleftrightarrow> \<not> bit b 7" using and_exp_eq_0_iff_not_bit [of b 7] by simp
  also have "bit b 7 \<longleftrightarrow> bit (unat b) 7" by (simp add: bit_unsigned_iff)
  also have "\<dots> \<longleftrightarrow> \<not> unat b < 128"
  proof -
    have "unat b div 128 < 2" using unsigned_less [of b, where ?'a = nat] by simp
    then have "unat b div 128 = 0 \<or> unat b div 128 = 1" by auto
    then show ?thesis by (auto simp: bit_iff_odd div_eq_0_iff)
  qed
  finally show ?thesis by simp
qed

lemma unat_byte [simp]: "n < 256 \<Longrightarrow> unat (word_of_nat n :: 8 word) = n"
  by (simp add: unat_of_nat take_bit_eq_mod)

subsection \<open>Numbers on the wire\<close>

fun varint :: "nat \<Rightarrow> bytes" where
  "varint n = (if n < 128 then [word_of_nat n] else word_of_nat (n mod 128 + 128) # varint (n div 128))"

declare varint.simps [simp del]

lemma varint_small: "n < 128 \<Longrightarrow> varint n = [word_of_nat n]"
  and varint_large: "\<not> n < 128 \<Longrightarrow> varint n = word_of_nat (n mod 128 + 128) # varint (n div 128)"
  by (subst varint.simps, simp)+

lemma drop_head: "drop off data = b # rest \<Longrightarrow> off < length data \<and> data ! off = b \<and> drop (Suc off) data = rest"
  by (metis Cons_nth_drop_Suc drop_eq_Nil2 list.distinct(1) list.inject not_le_imp_less)

lemma bounded_reads:
  assumes "drop off data = varint n @ rest" "k < m" "l < 128" "n < (l + 1) * 128 ^ (m - Suc k)"
  shows "bounded_varint m l data off result shift k = Some (result + n * 2 ^ shift, off + length (varint n))"
  using assms
proof (induction n arbitrary: off result shift k rule: varint.induct)
  case (1 n)
  show ?case
  proof (cases "n < 128")
    case True
    with drop_head [of off data "word_of_nat n" rest] 1 have "off < length data" "data ! off = word_of_nat n"
      by (auto simp: varint_small)
    moreover have "\<not> (Suc k = m \<and> l < n)" using 1(5) by auto
    ultimately show ?thesis using True 1(3) by (simp add: bounded_varint.simps varint_small Let_def)
  next
    case False
    with drop_head [of off data "word_of_nat (n mod 128 + 128)" "varint (n div 128) @ rest"] 1 have
      d: "off < length data" "data ! off = word_of_nat (n mod 128 + 128)" "drop (Suc off) data = varint (n div 128) @ rest"
      by (auto simp: varint_large)
    from False 1(4,5) have k: "Suc k < m" by (cases "Suc k = m") (use 1(3) in auto)
    then have "(l + 1) * 128 ^ (m - Suc k) = (l + 1) * 128 ^ (m - Suc (Suc k)) * 128"
      by (simp add: Suc_diff_Suc [symmetric] power_Suc2 [symmetric])
    with 1(5) have "n div 128 < (l + 1) * 128 ^ (m - Suc (Suc k))" by (simp add: less_mult_imp_div_less)
    from 1(1) [OF False d(3) k 1(4) this, of "result + n mod 128 * 2 ^ shift" "shift + 7"]
    have rest: "bounded_varint m l data (Suc off) (result + n mod 128 * 2 ^ shift) (shift + 7) (Suc k) =
      Some (result + n mod 128 * 2 ^ shift + n div 128 * 2 ^ (shift + 7), Suc off + length (varint (n div 128)))" .
    have "n mod 128 * 2 ^ shift + n div 128 * 2 ^ (shift + 7) = (n mod 128 + 128 * (n div 128)) * 2 ^ shift"
      unfolding power_add distrib_right by simp
    also have "\<dots> = n * 2 ^ shift" unfolding mod_mult_div_eq ..
    finally have sum: "n mod 128 * 2 ^ shift + n div 128 * 2 ^ (shift + 7) = n * 2 ^ shift" .
    have byte: "unat (data ! off) = n mod 128 + 128" unfolding d(2) by (rule unat_byte) simp
    show ?thesis using d(1) k rest False sum
      by (subst bounded_varint.simps) (simp add: byte varint_large Let_def)
  qed
qed

lemma read_bounded:
  assumes "bounded_varint m l data off result shift k = Some (v, off')"
  shows "\<exists>v'. read_varint data off result' shift' = Some (v', off')"
  using assms
proof (induction m l data off result shift k arbitrary: result' shift' rule: bounded_varint.induct)
  case (1 m l data off result shift n)
  from 1(2) have "off < length data" by (simp add: bounded_varint.simps split: if_splits)
  with 1 show ?case
    by (subst read_varint.simps) (subst (asm) (2) bounded_varint.simps, auto simp: Let_def split: if_splits)
qed

lemma read_agrees:
  assumes "bounded_varint 5 15 data off result (7 * k) k = Some (v, off')" "k < 5" "result < 2 ^ (7 * k)"
  shows "read_varint data off result (7 * k) = Some (v, off') \<and> v < 2 ^ 32"
  using assms
proof (induction "5 - k" arbitrary: off result k)
  case (Suc j)
  let ?b = "unat (data ! off)"
  have off: "off < length data" and last: "\<not> (Suc k = 5 \<and> 15 < ?b)" using Suc(3) by (auto simp: bounded_varint.simps [of 5 15 data] split: if_splits)
  have k: "k \<in> {0, 1, 2, 3, 4}" using Suc(4) by auto
  have step: "(if 7 * k < 28 then result + unat (data ! off AND 0x7F) * 2 ^ (7 * k)
      else if 7 * k = 28 then result + unat (data ! off AND 0x0F) * 2 ^ 28 else result) = result + ?b mod 128 * 2 ^ (7 * k)"
    using k last by auto
  have small: "result + ?b mod 128 * 2 ^ (7 * k) < 2 ^ (7 * Suc k)"
  proof -
    have "?b mod 128 * 2 ^ (7 * k) \<le> 127 * 2 ^ (7 * k)" by (rule mult_le_mono1) (simp add: less_Suc_eq_le [symmetric])
    with Suc(5) have "result + ?b mod 128 * 2 ^ (7 * k) < 2 ^ (7 * k) + 127 * 2 ^ (7 * k)" by linarith
    also have "\<dots> = 2 ^ (7 * Suc k)" by (simp add: power_add)
    finally show ?thesis .
  qed
  show ?case
  proof (cases "?b < 128")
    case True
    have "result + ?b mod 128 * 2 ^ (7 * k) < 2 ^ 32"
    proof (cases "k = 4")
      case True
      with last have "?b mod 128 * 2 ^ 28 \<le> 15 * 2 ^ 28" by (intro mult_right_mono) auto
      with Suc(5) True show ?thesis by simp
    next
      case False
      with k small show ?thesis by auto
    qed
    with True Suc(3) off last step show ?thesis by (auto simp: read_varint.simps [of data] bounded_varint.simps [of 5 15 data] Let_def split: if_splits)
  next
    case False
    with Suc(3) off last have more: "bounded_varint 5 15 data (Suc off) (result + ?b mod 128 * 2 ^ (7 * k)) (7 * Suc k) (Suc k) = Some (v, off')" "Suc k < 5"
      by (auto simp: bounded_varint.simps [of 5 15 data off] bounded_varint.simps [of 5 15 data "Suc off"] Let_def add.commute split: if_splits)
    from Suc(1) [OF _ more small] Suc(2) have "read_varint data (Suc off) (result + ?b mod 128 * 2 ^ (7 * k)) (7 * Suc k) = Some (v, off') \<and> v < 2 ^ 32" by simp
    with False off step show ?thesis by (subst read_varint.simps) (simp add: Let_def add.commute)
  qed
qed simp

lemma varint32_reads: "drop off data = varint n @ rest \<Longrightarrow> n < 2 ^ 32 \<Longrightarrow> varint32 data off = Some (n, off + length (varint n))"
  unfolding varint32_def by (subst bounded_reads) simp_all

lemma varint64_reads: "drop off data = varint n @ rest \<Longrightarrow> n < 2 ^ 64 \<Longrightarrow> varint64 data off = Some (n, off + length (varint n))"
  unfolding varint64_def by (subst bounded_reads) simp_all

lemma varint32_masked: "varint32 data off = Some r \<Longrightarrow> readVarint data off = Some r"
  using read_agrees [of data off 0 0 "fst r" "snd r"] by (simp add: varint32_def readVarint_def)

lemma varint64_masked: "varint64 data off = Some (v, off') \<Longrightarrow> \<exists>v'. readVarint data off = Some (v', off')"
  unfolding varint64_def readVarint_def by (rule read_bounded)

lemma readVarint_reads:
  "drop off data = varint n @ rest \<Longrightarrow> n < 2 ^ 32 \<Longrightarrow> readVarint data off = Some (n, off + length (varint n))"
  by (rule varint32_masked) (rule varint32_reads)

subsection \<open>Messages on the wire\<close>

text \<open>The abstract syntax of a protobuf message: numbered fields of the five wire types, groups nested.\<close>

datatype wire_field =
    VarintField nat nat
  | Fixed64Field nat bytes
  | LenField nat bytes
  | GroupField nat "wire_field list"
  | Fixed32Field nat bytes

fun wire_bytes :: "wire_field \<Rightarrow> bytes" where
  "wire_bytes (VarintField n v) = varint (n * 8) @ varint v"
| "wire_bytes (Fixed64Field n b) = varint (n * 8 + 1) @ b"
| "wire_bytes (LenField n b) = varint (n * 8 + 2) @ varint (length b) @ b"
| "wire_bytes (GroupField n fs) = varint (n * 8 + 3) @ concat (map wire_bytes fs) @ varint (n * 8 + 4)"
| "wire_bytes (Fixed32Field n b) = varint (n * 8 + 5) @ b"

definition wire_message :: "wire_field list \<Rightarrow> bytes" where
  "wire_message fs = concat (map wire_bytes fs)"

fun wire_number :: "wire_field \<Rightarrow> nat" where
  "wire_number (VarintField n _) = n"
| "wire_number (Fixed64Field n _) = n"
| "wire_number (LenField n _) = n"
| "wire_number (GroupField n _) = n"
| "wire_number (Fixed32Field n _) = n"

definition number_ok :: "nat \<Rightarrow> bool" where
  "number_ok n \<longleftrightarrow> 0 < n \<and> n < 2 ^ 29"

fun field_ok :: "wire_field \<Rightarrow> bool" where
  "field_ok (VarintField n v) = (number_ok n \<and> v < 2 ^ 64)"
| "field_ok (Fixed64Field n b) = (number_ok n \<and> length b = 8)"
| "field_ok (LenField n b) = (number_ok n \<and> length b < 2 ^ 32)"
| "field_ok (GroupField n fs) = (number_ok n \<and> (\<forall>f \<in> set fs. field_ok f))"
| "field_ok (Fixed32Field n b) = (number_ok n \<and> length b = 4)"

lemma tag_div: "t < 8 \<Longrightarrow> (n * 8 + t) div 8 = n" "t < 8 \<Longrightarrow> (n * 8 + t) mod 8 = (t :: nat)"
  by auto

lemma reads_tag:
  assumes "drop off data = varint (n * 8 + t) @ rest" "number_ok n" "t < 8"
  shows "varint32 data off = Some (n * 8 + t, off + length (varint (n * 8 + t)))"
    "readVarint data off = Some (n * 8 + t, off + length (varint (n * 8 + t)))"
proof -
  have "n * 8 + t < 2 ^ 32" using assms(2,3) by (simp add: number_ok_def)
  with assms(1) show "varint32 data off = Some (n * 8 + t, off + length (varint (n * 8 + t)))"
    "readVarint data off = Some (n * 8 + t, off + length (varint (n * 8 + t)))"
    by (rule varint32_reads, rule readVarint_reads)
qed

lemma varint_nonempty [simp]: "varint n \<noteq> []" "0 < length (varint n)"
  by (cases "n < 128"; simp add: varint_small varint_large)+

lemma drop_off: "drop off data = xs @ rest \<Longrightarrow> drop (off + length xs) data = rest"
  by (metis append_eq_conv_conj drop_drop add.commute)

lemma drop_less: "drop off data = xs @ rest \<Longrightarrow> xs \<noteq> [] \<Longrightarrow> off < length data \<and> off + length xs \<le> length data"
  by (metis append_is_Nil_conv drop_eq_Nil2 length_append length_drop less_diff_conv2 linorder_not_le le_add1 add.commute le_diff_conv2 less_imp_le)

lemma subarray_drop: "drop off data = b @ rest \<Longrightarrow> subarray data off (length b) = b"
  by (simp add: subarray_def)

lemma len_fits: "drop off data = b @ rest \<Longrightarrow> off \<le> length data \<Longrightarrow> off + length b \<le> length data"
  by (metis add_le_cancel_left length_append length_drop le_add1 le_add_diff_inverse)

subsection \<open>Walking over fields\<close>

fun is_group :: "wire_field \<Rightarrow> bool" where
  "is_group (GroupField _ _) = True"
| "is_group _ = False"

text \<open>
  The contract all scans of the bytes share: in an inner state fields are skipped, a group is entered and left again. Then whole
  groups and messages are skipped.
\<close>

locale field_skipper =
  fixes scan :: "bytes \<Rightarrow> nat \<Rightarrow> 's \<Rightarrow> bool"
    and inner :: "'s \<Rightarrow> bool"
    and enters :: "nat \<Rightarrow> 's \<Rightarrow> bool"
    and push :: "nat \<Rightarrow> 's \<Rightarrow> 's"
  assumes push_inner: "inner (push n s)"
    and inner_enters: "inner s \<Longrightarrow> enters n s"
    and skip_flat: "inner s \<Longrightarrow> field_ok f \<Longrightarrow> \<not> is_group f \<Longrightarrow> drop off data = wire_bytes f @ rest \<Longrightarrow>
      scan data off s = scan data (off + length (wire_bytes f)) s"
    and enter: "enters n s \<Longrightarrow> number_ok n \<Longrightarrow> drop off data = varint (n * 8 + 3) @ rest \<Longrightarrow>
      scan data off s = scan data (off + length (varint (n * 8 + 3))) (push n s)"
    and leave: "number_ok n \<Longrightarrow> drop off data = varint (n * 8 + 4) @ rest \<Longrightarrow>
      scan data off (push n s) = scan data (off + length (varint (n * 8 + 4))) s"
begin

lemma skip_list:
  assumes "inner s" "\<And>x off rest s. x \<in> set xs \<Longrightarrow> inner s \<Longrightarrow> drop off data = wire_bytes x @ rest \<Longrightarrow>
      scan data off s = scan data (off + length (wire_bytes x)) s"
  shows "drop off data = wire_message xs @ rest \<Longrightarrow> scan data off s = scan data (off + length (wire_message xs)) s"
  using assms
proof (induction xs arbitrary: off)
  case (Cons x xs)
  then have d: "drop off data = wire_bytes x @ wire_message xs @ rest" by (simp add: wire_message_def)
  from Cons.prems(3) [OF _ Cons.prems(2) d] Cons.IH [OF drop_off [OF d] Cons.prems(2)] Cons.prems(3) show ?case
    by (simp add: wire_message_def add.assoc)
qed (simp add: wire_message_def)

lemma skip_field:
  "inner s \<Longrightarrow> field_ok f \<Longrightarrow> drop off data = wire_bytes f @ rest \<Longrightarrow> scan data off s = scan data (off + length (wire_bytes f)) s"
proof (induction f arbitrary: off rest s)
  case (GroupField n fs)
  then have d: "drop off data = varint (n * 8 + 3) @ wire_message fs @ varint (n * 8 + 4) @ rest" "number_ok n"
    by (simp_all add: wire_message_def)
  note body = drop_off [OF d(1)]
  have "scan data off s = scan data (off + length (varint (n * 8 + 3))) (push n s)"
    by (rule enter [OF inner_enters [OF GroupField.prems(1)] d(2,1)])
  also have "\<dots> = scan data (off + length (varint (n * 8 + 3)) + length (wire_message fs)) (push n s)"
    by (rule skip_list [OF push_inner _ body]) (use GroupField in auto)
  also have "\<dots> = scan data (off + length (varint (n * 8 + 3)) + length (wire_message fs) + length (varint (n * 8 + 4))) s"
    by (rule leave [OF d(2) drop_off [OF body]])
  finally show ?case by (simp add: wire_message_def add.assoc)
qed (rule skip_flat, assumption, assumption, simp, assumption)+

lemma skip_message:
  assumes "inner s" "list_all field_ok fs" "drop off data = wire_message fs @ rest"
  shows "scan data off s = scan data (off + length (wire_message fs)) s"
  by (rule skip_list [OF assms(1) _ assms(3)]) (use assms(2) skip_field in \<open>auto simp: list_all_iff\<close>)

lemma skip_group:
  assumes "enters n s" "field_ok (GroupField n fs)" "drop off data = wire_bytes (GroupField n fs) @ rest"
  shows "scan data off s = scan data (off + length (wire_bytes (GroupField n fs))) s"
proof -
  from assms have d: "drop off data = varint (n * 8 + 3) @ wire_message fs @ varint (n * 8 + 4) @ rest" "number_ok n" "list_all field_ok fs"
    by (simp_all add: wire_message_def list_all_iff)
  note body = drop_off [OF d(1)]
  have "scan data off s = scan data (off + length (varint (n * 8 + 3))) (push n s)" by (rule enter [OF assms(1) d(2,1)])
  also have "\<dots> = scan data (off + length (varint (n * 8 + 3)) + length (wire_message fs)) (push n s)"
    by (rule skip_message [OF push_inner d(3) body])
  also have "\<dots> = scan data (off + length (varint (n * 8 + 3)) + length (wire_message fs) + length (varint (n * 8 + 4))) s"
    by (rule leave [OF d(2) drop_off [OF body]])
  finally show ?thesis by (simp add: wire_message_def add.assoc)
qed

end

subsection \<open>The walker\<close>

lemma walks_tag:
  assumes "drop off data = varint (n * 8 + t) @ rest" "number_ok n" "t < 8"
  shows "walks_from data off groups =
    (let off1 = off + length (varint (n * 8 + t)) in
     if t = 3 then walks_from data off1 (n # groups)
     else if t = 4 then (case groups of g # gs \<Rightarrow> g = n \<and> walks_from data off1 gs | [] \<Rightarrow> False)
     else if t = 0 then (case varint64 data off1 of None \<Rightarrow> False | Some (_, off2) \<Rightarrow> walks_from data off2 groups)
     else if t = 1 then off1 + 8 \<le> length data \<and> walks_from data (off1 + 8) groups
     else if t = 5 then off1 + 4 \<le> length data \<and> walks_from data (off1 + 4) groups
     else if t = 2 then
       (case varint32 data off1 of None \<Rightarrow> False
        | Some (len, off2) \<Rightarrow> off2 + len \<le> length data \<and> walks_from data (off2 + len) groups)
     else False)"
proof -
  define tag where "tag = n * 8 + t"
  have "tag div 8 = n" "tag mod 8 = t" using assms(3) by (simp_all add: tag_def)
  with reads_tag(1) [OF assms] drop_less [OF assms(1)] assms(2) show ?thesis
    unfolding tag_def [symmetric] by (subst walks_from.simps) (simp add: Let_def number_ok_def cong: option.case_cong list.case_cong)
qed

text \<open>The parts of a field that is no group.\<close>

lemma flat_parts:
  assumes "field_ok f" "\<not> is_group f" "drop off data = wire_bytes f @ rest"
  obtains (Varint) n v where "f = VarintField n v" "number_ok n" "drop off data = varint (n * 8 + 0) @ varint v @ rest"
      "varint64 data (off + length (varint (n * 8))) = Some (v, off + length (wire_bytes f))"
      "\<exists>v'. readVarint data (off + length (varint (n * 8))) = Some (v', off + length (wire_bytes f))"
  | (Fixed64) n b where "f = Fixed64Field n b" "number_ok n" "drop off data = varint (n * 8 + 1) @ b @ rest"
      "off + length (wire_bytes f) = off + length (varint (n * 8 + 1)) + 8" "off + length (wire_bytes f) \<le> length data"
  | (Fixed32) n b where "f = Fixed32Field n b" "number_ok n" "drop off data = varint (n * 8 + 5) @ b @ rest"
      "off + length (wire_bytes f) = off + length (varint (n * 8 + 5)) + 4" "off + length (wire_bytes f) \<le> length data"
  | (Len) n b off2 where "f = LenField n b" "number_ok n" "drop off data = varint (n * 8 + 2) @ varint (length b) @ b @ rest"
      "varint32 data (off + length (varint (n * 8 + 2))) = Some (length b, off2)"
      "readVarint data (off + length (varint (n * 8 + 2))) = Some (length b, off2)"
      "off2 + length b = off + length (wire_bytes f)" "off + length (wire_bytes f) \<le> length data" "subarray data off2 (length b) = b"
proof -
  have fits: "off + length (wire_bytes f) \<le> length data" using drop_less [OF assms(3)] by (cases f) auto
  show thesis
  proof (cases f)
    case (VarintField n v)
    with assms have d: "drop off data = varint (n * 8 + 0) @ varint v @ rest" "number_ok n" "v < 2 ^ 64" by simp_all
    from varint64_reads [OF drop_off [OF d(1)] d(3)] have r: "varint64 data (off + length (varint (n * 8))) = Some (v, off + length (wire_bytes f))"
      using VarintField by (simp add: add.assoc)
    show thesis by (rule Varint [OF VarintField d(2,1) r varint64_masked [OF r]])
  next
    case (Fixed64Field n b)
    with assms fits show thesis by (intro Fixed64 [of n b]) simp_all
  next
    case (LenField n b)
    with assms have d: "drop off data = varint (n * 8 + 2) @ varint (length b) @ b @ rest" "number_ok n" "length b < 2 ^ 32" by simp_all
    note len = drop_off [OF d(1)]
    from subarray_drop [OF drop_off [OF len]] varint32_reads [OF len d(3)] readVarint_reads [OF len d(3)] LenField d fits show thesis
      by (intro Len [of n b]) (simp_all add: add.assoc)
  next
    case (GroupField n fs)
    with assms show thesis by simp
  next
    case (Fixed32Field n b)
    with assms fits show thesis by (intro Fixed32 [of n b]) simp_all
  qed
qed

interpretation walker: field_skipper walks_from "\<lambda>_. True" "\<lambda>_ _. True" "(#)"
proof
  fix groups f off data rest
  assume "field_ok f" "\<not> is_group f" "drop off data = wire_bytes f @ rest"
  then show "walks_from data off groups = walks_from data (off + length (wire_bytes f)) groups"
  proof (cases rule: flat_parts)
    case (Varint n v)
    with walks_tag [OF Varint(3,2)] show ?thesis by (simp add: Let_def)
  next
    case (Fixed64 n b)
    with walks_tag [OF Fixed64(3,2)] show ?thesis by (simp add: Let_def add.assoc)
  next
    case (Fixed32 n b)
    with walks_tag [OF Fixed32(3,2)] show ?thesis by (simp add: Let_def add.assoc)
  next
    case (Len n b off2)
    with walks_tag [OF Len(3,2)] show ?thesis by (simp add: Let_def add.assoc)
  qed
next
  fix n groups data off rest
  assume n: "number_ok n" and d: "drop off data = varint (n * 8 + 3) @ rest"
  from walks_tag [OF d n] show "walks_from data off groups = walks_from data (off + length (varint (n * 8 + 3))) (n # groups)"
    by (simp add: Let_def)
next
  fix n groups data off rest
  assume n: "number_ok n" and d: "drop off data = varint (n * 8 + 4) @ rest"
  from walks_tag [OF d n] show "walks_from data off (n # groups) = walks_from data (off + length (varint (n * 8 + 4))) groups"
    by (simp add: Let_def)
qed simp_all

lemma walks_message: "list_all field_ok fs \<Longrightarrow> walksAsMessage (wire_message fs)"
  using walker.skip_message [where s = "[]" and fs = fs and off = 0 and data = "wire_message fs" and rest = "[]"] by (simp add: walksAsMessage_def walks_from.simps)

end
