(* ===== verification/ProtoWireProps.thy ===== *)
theory ProtoWireProps
  imports WireGrammar
begin

text \<open>
  What the guards of the binary decoder accept, stated over the fields of a message instead of its bytes: the walker over later events, the
  guard of the envelope and the scan of a payload are each an interpretation of \<open>field_skipper\<close>, and each loop is characterised by a
  condition on the set of fields.
\<close>

subsection \<open>Events of a later protocol\<close>

lemma future_tag:
  assumes "drop off data = varint (n * 8 + t) @ rest" "number_ok n" "t < 8"
  shows "future_from data off groups future =
    (let off1 = off + length (varint (n * 8 + t)); knownHere = (groups = [] \<and> n \<in> set ENVELOPE_TAGS) in
     if t = 3 then \<not> knownHere \<and> future_from data off1 (n # groups) future
     else if t = 4 then (case groups of g # gs \<Rightarrow> g = n \<and> future_from data off1 gs future | [] \<Rightarrow> False)
     else if t = 0 then \<not> knownHere \<and> (case varint64 data off1 of None \<Rightarrow> False | Some (_, off2) \<Rightarrow> future_from data off2 groups future)
     else if t = 1 then \<not> knownHere \<and> off1 + 8 \<le> length data \<and> future_from data (off1 + 8) groups future
     else if t = 5 then \<not> knownHere \<and> off1 + 4 \<le> length data \<and> future_from data (off1 + 4) groups future
     else if t = 2 then
       (case varint32 data off1 of None \<Rightarrow> False
        | Some (len, off2) \<Rightarrow> off2 + len \<le> length data \<and> \<not> knownHere \<and> (groups = [] \<longrightarrow> walksAsMessage (subarray data off2 len)) \<and>
            future_from data (off2 + len) groups (if groups = [] then Suc future else future))
     else False)"
proof -
  define tag where "tag = n * 8 + t"
  have "tag div 8 = n" "tag mod 8 = t" using assms(3) by (simp_all add: tag_def)
  with reads_tag(1) [OF assms] drop_less [OF assms(1)] assms(2) show ?thesis
    unfolding tag_def [symmetric] by (subst future_from.simps) (simp add: Let_def number_ok_def cong: option.case_cong list.case_cong)
qed

interpretation future: field_skipper "\<lambda>data off (groups, future). future_from data off groups future" "\<lambda>s. fst s \<noteq> []"
  "\<lambda>n s. fst s \<noteq> [] \<or> n \<notin> set ENVELOPE_TAGS" "\<lambda>n s. (n # fst s, snd s)"
proof
  fix s :: "nat list \<times> nat" and f off data rest
  assume s: "fst s \<noteq> []" and "field_ok f" "\<not> is_group f" "drop off data = wire_bytes f @ rest"
  from this(2-) show "(case s of (groups, future) \<Rightarrow> future_from data off groups future) =
      (case s of (groups, future) \<Rightarrow> future_from data (off + length (wire_bytes f)) groups future)"
  proof (cases rule: flat_parts)
    case (Varint n v)
    with s future_tag [OF Varint(3,2)] show ?thesis by (cases s) (simp add: Let_def add.assoc)
  next
    case (Fixed64 n b)
    with s future_tag [OF Fixed64(3,2)] show ?thesis by (cases s) (simp add: Let_def add.assoc)
  next
    case (Fixed32 n b)
    with s future_tag [OF Fixed32(3,2)] show ?thesis by (cases s) (simp add: Let_def add.assoc)
  next
    case (Len n b off2)
    with s future_tag [OF Len(3,2)] show ?thesis by (cases s) (simp add: Let_def add.assoc)
  qed
next
  fix n and s :: "nat list \<times> nat" and data off rest
  assume "fst s \<noteq> [] \<or> n \<notin> set ENVELOPE_TAGS" and n: "number_ok n" and d: "drop off data = varint (n * 8 + 3) @ rest"
  with future_tag [OF d n] show "(case s of (groups, future) \<Rightarrow> future_from data off groups future) =
      (case (n # fst s, snd s) of (groups, future) \<Rightarrow> future_from data (off + length (varint (n * 8 + 3))) groups future)"
    by (auto simp: Let_def split: prod.split)
next
  fix n and s :: "nat list \<times> nat" and data off rest
  assume n: "number_ok n" and d: "drop off data = varint (n * 8 + 4) @ rest"
  from future_tag [OF d n] show "(case (n # fst s, snd s) of (groups, future) \<Rightarrow> future_from data off groups future) =
      (case s of (groups, future) \<Rightarrow> future_from data (off + length (varint (n * 8 + 4))) groups future)"
    by (auto simp: Let_def split: prod.split)
qed simp_all

lemma future_field:
  assumes "field_ok f" "drop off data = wire_bytes f @ rest"
  shows "future_from data off [] future =
    (wire_number f \<notin> set ENVELOPE_TAGS \<and>
     (case f of
        LenField n b \<Rightarrow> walksAsMessage b \<and> future_from data (off + length (wire_bytes f)) [] (Suc future)
      | _ \<Rightarrow> future_from data (off + length (wire_bytes f)) [] future))"
proof (cases "is_group f")
  case True
  then obtain n fs where f: "f = GroupField n fs" by (cases f) auto
  with assms have d: "drop off data = varint (n * 8 + 3) @ wire_message fs @ varint (n * 8 + 4) @ rest" "number_ok n"
    by (simp_all add: wire_message_def)
  show ?thesis
  proof (cases "n \<in> set ENVELOPE_TAGS")
    case True
    with f future_tag [OF d(1,2)] show ?thesis by (simp add: Let_def)
  next
    case False
    with f future.skip_group [where n = n and s = "([], future)" and fs = fs and off = off and data = data and rest = rest] assms show ?thesis by simp
  qed
next
  case False
  from assms(1) False assms(2) show ?thesis
  proof (cases rule: flat_parts)
    case (Varint n v)
    with future_tag [OF Varint(3,2)] show ?thesis by (auto simp: Let_def add.assoc)
  next
    case (Fixed64 n b)
    with future_tag [OF Fixed64(3,2)] show ?thesis by (auto simp: Let_def add.assoc)
  next
    case (Fixed32 n b)
    with future_tag [OF Fixed32(3,2)] show ?thesis by (auto simp: Let_def add.assoc)
  next
    case (Len n b off2)
    with future_tag [OF Len(3,2)] show ?thesis by (auto simp: Let_def add.assoc)
  qed
qed

lemma future_fields:
  "list_all field_ok fs \<Longrightarrow> drop off data = wire_message fs \<Longrightarrow>
     future_from data off [] future \<longleftrightarrow>
       (\<forall>f \<in> set fs. wire_number f \<notin> set ENVELOPE_TAGS) \<and> (\<forall>n b. LenField n b \<in> set fs \<longrightarrow> walksAsMessage b) \<and>
       (future > 0 \<or> (\<exists>n b. LenField n b \<in> set fs))"
proof (induction fs arbitrary: off future)
  case (Cons f fs)
  then have d: "drop off data = wire_bytes f @ wire_message fs" "field_ok f" by (simp_all add: wire_message_def)
  show ?case using Cons.IH [OF _ drop_off [OF d(1)]] Cons.prems(1)
    unfolding future_field [OF d(2,1)] by (cases f) auto
qed (simp add: wire_message_def future_from.simps)

lemma later_field: "n \<notin> set ENVELOPE_TAGS \<Longrightarrow> child_spec ENVELOPE_SCAN n = None"
  by (auto simp: child_spec_def ENVELOPE_SCAN_def ENVELOPE_TAGS_def)

lemma future_passes_guard: "future_from data off groups future \<Longrightarrow> envelope_from data off (length groups) []"
proof (induction "length data - off" arbitrary: off groups future rule: less_induct)
  case less
  show ?case
  proof (cases "length data \<le> off")
    case True
    with less.prems show ?thesis by (auto simp: future_from.simps [of data] envelope_from.simps [of data])
  next
    case False
    with less.prems have "varint32 data off \<noteq> None" by (cases "varint32 data off") (simp_all add: future_from.simps [of data off])
    then obtain tag off1 where t: "varint32 data off = Some (tag, off1)" by fastforce
    note masked = varint32_masked [OF t] and off1 = varint32_offset [OF t]
    note fut = less.prems [unfolded future_from.simps [of data off] t]
    have step: "future_from data off' groups' future' \<Longrightarrow> off1 \<le> off' \<Longrightarrow> envelope_from data off' (length groups') []" for off' groups' future'
      by (rule less.hyps [of _ groups' future']) (use off1 in auto)
    consider "tag mod 8 = 0" | "tag mod 8 = 1" | "tag mod 8 = 2" | "tag mod 8 = 3" | "tag mod 8 = 4" | "tag mod 8 = 5"
      using fut False by (auto simp: Let_def split: if_splits)
    then show ?thesis
    proof cases
      case 1
      with fut False obtain v off2 where v: "varint64 data off1 = Some (v, off2)" "future_from data off2 groups future"
        "\<not> (groups = [] \<and> tag div 8 \<in> set ENVELOPE_TAGS)" "tag div 8 \<noteq> 0" by (auto simp: Let_def split: option.splits if_splits)
      from varint64_masked [OF v(1)] obtain v' where "readVarint data off1 = Some (v', off2)" by blast
      with 1 v step [OF v(2)] varint64_offset [OF v(1)] False masked show ?thesis
        by (subst envelope_from.simps) (auto simp: Let_def)
    next
      case 2
      with fut False step [of "off1 + 8"] masked show ?thesis
        by (subst envelope_from.simps) (auto simp: Let_def split: if_splits)
    next
      case 3
      with fut False obtain len off2 where l: "varint32 data off1 = Some (len, off2)" "off2 + len \<le> length data"
        "\<not> (groups = [] \<and> tag div 8 \<in> set ENVELOPE_TAGS)" "tag div 8 \<noteq> 0"
        "future_from data (off2 + len) groups (if groups = [] then Suc future else future)"
        by (auto simp: Let_def split: option.splits if_splits)
      with step [OF l(5)] varint32_offset [OF l(1)] have "envelope_from data (off2 + len) (length groups) []" by simp
      with 3 l varint32_masked [OF l(1)] False masked later_field show ?thesis
        by (subst envelope_from.simps) (auto simp: Let_def)
    next
      case 4
      with fut False step [of off1 "tag div 8 # groups"] masked show ?thesis
        by (subst envelope_from.simps) (auto simp: Let_def split: if_splits)
    next
      case 5
      with fut False step [of off1] masked show ?thesis
        by (subst envelope_from.simps) (fastforce simp: Let_def split: if_splits list.splits)
    next
      case 6
      with fut False step [of "off1 + 4"] masked show ?thesis
        by (subst envelope_from.simps) (auto simp: Let_def split: if_splits)
    qed
  qed
qed

subsection \<open>The guard of the envelope\<close>

lemma envelope_tag:
  assumes "drop off data = varint (n * 8 + t) @ rest" "number_ok n" "t < 8"
  shows "envelope_from data off depth seen =
    (let off1 = off + length (varint (n * 8 + t)); known = (depth = 0 \<and> n \<in> set ENVELOPE_TAGS);
         seen' = (if known then set_add n seen else seen) in
     if t = 3 then envelope_from data off1 (Suc depth) seen
     else if t = 4 then depth \<noteq> 0 \<and> envelope_from data off1 (depth - 1) seen
     else if known \<and> seen \<noteq> [] \<and> n \<notin> set seen then False
     else if t = 0 then (case readVarint data off1 of None \<Rightarrow> False | Some (_, off2) \<Rightarrow> envelope_from data off2 depth seen')
     else if t = 1 then off1 + 8 \<le> length data \<and> envelope_from data (off1 + 8) depth seen'
     else if t = 2 then
       (case readVarint data off1 of None \<Rightarrow> False
        | Some (len, off2) \<Rightarrow> off2 + len \<le> length data \<and>
            (depth = 0 \<longrightarrow> (case child_spec ENVELOPE_SCAN n of None \<Rightarrow> True | Some childSpec \<Rightarrow> scanMessage (subarray data off2 len) childSpec)) \<and>
            envelope_from data (off2 + len) depth seen')
     else if t = 5 then off1 + 4 \<le> length data \<and> envelope_from data (off1 + 4) depth seen'
     else False)"
proof -
  define tag where "tag = n * 8 + t"
  have "tag div 8 = n" "tag mod 8 = t" using assms(3) by (simp_all add: tag_def)
  with reads_tag(2) [OF assms] drop_less [OF assms(1)] assms(2) show ?thesis
    unfolding tag_def [symmetric] by (subst envelope_from.simps) (simp add: Let_def number_ok_def cong: option.case_cong)
qed

interpretation envelope: field_skipper "\<lambda>data off (depth, seen). envelope_from data off depth seen" "\<lambda>s. fst s \<noteq> 0"
  "\<lambda>_ _. True" "\<lambda>_ s. (Suc (fst s), snd s)"
proof
  fix s :: "nat \<times> nat list" and f off data rest
  assume s: "fst s \<noteq> 0" and "field_ok f" "\<not> is_group f" "drop off data = wire_bytes f @ rest"
  from this(2-) show "(case s of (depth, seen) \<Rightarrow> envelope_from data off depth seen) =
      (case s of (depth, seen) \<Rightarrow> envelope_from data (off + length (wire_bytes f)) depth seen)"
  proof (cases rule: flat_parts)
    case (Varint n v)
    with s envelope_tag [OF Varint(3,2)] show ?thesis by (cases s) (auto simp add: Let_def add.assoc)
  next
    case (Fixed64 n b)
    with s envelope_tag [OF Fixed64(3,2)] show ?thesis by (cases s) (simp add: Let_def add.assoc)
  next
    case (Fixed32 n b)
    with s envelope_tag [OF Fixed32(3,2)] show ?thesis by (cases s) (simp add: Let_def add.assoc)
  next
    case (Len n b off2)
    with s envelope_tag [OF Len(3,2)] show ?thesis by (cases s) (simp add: Let_def add.assoc)
  qed
next
  fix n and s :: "nat \<times> nat list" and data off rest
  assume n: "number_ok n" and d: "drop off data = varint (n * 8 + 3) @ rest"
  from envelope_tag [OF d n] show "(case s of (depth, seen) \<Rightarrow> envelope_from data off depth seen) =
      (case (Suc (fst s), snd s) of (depth, seen) \<Rightarrow> envelope_from data (off + length (varint (n * 8 + 3))) depth seen)"
    by (auto simp: Let_def split: prod.split)
next
  fix n and s :: "nat \<times> nat list" and data off rest
  assume n: "number_ok n" and d: "drop off data = varint (n * 8 + 4) @ rest"
  from envelope_tag [OF d n] show "(case (Suc (fst s), snd s) of (depth, seen) \<Rightarrow> envelope_from data off depth seen) =
      (case s of (depth, seen) \<Rightarrow> envelope_from data (off + length (varint (n * 8 + 4))) depth seen)"
    by (auto simp: Let_def split: prod.split)
qed simp_all

text \<open>A field that names an event this build knows.\<close>

definition known_arm :: "wire_field \<Rightarrow> bool" where
  "known_arm f \<longleftrightarrow> \<not> is_group f \<and> wire_number f \<in> set ENVELOPE_TAGS"

text \<open>The payload of such a field scans.\<close>

definition payload_scans :: "wire_field \<Rightarrow> bool" where
  "payload_scans f =
     (case f of
        LenField n b \<Rightarrow> (case child_spec ENVELOPE_SCAN n of None \<Rightarrow> True | Some spec \<Rightarrow> scanMessage b spec)
      | _ \<Rightarrow> True)"

lemma envelope_field:
  assumes "field_ok f" "drop off data = wire_bytes f @ rest"
  shows "envelope_from data off 0 seen =
    ((known_arm f \<longrightarrow> seen = [] \<or> wire_number f \<in> set seen) \<and> payload_scans f \<and>
     envelope_from data (off + length (wire_bytes f)) 0 (if known_arm f then set_add (wire_number f) seen else seen))"
proof (cases "is_group f")
  case True
  then obtain n fs where f: "f = GroupField n fs" by (cases f) auto
  with envelope.skip_group [where n = n and s = "(0, seen)" and fs = fs and off = off and data = data and rest = rest] assms
  show ?thesis by (simp add: known_arm_def payload_scans_def)
next
  case False
  from assms(1) False assms(2) show ?thesis
  proof (cases rule: flat_parts)
    case (Varint n v)
    with envelope_tag [OF Varint(3,2)] show ?thesis by (auto simp: Let_def add.assoc known_arm_def payload_scans_def)
  next
    case (Fixed64 n b)
    with envelope_tag [OF Fixed64(3,2)] show ?thesis by (auto simp: Let_def add.assoc known_arm_def payload_scans_def)
  next
    case (Fixed32 n b)
    with envelope_tag [OF Fixed32(3,2)] show ?thesis by (auto simp: Let_def add.assoc known_arm_def payload_scans_def)
  next
    case (Len n b off2)
    with envelope_tag [OF Len(3,2), of 0 seen] show ?thesis
      by (simp add: Let_def add.assoc known_arm_def payload_scans_def split: option.split)
  qed
qed

lemma envelope_fields:
  "list_all field_ok fs \<Longrightarrow> drop off data = wire_message fs \<Longrightarrow> length seen \<le> 1 \<Longrightarrow>
     envelope_from data off 0 seen \<longleftrightarrow>
       (\<exists>k. set seen \<subseteq> {k} \<and> (\<forall>f \<in> set fs. known_arm f \<longrightarrow> wire_number f = k)) \<and> (\<forall>f \<in> set fs. payload_scans f)"
proof (induction fs arbitrary: off seen)
  case Nil
  then have "seen = [] \<or> (\<exists>k. seen = [k])" by (cases seen) auto
  with Nil show ?case by (auto simp: wire_message_def envelope_from.simps)
next
  case (Cons f fs)
  then have d: "drop off data = wire_bytes f @ wire_message fs" "field_ok f" by (simp_all add: wire_message_def)
  have seen: "seen = [] \<or> (\<exists>k. seen = [k])" using Cons.prems(3) by (cases seen) auto
  let ?seen = "if known_arm f then set_add (wire_number f) seen else seen"
  show ?case
  proof (cases "known_arm f \<and> seen \<noteq> [] \<and> wire_number f \<notin> set seen")
    case True
    with seen show ?thesis unfolding envelope_field [OF d(2,1)] by auto
  next
    case False
    with seen have "length ?seen \<le> 1" by (auto simp: set_add_def)
    from Cons.IH [OF _ drop_off [OF d(1)] this] Cons.prems(1) False seen show ?thesis
      unfolding envelope_field [OF d(2,1)] by (auto simp: set_add_def)
  qed
qed

subsection \<open>The scan of a payload\<close>

lemma scan_tag:
  assumes "drop off data = varint (n * 8 + t) @ rest" "number_ok n" "t < 8"
  shows "scan_from data spec off depth arm =
    (let off1 = off + length (varint (n * 8 + t)) in
     if t = 3 then scan_from data spec off1 (Suc depth) arm
     else if t = 4 then depth \<noteq> 0 \<and> scan_from data spec off1 (depth - 1) arm
     else if t = 0 then (case readVarint data off1 of None \<Rightarrow> False | Some (_, off2) \<Rightarrow> scan_from data spec off2 depth arm)
     else if t = 1 then off1 + 8 \<le> length data \<and> scan_from data spec (off1 + 8) depth arm
     else if t = 2 then
       (case readVarint data off1 of None \<Rightarrow> False
        | Some (len, off2) \<Rightarrow> off2 + len \<le> length data \<and>
            (let isArm = (depth = 0 \<and> n \<in> set (arms spec)) in
             (isArm \<longrightarrow> arm = 0 \<or> arm = n) \<and>
             (depth = 0 \<longrightarrow> (case child_spec (descend spec) n of None \<Rightarrow> True | Some childSpec \<Rightarrow> scanMessage (subarray data off2 len) childSpec)) \<and>
             scan_from data spec (off2 + len) depth (if isArm then n else arm)))
     else if t = 5 then off1 + 4 \<le> length data \<and> scan_from data spec (off1 + 4) depth arm
     else False)"
proof -
  define tag where "tag = n * 8 + t"
  have "tag div 8 = n" "tag mod 8 = t" using assms(3) by (simp_all add: tag_def)
  with reads_tag(2) [OF assms] drop_less [OF assms(1)] assms(2) show ?thesis
    unfolding tag_def [symmetric] by (subst scan_from.simps) (simp add: Let_def number_ok_def scanMessage_def cong: option.case_cong)
qed

interpretation scanner: field_skipper "\<lambda>data off (depth, arm). scan_from data spec off depth arm" "\<lambda>s. fst s \<noteq> 0"
  "\<lambda>_ _. True" "\<lambda>_ s. (Suc (fst s), snd s)" for spec
proof
  fix s :: "nat \<times> nat" and f off data rest
  assume s: "fst s \<noteq> 0" and "field_ok f" "\<not> is_group f" "drop off data = wire_bytes f @ rest"
  from this(2-) show "(case s of (depth, arm) \<Rightarrow> scan_from data spec off depth arm) =
      (case s of (depth, arm) \<Rightarrow> scan_from data spec (off + length (wire_bytes f)) depth arm)"
  proof (cases rule: flat_parts)
    case (Varint n v)
    with s scan_tag [OF Varint(3,2)] show ?thesis by (cases s) (auto simp add: Let_def add.assoc)
  next
    case (Fixed64 n b)
    with s scan_tag [OF Fixed64(3,2)] show ?thesis by (cases s) (simp add: Let_def add.assoc)
  next
    case (Fixed32 n b)
    with s scan_tag [OF Fixed32(3,2)] show ?thesis by (cases s) (simp add: Let_def add.assoc)
  next
    case (Len n b off2)
    with s scan_tag [OF Len(3,2)] show ?thesis by (cases s) (simp add: Let_def add.assoc)
  qed
next
  fix n and s :: "nat \<times> nat" and data off rest
  assume n: "number_ok n" and d: "drop off data = varint (n * 8 + 3) @ rest"
  from scan_tag [OF d n] show "(case s of (depth, arm) \<Rightarrow> scan_from data spec off depth arm) =
      (case (Suc (fst s), snd s) of (depth, arm) \<Rightarrow> scan_from data spec (off + length (varint (n * 8 + 3))) depth arm)"
    by (auto simp: Let_def split: prod.split)
next
  fix n and s :: "nat \<times> nat" and data off rest
  assume n: "number_ok n" and d: "drop off data = varint (n * 8 + 4) @ rest"
  from scan_tag [OF d n] show "(case (Suc (fst s), snd s) of (depth, arm) \<Rightarrow> scan_from data spec off depth arm) =
      (case s of (depth, arm) \<Rightarrow> scan_from data spec (off + length (varint (n * 8 + 4))) depth arm)"
    by (auto simp: Let_def split: prod.split)
qed simp_all

text \<open>The arm of a oneof a field sets, or 0; and whether the message in it scans.\<close>

fun arm_of :: "scan_spec \<Rightarrow> wire_field \<Rightarrow> nat" where
  "arm_of spec (LenField n _) = (if n \<in> set (arms spec) then n else 0)"
| "arm_of spec _ = 0"

fun child_scans :: "scan_spec \<Rightarrow> wire_field \<Rightarrow> bool" where
  "child_scans spec (LenField n b) = (case child_spec (descend spec) n of None \<Rightarrow> True | Some s \<Rightarrow> scanMessage b s)"
| "child_scans spec _ = True"

lemma scan_field:
  assumes "field_ok f" "drop off data = wire_bytes f @ rest"
  shows "scan_from data spec off 0 arm =
    ((arm_of spec f \<noteq> 0 \<longrightarrow> arm = 0 \<or> arm = arm_of spec f) \<and> child_scans spec f \<and>
     scan_from data spec (off + length (wire_bytes f)) 0 (if arm_of spec f \<noteq> 0 then arm_of spec f else arm))"
proof (cases "is_group f")
  case True
  then obtain n fs where f: "f = GroupField n fs" by (cases f) auto
  with scanner.skip_group [where n = n and s = "(0, arm)" and fs = fs and off = off and data = data and rest = rest] assms
  show ?thesis by simp
next
  case False
  from assms(1) False assms(2) show ?thesis
  proof (cases rule: flat_parts)
    case (Varint n v)
    with scan_tag [OF Varint(3,2)] show ?thesis by (auto simp: Let_def add.assoc)
  next
    case (Fixed64 n b)
    with scan_tag [OF Fixed64(3,2)] show ?thesis by (auto simp: Let_def add.assoc)
  next
    case (Fixed32 n b)
    with scan_tag [OF Fixed32(3,2)] show ?thesis by (auto simp: Let_def add.assoc)
  next
    case (Len n b off2)
    with scan_tag [OF Len(3,2), of spec 0 arm] show ?thesis
      by (simp add: Let_def add.assoc number_ok_def split: option.split)
  qed
qed

lemma scan_fields:
  "list_all field_ok fs \<Longrightarrow> drop off data = wire_message fs \<Longrightarrow>
     scan_from data spec off 0 arm \<longleftrightarrow>
       (\<exists>k. (arm = 0 \<or> arm = k) \<and> (\<forall>f \<in> set fs. arm_of spec f \<in> {0, k})) \<and> (\<forall>f \<in> set fs. child_scans spec f)"
proof (induction fs arbitrary: off arm)
  case (Cons f fs)
  then have d: "drop off data = wire_bytes f @ wire_message fs" "field_ok f" by (simp_all add: wire_message_def)
  show ?case using Cons.IH [OF _ drop_off [OF d(1)]] Cons.prems(1) unfolding scan_field [OF d(2,1)] by auto
qed (auto simp: wire_message_def scan_from.simps)

subsection \<open>What the guards promise\<close>



text \<open>
  C28. The guard of the envelope accepts a message exactly when all its fields that name an event of this build have one and the same
  number (the oneof is set once, in one or several chunks) and the payload of each of them scans against its table.
\<close>

theorem envelope_guard:
  assumes "list_all field_ok fs"
  shows "assertWellFormedEnvelope (wire_message fs) \<longleftrightarrow>
    (\<exists>k. \<forall>f \<in> set fs. known_arm f \<longrightarrow> wire_number f = k) \<and> (\<forall>f \<in> set fs. payload_scans f)"
  using envelope_fields [OF assms, of 0 _ "[]"] by (simp add: assertWellFormedEnvelope_def)

lemma envelope_guard_witness:
  "\<not> assertWellFormedEnvelope (wire_message [LenField 1 [], LenField 2 []])"
  by (subst envelope_guard) (auto simp: number_ok_def known_arm_def ENVELOPE_TAGS_def)

text \<open>
  A payload scans exactly when at most one arm of its oneof occurs among its fields and every message field the table follows scans
  against the table of its type.
\<close>

theorem payload_guard:
  assumes "list_all field_ok fs"
  shows "scanMessage (wire_message fs) spec \<longleftrightarrow>
    (\<exists>k. \<forall>f \<in> set fs. arm_of spec f \<in> {0, k}) \<and> (\<forall>f \<in> set fs. child_scans spec f)"
  using scan_fields [OF assms, of 0 _ spec 0] by (simp add: scanMessage_def)

lemma payload_guard_witness:
  "\<not> scanMessage (wire_message [LenField 1 [], LenField 2 []])
     \<lparr>singular = [1, 2], descend = [], google = [], arms = [1, 2], armWireTypes = []\<rparr>"
  by (subst payload_guard) (auto simp: number_ok_def)

text \<open>
  Whatever bytes count as an event of a later protocol also pass the guard of the envelope: the decoder never reports an event it
  should skip as broken, since the guard it runs first lets it through.
\<close>

theorem future_survives: "namesOnlyFutureArms data \<Longrightarrow> assertWellFormedEnvelope data"
  using future_passes_guard [of data 0 "[]" 0] by (simp add: namesOnlyFutureArms_def assertWellFormedEnvelope_def)

lemma future_survives_witness: "assertWellFormedEnvelope (wire_message [LenField 40 []])"
proof (rule future_survives)
  have "walksAsMessage []" using walks_message [of "[]"] by (simp add: wire_message_def)
  then have "future_from (wire_message [LenField 40 []]) 0 [] 0"
    by (subst future_fields [of "[LenField 40 []]"]) (auto simp: number_ok_def ENVELOPE_TAGS_def)
  then show "namesOnlyFutureArms (wire_message [LenField 40 []])" by (simp add: namesOnlyFutureArms_def)
qed

end
