(* ===== verification/ProtoCodec.thy ===== *)
theory ProtoCodec
  imports ProtoWire Serialize Metadata MediaType Schemas
begin

text \<open>
  The binary codec of events, \<^verbatim>\<open>proto/src/proto.ts\<close>: the conversion between events and the records of the wire schema, the merging of repeated
  message fields, \<open>encode_event\<close> and \<open>decode_event\<close>. The protobuf runtime and the code \<^verbatim>\<open>ts-proto\<close> generated for it are the parameters of
  \<open>proto_runtime\<close>, and so is the schema validation. Errors carry the message that is thrown; warnings are left out. Deleting a member is
  deleting it from a value, as what is decoded is nobody else's.
\<close>

subsection \<open>Values\<close>

definition asRecord :: "jsval \<Rightarrow> jsobj option" where
  "asRecord v = (case v of JObj m \<Rightarrow> Some m | JArr vs \<Rightarrow> Some (own_props v) | _ \<Rightarrow> None)"

definition record_or_empty :: "jsval \<Rightarrow> jsobj" where
  "record_or_empty v = (case asRecord v of Some m \<Rightarrow> m | None \<Rightarrow> [])"

definition normalizeMetadata :: "jsval \<Rightarrow> jsval" where
  "normalizeMetadata metadata = (case metadata of JObj _ \<Rightarrow> metadata | _ \<Rightarrow> JUndef)"

text \<open>\<^verbatim>\<open>delete\<close> for every key that holds \<^verbatim>\<open>undefined\<close>.\<close>

definition drop_undefined :: "jsobj \<Rightarrow> jsobj" where
  "drop_undefined m = foldl (\<lambda>ob k. if oget ob k = JUndef then odel k ob else ob) m (map fst m)"

lemma drop_undefined_subset: "set (drop_undefined m) \<subseteq> set m"
proof -
  have "set (foldl (\<lambda>ob k. if oget ob k = JUndef then odel k ob else ob) m ks) \<subseteq> set m" for ks
    by (induction ks rule: rev_induct) (auto simp: odel_def AList.delete_eq)
  then show ?thesis by (simp add: drop_undefined_def)
qed

function dropUndefinedDeep :: "jsval \<Rightarrow> jsval" where
  "dropUndefinedDeep (JArr vs) = JArr (map dropUndefinedDeep vs)"
| "dropUndefinedDeep (JObj m) = JObj (map (\<lambda>(k, v). (k, dropUndefinedDeep v)) (drop_undefined m))"
| "dropUndefinedDeep JUndef = JUndef"
| "dropUndefinedDeep JNull = JNull"
| "dropUndefinedDeep (JBool b) = JBool b"
| "dropUndefinedDeep (JNum n) = JNum n"
| "dropUndefinedDeep (JStr s) = JStr s"
  by pat_completeness auto
termination
proof (relation "measure size")
  fix m :: jsobj and k v x
  assume "x \<in> set (drop_undefined m)" "(k, v) = x"
  with drop_undefined_subset have "(k, v) \<in> set m" by blast
  then show "(v, JObj m) \<in> measure size" by (induction m) auto
qed (auto simp: less_Suc_eq_le size_list_estimation')

subsection \<open>Sources and content parts\<close>

definition toProtoSource :: "jsval \<Rightarrow> jsval" where
  "toProtoSource source =
     (let common = [(''value'', jget source ''value''), (''mimeType'', jget source ''mimeType'')] in
      if jget source ''type'' = JStr ''data'' then JObj [(''data'', JObj common)]
      else if jget source ''type'' = JStr ''url'' then JObj [(''url'', JObj common)]
      else if jget source ''type'' = JStr ''file'' then
        JObj [(''file'', JObj [(''value'', jget source ''value''), (''provider'', jget source ''provider''),
                               (''mimeType'', jget source ''mimeType'')])]
      else JUndef)"

definition populated :: "string list \<Rightarrow> jsobj \<Rightarrow> string list" where
  "populated keys m = filter (\<lambda>k. truthy (oget m k)) keys"

definition fromProtoSource :: "jsval \<Rightarrow> string + jsval" where
  "fromProtoSource source =
     (case asRecord source of
        None \<Rightarrow> Inr JUndef
      | Some m \<Rightarrow>
          (if length (populated [''data'', ''url'', ''file''] m) > 1 then Inl ''Invalid event: source carries more than one arm''
           else if truthy (oget m ''data'') then
             Inr (JObj [(''type'', JStr ''data''), (''value'', jget (oget m ''data'') ''value''), (''mimeType'', jget (oget m ''data'') ''mimeType'')])
           else if truthy (oget m ''url'') then
             Inr (JObj [(''type'', JStr ''url''), (''value'', jget (oget m ''url'') ''value''), (''mimeType'', jget (oget m ''url'') ''mimeType'')])
           else if truthy (oget m ''file'') then
             Inr (JObj [(''type'', JStr ''file''), (''value'', jget (oget m ''file'') ''value''),
                        (''provider'', jget (oget m ''file'') ''provider''), (''mimeType'', jget (oget m ''file'') ''mimeType'')])
           else Inr JUndef))"

definition media_kinds :: "string list" where
  "media_kinds = [''image'', ''audio'', ''video'', ''document'']"

text \<open>The retired binary part rides as a document, its source the first of its data, its URL and its id.\<close>

definition binary_part :: "jsval \<Rightarrow> jsval" where
  "binary_part part =
     (let mimeType = (''mimeType'', jget part ''mimeType'');
          source = (if truthy (jget part ''data'') then JObj [(''data'', JObj [(''value'', jget part ''data''), mimeType])]
                    else if truthy (jget part ''url'') then JObj [(''url'', JObj [(''value'', jget part ''url''), mimeType])]
                    else if truthy (jget part ''id'') then JObj [(''url'', JObj [(''value'', jget part ''id''), mimeType])]
                    else JUndef)
      in if source = JUndef then JUndef
         else JObj [(''document'', JObj [(''source'', source),
                (''metadata'', JObj [(''legacyBinary'', JBool True), (''filename'', jget part ''filename''), (''id'', jget part ''id'')])])])"

definition toProtoContentPart :: "jsval \<Rightarrow> jsval" where
  "toProtoContentPart part =
     (case jget part ''type'' of
        JStr t \<Rightarrow>
          (if t = ''text'' then
             JObj [(''text'', JObj [(''id'', jget part ''id''), (''text'', jget part ''text''), (''metadata'', jget part ''metadata'')])]
           else if t \<in> set media_kinds then
             JObj [(t, JObj [(''id'', jget part ''id''), (''source'', toProtoSource (jget part ''source'')), (''metadata'', jget part ''metadata'')])]
           else if t = ''binary'' then binary_part part
           else JUndef)
      | _ \<Rightarrow> JUndef)"

definition from_media :: "string \<Rightarrow> jsval \<Rightarrow> string + jsval" where
  "from_media kind part =
     andThen (fromProtoSource (jget part ''source'')) (\<lambda>source.
       if jget part ''source'' \<noteq> JUndef \<and> source = JUndef then Inr JUndef
       else Inr (JObj [(''type'', JStr kind), (''id'', jget part ''id''), (''source'', source), (''metadata'', jget part ''metadata'')]))"

definition fromProtoContentPart :: "jsval \<Rightarrow> string + jsval" where
  "fromProtoContentPart part =
     (case asRecord part of
        None \<Rightarrow> Inr JUndef
      | Some m \<Rightarrow>
          (if length (populated (''text'' # media_kinds) m) > 1 then Inl ''Invalid event: content part carries more than one arm''
           else if truthy (oget m ''text'') then
             (let part = oget m ''text'' in
              Inr (JObj [(''type'', JStr ''text''), (''id'', jget part ''id''), (''text'', jget part ''text''), (''metadata'', jget part ''metadata'')]))
           else case populated media_kinds m of
             kind # _ \<Rightarrow> from_media kind (oget m kind)
           | [] \<Rightarrow> Inr JUndef))"

text \<open>The parts of a content array, in both directions: a part without a form is dropped.\<close>

definition to_parts :: "jsval list \<Rightarrow> jsval" where
  "to_parts parts = JArr (filter (\<lambda>p. p \<noteq> JUndef) (map toProtoContentPart parts))"

definition from_parts :: "jsval list \<Rightarrow> string + jsval" where
  "from_parts parts = andThen (collect fromProtoContentPart parts) (\<lambda>ps. Inr (JArr (filter (\<lambda>p. p \<noteq> JUndef) ps)))"

subsection \<open>Messages\<close>

definition MAP_CONTENT_ROLES :: "string list" where "MAP_CONTENT_ROLES = [''activity'']"
definition PARTS_CONTENT_ROLES :: "string list" where "PARTS_CONTENT_ROLES = [''user'', ''tool'']"

definition KNOWN_ROLES :: "string list" where
  "KNOWN_ROLES = [''developer'', ''system'', ''assistant'', ''user'', ''tool'', ''activity'', ''reasoning'']"

definition normalizeItemMetadata :: "jsval \<Rightarrow> jsval" where
  "normalizeItemMetadata v = JObj (oset ''metadata'' (normalizeMetadata (jget v ''metadata'')) (record_or_empty v))"

definition toWireToolCall :: "jsval \<Rightarrow> jsval" where
  "toWireToolCall v = JObj (oset ''metadata'' (normalizeMetadata (jget v ''metadata'')) (own_props v))"

definition toWireMessage :: "jsval \<Rightarrow> jsval" where
  "toWireMessage value =
     (let message = record_or_empty value;
          wire = oset ''toolCalls'' (JArr (map toWireToolCall (arr_items (oget message ''toolCalls''))))
                   (oset ''metadata'' (normalizeMetadata (oget message ''metadata''))
                      (oset ''contentParts'' (JArr []) message))
      in JObj (case oget message ''content'' of
           JArr parts \<Rightarrow> oset ''content'' JUndef (oset ''contentParts'' (to_parts parts) wire)
         | content \<Rightarrow>
             (if oget message ''role'' \<in> JStr ` set MAP_CONTENT_ROLES
              then oset ''content'' JUndef
                     (oset ''activityContent'' (if normalizeMetadata content = JUndef then JObj [] else normalizeMetadata content) wire)
              else wire)))"

definition has_content :: "jsobj \<Rightarrow> bool" where "has_content wire = (oget wire ''content'' \<noteq> JUndef)"
definition has_parts :: "jsobj \<Rightarrow> bool" where "has_parts wire = (arr_items (oget wire ''contentParts'') \<noteq> [])"
definition has_map :: "jsobj \<Rightarrow> bool" where "has_map wire = (oget wire ''activityContent'' \<noteq> JUndef)"

definition usesParts :: "string \<Rightarrow> jsobj \<Rightarrow> bool" where
  "usesParts role wire = (if role \<in> set KNOWN_ROLES then role \<in> set PARTS_CONTENT_ROLES else has_parts wire)"

definition usesMap :: "string \<Rightarrow> jsobj \<Rightarrow> bool" where
  "usesMap role wire = (if role \<in> set KNOWN_ROLES then role \<in> set MAP_CONTENT_ROLES else \<not> usesParts role wire \<and> has_map wire)"

definition carrier_error :: "string \<Rightarrow> jsobj \<Rightarrow> string option" where
  "carrier_error role wire =
     (if role \<notin> set KNOWN_ROLES then
        (if of_bool (has_content wire) + of_bool (has_parts wire) + of_bool (has_map wire) > (1 :: nat)
         then Some ''Invalid event: message carries more than one content form'' else None)
      else if \<not> usesParts role wire \<and> has_parts wire
      then Some ''Invalid event: message carries content parts for a role that has none''
      else if has_map wire \<and> \<not> usesMap role wire
      then Some ''Invalid event: message carries activity content for a non-activity role''
      else if usesMap role wire \<and> has_content wire
      then Some ''Invalid event: activity content cannot ride with other content forms''
      else if usesParts role wire \<and> has_content wire \<and> has_parts wire
      then Some ''Invalid event: message carries both string content and content parts''
      else None)"

definition fromWireMessage :: "jsval \<Rightarrow> string + jsval" where
  "fromWireMessage value =
     (let wire = record_or_empty value;
          role = (case oget wire ''role'' of JStr s \<Rightarrow> s | _ \<Rightarrow> [])
      in case carrier_error role wire of
           Some e \<Rightarrow> Inl e
         | None \<Rightarrow>
             andThen (if usesParts role wire \<and> \<not> has_content wire
                      then andThen (from_parts (arr_items (oget wire ''contentParts''))) (\<lambda>parts. Inr (oset ''content'' parts wire))
                      else Inr wire) (\<lambda>message.
               let message1 = (if usesMap role wire \<and> has_map wire then oset ''content'' (oget wire ''activityContent'') message else message);
                   message2 = odel ''contentParts'' (odel ''activityContent'' message1);
                   message3 = (if arr_items (oget wire ''toolCalls'') = [] then odel ''toolCalls'' message2 else message2)
               in Inr (JObj (drop_undefined message3))))"

subsection \<open>Run input\<close>

definition toWireRunAgentInput :: "jsval \<Rightarrow> jsval" where
  "toWireRunAgentInput value =
     (case asRecord value of
        None \<Rightarrow> JUndef
      | Some input \<Rightarrow>
          JObj [(''threadId'', oget input ''threadId''), (''runId'', oget input ''runId''),
            (''protocolVersion'', oget input ''protocolVersion''), (''parentRunId'', oget input ''parentRunId''),
            (''state'', oget input ''state''),
            (''messages'', JArr (map toWireMessage (arr_items (oget input ''messages'')))),
            (''tools'', JArr (map normalizeItemMetadata (arr_items (oget input ''tools'')))),
            (''context'', JArr (arr_items (oget input ''context''))),
            (''forwardedProps'', oget input ''forwardedProps''),
            (''resume'', JArr (map normalizeItemMetadata (arr_items (oget input ''resume''))))])"

definition fromWireRunAgentInput :: "jsval \<Rightarrow> string + jsval" where
  "fromWireRunAgentInput value =
     (case asRecord value of
        None \<Rightarrow> Inr JUndef
      | Some m \<Rightarrow>
          andThen (collect fromWireMessage (arr_items (oget m ''messages''))) (\<lambda>ms.
            Inr (JObj (opt_prop ''threadId'' (oget m ''threadId'') @ opt_prop ''runId'' (oget m ''runId'') @
              opt_prop ''protocolVersion'' (oget m ''protocolVersion'') @ opt_prop ''parentRunId'' (oget m ''parentRunId'') @
              opt_prop ''state'' (oget m ''state'') @
              [(''messages'', JArr (filter (\<lambda>v. v \<noteq> JUndef) ms)), (''tools'', JArr (arr_items (oget m ''tools''))),
               (''context'', JArr (arr_items (oget m ''context'')))] @
              opt_prop ''forwardedProps'' (oget m ''forwardedProps'') @ [(''resume'', JArr (arr_items (oget m ''resume'')))]))))"

subsection \<open>Enumerations\<close>

text \<open>A TypeScript enumeration is an object with its names and, the other way round, its numbers.\<close>

definition enum_object :: "(string \<times> int) list \<Rightarrow> jsobj" where
  "enum_object names = concat (map (\<lambda>(s, n). [(s, JNum n), (int_str n, JStr s)]) names)"

definition JsonPatchOperationType :: "(string \<times> int) list" where
  "JsonPatchOperationType =
     [(''ADD'', 0), (''REMOVE'', 1), (''REPLACE'', 2), (''MOVE'', 3), (''COPY'', 4), (''TEST'', 5), (''UNRECOGNIZED'', -1)]"

definition WireEventType :: "(string \<times> int) list" where
  "WireEventType =
     [(''TEXT_MESSAGE_START'', 0), (''TEXT_MESSAGE_CONTENT'', 1), (''TEXT_MESSAGE_END'', 2), (''TOOL_CALL_START'', 3),
      (''TOOL_CALL_ARGS'', 4), (''TOOL_CALL_END'', 5), (''STATE_SNAPSHOT'', 6), (''STATE_DELTA'', 7), (''MESSAGES_SNAPSHOT'', 8),
      (''RAW'', 9), (''CUSTOM'', 10), (''RUN_STARTED'', 11), (''RUN_FINISHED'', 12), (''RUN_ERROR'', 13), (''STEP_STARTED'', 14),
      (''STEP_FINISHED'', 15), (''SUBAGENT_STARTED'', 16), (''SUBAGENT_FINISHED'', 17), (''SUBAGENT_ERROR'', 18),
      (''TEXT_MESSAGE_CHUNK'', 19), (''TOOL_CALL_CHUNK'', 20), (''TOOL_CALL_RESULT'', 21), (''ACTIVITY_SNAPSHOT'', 22),
      (''ACTIVITY_DELTA'', 23), (''REASONING_START'', 24), (''REASONING_MESSAGE_START'', 25), (''REASONING_MESSAGE_CONTENT'', 26),
      (''REASONING_MESSAGE_END'', 27), (''REASONING_MESSAGE_CHUNK'', 28), (''REASONING_END'', 29),
      (''REASONING_ENCRYPTED_VALUE'', 30), (''UNRECOGNIZED'', -1)]"

definition ENVELOPE_TYPE :: "(string \<times> string) list" where
  "ENVELOPE_TYPE =
     [(''textMessageStart'', ''TEXT_MESSAGE_START''), (''textMessageContent'', ''TEXT_MESSAGE_CONTENT''),
      (''textMessageEnd'', ''TEXT_MESSAGE_END''), (''textMessageChunk'', ''TEXT_MESSAGE_CHUNK''),
      (''toolCallStart'', ''TOOL_CALL_START''), (''toolCallArgs'', ''TOOL_CALL_ARGS''), (''toolCallEnd'', ''TOOL_CALL_END''),
      (''toolCallChunk'', ''TOOL_CALL_CHUNK''), (''toolCallResult'', ''TOOL_CALL_RESULT''), (''stateSnapshot'', ''STATE_SNAPSHOT''),
      (''stateDelta'', ''STATE_DELTA''), (''messagesSnapshot'', ''MESSAGES_SNAPSHOT''), (''activitySnapshot'', ''ACTIVITY_SNAPSHOT''),
      (''activityDelta'', ''ACTIVITY_DELTA''), (''raw'', ''RAW''), (''custom'', ''CUSTOM''), (''runStarted'', ''RUN_STARTED''),
      (''runFinished'', ''RUN_FINISHED''), (''runError'', ''RUN_ERROR''), (''stepStarted'', ''STEP_STARTED''),
      (''stepFinished'', ''STEP_FINISHED''), (''reasoningStart'', ''REASONING_START''),
      (''reasoningMessageStart'', ''REASONING_MESSAGE_START''), (''reasoningMessageContent'', ''REASONING_MESSAGE_CONTENT''),
      (''reasoningMessageEnd'', ''REASONING_MESSAGE_END''), (''reasoningMessageChunk'', ''REASONING_MESSAGE_CHUNK''),
      (''reasoningEnd'', ''REASONING_END''), (''reasoningEncryptedValue'', ''REASONING_ENCRYPTED_VALUE''),
      (''subagentStarted'', ''SUBAGENT_STARTED''), (''subagentFinished'', ''SUBAGENT_FINISHED''), (''subagentError'', ''SUBAGENT_ERROR'')]"

text \<open>Letters beyond ASCII, which no name of an operation or event has, are left alone.\<close>

definition is_lower :: "char \<Rightarrow> bool" where
  "is_lower c = (of_char c \<in> {97..122 :: nat})"

definition upper_char :: "char \<Rightarrow> char" where
  "upper_char c = (if is_lower c then char_of (of_char c - 32 :: nat) else c)"

definition toUpperCase :: "string \<Rightarrow> string" where
  "toUpperCase s = map upper_char s"

fun camel :: "string \<Rightarrow> string" where
  "camel (c # d # s) = (if c = CHR ''_'' \<and> is_lower d then upper_char d # camel s else c # camel (d # s))"
| "camel s = s"

definition toCamelCase :: "string \<Rightarrow> string" where
  "toCamelCase s = camel (toLowerCase s)"


subsection \<open>The runtime\<close>

text \<open>
  \<^verbatim>\<open>BinaryReader\<close> at an offset: the number and wire type of the next field, its payload if it has a length, and the offset behind it; \<^verbatim>\<open>BinaryWriter\<close>
  for a field with a length; the generated codec of the envelope; and the validation of an event. \<open>None\<close> is an exception.
\<close>

record proto_runtime =
  read_field :: "bytes \<Rightarrow> nat \<Rightarrow> (nat \<times> nat \<times> bytes option \<times> nat) option"
  write_field :: "nat \<Rightarrow> bytes \<Rightarrow> bytes"
  encode_message :: "jsval \<Rightarrow> bytes"
  decode_message :: "bytes \<Rightarrow> jsobj option"
  parse_event :: "jsval \<Rightarrow> jsval option"

subsection \<open>Merging repeated message fields\<close>

record merge_entry =
  me_number :: nat
  me_raw :: bytes
  me_payloads :: "bytes list option"
  me_child :: "scan_spec option"

text \<open>The closure of the loop: entries cleared by a later arm are \<open>None\<close>.\<close>

record merge_state =
  mg_fields :: "merge_entry option list"
  mg_positions :: "(nat \<times> nat) list"
  mg_activeArm :: "nat option"
  mg_changed :: bool

definition init_merge :: merge_state where
  "init_merge = \<lparr>mg_fields = [], mg_positions = [], mg_activeArm = None, mg_changed = False\<rparr>"

text \<open>Forget the entry of a field.\<close>

definition clear_position :: "nat \<Rightarrow> merge_state \<Rightarrow> merge_state" where
  "clear_position number st =
     (case map_of (mg_positions st) number of
        Some p \<Rightarrow> st\<lparr>mg_fields := (mg_fields st)[p := None], mg_positions := AList.delete number (mg_positions st)\<rparr>
      | None \<Rightarrow> st)"

definition is_arm :: "scan_spec \<Rightarrow> nat \<Rightarrow> nat \<Rightarrow> bool" where
  "is_arm spec number wireType =
     (number \<in> set (arms spec) \<and> wireType = (case map_of (armWireTypes spec) number of Some t \<Rightarrow> t | None \<Rightarrow> 2))"

definition take_arm :: "scan_spec \<Rightarrow> nat \<Rightarrow> merge_state \<Rightarrow> merge_state" where
  "take_arm spec number st =
     (let st1 = (case mg_activeArm st of
            Some a \<Rightarrow> (if a \<noteq> number then (clear_position a st)\<lparr>mg_changed := True\<rparr> else st)
          | None \<Rightarrow> st);
          st2 = st1\<lparr>mg_activeArm := Some number\<rparr>
      in if number \<notin> set (singular spec) \<and> map_of (mg_positions st2) number \<noteq> None
         then (clear_position number st2)\<lparr>mg_changed := True\<rparr> else st2)"

definition child_name :: "scan_spec \<Rightarrow> nat \<Rightarrow> string option" where
  "child_name spec number = (case map_of (descend spec) number of Some c \<Rightarrow> Some c | None \<Rightarrow> map_of (google spec) number)"

definition merge_field :: "scan_spec \<Rightarrow> nat \<Rightarrow> nat \<Rightarrow> bytes option \<Rightarrow> bytes \<Rightarrow> merge_state \<Rightarrow> merge_state" where
  "merge_field spec number wireType payload raw st =
     (let isArm = is_arm spec number wireType;
          st1 = (if isArm then take_arm spec number st else st);
          child = child_name spec number;
          isMessage = (payload \<noteq> None \<and> (number \<in> set (singular spec) \<or> child \<noteq> None));
          previous = map_of (mg_positions st1) number;
          previousPayloads = (case previous of
              Some p \<Rightarrow> (case mg_fields st1 ! p of Some e \<Rightarrow> me_payloads e | None \<Rightarrow> None)
            | None \<Rightarrow> None)
      in case (if isMessage \<and> number \<in> set (singular spec) then previousPayloads else None) of
           Some ps \<Rightarrow>
             st1\<lparr>mg_fields := (mg_fields st1)[the previous := map_option (\<lambda>e. e\<lparr>me_payloads := Some (ps @ [the payload])\<rparr>) (mg_fields st1 ! the previous)],
                 mg_changed := True\<rparr>
         | None \<Rightarrow>
             st1\<lparr>mg_positions := (if isMessage \<or> isArm then AList.update number (length (mg_fields st1)) (mg_positions st1) else mg_positions st1),
                 mg_fields := mg_fields st1 @
                   [Some \<lparr>me_number = number, me_raw = raw, me_payloads = (if isMessage then Some [the payload] else None),
                          me_child = (case child of Some c \<Rightarrow> map_of SCAN_SPECS c | None \<Rightarrow> None)\<rparr>]\<rparr>)"

text \<open>The loop reads at least one byte a round, so the length of the data is fuel enough.\<close>

fun read_fields :: "proto_runtime \<Rightarrow> scan_spec \<Rightarrow> nat \<Rightarrow> bytes \<Rightarrow> nat \<Rightarrow> merge_state \<Rightarrow> merge_state option" where
  "read_fields rt spec fuel data pos st =
     (if length data \<le> pos then Some st
      else case fuel of
        0 \<Rightarrow> None
      | Suc n \<Rightarrow>
          (case read_field rt data pos of
             None \<Rightarrow> None
           | Some (number, wireType, payload, pos') \<Rightarrow>
               read_fields rt spec n data pos' (merge_field spec number wireType payload (subarray data pos (pos' - pos)) st)))"

fun merge_parts ::
  "(bytes \<Rightarrow> scan_spec \<Rightarrow> (bytes \<times> bool) option) \<Rightarrow> (nat \<Rightarrow> bytes \<Rightarrow> bytes) \<Rightarrow> merge_entry option list \<Rightarrow> (bytes list \<times> bool) option" where
  "merge_parts merge wr [] = Some ([], False)"
| "merge_parts merge wr (None # es) = merge_parts merge wr es"
| "merge_parts merge wr (Some e # es) =
     (case merge_parts merge wr es of
        None \<Rightarrow> None
      | Some (rest, changed) \<Rightarrow>
          (case me_payloads e of
             None \<Rightarrow> Some (me_raw e # rest, changed)
           | Some payloads \<Rightarrow>
               (let combined = concat payloads in
                case (case me_child e of Some s \<Rightarrow> merge combined s | None \<Rightarrow> Some (combined, False)) of
                  None \<Rightarrow> None
                | Some (merged, anew) \<Rightarrow>
                    (if length payloads > 1 \<or> anew
                     then Some (wr (me_number e * 8 + 2) merged # rest, True)
                     else Some (me_raw e # rest, changed)))))"

text \<open>
  The merged bytes, and whether they are new: an unchanged array is returned itself. A payload is shorter than the message it is in, so
  the length is fuel enough for the descent too.
\<close>

fun merge_fuel :: "proto_runtime \<Rightarrow> nat \<Rightarrow> bytes \<Rightarrow> scan_spec \<Rightarrow> (bytes \<times> bool) option" where
  "merge_fuel rt 0 data spec = None"
| "merge_fuel rt (Suc n) data spec =
     (case read_fields rt spec (length data) data 0 init_merge of
        None \<Rightarrow> None
      | Some st \<Rightarrow>
          (case merge_parts (merge_fuel rt n) (write_field rt) (mg_fields st) of
             None \<Rightarrow> None
           | Some (parts, changed) \<Rightarrow> Some (if mg_changed st \<or> changed then (concat parts, True) else (data, False))))"

definition mergeMessageFields :: "proto_runtime \<Rightarrow> bytes \<Rightarrow> scan_spec \<Rightarrow> bytes option" where
  "mergeMessageFields rt data spec = map_option fst (merge_fuel rt (Suc (length data)) data spec)"

definition envelope_spec :: scan_spec where
  "envelope_spec = \<lparr>singular = ENVELOPE_TAGS, descend = ENVELOPE_SCAN, google = [], arms = [], armWireTypes = []\<rparr>"


subsection \<open>Encoding\<close>

definition type_of_outcome :: "jsval \<Rightarrow> jsval" where
  "type_of_outcome outcome = oget (record_or_empty outcome) ''type''"

definition encode_run_finished :: "jsobj \<Rightarrow> jsobj" where
  "encode_run_finished rest =
     (let outcome = oget rest ''outcome''; t = type_of_outcome outcome;
          rest1 = oset ''interrupts'' (JArr []) (oset ''pendingToolCallIds'' (JArr []) rest)
      in if outcome = JUndef then oset ''outcome'' (JStr []) rest1
         else if t = JStr ''success'' then
           oset ''pendingToolCallIds'' (JArr (arr_items (jget outcome ''pendingToolCallIds''))) (oset ''outcome'' (JStr ''success'') rest1)
         else if t = JStr ''interrupt'' then
           oset ''interrupts'' (JArr (arr_items (jget outcome ''interrupts''))) (oset ''outcome'' (JStr ''interrupt'') rest1)
         else if t = JStr ''cancelled'' then oset ''outcome'' (JStr ''cancelled'') rest1
         else oset ''outcome'' (if is_str t then t else JStr []) rest1)"

definition encode_subagent_finished :: "jsobj \<Rightarrow> jsobj" where
  "encode_subagent_finished rest =
     (let outcome = oget rest ''outcome''; t = type_of_outcome outcome;
          rest1 = oset ''interruptIds'' (JArr []) rest
      in if outcome = JUndef then oset ''outcome'' (JStr []) rest1
         else if t = JStr ''success'' then oset ''outcome'' (JStr ''success'') rest1
         else if t = JStr ''suspended'' then
           oset ''interruptIds'' (JArr (arr_items (jget outcome ''interruptIds''))) (oset ''outcome'' (JStr ''suspended'') rest1)
         else oset ''outcome'' (if is_str t then t else JStr []) rest1)"

text \<open>An operation whose name is no string throws.\<close>

definition encode_operation :: "jsval \<Rightarrow> unit + jsval" where
  "encode_operation operation =
     (case jget operation ''op'' of
        JStr s \<Rightarrow> Inr (JObj (oset ''op'' (oget (enum_object JsonPatchOperationType) (toUpperCase s)) (own_props operation)))
      | _ \<Rightarrow> Inl ())"

definition encode_operations :: "string \<Rightarrow> jsobj \<Rightarrow> unit + jsobj" where
  "encode_operations k rest =
     (case oget rest k of
        JArr ops \<Rightarrow> andThen (collect encode_operation ops) (\<lambda>os. Inr (oset k (JArr os) rest))
      | _ \<Rightarrow> Inr rest)"

definition encode_usage :: "jsobj \<Rightarrow> jsobj" where
  "encode_usage rest = oset ''usage'' (JArr (arr_items (oget rest ''usage''))) rest"

definition encode_tool_result :: "jsobj \<Rightarrow> jsobj" where
  "encode_tool_result rest =
     (case oget rest ''content'' of
        JArr parts \<Rightarrow> oset ''content'' JUndef (oset ''contentParts'' (to_parts parts) rest)
      | _ \<Rightarrow> oset ''contentParts'' (JArr []) rest)"

definition encode_messages :: "jsobj \<Rightarrow> jsobj" where
  "encode_messages rest =
     (case oget rest ''messages'' of JArr ms \<Rightarrow> oset ''messages'' (JArr (map toWireMessage ms)) rest | _ \<Rightarrow> rest)"

definition encode_input :: "jsobj \<Rightarrow> jsobj" where
  "encode_input rest =
     (if oget rest ''input'' = JUndef then rest else oset ''input'' (toWireRunAgentInput (oget rest ''input'')) rest)"

text \<open>The members of an event but those of its base, as the wire schema has them.\<close>

definition encode_rest :: "jsval \<Rightarrow> jsobj \<Rightarrow> unit + jsobj" where
  "encode_rest type rest =
     (if type = JStr ''MESSAGES_SNAPSHOT'' then Inr (encode_messages rest)
      else if type = JStr ''RUN_FINISHED'' then Inr (encode_usage (encode_run_finished rest))
      else if type = JStr ''SUBAGENT_FINISHED'' then Inr (encode_subagent_finished rest)
      else if type = JStr ''STATE_DELTA'' then encode_operations ''delta'' rest
      else if type = JStr ''ACTIVITY_DELTA'' then encode_operations ''patch'' rest
      else if type = JStr ''RUN_ERROR'' then Inr (encode_usage rest)
      else if type = JStr ''TOOL_CALL_RESULT'' then Inr (encode_tool_result rest)
      else if type = JStr ''RUN_STARTED'' then Inr (encode_input rest)
      else Inr rest)"

definition base_keys :: "string list" where
  "base_keys = [''type'', ''timestamp'', ''rawEvent'', ''metadata'']"

definition rest_of :: "jsobj \<Rightarrow> jsobj" where
  "rest_of ev = filter (\<lambda>kv. fst kv \<notin> set base_keys) ev"

definition base_event :: "string \<Rightarrow> jsobj \<Rightarrow> jsval" where
  "base_event type ev =
     JObj [(''type'', oget (enum_object WireEventType) type), (''timestamp'', oget ev ''timestamp''), (''rawEvent'', oget ev ''rawEvent''),
           (''metadata'', normalizeMetadata (oget ev ''metadata''))]"

text \<open>What the schema makes of an event it knows; one it rejects is encoded as given.\<close>

definition validated_event :: "proto_runtime \<Rightarrow> jsval \<Rightarrow> jsval" where
  "validated_event rt event =
     (if jget event ''type'' \<in> JStr ` set event_type_names
      then (case parse_event rt event of Some v \<Rightarrow> v | None \<Rightarrow> event) else event)"

definition omitted_event :: "jsval \<Rightarrow> jsval" where
  "omitted_event event = (case omitOptionalNulls event ''Event'' of Some v \<Rightarrow> v | None \<Rightarrow> event)"

definition event_message :: "jsobj \<Rightarrow> unit + jsval" where
  "event_message ev =
     andThen (encode_rest (oget ev ''type'') (rest_of ev)) (\<lambda>rest.
       Inr (JObj [(toCamelCase (js_string (oget ev ''type'')),
         JObj (spread [(''baseEvent'', base_event (js_string (oget ev ''type'')) ev)] rest))]))"

text \<open>An event is an object with a string for a type, which validation keeps.\<close>

definition encode_event :: "proto_runtime \<Rightarrow> jsval \<Rightarrow> unit + bytes" where
  "encode_event rt event =
     andThen (event_message (own_props (validated_event rt (omitted_event event)))) (\<lambda>message. Inr (encode_message rt message))"

subsection \<open>Decoding\<close>

definition decode_run_finished :: "jsobj \<Rightarrow> jsobj" where
  "decode_run_finished m =
     (let wireOutcome = oget m ''outcome''; pending = oget m ''pendingToolCallIds''; interrupts = oget m ''interrupts'';
          record = odel ''outcome'' (odel ''interrupts'' (odel ''pendingToolCallIds'' m));
          withPending = (if arr_items pending \<noteq> [] then [(''pendingToolCallIds'', pending)] else []);
          withInterrupts = (if arr_items interrupts \<noteq> [] then [(''interrupts'', interrupts)] else [])
      in case wireOutcome of
           JStr t \<Rightarrow>
             (if t = [] then spread record (withPending @ withInterrupts)
              else if t = ''interrupt''
              then oset ''outcome'' (JObj ([(''type'', JStr t), (''interrupts'', JArr (arr_items interrupts))] @ withPending)) record
              else oset ''outcome'' (JObj ((''type'', JStr t) # withPending @ withInterrupts)) record)
         | _ \<Rightarrow> spread record (withPending @ withInterrupts))"

definition decode_subagent_finished :: "jsobj \<Rightarrow> jsobj" where
  "decode_subagent_finished m =
     (let wireOutcome = oget m ''outcome''; ids = oget m ''interruptIds'';
          record = odel ''outcome'' (odel ''interruptIds'' m);
          withIds = (if arr_items ids \<noteq> [] then [(''interruptIds'', ids)] else [])
      in case wireOutcome of
           JStr t \<Rightarrow> (if t = [] then spread record withIds else oset ''outcome'' (JObj ((''type'', JStr t) # withIds)) record)
         | _ \<Rightarrow> spread record withIds)"

definition decode_operation :: "jsval \<Rightarrow> jsval" where
  "decode_operation operation =
     (let opName = oget (enum_object JsonPatchOperationType) (js_string (jget operation ''op''));
          name = (case opName of
              JStr s \<Rightarrow> (if s = ''UNRECOGNIZED'' then js_string (jget operation ''op'') else toLowerCase s)
            | _ \<Rightarrow> js_string (jget operation ''op''))
      in JObj (drop_undefined (oset ''op'' (JStr name) (own_props operation))))"

definition decode_operations :: "string \<Rightarrow> jsobj \<Rightarrow> jsobj" where
  "decode_operations k m = (case oget m k of JArr ops \<Rightarrow> oset k (JArr (map decode_operation ops)) m | _ \<Rightarrow> m)"

definition decode_usage :: "jsobj \<Rightarrow> jsobj" where
  "decode_usage m = (if oget m ''usage'' = JArr [] then odel ''usage'' m else m)"

definition decode_tool_result :: "jsobj \<Rightarrow> string + jsobj" where
  "decode_tool_result m =
     (if oget m ''content'' \<noteq> JUndef \<and> arr_items (oget m ''contentParts'') \<noteq> []
      then Inl ''Invalid event: content carries both string content and content parts''
      else andThen (if oget m ''content'' = JUndef
                    then andThen (from_parts (arr_items (oget m ''contentParts''))) (\<lambda>parts. Inr (oset ''content'' parts m))
                    else Inr m) (\<lambda>m1. Inr (odel ''contentParts'' m1)))"

definition decode_messages :: "jsobj \<Rightarrow> string + jsobj" where
  "decode_messages m =
     (case oget m ''messages'' of
        JArr ms \<Rightarrow> andThen (collect fromWireMessage ms) (\<lambda>out. Inr (oset ''messages'' (JArr (filter (\<lambda>v. v \<noteq> JUndef) out)) m))
      | _ \<Rightarrow> Inr m)"

definition decode_input :: "jsobj \<Rightarrow> string + jsobj" where
  "decode_input m =
     (if oget m ''input'' = JUndef then Inr m
      else andThen (fromWireRunAgentInput (oget m ''input'')) (\<lambda>input. Inr (oset ''input'' input m)))"

definition decode_rest :: "string \<Rightarrow> jsobj \<Rightarrow> string + jsobj" where
  "decode_rest type m =
     (if type = ''MESSAGES_SNAPSHOT'' then decode_messages m
      else if type = ''RUN_FINISHED'' then Inr (decode_usage (decode_run_finished m))
      else if type = ''SUBAGENT_FINISHED'' then Inr (decode_subagent_finished m)
      else if type = ''STATE_DELTA'' then Inr (decode_operations ''delta'' m)
      else if type = ''ACTIVITY_DELTA'' then Inr (decode_operations ''patch'' m)
      else if type = ''RUN_ERROR'' then Inr (decode_usage m)
      else if type = ''TOOL_CALL_RESULT'' then decode_tool_result m
      else if type = ''RUN_STARTED'' then decode_input m
      else Inr m)"

text \<open>The members of the base put beside the others.\<close>

definition with_base :: "string \<Rightarrow> jsobj \<Rightarrow> jsobj \<Rightarrow> jsobj" where
  "with_base type base m =
     (let m1 = oset ''rawEvent'' (oget base ''rawEvent'') (oset ''timestamp'' (oget base ''timestamp'') (oset ''type'' (JStr type) m))
      in odel ''baseEvent'' (if oget base ''metadata'' = JUndef then m1 else oset ''metadata'' (oget base ''metadata'') m1))"

definition decode_entry :: "string \<Rightarrow> jsval \<Rightarrow> string + jsval" where
  "decode_entry arm value =
     (case map_of ENVELOPE_TYPE arm of
        None \<Rightarrow> Inl ''Invalid event''
      | Some entryType \<Rightarrow>
          (case asRecord (jget value ''baseEvent'') of
             None \<Rightarrow> Inl ''Invalid event''
           | Some base \<Rightarrow>
               (let declaredType = oget (enum_object WireEventType) (js_string (oget base ''type'')) in
                if declaredType \<noteq> JStr entryType
                then Inl (''Invalid event: envelope carries '' @ entryType @ '' but the base event declares '' @ js_string declaredType)
                else andThen (decode_rest entryType (with_base entryType base (own_props value))) (\<lambda>m.
                       Inr (dropUndefinedDeep (JObj m))))))"

definition decode_event :: "proto_runtime \<Rightarrow> bytes \<Rightarrow> jsval decoded" where
  "decode_event rt data =
     (if \<not> assertWellFormedEnvelope data then DecodeError ''Invalid event''
      else case mergeMessageFields rt data envelope_spec of
        None \<Rightarrow> DecodeError []
      | Some merged \<Rightarrow>
          (case decode_message rt merged of
             None \<Rightarrow> DecodeError []
           | Some envelope \<Rightarrow>
               (case filter (\<lambda>kv. snd kv \<noteq> JUndef) envelope of
                  [(arm, value)] \<Rightarrow> (case decode_entry arm value of Inl e \<Rightarrow> DecodeError e | Inr event \<Rightarrow> Decoded event)
                | [] \<Rightarrow> (if namesOnlyFutureArms data then UnknownEventType else DecodeError ''Invalid event'')
                | _ \<Rightarrow> DecodeError ''Invalid event'')))"

end
