(* ===== verification/Spec2Isabelle.thy ===== *)
theory Spec2Isabelle
  imports Pipeline SubscribersProps MetadataProps CompactSpec FramingProps EnforceSpec ThrottleSpec BoundarySpec MiddlewareSpec AgentSpec TransportSpec LegacySpec ProtoWireProps ProtoCodec
begin

text \<open>
  \<^bold>\<open>The AG-UI TypeScript client\<close>

  AG-UI is an event protocol between agents and user interfaces. An agent run is a stream of events (a run starts, messages, tool
  calls, reasoning and subagents stream in pieces, the run finishes); the client checks that stream and folds it into a message list
  and a state. This development models that path, the package \<^verbatim>\<open>sdks/typescript/packages/client\<close>, and proves what each stage
  promises and that the stages fit together.

  \<^bold>\<open>How a run flows\<close>

  \<^verbatim>\<open>AbstractAgent.runAgent\<close> (\<^verbatim>\<open>agent/agent.ts\<close>) pipes the events of the agent through middlewares, \<^verbatim>\<open>enforceEvents\<close>,
  \<^verbatim>\<open>transformChunks\<close>, \<^verbatim>\<open>verifyEvents\<close> and \<^verbatim>\<open>defaultApplyEvents\<close>, and takes the resulting updates as the agent's own messages and state.
  An RxJS operator over closure variables is a step function on a record of those variables; \<open>run_stage\<close> (theory \<open>Prelude\<close>) runs one
  over a list of events, keeps what was emitted before an error, and is total: no stage has a loop that could run forever, so no
  stage needs fuel. Errors are constructors of an error type per stage, with the values the messages mention.

  \<^bold>\<open>Theories\<close>

  \<^item> \<open>Prelude\<close>: JavaScript sets as lists without repetition, stages, and the contract \<open>stage_contract\<close> every stage is proved
    against (a step keeps the invariant and emits only what was promised).
  \<^item> \<open>JsValue\<close>, \<open>Events\<close>: JavaScript values and objects (insertion ordered, \<^verbatim>\<open>undefined\<close> apart from absent), object spread, truthiness,
    string conversion; the event types (\<^verbatim>\<open>enum EventType\<close>) and events as loose objects.
  \<^item> \<open>Bracket\<close>: the abstract specification of a streamed entity, an automaton on opening, continuing and closing symbols,
    and the interface \<open>bracketed\<close> that a verifying stage offers for one kind of entity.
  \<^item> \<open>Verify\<close>, \<open>VerifyProps\<close>, \<open>VerifySpec\<close>: \<^verbatim>\<open>verify/verify.ts\<close>. The record \<open>vstate\<close> holds the closure variables, one handler per case of the switch, \<open>verify_step\<close> the
    whole callback with its guards in source order. Proved: every accepted stream is well bracketed for every kind of
    entity, the lifecycle of runs and its errors, attribution to subagents, pass-through, idempotence, and an exact
    characterisation of acceptance for streams of the parent agent.
  \<^item> \<open>Chunks\<close>, \<open>ChunksProps\<close>: \<^verbatim>\<open>chunks/transform.ts\<close>. The open streams are lanes keyed by attribution; a chunk continues or reopens its
    lane. Proved: no chunk survives, identity on other streams, nothing is dropped but described fields, lanes are independent, metadata is
    carried once, errors.
  \<^item> \<open>ToolResults\<close>, \<open>ToolResultsProps\<close>: \<^verbatim>\<open>keepToolResultsWithCalls\<close> of \<^verbatim>\<open>apply/default.ts\<close>, the history repair, as its passes over
    positions. Proved: it permutes, moves only tool results, each behind a message that issued its call, and succeeds where
    the pairing is unambiguous.
  \<^item> \<open>Apply\<close>, \<open>ApplyProps\<close>, \<open>ApplyTags\<close>, \<open>ApplySpec\<close>: the reducer, \<^verbatim>\<open>defaultApplyEvents\<close>. The record \<open>rstate\<close> holds messages, state, the pending update and the tool call
    tallies; one handler per case. Proved: the updates reproduce the messages, streams do not mix, replayed starts are
    idempotent, results are placed behind their calls, snapshots are authoritative, null attribution is never stored, pending calls are counted right.
  \<^item> \<open>Subscribers\<close>, \<open>SubscribersProps\<close>: \<^verbatim>\<open>runSubscribersWithMutation\<close> of \<^verbatim>\<open>agent/subscriber.ts\<close> and notification fan-out.
  \<^item> \<open>Metadata\<close>, \<open>MetadataProps\<close>: \<^verbatim>\<open>mergeMetadata\<close> of \<^verbatim>\<open>core/src/metadata.ts\<close> against the interface \<open>keyed_merge\<close>, and \<^verbatim>\<open>activity-history.ts\<close>.
  \<^item> \<open>Agent\<close>, \<open>Pipeline\<close>: the composition of the stages in \<^verbatim>\<open>agent.ts\<close>: what the chained agent emits is enforced, expanded, verified, reduced, and
    shown in the agent's own view, and a run may be detached. Two properties that span these components are in this theory.
  \<^item> \<open>AgentRun\<close>, \<open>AgentProps\<close>, \<open>AgentSpec\<close>: a run from the caller's side. The record \<open>agent_fields\<close> holds the fields of \<^verbatim>\<open>AbstractAgent\<close>, one function models
    each method. Proved: what reaches the reducer is verified whatever the producer does, a producer only sees clean input whatever subscribers do,
    a run is refused exactly over unanswered interrupts, what \<^verbatim>\<open>buildResumeArray\<close> builds is accepted, what a watched run returns and leaves, and that an
    interrupted thread waits.
  \<^item> \<open>Compact\<close>, \<open>CompactProps\<close>, \<open>CompactSpec\<close>: \<^verbatim>\<open>compact/compact.ts\<close>, the loop over a record of the pending streams. Proved: the reducer computes the same
    state from compacted events, no content is lost; and, as a finding, that compacting an accepted stream can give one
    the verifier rejects.
  \<^item> \<open>Framing\<close>, \<open>FramingProps\<close>: \<^verbatim>\<open>encodeSSE\<close> and \<^verbatim>\<open>encodeProtobuf\<close> of the package \<^verbatim>\<open>encoder\<close> and the stream readers of \<^verbatim>\<open>client/src/transform\<close>. Both
    transports are round trips under any chunking.
  \<^item> \<open>ProtoWire\<close>, \<open>WireGrammar\<close>, \<open>ProtoWireProps\<close>: the guards of the binary decoder of the package \<^verbatim>\<open>proto\<close>, \<^verbatim>\<open>proto/src/proto.ts\<close>, on bytes: the loop
    over an envelope, the scan of its payload and the two walkers, each with the measure of the bytes left. Proved, over a grammar of the wire format and one
    contract for the loops: exactly which messages each of them accepts.
  \<^item> \<open>ProtoCodec\<close>: the rest of \<^verbatim>\<open>proto.ts\<close>, the conversion between events and the records of the wire schema, and the merging of repeated fields. The loop
    over the fields takes fuel, one step for each byte, as a field has at least one; the descent takes one step for each byte as well, as a payload is shorter
    than the message around it.
  \<^item> \<open>MediaType\<close>, \<open>MediaTypeProps\<close>: \<^verbatim>\<open>encoder/src/media-type.ts\<close>, the parser of \<^verbatim>\<open>Accept\<close> headers and the ranking of types. Proved: what is
    preferred, in which order, over one contract for comparators.
  \<^item> \<open>Transport\<close>, \<open>TransportSpec\<close>: the encoder's content type, the HTTP request and response, and \<^verbatim>\<open>transformHttpEventStream\<close>. Proved: who is sent protobuf,
    the round trip from any encoder through the reader its content type selects, and how a stream ends for every response.
  \<^item> \<open>Schemas\<close>, \<open>Enforce\<close>, \<open>EnforceProps\<close>, \<open>EnforceSpec\<close>: the generated validators as values, and \<^verbatim>\<open>client/src/enforce\<close>, the stripper with its
    entry budget and the two boundaries that use it. Proved: what is left is exactly what the schema describes, the budget only refuses, the
    internal errors are unreachable with the generated validators, and nothing unrecognised gets through.
  \<^item> \<open>Serialize\<close>, \<open>SerializeProps\<close>: \<^verbatim>\<open>omitOptionalNulls\<close> with its generated table, \<^verbatim>\<open>core/src/generated/serialization.ts\<close>. Its recursion through the table
    takes fuel, four steps for each node of the value and four for the root, which is shown to be enough. Proved: it omits exactly the
    optional nulls, and its table agrees with the validators.
  \<^item> \<open>Throttle\<close>, \<open>ThrottleProps\<close>, \<open>ThrottleSpec\<close>: the middleware \<^verbatim>\<open>event-throttle-middleware\<close>. The record \<open>tstate\<close> holds the variables of a
    subscription; \<open>loop_step\<close> is the timed event loop around its callbacks, an inductive relation whose timers fire at most \<open>lag\<close> late. Proved:
    nothing is lost or reordered, nothing waits longer than the interval, and deliveries keep their distance.
  \<^item> \<open>LegacyContent\<close>, \<open>Boundary\<close>, \<open>BoundaryProps\<close>, \<open>BoundarySpec\<close>: \<^verbatim>\<open>client/src/middleware\<close>, the compatibility boundary and the content conversion it uses.
    The record \<open>boundary_fields\<close> holds its fields, one handler per case of \<^verbatim>\<open>transformEvent\<close>; notices are values. Proved: nothing convertible is lost or left, the
    boundary is idempotent, it announces a null once per run, and what retired reasoning events become, the verifier accepts.
  \<^item> \<open>Middleware\<close>, \<open>MiddlewareSpec\<close>: agents and middlewares as functions, the shims for peers up to 0.0.39, 0.0.45 and 0.0.57, the filter for tool calls, and the
    chain \<^verbatim>\<open>agent.ts\<close> builds of them. Proved: the filter hides calls whole and keeps streams valid (and, as a finding, not when an id is reused),
    and the two later shims are idle where they have nothing to do.
  \<^item> \<open>Legacy\<close>, \<open>LegacySpec\<close>: \<^verbatim>\<open>client/src/legacy\<close>, the bridge to the legacy protocol. The record \<open>legacy_state\<close> holds its closure variables, one handler models
    each case. Proved: bridged runs are well bracketed, the bridge shows the reducer's state and fails on a malformed prediction only, and results
    read the same live and replayed (and, as findings, where they do not, and that arguments are lost over a step).
  \<^item> \<open>Interrupts\<close>: \<^verbatim>\<open>client/src/interrupts\<close>, the expiry of an interrupt and the array that answers the open ones.

  \<^bold>\<open>Parameters and abstractions\<close>

  Subscribers are user code: functions of the hook, the messages, the state and an opaque world that their calls thread. JSON Patch (the
  package \<^verbatim>\<open>fast-json-patch\<close>) is a partial function of document and patch; one property assumes of it that it keeps objects without
  messages so. The transport properties assume the round trip of single events for the codecs they take as parameters. The code \<^verbatim>\<open>ts-proto\<close>
  generated for the messages, and the reader and writer of \<^verbatim>\<open>@bufbuild/protobuf\<close> it uses, are the fields of \<open>proto_runtime\<close>. Objects are values: the source's
  mutation through a shared reference is an update at the position the reference came from, and a reference into an array that a
  subscriber has replaced writes nowhere. Numbers are integers. Partial JSON parsing for the arguments shown to a hook, debug logging, console warnings and the development-time freezing of
  subscriber arguments are left out, as they do not feed back into the stream.

  \<^bold>\<open>Not modelled\<close>

  In \<^verbatim>\<open>agent.ts\<close>, the lookup of overridden version getters, and runs that overlap. Left out for good are generated code
  (but for the schemas, the serialization table and the enumerations), the command line tool, integrations with agent frameworks, the demo application and the SDKs in other languages.
\<close>



text \<open>
  The reducer's last resort is never reached: over the whole run, with any subscribers and any producer, no chunk event
  arrives at the reducer, which would refuse it.
\<close>

theorem run_refuses_no_chunk: "snd (applyBeforeSourceError env rs (source_events es)) \<noteq> Inl (ApplyFailure (MustBeTransformed t))"
proof -
  obtain vs err where src: "source_events es = (vs, err)" by (cases "source_events es")
  have "admits (snd (run_stage (apply_step env) rs vs))" using source_no_chunk [of es] src by (intro run_admits) simp
  then have "admits (snd (defaultApplyEvents env rs vs))"
    by (auto simp: defaultApplyEvents_def admits_def Let_def split: prod.split sum.split)
  with source_error [of es "MustBeTransformed t"] show ?thesis
    by (auto simp: applyBeforeSourceError_def src Let_def admits_def split: prod.split sum.split option.split)
qed

text \<open>
  A failing source loses nothing that came before it: unless the reducer itself fails, every event that passed expansion and
  verification has been applied when the run ends, and the agent's messages are then the reducer's, whether
  the run completes or reports the source's error.
\<close>

theorem run_applies_before_error:
  assumes "applyBeforeSourceError env (init_rstate ms st interrupts w) (source_events es) = (us, r)" "\<nexists>e. r = Inl (ApplyFailure e)"
    "agent_messages a = ms"
  shows "\<exists>rs'. defaultApplyEvents env (init_rstate ms st interrupts w) (fst (source_events es)) = (us, Inr rs') \<and>
    r = (case snd (source_events es) of Some e \<Rightarrow> Inl e | None \<Rightarrow> Inr rs') \<and>
    agent_messages (processApplyEvents a us) = messages rs'"
proof -
  obtain vs err where src: "source_events es = (vs, err)" by (cases "source_events es")
  obtain rs' where d: "defaultApplyEvents env (init_rstate ms st interrupts w) vs = (us, Inr rs')"
    "r = (case err of Some e \<Rightarrow> Inl e | None \<Rightarrow> Inr rs')"
    using assms(1,2) by (auto simp: applyBeforeSourceError_def src Let_def split: prod.splits sum.splits)
  from d(1) obtain os where "run_stage (apply_step env) (init_rstate ms st interrupts w) vs = (os, Inr rs')"
    "us = os \<or> us = [(None, None)] \<and> os = []" by (rule defaultApplyEvents_Inr)
  with run_observed [of env "init_rstate ms st interrupts w" vs os rs'] have "messages rs' = observe ms us"
    by (auto simp: init_rstate_def observe_def)
  with d src assms(3) show ?thesis by (simp add: view_observe)
qed

theorem run_applies_before_error_witness:
  "\<exists>us e. applyBeforeSourceError bare_env (init_rstate [] JUndef [] ())
       (source_events [mk_event RUN_STARTED [], mk_event TEXT_MESSAGE_CHUNK [(''messageId'', JStr ''m''), (''delta'', JStr ''hi'')],
        mk_event TEXT_MESSAGE_END [(''messageId'', JStr ''other'')]]) = (us, Inl (VerifyFailure e)) \<and>
     agent_messages (processApplyEvents \<lparr>agent_messages = [], agent_state = JUndef\<rparr> us) =
       [JObj [(''id'', JStr ''m''), (''role'', JStr ''assistant''), (''content'', JStr ''hi'')]]"
proof -
  let ?es = "[mk_event RUN_STARTED [], mk_event TEXT_MESSAGE_CHUNK [(''messageId'', JStr ''m''), (''delta'', JStr ''hi'')],
        mk_event TEXT_MESSAGE_END [(''messageId'', JStr ''other'')]]"
  let ?run = "applyBeforeSourceError bare_env (init_rstate [] JUndef [] ()) (source_events ?es)"
  have "case snd ?run of Inl (VerifyFailure _) \<Rightarrow> True | _ \<Rightarrow> False" by code_simp
  then obtain e where e: "snd ?run = Inl (VerifyFailure e)" by (auto split: sum.splits run_error.splits)
  then have run: "?run = (fst ?run, Inl (VerifyFailure e))" by (metis prod.collapse)
  from run_applies_before_error [OF run, of "\<lparr>agent_messages = [], agent_state = JUndef\<rparr>"]
  obtain rs' where rs': "defaultApplyEvents bare_env (init_rstate [] JUndef [] ()) (fst (source_events ?es)) = (fst ?run, Inr rs')"
    "agent_messages (processApplyEvents \<lparr>agent_messages = [], agent_state = JUndef\<rparr> (fst ?run)) = messages rs'" by auto
  have "case snd (defaultApplyEvents bare_env (init_rstate [] JUndef [] ()) (fst (source_events ?es))) of Inl _ \<Rightarrow> False
    | Inr r \<Rightarrow> messages r = [JObj [(''id'', JStr ''m''), (''role'', JStr ''assistant''), (''content'', JStr ''hi'')]]"
    by code_simp
  then have "messages rs' = [JObj [(''id'', JStr ''m''), (''role'', JStr ''assistant''), (''content'', JStr ''hi'')]]"
    unfolding rs'(1) by simp
  with rs'(2) run show ?thesis by metis
qed

end
